(* ===== verification/Xeros_Prelude.thy ===== *)
theory Xeros_Prelude
  imports Main "HOL-Library.Word" "HOL-Library.Monad_Syntax"
begin

text \<open>
  Shared vocabulary of the development: the machine types of the i386 build
  (\<^verbatim>\<open>int\<close>, \<^verbatim>\<open>long\<close>, \<^verbatim>\<open>unsigned\<close> and pointers are all 32 bits wide), the byte-addressed
  memory with little-endian word access, C truth values and bit macros, and the lemma
  collections that the component theories use.

  A kernel operation that may never return is an \<open>option\<close>: \<open>None\<close> is the
  \<^verbatim>\<open>while(1);\<close> of a failed \<^verbatim>\<open>ASSERT\<close> or a loop that does not end.
\<close>

unbundle bit_operations_syntax

section \<open>Machine types\<close>

type_synonym u8 = "8 word"
type_synonym u32 = "32 word"
type_synonym i32 = "32 word"
type_synonym addr = "32 word"
type_synonym memory = "addr \<Rightarrow> u8"

named_theorems hdr_simps \<open>field reads after field writes of memory headers\<close>
named_theorems mem_frame \<open>bytes a memory operation leaves alone\<close>
named_theorems pcb_frame \<open>PCB fields an operation leaves alone\<close>

definition ASSERT :: "bool \<Rightarrow> unit option" where
  "ASSERT x = (if x then Some () else None)"

lemma ASSERT_simps [simp]: "ASSERT True = Some ()" "ASSERT False = None"
  by (simp_all add: ASSERT_def)

lemma ASSERT_eq_Some [simp]: "ASSERT P = Some u \<longleftrightarrow> P"
  by (simp add: ASSERT_def)

section \<open>The bit macros of xeroskernel.h\<close>

definition SET_BIT :: "u32 \<Rightarrow> nat \<Rightarrow> u32" where
  "SET_BIT flag bitNum = flag OR push_bit bitNum 1"

definition CLEAR_BIT :: "u32 \<Rightarrow> nat \<Rightarrow> u32" where
  "CLEAR_BIT flag bitNum = flag AND NOT (push_bit bitNum 1)"

definition TOGGLE_BIT :: "u32 \<Rightarrow> nat \<Rightarrow> u32" where
  "TOGGLE_BIT flag bitNum = flag XOR push_bit bitNum 1"

definition CHECK_BIT :: "u32 \<Rightarrow> nat \<Rightarrow> u32" where
  "CHECK_BIT flag bitNum = 1 AND drop_bit bitNum flag"

lemma bit_SET_BIT: "bit (SET_BIT f n) k \<longleftrightarrow> bit f k \<or> (k = n \<and> n < 32)"
  by (auto simp: SET_BIT_def bit_simps)

lemma bit_CLEAR_BIT: "bit (CLEAR_BIT f n) k \<longleftrightarrow> bit f k \<and> k \<noteq> n"
  by (auto simp: CLEAR_BIT_def bit_simps dest: bit_imp_le_length)

lemma bit_TOGGLE_BIT: "bit (TOGGLE_BIT f n) k \<longleftrightarrow> (bit f k \<noteq> (k = n \<and> n < 32))"
  by (auto simp: TOGGLE_BIT_def bit_simps)

lemma CHECK_BIT_eq: "CHECK_BIT f n = of_bool (bit f n)"
  by (rule bit_word_eqI) (auto simp: CHECK_BIT_def bit_simps)

lemma CHECK_BIT_eq_0 [simp]: "CHECK_BIT f n = 0 \<longleftrightarrow> \<not> bit f n"
  by (simp add: CHECK_BIT_eq)

section \<open>Byte-addressed memory\<close>

definition load32 :: "memory \<Rightarrow> addr \<Rightarrow> u32" where
  "load32 m a =
     ucast (m a) OR push_bit 8 (ucast (m (a + 1))) OR
     push_bit 16 (ucast (m (a + 2))) OR push_bit 24 (ucast (m (a + 3)))"

definition store32 :: "memory \<Rightarrow> addr \<Rightarrow> u32 \<Rightarrow> memory" where
  "store32 m a v = m(a := ucast v, a + 1 := ucast (drop_bit 8 v),
     a + 2 := ucast (drop_bit 16 v), a + 3 := ucast (drop_bit 24 v))"

lemma bytes_of_word:
  fixes v :: u32
  shows "ucast (ucast v :: u8) OR push_bit 8 (ucast (ucast (drop_bit 8 v) :: u8)) OR
    push_bit 16 (ucast (ucast (drop_bit 16 v) :: u8)) OR
    push_bit 24 (ucast (ucast (drop_bit 24 v) :: u8)) = v"
proof (rule bit_word_eqI)
  fix n assume n: "n < LENGTH(32)"
  then consider "n < 8" | "8 \<le> n" "n < 16" | "16 \<le> n" "n < 24" | "24 \<le> n" "n < 32" by fastforce
  then show "bit (ucast (ucast v :: u8) OR push_bit 8 (ucast (ucast (drop_bit 8 v) :: u8)) OR
    push_bit 16 (ucast (ucast (drop_bit 16 v) :: u8)) OR
    push_bit 24 (ucast (ucast (drop_bit 24 v) :: u8)) :: u32) n = bit v n"
    by cases (simp_all add: bit_simps less_diff_conv2)
qed

lemma load32_store32_same [simp]: "load32 (store32 m a v) a = v"
  by (simp add: load32_def store32_def bytes_of_word)

lemma load32_cong:
  "m a = m' a \<Longrightarrow> m (a + 1) = m' (a + 1) \<Longrightarrow> m (a + 2) = m' (a + 2) \<Longrightarrow>
   m (a + 3) = m' (a + 3) \<Longrightarrow> load32 m a = load32 m' a"
  by (simp add: load32_def)

text \<open>Distinct word-aligned addresses address disjoint words.\<close>

lemma aligned4_offset_ne:
  fixes a b :: addr
  assumes "4 dvd unat a" "4 dvd unat b" "a \<noteq> b" "i < 4" "j < 4"
  shows "a + of_nat i \<noteq> b + of_nat j"
proof
  assume eq: "a + of_nat i = b + of_nat j"
  have off: "unat (x + of_nat k) = unat x + k" if "4 dvd unat x" "k < 4" for x :: addr and k
  proof -
    have "unat x < 2 ^ 32" using unsigned_less [of x] by simp
    with that obtain q where "unat x = 4 * q" "q < 2 ^ 30" by (auto elim!: dvdE)
    with that show ?thesis by (simp add: unat_word_ariths unat_of_nat)
  qed
  from eq have "unat a + i = unat b + j" using off assms by metis
  with assms(1,2,4,5) have "unat a = unat b" by presburger
  with assms(3) show False by (simp add: word_unat_eq_iff)
qed

lemma aligned4_offsets_ne:
  fixes a b :: addr
  assumes "4 dvd unat a" "4 dvd unat b" "a \<noteq> b"
  shows "a + 1 \<noteq> b" "a + 2 \<noteq> b" "a + 3 \<noteq> b" "a \<noteq> b + 1" "a \<noteq> b + 2" "a \<noteq> b + 3"
    "a + 1 \<noteq> b + 2" "a + 1 \<noteq> b + 3" "a + 2 \<noteq> b + 1" "a + 2 \<noteq> b + 3" "a + 3 \<noteq> b + 1" "a + 3 \<noteq> b + 2"
  using aligned4_offset_ne [OF assms, of 0 0] aligned4_offset_ne [OF assms, of 0 1]
    aligned4_offset_ne [OF assms, of 0 2] aligned4_offset_ne [OF assms, of 0 3]
    aligned4_offset_ne [OF assms, of 1 0] aligned4_offset_ne [OF assms, of 2 0]
    aligned4_offset_ne [OF assms, of 3 0] aligned4_offset_ne [OF assms, of 1 2]
    aligned4_offset_ne [OF assms, of 1 3] aligned4_offset_ne [OF assms, of 2 1]
    aligned4_offset_ne [OF assms, of 2 3] aligned4_offset_ne [OF assms, of 3 1]
    aligned4_offset_ne [OF assms, of 3 2]
  by (simp_all del: add_left_cancel add_right_cancel)

lemma load32_store32_aligned:
  assumes "4 dvd unat a" "4 dvd unat b"
  shows "load32 (store32 m a v) b = (if a = b then v else load32 m b)"
proof (cases "a = b")
  case False
  note ne = aligned4_offsets_ne [OF assms False]
  show ?thesis using False ne ne [symmetric]
    by (simp add: load32_def store32_def)
qed simp

lemma store32_other:
  assumes "x \<noteq> a" "x \<noteq> a + 1" "x \<noteq> a + 2" "x \<noteq> a + 3"
  shows "store32 m a v x = m x"
  using assms by (simp add: store32_def)

lemma store32_outside:
  assumes "unat x < unat a \<or> unat a + 4 \<le> unat x" "unat a + 4 \<le> 2 ^ 32"
  shows "store32 m a v x = m x"
proof -
  have "unat (a + of_nat k) = unat a + k" if "k < 4" for k
    using that assms(2) by (simp add: unat_word_ariths unat_of_nat)
  from this [of 1] this [of 2] this [of 3]
  have "unat (a + 1) = unat a + 1" "unat (a + 2) = unat a + 2" "unat (a + 3) = unat a + 3" by auto
  with assms(1) have "x \<noteq> a" "x \<noteq> a + 1" "x \<noteq> a + 2" "x \<noteq> a + 3" by auto
  then show ?thesis by (rule store32_other)
qed

text \<open>Words of memory that do not overlap, also across the end of the address space.\<close>

definition far :: "addr \<Rightarrow> nat \<Rightarrow> addr \<Rightarrow> nat \<Rightarrow> bool" where
  "far a m b n \<longleftrightarrow> m \<le> unat (b - a) \<and> n \<le> unat (a - b)"

lemma far_ne:
  assumes "far a m b n" "i < m" "j < n" "m \<le> 2 ^ 31" "n \<le> 2 ^ 31"
  shows "a + of_nat i \<noteq> b + of_nat j"
proof
  assume eq: "a + of_nat i = b + of_nat j"
  show False
  proof (cases "j \<le> i")
    case True
    have "b - a = (b + of_nat j) - a - of_nat j" by simp
    also have "\<dots> = of_nat i - of_nat j" unfolding eq [symmetric] by simp
    also have "\<dots> = of_nat (i - j)" using True by (simp only: of_nat_diff)
    finally have "b - a = of_nat (i - j)" .
    moreover have "unat (of_nat (i - j) :: addr) = i - j" using assms(2,4) by (simp add: unat_of_nat)
    ultimately have "m \<le> i - j" using assms(1) by (simp add: far_def)
    then show False using assms(2) by linarith
  next
    case False
    have "a - b = (a + of_nat i) - b - of_nat i" by simp
    also have "\<dots> = of_nat j - of_nat i" unfolding eq by simp
    also have "\<dots> = of_nat (j - i)" using False by (simp only: of_nat_diff nat_le_linear linorder_not_le less_imp_le)
    finally have "a - b = of_nat (j - i)" .
    moreover have "unat (of_nat (j - i) :: addr) = j - i" using assms(3,5) by (simp add: unat_of_nat)
    ultimately have "n \<le> j - i" using assms(1) by (simp add: far_def)
    then show False using assms(3) by linarith
  qed
qed

lemma load32_store32_far:
  assumes "far a 4 b 4"
  shows "load32 (store32 m a v) b = load32 m b"
proof -
  have "b + of_nat j \<noteq> a + of_nat i" if "i < 4" "j < 4" for i j
    using far_ne [OF assms that] by (simp add: eq_commute)
  note ne = this [of 0] this [of 1] this [of 2] this [of 3]
  note ne' = ne [of 0] ne [of 1] ne [of 2] ne [of 3]
  show ?thesis using ne' by (intro load32_cong store32_other) simp_all
qed

lemma store32_far:
  assumes "4 \<le> unat (x - a)"
  shows "store32 m a v x = m x"
proof -
  have "x - a \<noteq> of_nat k" if "k < 4" for k
    using assms that by (auto simp: unat_of_nat)
  from this [of 0] this [of 1] this [of 2] this [of 3] show ?thesis
    by (intro store32_other) auto
qed

lemma far_byte:
  assumes "far a m b n" "j < n" "m \<le> 2 ^ 31" "n \<le> 2 ^ 31"
  shows "m \<le> unat (b + of_nat j - a)"
proof (rule ccontr)
  assume "\<not> m \<le> unat (b + of_nat j - a)"
  then have "a + of_nat (unat (b + of_nat j - a)) \<noteq> b + of_nat j"
    using far_ne [OF assms(1) _ assms(2-4), of "unat (b + of_nat j - a)"] by simp
  then show False by simp
qed

lemma far_load32:
  assumes "far a n b 4" "n \<le> 2 ^ 31" "\<And>x. n \<le> unat (x - a) \<Longrightarrow> m' x = m x"
  shows "load32 m' b = load32 m b"
  using far_byte [OF assms(1) _ assms(2)] far_byte [OF assms(1), of 0] far_byte [OF assms(1), of 1]
    far_byte [OF assms(1), of 2] far_byte [OF assms(1), of 3] assms(2)
  by (intro load32_cong assms(3)) simp_all

lemma store32_beyond:
  assumes "n \<le> unat (x - a)" "k + 4 \<le> n" "n \<le> 2 ^ 31"
  shows "store32 m (a + of_nat k) v x = m x"
proof (rule store32_far)
  have k: "unat (of_nat k :: addr) = k" using assms(2,3) by (simp add: unat_of_nat)
  have "x - (a + of_nat k) = (x - a) - of_nat k" by simp
  moreover have "of_nat k \<le> x - a" using assms(1,2) k by (simp add: word_le_nat_alt)
  ultimately have "unat (x - (a + of_nat k)) = unat (x - a) - k" using k by (metis unat_sub)
  with assms(1,2) show "4 \<le> unat (x - (a + of_nat k))" by simp
qed

section \<open>Signed and unsigned readings\<close>

lemma sint_of_int: "\<bar>z\<bar> < 2 ^ 31 \<Longrightarrow> sint (of_int z :: i32) = z"
  by (simp add: signed_of_int signed_take_bit_int_eq_self)

lemma sint_of_nat:
  assumes "n < 2 ^ 31"
  shows "sint (of_nat n :: i32) = int n"
  using assms by (simp add: signed_of_nat signed_take_bit_int_eq_self)

lemma sint_unat: "unat w < 2 ^ 31 \<Longrightarrow> sint w = int (unat w)" for w :: i32
  using sint_of_nat [of "unat w"] by simp

lemma sint_small:
  fixes n :: i32
  assumes "0 \<le> sint n"
  shows "sint n = int (unat n)"
proof -
  have "uint n = uint (word_of_int (sint n) :: i32)" by simp
  also have "\<dots> = sint n mod 2 ^ 32" by (simp only: uint_word_of_int) simp
  also have "\<dots> = sint n" using assms sint_less [of n] by (intro mod_pos_pos_trivial) simp_all
  finally show ?thesis by simp
qed

lemma sint_less_unat: "0 \<le> sint n \<Longrightarrow> sint n < int b \<Longrightarrow> unat n < b" for n :: i32
  by (simp only: sint_small of_nat_less_iff)

lemma unat_lt: "unat x < 2 ^ 32" for x :: u32
  using unsigned_less [of x] by simp

lemma unat_diff: "unat (a - b) = (if unat b \<le> unat a then unat a - unat b else 2 ^ 32 + unat a - unat b)" for a b :: u32
  using unat_lt [of b] by (auto simp: unat_sub_if_size word_size)

lemma uint_diff_sint: "uint (a - b) = (sint a - sint b) mod 2 ^ 32" for a b :: u32
proof -
  have "a - b = word_of_int (sint a - sint b)" by simp
  then show ?thesis by (simp only: uint_word_of_int) simp
qed

section \<open>Bytes of a word\<close>

lemma byte_bit [simp]: "8 \<le> i \<Longrightarrow> \<not> bit b i" for b :: u8
  using bit_imp_le_length [of b i] by auto

lemma load32_bytes:
  "ucast (load32 m s) = m s" "ucast (drop_bit 8 (load32 m s)) = m (s + 1)"
  "ucast (drop_bit 16 (load32 m s)) = m (s + 2)" "ucast (drop_bit 24 (load32 m s)) = m (s + 3)"
  by (auto intro!: bit_word_eqI simp: load32_def bit_simps)

lemma less_4_cases: "unat (x - a) < 4 \<longleftrightarrow> x = a \<or> x = a + 1 \<or> x = a + 2 \<or> x = a + 3" for x a :: u32
proof
  assume l: "unat (x - a) < 4"
  then have "unat (x - a) = 0 \<or> unat (x - a) = unat (1 :: u32) \<or> unat (x - a) = unat (2 :: u32) \<or> unat (x - a) = unat (3 :: u32)"
    by simp linarith
  then have "x - a = 0 \<or> x - a = 1 \<or> x - a = 2 \<or> x - a = 3"
    by (simp only: word_unat_eq_iff [symmetric] unat_eq_zero)
  then show "x = a \<or> x = a + 1 \<or> x = a + 2 \<or> x = a + 3"
    by (simp add: diff_eq_eq add.commute)
qed auto

section \<open>An array of words in memory\<close>

text \<open>The \<open>j\<close>-th word of an array, and an array that holds the values of a function.\<close>

definition cell :: "addr \<Rightarrow> nat \<Rightarrow> addr" where
  "cell a j = a + of_nat (4 * j)"

definition words_at :: "memory \<Rightarrow> addr \<Rightarrow> nat \<Rightarrow> (nat \<Rightarrow> u32) \<Rightarrow> bool" where
  "words_at m a n v \<longleftrightarrow> (\<forall>j<n. load32 m (cell a j) = v j)"

lemma unat_cell_offset: "j < 2 ^ 20 \<Longrightarrow> unat (of_nat (4 * j) :: addr) = 4 * j"
  by (simp only: unat_of_nat) simp

lemma cell_gap:
  assumes "i \<noteq> j" "i < 2 ^ 20" "j < 2 ^ 20"
  shows "4 \<le> unat (of_nat (4 * i) - of_nat (4 * j) :: addr)"
proof -
  have "4 \<le> (if 4 * j \<le> 4 * i then 4 * i - 4 * j else 4 * i + 2 ^ 32 - 4 * j)" using assms by (cases "j \<le> i"; simp)
  then show ?thesis unfolding unat_sub_if' unat_cell_offset [OF assms(2)] unat_cell_offset [OF assms(3)] by (simp split: if_splits)
qed

lemma cells_far: "i \<noteq> j \<Longrightarrow> i < 2 ^ 20 \<Longrightarrow> j < 2 ^ 20 \<Longrightarrow> far (cell a i) 4 (cell a j) 4"
  using cell_gap [of i j] cell_gap [of j i] by (simp add: far_def cell_def)

lemma words_at_store:
  assumes "words_at m a n v" "i < n" "n \<le> 2 ^ 20"
  shows "words_at (store32 m (cell a i) x) a n (v(i := x))"
  unfolding words_at_def
proof (intro allI impI)
  fix j
  assume j: "j < n"
  show "load32 (store32 m (cell a i) x) (cell a j) = (v(i := x)) j"
    using assms j cells_far [of i j a] by (cases "j = i") (auto simp: words_at_def load32_store32_far)
qed

lemma words_at_self: "words_at m a n (\<lambda>j. load32 m (cell a j))"
  by (simp add: words_at_def)

lemma store_cell_outside:
  assumes "i < n" "n \<le> 2 ^ 20" "4 * n \<le> unat (x - a)"
  shows "store32 m (cell a i) w x = m x"
proof (rule store32_far)
  have i: "unat (of_nat (4 * i) :: addr) = 4 * i" using assms(1,2) by (intro unat_cell_offset) simp
  have "x - cell a i = (x - a) - of_nat (4 * i)" by (simp add: cell_def)
  moreover have "of_nat (4 * i) \<le> x - a" using assms(1,3) i by (simp add: word_le_nat_alt)
  ultimately have "unat (x - cell a i) = unat (x - a) - 4 * i" using i by (metis unat_sub)
  with assms(1,3) show "4 \<le> unat (x - cell a i)" by simp
qed

end
