(* ===== verification/Mem_Manager.thy ===== *)
theory Mem_Manager
  imports Xeros_Prelude
begin

text \<open>
  The memory manager, \<^verbatim>\<open>c/mem.c\<close>. The free list lives in the memory it manages: a header of
  four words (size, prev, next, sanity check) at the start of every block, read and written
  here through \<^const>\<open>load32\<close> and \<^const>\<open>store32\<close> at the offsets of \<^verbatim>\<open>mem_header_t\<close>. A store
  through a \<^verbatim>\<open>NULL\<close> header is a store at address 0, as on the machine: the kernel runs with
  flat segments of base 0 and no paging. A walk of the free list that meets a cycle does not
  end; such a walk is \<open>None\<close>.
\<close>

unbundle bit_operations_syntax

section \<open>Constants of xeroskernel.h and i386.h\<close>

definition PARAGRAPH_SIZE :: u32 where "PARAGRAPH_SIZE = 0x10"
definition KERNEL_STACK :: i32 where "KERNEL_STACK = 4 * 4096"
definition HOLESIZE :: u32 where "HOLESIZE = 600"
definition HOLESTART :: addr where "HOLESTART = 640 * 1024"
definition HOLEEND :: addr where "HOLEEND = (1024 + HOLESIZE) * 1024"
definition OK :: i32 where "OK = 1"
definition SYSERR :: i32 where "SYSERR = -1"

lemmas mem_const_defs = PARAGRAPH_SIZE_def KERNEL_STACK_def HOLESIZE_def HOLESTART_def HOLEEND_def

section \<open>State and header fields\<close>

text \<open>The statics of mem.c and the two bounds that i386.c sets, with the memory itself.\<close>

record mem_state =
  mem :: memory
  free_list :: addr
  freemem :: i32
  maxaddr :: addr

definition sizeof_mem_header :: u32 where "sizeof_mem_header = 16"

definition hdr_size :: "memory \<Rightarrow> addr \<Rightarrow> u32" where "hdr_size m a = load32 m a"
definition hdr_prev :: "memory \<Rightarrow> addr \<Rightarrow> addr" where "hdr_prev m a = load32 m (a + 4)"
definition hdr_next :: "memory \<Rightarrow> addr \<Rightarrow> addr" where "hdr_next m a = load32 m (a + 8)"
definition hdr_sanity :: "memory \<Rightarrow> addr \<Rightarrow> addr" where "hdr_sanity m a = load32 m (a + 12)"
definition data_start :: "addr \<Rightarrow> addr" where "data_start a = a + sizeof_mem_header"

definition set_size :: "addr \<Rightarrow> u32 \<Rightarrow> memory \<Rightarrow> memory" where "set_size a v m = store32 m a v"
definition set_prev :: "addr \<Rightarrow> addr \<Rightarrow> memory \<Rightarrow> memory" where "set_prev a v m = store32 m (a + 4) v"
definition set_next :: "addr \<Rightarrow> addr \<Rightarrow> memory \<Rightarrow> memory" where "set_next a v m = store32 m (a + 8) v"
definition set_sanity :: "addr \<Rightarrow> addr \<Rightarrow> memory \<Rightarrow> memory" where "set_sanity a v m = store32 m (a + 12) v"

section \<open>Operations\<close>

definition align_to_paragraph :: "u32 \<Rightarrow> u32" where
  "align_to_paragraph address =
     (if address AND (PARAGRAPH_SIZE - 1) \<noteq> 0
      then (address + PARAGRAPH_SIZE) AND NOT (PARAGRAPH_SIZE - 1)
      else address)"

definition kmeminit :: "mem_state \<Rightarrow> mem_state" where
  "kmeminit s =
     (let memstart = align_to_paragraph (freemem s);
          m = set_size memstart (HOLESTART - memstart) (mem s);
          m = set_sanity memstart 0 m;
          m = set_prev memstart 0 m;
          second_region = HOLEEND;
          m = set_size second_region ((maxaddr s - HOLEEND) AND NOT (PARAGRAPH_SIZE - 1)) m;
          m = set_prev second_region memstart m;
          m = set_sanity second_region 0 m;
          m = set_next second_region 0 m;
          m = set_next memstart second_region m
      in s\<lparr>mem := m, free_list := memstart\<rparr>)"

text \<open>The search of \<^verbatim>\<open>kmalloc\<close>: the first block that is large enough, or NULL at the list's end.\<close>

partial_function (option) find_fit :: "memory \<Rightarrow> u32 \<Rightarrow> addr \<Rightarrow> addr option" where
  "find_fit m required_chunk cur =
     (if cur = 0 then Some 0
      else if required_chunk \<le> hdr_size m cur then Some cur
      else find_fit m required_chunk (hdr_next m cur))"

text \<open>The body of the loop once a block fits: split off the leftover, unlink, mark.\<close>

definition kmalloc_take :: "u32 \<Rightarrow> addr \<Rightarrow> mem_state \<Rightarrow> addr \<times> mem_state" where
  "kmalloc_take required_chunk cur s =
     (let m = mem s;
          m = (if required_chunk \<noteq> hdr_size m cur then
                 let leftover = cur + required_chunk;
                     m = set_size leftover (hdr_size m cur - required_chunk) m;
                     m = set_prev leftover cur m;
                     m = set_next leftover (hdr_next m cur) m;
                     m = (if hdr_next m cur \<noteq> 0 then set_prev (hdr_next m cur) leftover m else m)
                 in set_next cur leftover m
               else m);
          (m, fl) = (if hdr_prev m cur \<noteq> 0
                     then (set_next (hdr_prev m cur) (hdr_next m cur) m, free_list s)
                     else (m, hdr_next m cur));
          m = set_size cur required_chunk m;
          m = set_prev (hdr_next m cur) (hdr_prev m cur) m;
          m = set_sanity cur (data_start cur) m
      in (data_start cur, s\<lparr>mem := m, free_list := fl\<rparr>))"

definition kmalloc :: "u32 \<Rightarrow> mem_state \<Rightarrow> (addr \<times> mem_state) option" where
  "kmalloc sz s =
     (if sz \<le> 0 then Some (0, s)
      else do {
        let required_chunk = align_to_paragraph sz + sizeof_mem_header;
        cur \<leftarrow> find_fit (mem s) required_chunk (free_list s);
        Some (if cur \<noteq> 0 then kmalloc_take required_chunk cur s else (0, s))
      })"

definition coalesce_blocks :: "addr \<Rightarrow> addr \<Rightarrow> memory \<Rightarrow> memory" where
  "coalesce_blocks first second m =
     (if first = 0 \<or> second = 0 then m
      else if data_start first + hdr_size m first < data_start second then m
      else
        let m = set_size first (data_start second + hdr_size m second - data_start first) m;
            m = set_next first (hdr_next m second) m
        in if hdr_next m second \<noteq> 0 then set_prev (hdr_next m second) first m else m)"

text \<open>The search of \<^verbatim>\<open>kfree\<close>: the free blocks between which the node belongs.\<close>

partial_function (option) find_pos :: "memory \<Rightarrow> addr \<Rightarrow> addr \<Rightarrow> addr \<Rightarrow> (addr \<times> addr) option" where
  "find_pos m node prev nxt =
     (if nxt \<noteq> 0 \<and> nxt < node then find_pos m node nxt (hdr_next m nxt)
      else Some (prev, nxt))"

definition kfree :: "addr \<Rightarrow> mem_state \<Rightarrow> (i32 \<times> mem_state) option" where
  "kfree ptr s =
     (let node = ptr - sizeof_mem_header in
      if hdr_sanity (mem s) node \<noteq> ptr then Some (0, s)
      else do {
        (prev, nxt) \<leftarrow> find_pos (mem s) node 0 (free_list s);
        let (m, fl) = (if prev \<noteq> 0 then (set_next prev node (mem s), free_list s) else (mem s, node));
        let m = (if nxt \<noteq> 0 then set_prev nxt node m else m);
        let m = set_prev node prev m;
        let m = set_next node nxt m;
        let m = coalesce_blocks node nxt m;
        let m = coalesce_blocks prev node m;
        Some (1, s\<lparr>mem := m, free_list := fl\<rparr>)
      })"

text \<open>
  \<^verbatim>\<open>verify_sysptr\<close>: signed comparisons on the addresses, the sum wrapping at 32 bits. A
  non-positive length fails the assertion, after which the kernel spins.
\<close>

definition verify_sysptr :: "addr \<Rightarrow> i32 \<Rightarrow> mem_state \<Rightarrow> i32 option" where
  "verify_sysptr ptr len s = do {
     ASSERT (0 < sint len);
     let addr = ptr;
     let end_addr = addr + len - 1;
     Some (if sint addr \<le> 0 \<or> sint (maxaddr s) < sint end_addr then SYSERR
       else if (sint HOLESTART \<le> sint addr \<and> sint addr < sint HOLEEND) \<or>
               (sint HOLESTART \<le> sint end_addr \<and> sint end_addr < sint HOLEEND) then SYSERR
       else if sint (freemem s - KERNEL_STACK) \<le> sint addr \<and> sint addr < sint (freemem s) then SYSERR
       else OK)
   }"

text \<open>\<^verbatim>\<open>mem_dump\<close>: the lines it prints, the address and the size of every block of the free list.\<close>

partial_function (option) dump_blocks :: "memory \<Rightarrow> addr \<Rightarrow> (addr \<times> u32) list option" where
  "dump_blocks m cur =
     (if cur \<noteq> 0 then do { rest \<leftarrow> dump_blocks m (hdr_next m cur); Some ((cur, hdr_size m cur) # rest) }
      else Some [])"

definition mem_dump :: "mem_state \<Rightarrow> (addr \<times> u32) list option" where
  "mem_dump s = dump_blocks (mem s) (free_list s)"

section \<open>Alignment and header fields\<close>

text \<open>Headers lie at multiples of 16, so two fields overlap only when they are the same field.\<close>

lemma aligned16_offset_unat:
  fixes x :: addr
  assumes "16 dvd unat x" "k < 16"
  shows "unat (x + of_nat k) = unat x + k"
proof -
  have "unat x < 2 ^ 32" using unsigned_less [of x] by simp
  with assms obtain q where "unat x = 16 * q" "q < 2 ^ 28" by (auto elim!: dvdE)
  with assms(2) show ?thesis by (simp add: unat_word_ariths unat_of_nat)
qed

lemma aligned16_offset_eq_iff:
  fixes a b :: addr
  assumes "16 dvd unat a" "16 dvd unat b" "i < 16" "j < 16"
  shows "a + of_nat i = b + of_nat j \<longleftrightarrow> a = b \<and> i = j"
proof
  assume "a + of_nat i = b + of_nat j"
  then have "unat a + i = unat b + j" using aligned16_offset_unat assms by metis
  with assms have "unat a = unat b \<and> i = j" by presburger
  then show "a = b \<and> i = j" by (simp add: word_unat_eq_iff)
qed simp

lemma load32_store32_fields:
  assumes "16 dvd unat a" "16 dvd unat b" "i \<in> {0, 4, 8, 12}" "j \<in> {0, 4, 8, 12}"
  shows "load32 (store32 m (a + of_nat i) v) (b + of_nat j) =
    (if a = b \<and> i = j then v else load32 m (b + of_nat j))"
proof -
  have d: "4 dvd unat a" "4 dvd unat b" using assms(1,2) dvd_trans [of 4 16] by auto
  have "4 dvd i" "4 dvd j" "i < 16" "j < 16" using assms(3,4) by auto
  then have "4 dvd unat (a + of_nat i)" "4 dvd unat (b + of_nat j)"
    by (simp_all add: aligned16_offset_unat assms(1,2) d del: of_nat_numeral)
  moreover have "i < 16" "j < 16" using assms(3,4) by auto
  ultimately show ?thesis
    by (simp add: load32_store32_aligned aligned16_offset_eq_iff assms)
qed

lemma hdr_set [hdr_simps]:
  assumes "16 dvd unat a" "16 dvd unat b"
  shows
    "hdr_size (set_size a v m) b = (if a = b then v else hdr_size m b)"
    "hdr_size (set_prev a v m) b = hdr_size m b"
    "hdr_size (set_next a v m) b = hdr_size m b"
    "hdr_size (set_sanity a v m) b = hdr_size m b"
    "hdr_prev (set_size a v m) b = hdr_prev m b"
    "hdr_prev (set_prev a v m) b = (if a = b then v else hdr_prev m b)"
    "hdr_prev (set_next a v m) b = hdr_prev m b"
    "hdr_prev (set_sanity a v m) b = hdr_prev m b"
    "hdr_next (set_size a v m) b = hdr_next m b"
    "hdr_next (set_prev a v m) b = hdr_next m b"
    "hdr_next (set_next a v m) b = (if a = b then v else hdr_next m b)"
    "hdr_next (set_sanity a v m) b = hdr_next m b"
    "hdr_sanity (set_size a v m) b = hdr_sanity m b"
    "hdr_sanity (set_prev a v m) b = hdr_sanity m b"
    "hdr_sanity (set_next a v m) b = hdr_sanity m b"
    "hdr_sanity (set_sanity a v m) b = (if a = b then v else hdr_sanity m b)"
  using load32_store32_fields [OF assms, of 0 0 m v] load32_store32_fields [OF assms, of 0 4 m v]
    load32_store32_fields [OF assms, of 0 8 m v] load32_store32_fields [OF assms, of 0 12 m v]
    load32_store32_fields [OF assms, of 4 0 m v] load32_store32_fields [OF assms, of 4 4 m v]
    load32_store32_fields [OF assms, of 4 8 m v] load32_store32_fields [OF assms, of 4 12 m v]
    load32_store32_fields [OF assms, of 8 0 m v] load32_store32_fields [OF assms, of 8 4 m v]
    load32_store32_fields [OF assms, of 8 8 m v] load32_store32_fields [OF assms, of 8 12 m v]
    load32_store32_fields [OF assms, of 12 0 m v] load32_store32_fields [OF assms, of 12 4 m v]
    load32_store32_fields [OF assms, of 12 8 m v] load32_store32_fields [OF assms, of 12 12 m v]
  by (simp_all add: hdr_size_def hdr_prev_def hdr_next_def hdr_sanity_def
      set_size_def set_prev_def set_next_def set_sanity_def)

lemma and_15_eq_0_iff: "(x :: u32) AND 15 = 0 \<longleftrightarrow> 16 dvd unat x"
proof -
  have "x AND 15 = take_bit 4 x" by (simp add: take_bit_eq_mask mask_eq_exp_minus_1)
  moreover have "take_bit 4 x = 0 \<longleftrightarrow> unat (take_bit 4 x) = 0" by (simp add: unat_eq_zero)
  moreover have "unat (take_bit 4 x) = unat x mod 16" by (simp add: take_bit_eq_mod unat_mod_distrib)
  ultimately show ?thesis by (simp add: dvd_eq_mod_eq_0)
qed

lemma unat_and_not_15: "unat ((x :: u32) AND - 16) = unat x - unat x mod 16"
proof -
  have "x AND 15 = take_bit 4 x" by (simp add: take_bit_eq_mask mask_eq_exp_minus_1)
  moreover have "x = (x AND NOT 15) + (x AND 15)"
    by (subst disjunctive_add) (auto simp: bit_simps intro!: bit_word_eqI)
  moreover have "NOT 15 = (- 16 :: u32)" by simp
  ultimately have "x AND - 16 = x - take_bit 4 x" by (metis add_diff_cancel_right')
  moreover have "unat (take_bit 4 x) = unat x mod 16" by (simp add: take_bit_eq_mod unat_mod_distrib)
  moreover have "take_bit 4 x \<le> x" by (simp add: word_le_nat_alt calculation)
  ultimately show ?thesis by (simp add: unat_sub)
qed

lemma round_up_16: "(n :: nat) mod 16 \<noteq> 0 \<Longrightarrow> (n + 16) div 16 = (n + 15) div 16"
proof -
  assume nz: "n mod 16 \<noteq> 0"
  define q r where "q = n div 16" and "r = n mod 16"
  then have n: "n = 16 * q + r" and r: "0 < r" "r < 16" using nz by simp_all
  have "(16 * q + (r + 15)) div 16 = q + 1" using r by (intro div_nat_eqI) simp_all
  moreover have "(16 * q + (r + 16)) div 16 = q + 1" using r by (intro div_nat_eqI) simp_all
  ultimately show ?thesis by (simp only: n add.assoc)
qed

lemma unat_align_to_paragraph:
  assumes "unat x \<le> 2 ^ 32 - 16"
  shows "unat (align_to_paragraph x) = (unat x + 15) div 16 * 16"
proof (cases "16 dvd unat x")
  case True
  then have "(unat x + 15) div 16 * 16 = unat x" by (auto elim!: dvdE)
  with True show ?thesis by (simp add: align_to_paragraph_def mem_const_defs and_15_eq_0_iff)
next
  case False
  then have nz: "unat x mod 16 \<noteq> 0" by (simp add: dvd_eq_mod_eq_0)
  from False have "unat x + 16 < 2 ^ 32" using assms by (cases "unat x = 2 ^ 32 - 16") auto
  then have "unat (x + 16) = unat x + 16" by (simp add: unat_word_ariths)
  then have "unat (x + 16 AND - 16) = (unat x + 16) div 16 * 16"
    by (simp only: unat_and_not_15 minus_mod_eq_div_mult)
  also have "\<dots> = (unat x + 15) div 16 * 16" by (simp only: round_up_16 [OF nz])
  finally show ?thesis
    using False by (simp add: align_to_paragraph_def mem_const_defs and_15_eq_0_iff)
qed

end
