(* ===== verification/Mem_Lists.thy ===== *)
theory Mem_Lists
  imports Mem_Manager
begin

text \<open>
  The memory manager refined to lists of blocks. A free list in memory stands for the list of
  its blocks, address and size, in address order (\<open>heap_repr\<close>). \<open>alloc_list\<close> and
  \<open>ins_free\<close> say on such lists what \<^const>\<open>kmalloc\<close> and \<^const>\<open>kfree\<close> do: take the first
  block that fits and give its tail back; put a block in its place and merge it with the
  blocks it touches. The lemmas here follow the pointer stores of the code field by field.
\<close>

unbundle bit_operations_syntax

type_synonym block = "addr \<times> u32"

definition block_ok :: "block \<Rightarrow> bool" where
  "block_ok b \<longleftrightarrow> 16 dvd unat (fst b) \<and> 16 dvd unat (snd b) \<and> 16 \<le> unat (fst b) \<and>
     16 \<le> unat (snd b) \<and> unat (fst b) + unat (snd b) + 32 \<le> 2 ^ 32"

definition gap :: "block \<Rightarrow> block \<Rightarrow> bool" where
  "gap b c \<longleftrightarrow> unat (fst b) + unat (snd b) \<le> unat (fst c)"

definition free_wf :: "block list \<Rightarrow> bool" where
  "free_wf fl \<longleftrightarrow> (\<forall>b\<in>set fl. block_ok b) \<and> sorted_wrt gap fl"

fun seg :: "memory \<Rightarrow> addr \<Rightarrow> addr \<Rightarrow> block list \<Rightarrow> addr \<Rightarrow> bool" where
  "seg m p c [] d \<longleftrightarrow> c = d"
| "seg m p c ((a, s) # bs) d \<longleftrightarrow>
     c = a \<and> hdr_size m a = s \<and> hdr_prev m a = p \<and> seg m a (hdr_next m a) bs d"

definition lastp :: "addr \<Rightarrow> block list \<Rightarrow> addr" where
  "lastp p bs = (if bs = [] then p else fst (last bs))"

definition headp :: "block list \<Rightarrow> addr" where
  "headp bs = (case bs of [] \<Rightarrow> 0 | b # _ \<Rightarrow> fst b)"

definition heap_repr :: "mem_state \<Rightarrow> block list \<Rightarrow> bool" where
  "heap_repr s fl \<longleftrightarrow> seg (mem s) 0 (free_list s) fl 0 \<and> free_wf fl"

lemma lastp_simps [simp]: "lastp p [] = p" "lastp p (bs @ [b]) = fst b" "lastp p ((a, s) # bs) = lastp a bs"
  by (simp_all add: lastp_def)

lemma headp_simps [simp]: "headp [] = 0" "headp (b # bs) = fst b"
  by (simp_all add: headp_def)

lemma seg_append: "seg m p c (xs @ ys) d \<longleftrightarrow> (\<exists>e. seg m p c xs e \<and> seg m (lastp p xs) e ys d)"
  by (induction m p c xs d rule: seg.induct) auto

lemma seg_cong:
  assumes "\<And>b. b \<in> set bs \<Longrightarrow> hdr_size m' (fst b) = hdr_size m (fst b) \<and>
    hdr_prev m' (fst b) = hdr_prev m (fst b) \<and> hdr_next m' (fst b) = hdr_next m (fst b)"
  shows "seg m' p c bs d = seg m p c bs d"
  using assms by (induction bs arbitrary: p c) fastforce+

lemma seg_headp: "seg m p c bs 0 \<Longrightarrow> c = headp bs"
  by (cases bs) auto

lemma find_fit_seg:
  assumes "seg m p c fl 0" "\<And>b. b \<in> set fl \<Longrightarrow> fst b \<noteq> 0"
  shows "find_fit m r c = Some (case find (\<lambda>b. r \<le> snd b) fl of None \<Rightarrow> 0 | Some b \<Rightarrow> fst b)"
  using assms
proof (induction m p c fl "0 :: addr" rule: seg.induct)
  case (2 m p c a s bs)
  from "2.prems"(2) [of "(a, s)"] have "a \<noteq> 0" by simp
  with 2 show ?case by (subst find_fit.simps) auto
qed (simp add: find_fit.simps)

lemma free_wf_appendD:
  assumes "free_wf (xs @ b # ys)"
  shows "block_ok b" "\<And>x. x \<in> set xs \<Longrightarrow> block_ok x \<and> gap x b"
    "\<And>y. y \<in> set ys \<Longrightarrow> block_ok y \<and> gap b y" "free_wf xs" "free_wf ys"
  using assms by (auto simp: free_wf_def sorted_wrt_append)

lemma free_wf_distinct: "free_wf fl \<Longrightarrow> distinct (map fst fl)"
proof (induction fl)
  case (Cons b fl)
  then have "free_wf fl" "\<And>c. c \<in> set fl \<Longrightarrow> gap b c" by (auto simp: free_wf_def)
  moreover have "block_ok b" using Cons.prems by (simp add: free_wf_def)
  ultimately show ?case using Cons.IH by (fastforce simp: gap_def block_ok_def)
qed simp

lemma block_ok_nonnull [simp]: "block_ok b \<Longrightarrow> fst b \<noteq> 0"
  by (auto simp: block_ok_def)

text \<open>The dump of a free list is the list it stands for.\<close>

lemma dump_blocks_seg:
  assumes "seg m p c fl 0" "\<And>b. b \<in> set fl \<Longrightarrow> fst b \<noteq> 0"
  shows "dump_blocks m c = Some fl"
  using assms
proof (induction m p c fl "0 :: addr" rule: seg.induct)
  case (2 m p c a s bs)
  from "2.prems"(2) [of "(a, s)"] have "a \<noteq> 0" by simp
  with 2 show ?case by (subst dump_blocks.simps) auto
qed (simp add: dump_blocks.simps)

lemma mem_dump_correct: "heap_repr s fl \<Longrightarrow> mem_dump s = Some fl"
  unfolding heap_repr_def mem_dump_def by (rule dump_blocks_seg) (auto simp: free_wf_def)

text \<open>The fields after the body of kmalloc, in closed form.\<close>

lemma kmalloc_take_fields_split:
  assumes hd: "hdr_size (mem s) a = t" "hdr_prev (mem s) a = p" "hdr_next (mem s) a = n"
    and al: "16 dvd unat a" "16 dvd unat (a + r)" "16 dvd unat p" "16 dvd unat n"
    and ne: "a \<noteq> 0" "r \<noteq> 0" "a + r \<noteq> 0" "r \<noteq> t" "n \<noteq> a" "n \<noteq> a + r" "p \<noteq> a" "p \<noteq> a + r"
    and res: "kmalloc_take r a s = (d, s')"
    and b: "16 dvd unat b"
  shows "hdr_size (mem s') b = (if b = a then r else if b = a + r then t - r else hdr_size (mem s) b)"
    "hdr_prev (mem s') b = (if b = a + r then p else if b = n \<and> b \<noteq> 0 then a + r else hdr_prev (mem s) b)"
    "hdr_next (mem s') b = (if b = p \<and> b \<noteq> 0 then a + r else if b = a then a + r
       else if b = a + r then n else hdr_next (mem s) b)"
    "hdr_sanity (mem s') b = (if b = a then data_start a else hdr_sanity (mem s) b)"
    "d = data_start a" "free_list s' = (if p = 0 then a + r else free_list s)"
proof -
  note [simp] = al ne b ne [symmetric] hd hdr_simps
  note defs = kmalloc_take_def Let_def
  show "hdr_size (mem s') b = (if b = a then r else if b = a + r then t - r else hdr_size (mem s) b)"
    using res unfolding defs by (auto split: prod.splits if_splits)
  show "hdr_prev (mem s') b = (if b = a + r then p else if b = n \<and> b \<noteq> 0 then a + r else hdr_prev (mem s) b)"
    using res unfolding defs by (auto split: prod.splits if_splits)
  show "hdr_next (mem s') b = (if b = p \<and> b \<noteq> 0 then a + r else if b = a then a + r
       else if b = a + r then n else hdr_next (mem s) b)"
    using res unfolding defs by (auto split: prod.splits if_splits)
  show "hdr_sanity (mem s') b = (if b = a then data_start a else hdr_sanity (mem s) b)"
    using res unfolding defs by (auto split: prod.splits if_splits)
  show "d = data_start a" "free_list s' = (if p = 0 then a + r else free_list s)"
    using res unfolding defs by (auto split: prod.splits if_splits)
qed

lemma kmalloc_take_fields_exact:
  assumes hd: "hdr_size (mem s) a = t" "hdr_prev (mem s) a = p" "hdr_next (mem s) a = n"
    and al: "16 dvd unat a" "16 dvd unat p" "16 dvd unat n"
    and ne: "a \<noteq> 0" "n \<noteq> a" "p \<noteq> a"
    and res: "kmalloc_take t a s = (d, s')"
    and b: "16 dvd unat b"
  shows "hdr_size (mem s') b = (if b = a then t else hdr_size (mem s) b)"
    "hdr_prev (mem s') b = (if b = n then p else hdr_prev (mem s) b)"
    "hdr_next (mem s') b = (if b = p \<and> b \<noteq> 0 then n else hdr_next (mem s) b)"
    "hdr_sanity (mem s') b = (if b = a then data_start a else hdr_sanity (mem s) b)"
    "d = data_start a" "free_list s' = (if p = 0 then n else free_list s)"
proof -
  note [simp] = al ne b ne [symmetric] hd hdr_simps
  note defs = kmalloc_take_def Let_def
  show "hdr_size (mem s') b = (if b = a then t else hdr_size (mem s) b)"
    using res unfolding defs by (auto split: prod.splits if_splits)
  show "hdr_prev (mem s') b = (if b = n then p else hdr_prev (mem s) b)"
    using res unfolding defs by (auto split: prod.splits if_splits)
  show "hdr_next (mem s') b = (if b = p \<and> b \<noteq> 0 then n else hdr_next (mem s) b)"
    using res unfolding defs by (auto split: prod.splits if_splits)
  show "hdr_sanity (mem s') b = (if b = a then data_start a else hdr_sanity (mem s) b)"
    using res unfolding defs by (auto split: prod.splits if_splits)
  show "d = data_start a" "free_list s' = (if p = 0 then n else free_list s)"
    using res unfolding defs by (auto split: prod.splits if_splits)
qed

fun alloc_list :: "u32 \<Rightarrow> block list \<Rightarrow> (addr \<times> block list) option" where
  "alloc_list r [] = None"
| "alloc_list r ((a, s) # fl) =
     (if r \<le> s then Some (a, (if r \<noteq> s then [(a + r, s - r)] else []) @ fl)
      else map_option (\<lambda>(b, gl). (b, (a, s) # gl)) (alloc_list r fl))"

lemma alloc_list_None: "alloc_list r fl = None \<longleftrightarrow> find (\<lambda>b. r \<le> snd b) fl = None"
  by (induction r fl rule: alloc_list.induct) auto

lemma alloc_list_SomeD:
  "alloc_list r fl = Some (a, gl) \<Longrightarrow>
   \<exists>xs s ys. fl = xs @ (a, s) # ys \<and> (\<forall>x\<in>set xs. snd x < r) \<and> r \<le> s \<and>
      gl = xs @ (if r \<noteq> s then [(a + r, s - r)] else []) @ ys"
proof (induction r fl arbitrary: gl rule: alloc_list.induct)
  case (2 r b t fl)
  show ?case
  proof (cases "r \<le> t")
    case True
    with "2.prems" show ?thesis by (intro exI [of _ "[]"] exI [of _ t] exI [of _ fl]) (auto split: if_splits)
  next
    case False
    with "2.prems" obtain hl where hl: "alloc_list r fl = Some (a, hl)" "gl = (b, t) # hl" by auto
    from "2.IH" [OF False hl(1)] obtain xs s ys where
      "fl = xs @ (a, s) # ys" "\<forall>x\<in>set xs. snd x < r" "r \<le> s"
      "hl = xs @ (if r \<noteq> s then [(a + r, s - r)] else []) @ ys" by blast
    with False hl(2) show ?thesis
      by (intro exI [of _ "(b, t) # xs"] exI [of _ s] exI [of _ ys]) auto
  qed
qed simp

lemma find_alloc_list: "alloc_list r fl = Some (a, gl) \<Longrightarrow> \<exists>s. find (\<lambda>b. r \<le> snd b) fl = Some (a, s)"
  by (induction r fl arbitrary: gl rule: alloc_list.induct) (auto split: if_splits)

lemma unat_plus_ok:
  fixes a s :: u32
  shows "unat a + unat s < 2 ^ 32 \<Longrightarrow> unat (a + s) = unat a + unat s"
  by (simp add: unat_word_ariths)

lemma free_wf_alloc:
  assumes "free_wf (xs @ (a, s) # ys)" "16 dvd unat r" "16 \<le> unat r" "r < s"
  shows "free_wf (xs @ (a + r, s - r) # ys)" "unat (a + r) = unat a + unat r"
    "unat (s - r) = unat s - unat r"
proof -
  note D = free_wf_appendD [OF assms(1)]
  have lt: "unat r < unat s" using assms(4) by (simp add: word_less_nat_alt)
  with D(1) have ar: "unat (a + r) = unat a + unat r" by (intro unat_plus_ok) (simp add: block_ok_def)
  have sr: "unat (s - r) = unat s - unat r" using assms(4) by (simp add: unat_sub order_less_imp_le)
  show "unat (a + r) = unat a + unat r" "unat (s - r) = unat s - unat r" by (rule ar, rule sr)
  have "16 \<le> unat s - unat r"
    using lt D(1) assms(2) by (simp add: block_ok_def) (meson dvd_diff_nat dvd_imp_le zero_less_diff)
  then have "block_ok (a + r, s - r)"
    using D(1) assms(2,3) lt by (auto simp: block_ok_def ar sr intro: dvd_diff_nat)
  moreover have "gap x (a + r, s - r)" if "x \<in> set xs" for x
    using D(2) [OF that] by (simp add: gap_def ar)
  moreover have "gap (a + r, s - r) y" if "y \<in> set ys" for y
    using D(3) [OF that] lt by (simp add: gap_def ar sr)
  ultimately show "free_wf (xs @ (a + r, s - r) # ys)"
    using assms(1) by (auto simp: free_wf_def sorted_wrt_append)
qed

text \<open>Relinking: the predecessor's exit and the successor's back pointer change, nothing else.\<close>

lemma seg_relink_pred:
  assumes "seg m p c xs d" "distinct (map fst xs)" "\<forall>x\<in>set xs. fst x \<noteq> 0"
    and "\<And>x. x \<in> set xs \<Longrightarrow> hdr_size m' (fst x) = hdr_size m (fst x) \<and> hdr_prev m' (fst x) = hdr_prev m (fst x)"
    and "\<And>x. x \<in> set xs \<Longrightarrow> hdr_next m' (fst x) = (if fst x = lastp p xs then e else hdr_next m (fst x))"
  shows "seg m' p (if xs = [] then e else c) xs e"
proof (cases xs rule: rev_cases)
  case (snoc ws w)
  with assms(1) have w: "seg m p c ws (fst w)" "hdr_size m (fst w) = snd w" "hdr_prev m (fst w) = lastp p ws"
    by (cases w; auto simp: seg_append)+
  have "seg m' p c ws (fst w)"
    using w(1) assms(2,4,5) snoc by (subst seg_cong) (auto, metis fst_conv image_eqI)
  then show ?thesis using snoc w assms(4) [of w] assms(5) [of w]
    by (cases w) (auto simp: seg_append)
qed (use assms in simp)

lemma seg_relink_succ:
  assumes "seg m p c ys 0" "distinct (map fst ys)"
    and "\<And>y. y \<in> set ys \<Longrightarrow> hdr_size m' (fst y) = hdr_size m (fst y) \<and> hdr_next m' (fst y) = hdr_next m (fst y)"
    and "\<And>y. y \<in> set ys \<Longrightarrow> hdr_prev m' (fst y) = (if fst y = c then q else hdr_prev m (fst y))"
  shows "seg m' q c ys 0"
proof (cases ys)
  case (Cons y ws)
  with assms(1) have y: "c = fst y" "hdr_size m (fst y) = snd y" "seg m (fst y) (hdr_next m (fst y)) ws 0"
    by (cases y; auto)+
  have "seg m' (fst y) (hdr_next m (fst y)) ws 0"
    using y assms(2,3,4) Cons by (subst seg_cong) (auto, metis fst_conv image_eqI)
  then show ?thesis using Cons y assms(3) [of y] assms(4) [of y] by (cases y) auto
qed (use assms in simp)


definition addrs :: "block list \<Rightarrow> addr set" where
  "addrs bs = fst ` set bs"

lemma addrs_simps [simp]:
  "addrs [] = {}" "addrs ((a, t) # bs) = insert a (addrs bs)" "addrs (xs @ ys) = addrs xs \<union> addrs ys"
  by (auto simp: addrs_def)

lemma addrsI: "b \<in> set bs \<Longrightarrow> fst b \<in> addrs bs" "(a, t) \<in> set bs \<Longrightarrow> a \<in> addrs bs"
  by (force simp: addrs_def)+

lemma lastp_cases: "lastp p xs = p \<and> xs = [] \<or> lastp p xs \<in> addrs xs"
  by (auto simp: lastp_def addrs_def)

lemma headp_cases: "headp ys = 0 \<and> ys = [] \<or> headp ys \<in> addrs ys"
  by (auto simp: headp_def addrs_def split: list.splits)

text \<open>Where the blocks before and after a block of a well-formed list lie.\<close>

lemma free_wf_around:
  assumes "free_wf (xs @ (a, t) # ys)"
  shows "x \<in> addrs xs \<Longrightarrow> 16 dvd unat x \<and> x \<noteq> 0 \<and> unat x < unat a"
    "y \<in> addrs ys \<Longrightarrow> 16 dvd unat y \<and> y \<noteq> 0 \<and> unat a + unat t \<le> unat y"
    "16 dvd unat a \<and> a \<noteq> 0 \<and> 16 dvd unat t \<and> 16 \<le> unat t \<and> unat a + unat t + 32 \<le> 2 ^ 32"
    "distinct (map fst xs)" "distinct (map fst ys)" "a \<notin> addrs xs" "a \<notin> addrs ys"
  using free_wf_appendD [OF assms] free_wf_distinct [OF assms]
  by (fastforce simp: block_ok_def gap_def addrs_def)+

text \<open>What a represented free list says around one of its blocks.\<close>

lemma heap_repr_focus:
  assumes "heap_repr s (xs @ (a, t) # ys)"
  shows "seg (mem s) 0 (free_list s) xs a" "seg (mem s) a (headp ys) ys 0"
    "hdr_size (mem s) a = t" "hdr_prev (mem s) a = lastp 0 xs" "hdr_next (mem s) a = headp ys"
    "a \<noteq> 0" "16 dvd unat a" "free_list s = (if xs = [] then a else headp xs)"
    "16 dvd unat (lastp 0 xs)" "16 dvd unat (headp ys)"
    "lastp 0 xs \<noteq> a" "headp ys \<noteq> a" "free_wf (xs @ (a, t) # ys)"
    "b \<in> addrs xs \<Longrightarrow> b = lastp 0 xs \<Longrightarrow> hdr_next (mem s) b = a"
proof -
  from assms obtain e where e: "seg (mem s) 0 (free_list s) xs e" "seg (mem s) (lastp 0 xs) e ((a, t) # ys) 0"
    and wf: "free_wf (xs @ (a, t) # ys)"
    by (auto simp: heap_repr_def seg_append)
  note A = free_wf_around [OF wf]
  show "seg (mem s) 0 (free_list s) xs a" "hdr_size (mem s) a = t" "hdr_prev (mem s) a = lastp 0 xs"
    using e by auto
  show "hdr_next (mem s) a = headp ys" using e by (auto dest: seg_headp)
  then show "seg (mem s) a (headp ys) ys 0" using e by simp
  show "a \<noteq> 0" "16 dvd unat a" using A(3) by auto
  show "free_list s = (if xs = [] then a else headp xs)" using e by (cases xs) auto
  show "16 dvd unat (lastp 0 xs)" using lastp_cases [of 0 xs] A(1) by fastforce
  show "16 dvd unat (headp ys)" using headp_cases [of ys] A(2) by fastforce
  show "lastp 0 xs \<noteq> a" using lastp_cases [of 0 xs] A(6) \<open>a \<noteq> 0\<close> by auto
  show "headp ys \<noteq> a" using headp_cases [of ys] A(7) \<open>a \<noteq> 0\<close> by auto
  show "b \<in> addrs xs \<Longrightarrow> b = lastp 0 xs \<Longrightarrow> hdr_next (mem s) b = a"
    using e by (cases xs rule: rev_cases) (auto simp: seg_append)
qed (use assms in \<open>simp add: heap_repr_def\<close>)

text \<open>
  A list relinked around a position: the blocks \<open>ws\<close> between \<open>xs\<close> and \<open>ys\<close>
  give way to \<open>zs\<close>, the last link of \<open>xs\<close> and the back link of \<open>ys\<close> follow, and
  every other field is untouched.
\<close>

lemma heap_repr_relink:
  assumes old: "heap_repr s (xs @ ws @ ys)"
    and h: "h = (if zs = [] then headp ys else headp zs)" and l: "l = lastp (lastp 0 xs) zs"
    and mid: "seg (mem s') (lastp 0 xs) h zs (headp ys)"
    and fl: "free_list s' = (if lastp 0 xs = 0 then h else free_list s)"
    and wf: "free_wf (xs @ zs @ ys)"
    and sz: "\<And>b. b \<in> addrs (xs @ ys) \<Longrightarrow> hdr_size (mem s') b = hdr_size (mem s) b"
    and pv: "\<And>b. b \<in> addrs (xs @ ys) \<Longrightarrow>
      hdr_prev (mem s') b = (if b = headp ys then l else hdr_prev (mem s) b)"
    and nx: "\<And>b. b \<in> addrs (xs @ ys) \<Longrightarrow>
      hdr_next (mem s') b = (if b = lastp 0 xs then h else hdr_next (mem s) b)"
  shows "heap_repr s' (xs @ zs @ ys)"
proof -
  from old obtain e p where e: "seg (mem s) 0 (free_list s) xs e" "seg (mem s) p (headp ys) ys 0"
    by (auto simp: heap_repr_def seg_append dest: seg_headp)
  have wfx: "free_wf (xs @ ys)" using old by (auto simp: heap_repr_def free_wf_def sorted_wrt_append)
  then have "distinct (map fst (xs @ ys))" by (rule free_wf_distinct)
  then have d: "distinct (map fst xs)" "distinct (map fst ys)" "addrs xs \<inter> addrs ys = {}"
    by (auto simp: addrs_def)
  have nz: "0 \<notin> addrs xs" "0 \<notin> addrs ys" using wfx by (force simp: free_wf_def addrs_def block_ok_def)+
  have hx: "headp ys \<notin> addrs xs" using headp_cases [of ys] d(3) nz by auto
  have lx: "lastp 0 xs \<notin> addrs ys" using lastp_cases [of 0 xs] d(3) nz by auto
  have "seg (mem s') 0 (if xs = [] then h else free_list s) xs h"
    by (rule seg_relink_pred [OF e(1)]) (use d nz hx in \<open>auto simp: sz pv nx dest: addrsI\<close>)
  moreover have "seg (mem s') l (headp ys) ys 0"
    by (rule seg_relink_succ [OF e(2)]) (use d lx in \<open>auto simp: sz pv nx dest: addrsI\<close>)
  moreover have "free_list s' = (if xs = [] then h else free_list s)"
    using fl lastp_cases [of 0 xs] nz by (cases "xs = []") auto
  ultimately show ?thesis using wf mid l by (auto simp: heap_repr_def seg_append)
qed

lemma kmalloc_take_exact:
  assumes repr: "heap_repr s (xs @ (a, t) # ys)" and res: "kmalloc_take t a s = (d, s')"
  shows "heap_repr s' (xs @ ys)" "d = data_start a" "hdr_size (mem s') a = t"
    "hdr_sanity (mem s') a = data_start a"
proof -
  note F = heap_repr_focus [OF repr] and A = free_wf_around [OF heap_repr_focus(13) [OF repr]]
  note fld = kmalloc_take_fields_exact [OF F(3,4,5,7,9,10,6,12,11) res]
  show "d = data_start a" "hdr_size (mem s') a = t" "hdr_sanity (mem s') a = data_start a"
    using fld [OF F(7)] F(3) by simp_all
  have "free_wf (xs @ [] @ ys)" using F(13) by (auto simp: free_wf_def sorted_wrt_append)
  moreover have "heap_repr s (xs @ [(a, t)] @ ys)" using repr by simp
  note old = heap_repr_relink [OF this refl refl]
  ultimately have "heap_repr s' (xs @ [] @ ys)" using fld [OF F(7)] A
    by (intro old) (auto simp: fld)
  then show "heap_repr s' (xs @ ys)" by simp
qed

lemma kmalloc_take_split:
  assumes repr: "heap_repr s (xs @ (a, t) # ys)" and res: "kmalloc_take r a s = (d, s')"
    and r: "16 dvd unat r" "16 \<le> unat r" "r < t"
  shows "heap_repr s' (xs @ (a + r, t - r) # ys)" "d = data_start a" "hdr_size (mem s') a = r"
    "hdr_sanity (mem s') a = data_start a"
proof -
  note F = heap_repr_focus [OF repr] and A = free_wf_around [OF heap_repr_focus(13) [OF repr]]
  note W = free_wf_alloc [OF F(13) r]
  have L: "16 dvd unat (a + r)" "a + r \<noteq> 0" "unat a < unat (a + r)" "unat (a + r) < unat a + unat t"
    using W(2) A(3) r by (auto simp: word_less_nat_alt)
  have LX: "a + r \<notin> addrs xs" "a + r \<notin> addrs ys" "a \<notin> addrs xs" "a \<notin> addrs ys"
    using L A(1) [of "a + r"] A(2) [of "a + r"] A(1) [of a] A(2) [of a] by auto
  have ne: "r \<noteq> 0" "r \<noteq> t" "headp ys \<noteq> a + r" "lastp 0 xs \<noteq> a + r"
    using r L LX headp_cases [of ys] lastp_cases [of 0 xs] by auto
  note fld = kmalloc_take_fields_split [OF F(3,4,5,7) L(1) F(9,10,6) ne(1) L(2) ne(2) F(12) ne(3) F(11) ne(4) res]
  show "d = data_start a" "hdr_size (mem s') a = r" "hdr_sanity (mem s') a = data_start a"
    using fld [OF F(7)] by simp_all
  have "free_wf (xs @ [(a + r, t - r)] @ ys)" using W(1) by simp
  moreover have "heap_repr s (xs @ [(a, t)] @ ys)" using repr by simp
  note old = heap_repr_relink [OF this refl refl]
  ultimately have "heap_repr s' (xs @ [(a + r, t - r)] @ ys)" using fld [OF F(7)] fld [OF L(1)] A L LX ne
    by (intro old) (auto simp: fld)
  then show "heap_repr s' (xs @ (a + r, t - r) # ys)" by simp
qed


section \<open>Freeing\<close>

fun ins_free :: "addr \<Rightarrow> u32 \<Rightarrow> block list \<Rightarrow> block list" where
  "ins_free a t [] = [(a, t)]"
| "ins_free a t ((b, u) # fl) =
     (if a < b then if a + t < b then (a, t) # (b, u) # fl else (a, t + u) # fl
      else if b + u < a then (b, u) # ins_free a t fl else ins_free b (u + t) fl)"

lemma free_wf_nonnull: "free_wf fl \<Longrightarrow> 0 \<notin> addrs fl"
  by (force simp: free_wf_def addrs_def block_ok_def)

lemma free_wf_append: "free_wf (xs @ ys) \<longleftrightarrow>
   free_wf xs \<and> free_wf ys \<and> (\<forall>x\<in>set xs. \<forall>y\<in>set ys. gap x y)"
  by (auto simp: free_wf_def sorted_wrt_append)

lemma find_pos_seg:
  assumes "seg m p c (xs @ ys) 0" "0 \<notin> addrs xs" "\<forall>x\<in>addrs xs. x < node" "headp ys = 0 \<or> \<not> headp ys < node"
  shows "find_pos m node p c = Some (lastp p xs, headp ys)"
  using assms
proof (induction xs arbitrary: p c)
  case Nil
  then have "c = headp ys" by (auto dest: seg_headp)
  with Nil show ?case by (subst find_pos.simps) auto
next
  case (Cons x xs)
  then show ?case by (cases x) (subst find_pos.simps, auto)
qed

text \<open>Linking a node in: the fields after the four stores of kfree, before coalescing.\<close>

definition link_node :: "addr \<Rightarrow> addr \<Rightarrow> addr \<Rightarrow> memory \<Rightarrow> memory" where
  "link_node node prev nxt m =
     (let m = (if prev \<noteq> 0 then set_next prev node m else m);
          m = (if nxt \<noteq> 0 then set_prev nxt node m else m);
          m = set_prev node prev m
      in set_next node nxt m)"

lemma kfree_eq:
  "kfree ptr s =
     (let node = ptr - sizeof_mem_header in
      if hdr_sanity (mem s) node \<noteq> ptr then Some (0, s)
      else do {
        (prev, nxt) \<leftarrow> find_pos (mem s) node 0 (free_list s);
        Some (1, s\<lparr>mem := coalesce_blocks prev node (coalesce_blocks node nxt (link_node node prev nxt (mem s))),
          free_list := (if prev \<noteq> 0 then free_list s else node)\<rparr>)
      })"
  by (cases "find_pos (mem s) (ptr - sizeof_mem_header) 0 (free_list s)")
    (auto simp: kfree_def link_node_def Let_def)

lemma link_node_fields:
  assumes al: "16 dvd unat a" "16 dvd unat p" "16 dvd unat n" and ne: "a \<noteq> 0" "p \<noteq> a" "n \<noteq> a"
    and b: "16 dvd unat b"
  shows "hdr_size (link_node a p n m) b = hdr_size m b"
    "hdr_prev (link_node a p n m) b = (if b = a then p else if b = n \<and> b \<noteq> 0 then a else hdr_prev m b)"
    "hdr_next (link_node a p n m) b = (if b = a then n else if b = p \<and> b \<noteq> 0 then a else hdr_next m b)"
    "hdr_sanity (link_node a p n m) b = hdr_sanity m b"
  using al ne b by (auto simp: link_node_def Let_def hdr_simps)

lemma coalesce_fields:
  assumes al: "16 dvd unat a" "16 dvd unat n" and ne: "a \<noteq> 0" "n \<noteq> 0" "a \<noteq> n"
    and hd: "hdr_size m a = t" "hdr_size m n = u" "hdr_next m n = e" "16 dvd unat e" "e \<noteq> a"
    and touch: "\<not> data_start a + t < data_start n"
    and b: "16 dvd unat b"
  shows "hdr_size (coalesce_blocks a n m) b = (if b = a then n - a + u else hdr_size m b)"
    "hdr_prev (coalesce_blocks a n m) b = (if b = e \<and> b \<noteq> 0 then a else hdr_prev m b)"
    "hdr_next (coalesce_blocks a n m) b = (if b = a then e else hdr_next m b)"
    "hdr_sanity (coalesce_blocks a n m) b = hdr_sanity m b"
  using assms by (auto simp: coalesce_blocks_def Let_def hdr_simps data_start_def)

lemma coalesce_none:
  assumes "a = 0 \<or> n = 0 \<or> data_start a + hdr_size m a < data_start n"
  shows "coalesce_blocks a n m = m"
  using assms by (auto simp: coalesce_blocks_def)

lemma data_start_less:
  assumes "block_ok (a, t)" "block_ok (n, u)" "unat a + unat t \<le> unat n"
  shows "data_start a + t < data_start n \<longleftrightarrow> unat a + unat t < unat n"
    "a + t < n \<longleftrightarrow> unat a + unat t < unat n"
    "unat a + unat t = unat n \<Longrightarrow> n - a + u = t + u"
proof -
  have [simp]: "unat (a + t) = unat a + unat t" "unat (a + t + 16) = unat a + unat t + 16"
    "unat (n + 16) = unat n + 16"
    using assms by (simp_all add: block_ok_def unat_word_ariths)
  have eq: "a + 16 + t = a + t + 16" by simp
  show "data_start a + t < data_start n \<longleftrightarrow> unat a + unat t < unat n"
    "a + t < n \<longleftrightarrow> unat a + unat t < unat n"
    unfolding data_start_def sizeof_mem_header_def eq by (simp_all add: word_less_nat_alt)
  assume "unat a + unat t = unat n"
  then have "n = a + t" by (simp add: word_unat_eq_iff)
  then show "n - a + u = t + u" by simp
qed


definition disj :: "block \<Rightarrow> block \<Rightarrow> bool" where
  "disj b c \<longleftrightarrow> gap b c \<or> gap c b"

lemma link_node_repr:
  assumes repr: "heap_repr s (xs @ ys)" and ok: "block_ok (a, t)" "hdr_size (mem s) a = t"
    and ord: "\<And>x. x \<in> set xs \<Longrightarrow> gap x (a, t)" "\<And>y. y \<in> set ys \<Longrightarrow> gap (a, t) y"
    and s': "mem s' = link_node a (lastp 0 xs) (headp ys) (mem s)"
      "free_list s' = (if lastp 0 xs \<noteq> 0 then free_list s else a)"
  shows "heap_repr s' (xs @ [(a, t)] @ ys)"
proof -
  have wf: "free_wf (xs @ ys)" using repr by (simp add: heap_repr_def)
  then have wf': "free_wf (xs @ [(a, t)] @ ys)"
    using ok ord by (auto simp: free_wf_def sorted_wrt_append)
  note A = free_wf_around [of xs a t ys]
  have A: "x \<in> addrs xs \<Longrightarrow> 16 dvd unat x \<and> x \<noteq> 0" "y \<in> addrs ys \<Longrightarrow> 16 dvd unat y \<and> y \<noteq> 0"
    "16 dvd unat a" "a \<noteq> 0" "a \<notin> addrs xs" "a \<notin> addrs ys" for x y
    using free_wf_around [of xs a t ys] wf' by auto
  have P: "16 dvd unat (lastp 0 xs)" "lastp 0 xs \<noteq> a" using lastp_cases [of 0 xs] A by auto
  have N: "16 dvd unat (headp ys)" "headp ys \<noteq> a" using headp_cases [of ys] A by auto
  note fld = link_node_fields [OF A(3) P(1) N(1) A(4) P(2) N(2)]
  have "heap_repr s (xs @ [] @ ys)" using repr by simp
  note old = heap_repr_relink [OF this refl refl]
  show ?thesis using wf' A ok s' by (intro old) (auto simp: fld)
qed

lemma coalesce_repr:
  assumes repr: "heap_repr s (xs @ (a, t) # (n, u) # ys)"
  shows "heap_repr (s\<lparr>mem := coalesce_blocks a n (mem s)\<rparr>)
    (xs @ (if a + t < n then [(a, t), (n, u)] else [(a, t + u)]) @ ys)"
proof -
  note F = heap_repr_focus [OF repr] and A = free_wf_around [OF heap_repr_focus(13) [OF repr]]
  have repr': "heap_repr s ((xs @ [(a, t)]) @ (n, u) # ys)" using repr by simp
  note G = heap_repr_focus [OF repr'] and B = free_wf_around [OF heap_repr_focus(13) [OF repr']]
  have ok: "block_ok (a, t)" "block_ok (n, u)" "unat a + unat t \<le> unat n" "n \<noteq> 0"
    using F(13) G(6) by (auto simp: free_wf_def sorted_wrt_append gap_def)
  note less = data_start_less [OF ok(1,2,3)]
  show ?thesis
  proof (cases "a + t < n")
    case True
    then have "coalesce_blocks a n (mem s) = mem s"
      using less F(3) by (intro coalesce_none) auto
    with True repr show ?thesis by simp
  next
    case False
    then have eq: "unat a + unat t = unat n" using less ok(3) by auto
    have ne: "a \<noteq> n" "headp ys \<noteq> a" using A(7) headp_cases [of ys] F(6) by auto
    have nt: "\<not> data_start a + t < data_start n" using False less by auto
    note fld = coalesce_fields [OF F(7) G(7) F(6) ok(4) ne(1) F(3) G(3,5,10) ne(2) nt]
    have tu: "unat (t + u) = unat t + unat u" using ok by (intro unat_plus_ok) (auto simp: block_ok_def)
    have wf: "free_wf (xs @ [(a, t + u)] @ ys)"
      using F(13) eq by (auto simp: free_wf_def sorted_wrt_append block_ok_def gap_def tu)
    have "heap_repr s (xs @ [(a, t), (n, u)] @ ys)" using repr by simp
    note old = heap_repr_relink [OF this refl refl]
    have al: "b \<in> addrs xs \<Longrightarrow> 16 dvd unat b" "b \<in> addrs ys \<Longrightarrow> 16 dvd unat b" for b
      using A(1) B(2) by auto
    have "headp ys \<notin> addrs xs" "lastp 0 xs \<notin> addrs ys"
      using headp_cases [of ys] lastp_cases [of 0 xs] A(1,2) by fastforce+
    note out = this A(6,7) B(6,7) free_wf_nonnull [OF wf]
    have fl: "free_list s = (if lastp 0 xs = 0 then a else free_list s)"
      using F(8) lastp_cases [of 0 xs] A(1) by fastforce
    have "heap_repr (s\<lparr>mem := coalesce_blocks a n (mem s)\<rparr>) (xs @ [(a, t + u)] @ ys)"
      using wf al out ne fl F(4,6,7,14) by (intro old) (auto simp: fld less(3) [OF eq])
    with False show ?thesis by simp
  qed
qed

fun merge_next :: "addr \<Rightarrow> u32 \<Rightarrow> block list \<Rightarrow> block list" where
  "merge_next a t [] = [(a, t)]"
| "merge_next a t ((n, u) # ys) = (if a + t < n then (a, t) # (n, u) # ys else (a, t + u) # ys)"

lemma coalesce_next_repr:
  assumes "heap_repr s (xs @ (a, t) # ys)"
  shows "heap_repr (s\<lparr>mem := coalesce_blocks a (headp ys) (mem s)\<rparr>) (xs @ merge_next a t ys)"
proof (cases ys)
  case Nil
  with assms show ?thesis by (simp add: coalesce_none)
next
  case (Cons y zs)
  with assms coalesce_repr show ?thesis by (cases y) (fastforce split: if_splits)
qed

lemma ins_free_skip:
  "\<forall>x\<in>set xs. \<not> a < fst x \<and> fst x + snd x < a \<Longrightarrow> ins_free a t (xs @ ys) = xs @ ins_free a t ys"
  by (induction xs) (auto split: if_splits)

lemma ins_free_merge_next: "headp ys = 0 \<and> ys = [] \<or> a < headp ys \<Longrightarrow> ins_free a t ys = merge_next a t ys"
  by (cases ys) auto

end
