(* ===== verification/Mem_Correct.thy ===== *)
theory Mem_Correct
  imports Mem_Lists
begin

text \<open>
  The frame of the memory manager's operations (which bytes they leave alone), the correctness
  of \<^const>\<open>kfree\<close> on represented lists, and the lists themselves: free lists whose blocks
  are separated by at least one byte, on which allocation and release are inverse, keep the
  set of covered bytes exactly and lose none of them.
\<close>

unbundle bit_operations_syntax

section \<open>Bytes outside the headers\<close>

definition hdr_outside :: "addr \<Rightarrow> addr \<Rightarrow> bool" where
  "hdr_outside a x \<longleftrightarrow> unat x < unat a \<or> unat a + 16 \<le> unat x"

definition in_block :: "addr \<Rightarrow> block \<Rightarrow> bool" where
  "in_block x b \<longleftrightarrow> unat (fst b) \<le> unat x \<and> unat x < unat (fst b) + unat (snd b)"

lemma set_outside [mem_frame]:
  assumes "16 dvd unat a" "hdr_outside a x"
  shows "set_size a v m x = m x" "set_prev a v m x = m x" "set_next a v m x = m x" "set_sanity a v m x = m x"
proof -
  have lt: "unat a < 2 ^ 32" using unsigned_less [of a] by simp
  with assms(1) obtain q where "unat a = 16 * q" "q < 2 ^ 28" by (auto elim!: dvdE)
  then have b: "unat a + 16 \<le> 2 ^ 32" by simp
  have u: "unat (a + 4) = unat a + 4" "unat (a + 8) = unat a + 8" "unat (a + 12) = unat a + 12"
    using aligned16_offset_unat [OF assms(1), of 4] aligned16_offset_unat [OF assms(1), of 8]
      aligned16_offset_unat [OF assms(1), of 12] by simp_all
  show "set_size a v m x = m x" "set_prev a v m x = m x" "set_next a v m x = m x" "set_sanity a v m x = m x"
    using assms(2) b unfolding hdr_outside_def set_size_def set_prev_def set_next_def set_sanity_def
    by (auto intro!: store32_outside simp: u)
qed

lemma kmalloc_take_outside:
  assumes hd: "hdr_size (mem s) a = t" "hdr_prev (mem s) a = p" "hdr_next (mem s) a = n"
    and al: "16 dvd unat a" "r \<noteq> t \<Longrightarrow> 16 dvd unat (a + r)" "16 dvd unat p" "16 dvd unat n"
    and ne: "a \<noteq> 0" "r \<noteq> 0" "r \<noteq> t \<Longrightarrow> n \<noteq> a + r" "n \<noteq> a" "p \<noteq> a" "r \<noteq> t \<Longrightarrow> p \<noteq> a + r"
    and res: "kmalloc_take r a s = (d, s')"
    and out: "hdr_outside a x" "r \<noteq> t \<Longrightarrow> hdr_outside (a + r) x" "hdr_outside p x" "hdr_outside n x"
  shows "mem s' x = mem s x"
proof (cases "r = t")
  case True
  then show ?thesis using assms
    by (auto simp: kmalloc_take_def Let_def hdr_simps mem_frame split: prod.splits if_splits)
next
  case False
  note [simp] = hd al(1,3,4) al(2) [OF False] ne(1,2,4,5) ne(4,5) [symmetric] ne(3,6) [OF False]
    ne(3,6) [OF False, symmetric] out(1,3,4) out(2) [OF False] mem_frame hdr_simps
  show ?thesis using False res
    by (auto simp: kmalloc_take_def Let_def split: prod.splits if_splits)
qed

lemma link_node_outside:
  assumes "16 dvd unat a" "16 dvd unat p" "16 dvd unat n" "hdr_outside a x" "hdr_outside p x" "hdr_outside n x"
  shows "link_node a p n m x = m x"
  using assms by (auto simp: link_node_def Let_def mem_frame)

lemma coalesce_outside:
  assumes "16 dvd unat a" "16 dvd unat n" "16 dvd unat (hdr_next m n)" "n \<noteq> 0 \<Longrightarrow> a \<noteq> 0 \<Longrightarrow> a \<noteq> n"
    "hdr_outside a x" "n \<noteq> 0 \<Longrightarrow> hdr_outside (hdr_next m n) x"
  shows "coalesce_blocks a n m x = m x"
  using assms by (auto simp: coalesce_blocks_def Let_def mem_frame hdr_simps)

lemma free_outside:
  assumes "block_ok b" "\<not> in_block x b" shows "hdr_outside (fst b) x"
  using assms by (auto simp: block_ok_def in_block_def hdr_outside_def)

lemma addrs_outside:
  assumes wf: "free_wf fl" and x: "16 \<le> unat x" "\<forall>b\<in>set fl. \<not> in_block x b" and a: "a = 0 \<or> a \<in> addrs fl"
  shows "hdr_outside a x" "16 dvd unat a"
proof -
  have "hdr_outside a x \<and> 16 dvd unat a"
  proof (cases "a = 0")
    case True
    with x(1) show ?thesis by (simp add: hdr_outside_def)
  next
    case False
    with a obtain b where b: "b \<in> set fl" "a = fst b" by (auto simp: addrs_def)
    with wf have ok: "block_ok b" by (simp add: free_wf_def)
    with b x(2) free_outside [OF ok] show ?thesis by (simp add: block_ok_def)
  qed
  then show "hdr_outside a x" "16 dvd unat a" by simp_all
qed

lemma kmalloc_take_frame:
  assumes repr: "heap_repr s (xs @ (a, t) # ys)" and res: "kmalloc_take r a s = (d, s')"
    and r: "16 dvd unat r" "16 \<le> unat r" "r \<le> t"
    and x: "16 \<le> unat x" "\<forall>b\<in>set (xs @ (a, t) # ys). \<not> in_block x b"
  shows "mem s' x = mem s x"
proof -
  note F = heap_repr_focus [OF repr] and A = free_wf_around [OF heap_repr_focus(13) [OF repr]]
  note out = addrs_outside [OF F(13) x]
  have P: "hdr_outside (lastp 0 xs) x" using lastp_cases [of 0 xs] by (intro out) auto
  have N: "hdr_outside (headp ys) x" using headp_cases [of ys] by (intro out) auto
  have a: "hdr_outside a x" by (intro out) simp
  have L: "16 dvd unat (a + r) \<and> headp ys \<noteq> a + r \<and> lastp 0 xs \<noteq> a + r \<and> hdr_outside (a + r) x" if "r \<noteq> t"
  proof -
    from that r(3) have lt: "r < t" by simp
    note W = free_wf_alloc [OF F(13) r(1,2) lt]
    have "block_ok (a + r, t - r)" using W(1) by (simp add: free_wf_def)
    moreover have "\<not> in_block x (a + r, t - r)" using x(2) W(2,3) lt by (auto simp: in_block_def word_less_nat_alt)
    ultimately have "hdr_outside (a + r) x" using free_outside by fastforce
    moreover have "unat a < unat (a + r)" "unat (a + r) < unat a + unat t" "16 dvd unat (a + r)" "a + r \<noteq> 0"
      using W(2) A(3) r lt by (auto simp: word_less_nat_alt)
    ultimately show ?thesis
      using headp_cases [of ys] lastp_cases [of 0 xs] A(1) [of "a + r"] A(2) [of "a + r"] by auto
  qed
  have "r \<noteq> 0" using r(2) by auto
  with F L P N a show ?thesis
    by (intro kmalloc_take_outside [OF F(3,4,5) F(7) _ F(9,10,6) _ _ F(12,11) _ res]) auto
qed

lemma coalesce_next_frame:
  assumes repr: "heap_repr s (xs @ (a, t) # ys)"
    and x: "16 \<le> unat x" "\<forall>b\<in>set (xs @ (a, t) # ys). \<not> in_block x b"
  shows "coalesce_blocks a (headp ys) (mem s) x = mem s x"
proof (cases ys)
  case Nil
  then show ?thesis by (simp add: coalesce_none)
next
  case (Cons y zs)
  obtain n u where y: "y = (n, u)" by (cases y)
  have repr': "heap_repr s ((xs @ [(a, t)]) @ (n, u) # zs)" using repr Cons y by simp
  note G = heap_repr_focus [OF repr'] and F = heap_repr_focus [OF repr]
  note A = free_wf_around [OF F(13)]
  note out = addrs_outside [OF F(13) x]
  have "a \<noteq> n" using A(7) Cons y by auto
  moreover have "hdr_outside a x" by (rule out) simp
  moreover have "hdr_outside (headp zs) x" using headp_cases [of zs] Cons y by (intro out) auto
  ultimately show ?thesis using F(7) G(5,7,10) Cons y by (auto intro!: coalesce_outside)
qed

lemma merge_next_cover:
  assumes "free_wf (xs @ (a, t) # ys)" "\<forall>b\<in>set (xs @ (a, t) # ys). \<not> in_block x b"
  shows "\<forall>b\<in>set (xs @ merge_next a t ys). \<not> in_block x b"
proof (cases ys)
  case Nil
  with assms(2) show ?thesis by simp
next
  case (Cons y zs)
  obtain n u where y: "y = (n, u)" by (cases y)
  have ok: "block_ok (a, t)" "block_ok (n, u)" "unat a + unat t \<le> unat n"
    using assms(1) Cons y by (auto simp: free_wf_def sorted_wrt_append gap_def)
  have tu: "unat (t + u) = unat t + unat u" using ok by (intro unat_plus_ok) (auto simp: block_ok_def)
  note D = data_start_less [OF ok]
  have "\<not> in_block x (a, t + u)" if "\<not> a + t < n"
  proof -
    have "unat a + unat t = unat n" using that D(2) ok(3) by simp
    with assms(2) Cons y show ?thesis by (auto simp: in_block_def tu)
  qed
  with assms(2) Cons y show ?thesis by auto
qed

lemma split_at_node:
  assumes wf: "free_wf fl" and ok: "block_ok (a, t)" and dj: "\<forall>c\<in>set fl. disj (a, t) c"
  obtains xs ys where "fl = xs @ ys" "\<And>x. x \<in> set xs \<Longrightarrow> gap x (a, t)" "\<And>y. y \<in> set ys \<Longrightarrow> gap (a, t) y"
proof -
  define xs ys where "xs = takeWhile (\<lambda>b. gap b (a, t)) fl" and "ys = dropWhile (\<lambda>b. gap b (a, t)) fl"
  have fl: "fl = xs @ ys" by (simp add: xs_def ys_def)
  have "gap x (a, t)" if "x \<in> set xs" for x using that set_takeWhileD by (fastforce simp: xs_def)
  moreover have "gap (a, t) y" if y: "y \<in> set ys" for y
  proof -
    from y obtain z zs where z: "ys = z # zs" by (cases ys) auto
    then have nz: "\<not> gap z (a, t)" unfolding ys_def by (metis dropWhile_eq_Cons_conv)
    with dj fl z have gz: "gap (a, t) z" by (auto simp: disj_def)
    have "y = z \<or> gap z y" "block_ok z" using y z wf fl by (auto simp: free_wf_def sorted_wrt_append)
    with gz show ?thesis by (auto simp: gap_def)
  qed
  ultimately show thesis using fl that by blast
qed

lemma kfree_repr:
  assumes repr: "heap_repr s fl" and ok: "block_ok (a, t)" "hdr_size (mem s) a = t"
    and sane: "hdr_sanity (mem s) a = data_start a" and dj: "\<forall>c\<in>set fl. disj (a, t) c"
  shows "\<exists>s'. kfree (data_start a) s = Some (1, s') \<and> heap_repr s' (ins_free a t fl) \<and>
    (\<forall>x. 16 \<le> unat x \<longrightarrow> (\<forall>b\<in>set ((a, t) # fl). \<not> in_block x b) \<longrightarrow> mem s' x = mem s x) \<and>
    freemem s' = freemem s \<and> maxaddr s' = maxaddr s"
proof -
  have wf: "free_wf fl" using repr by (simp add: heap_repr_def)
  from split_at_node [OF wf ok(1) dj] obtain xs ys where
    fl: "fl = xs @ ys" and X: "\<And>x. x \<in> set xs \<Longrightarrow> gap x (a, t)" and Y: "\<And>y. y \<in> set ys \<Longrightarrow> gap (a, t) y" by blast
  have okx: "block_ok x" if "x \<in> set fl" for x using that wf by (simp add: free_wf_def)
  have lt: "x < a" if "x \<in> addrs xs" for x
    using that X okx fl by (fastforce simp: addrs_def gap_def block_ok_def word_less_nat_alt)
  have gt: "a < y" if "y \<in> addrs ys" for y
    using that Y ok(1) by (fastforce simp: addrs_def gap_def block_ok_def word_less_nat_alt)
  define s1 where "s1 = s\<lparr>mem := link_node a (lastp 0 xs) (headp ys) (mem s),
    free_list := (if lastp 0 xs \<noteq> 0 then free_list s else a)\<rparr>"
  define s2 where "s2 = s1\<lparr>mem := coalesce_blocks a (headp ys) (mem s1)\<rparr>"
  define s3 where "s3 = s2\<lparr>mem := coalesce_blocks (lastp 0 xs) a (mem s2)\<rparr>"
  have r1: "heap_repr s1 (xs @ (a, t) # ys)"
    using link_node_repr [of s xs ys a t s1] repr ok X Y fl by (simp add: s1_def)
  then have wf1: "free_wf (xs @ (a, t) # ys)" by (simp add: heap_repr_def)
  from r1 have r2: "heap_repr s2 (xs @ merge_next a t ys)" unfolding s2_def by (rule coalesce_next_repr)
  have mn: "ins_free b v ys = merge_next b v ys" if "b \<le> a" for b v
    using headp_cases [of ys] gt that by (intro ins_free_merge_next) force
  have r3: "heap_repr s3 (ins_free a t fl)"
  proof (cases xs rule: rev_cases)
    case Nil
    with r2 mn fl show ?thesis by (simp add: s3_def coalesce_none)
  next
    case (snoc ws w)
    obtain p v where w: "w = (p, v)" by (cases w)
    have okw: "block_ok (p, v)" "unat p + unat v \<le> unat a" using okx [of w] X [of w] fl snoc w by (auto simp: gap_def)
    note D = data_start_less [OF okw(1) ok(1) okw(2)]
    have ws: "\<forall>x\<in>set ws. \<not> a < fst x \<and> fst x + snd x < a"
    proof
      fix x assume x: "x \<in> set ws"
      then have "gap x (p, v)" "gap x (a, t)" "block_ok x"
        using wf fl snoc w X okx by (auto simp: free_wf_def sorted_wrt_append)
      then show "\<not> a < fst x \<and> fst x + snd x < a"
        using okw ok data_start_less(2) [of "fst x" "snd x" a t]
        by (auto simp: gap_def block_ok_def word_less_nat_alt)
    qed
    have "\<exists>t' zs. merge_next a t ys = (a, t') # zs" by (cases ys) auto
    then obtain t' zs where m: "merge_next a t ys = (a, t') # zs" by blast
    from r2 m snoc w have "heap_repr s2 (ws @ (p, v) # (a, t') # zs)" by simp
    from coalesce_repr [OF this] have
      r: "heap_repr s3 (ws @ (if p + v < a then [(p, v), (a, t')] else [(p, v + t')]) @ zs)"
      using snoc w by (simp add: s3_def)
    have nlt: "\<not> a < p" using lt [of p] snoc w by auto
    have "ins_free a t fl = ws @ ins_free a t ((p, v) # ys)"
      using ins_free_skip [OF ws] fl snoc w by simp
    also have "ins_free a t ((p, v) # ys) = (if p + v < a then [(p, v), (a, t')] else [(p, v + t')]) @ zs"
    proof (cases "p + v < a")
      case True
      with nlt mn [of a] m show ?thesis by simp
    next
      case False
      then have "a = p + v" using D okw(2) ok(1) by (auto simp: word_unat_eq_iff block_ok_def unat_word_ariths)
      with False nlt mn [of p "v + t"] m show ?thesis by (cases ys) (auto simp: add.assoc split: if_splits)
    qed
    finally show ?thesis using r by simp
  qed
  have "find_pos (mem s) a 0 (free_list s) = Some (lastp 0 xs, headp ys)"
  proof (rule find_pos_seg)
    show "seg (mem s) 0 (free_list s) (xs @ ys) 0" using repr fl by (simp add: heap_repr_def)
    show "0 \<notin> addrs xs" using free_wf_nonnull [OF wf] fl by simp
    show "headp ys = 0 \<or> \<not> headp ys < a" using headp_cases [of ys] gt by force
  qed (use lt in simp)
  then have "kfree (data_start a) s = Some (1, s3)"
    using sane by (simp add: kfree_eq data_start_def s1_def s2_def s3_def)
  moreover have "mem s3 x = mem s x" if x: "16 \<le> unat x" "\<forall>b\<in>set ((a, t) # fl). \<not> in_block x b" for x
  proof -
    have c1: "\<forall>b\<in>set (xs @ (a, t) # ys). \<not> in_block x b" using x(2) fl by auto
    note out = addrs_outside [OF wf1 x(1) c1]
    have P: "hdr_outside (lastp 0 xs) x" "16 dvd unat (lastp 0 xs)"
      using lastp_cases [of 0 xs] by (auto intro!: out)
    have N: "hdr_outside (headp ys) x" "16 dvd unat (headp ys)"
      using headp_cases [of ys] by (auto intro!: out)
    have A: "hdr_outside a x" "16 dvd unat a" by (auto intro!: out)
    have e1: "mem s1 x = mem s x" using P N A by (simp add: s1_def link_node_outside)
    have e2: "mem s2 x = mem s1 x" using coalesce_next_frame [OF r1 x(1) c1] by (simp add: s2_def)
    have c2: "\<forall>b\<in>set (xs @ merge_next a t ys). \<not> in_block x b" by (rule merge_next_cover [OF wf1 c1])
    have "\<exists>t' zs. merge_next a t ys = (a, t') # zs" by (cases ys) auto
    then obtain t' zs where m: "merge_next a t ys = (a, t') # zs" by blast
    have "mem s3 x = mem s2 x"
    proof (cases xs rule: rev_cases)
      case Nil
      then show ?thesis by (simp add: s3_def coalesce_none)
    next
      case (snoc ws w)
      obtain p v where w: "w = (p, v)" by (cases w)
      from r2 m snoc w have "heap_repr s2 (ws @ (p, v) # (a, t') # zs)" by simp
      from coalesce_next_frame [OF this x(1)] c2 m snoc w show ?thesis by (simp add: s3_def)
    qed
    with e1 e2 show ?thesis by simp
  qed
  moreover have "freemem s3 = freemem s" "maxaddr s3 = maxaddr s" by (simp_all add: s3_def s2_def s1_def)
  ultimately show ?thesis using r3 by blast
qed

section \<open>Separated free lists\<close>

definition before :: "block \<Rightarrow> block \<Rightarrow> bool" where
  "before b c \<longleftrightarrow> unat (fst b) + unat (snd b) < unat (fst c)"

definition separated :: "block list \<Rightarrow> bool" where
  "separated fl \<longleftrightarrow> (\<forall>b\<in>set fl. block_ok b) \<and> sorted_wrt before fl"

lemma separated_wf: "separated fl \<Longrightarrow> free_wf fl"
  unfolding separated_def free_wf_def before_def gap_def
  by (auto elim!: sorted_wrt_mono_rel [rotated])

lemma separated_simps [simp]:
  "separated []"
  "separated (b # fl) \<longleftrightarrow> block_ok b \<and> (\<forall>c\<in>set fl. before b c) \<and> separated fl"
  "separated (xs @ ys) \<longleftrightarrow> separated xs \<and> separated ys \<and> (\<forall>x\<in>set xs. \<forall>y\<in>set ys. before x y)"
  by (auto simp: separated_def sorted_wrt_append)

definition covers :: "block list \<Rightarrow> addr \<Rightarrow> bool" where
  "covers fl x \<longleftrightarrow> (\<exists>b\<in>set fl. in_block x b)"

lemma word_before:
  assumes "block_ok (a, t)"
  shows "a + t < b \<longleftrightarrow> before (a, t) (b, u)" "unat (a + t) = unat a + unat t"
proof -
  show *: "unat (a + t) = unat a + unat t" using assms by (intro unat_plus_ok) (simp add: block_ok_def)
  show "a + t < b \<longleftrightarrow> before (a, t) (b, u)" by (simp add: word_less_nat_alt before_def *)
qed

lemma merge_block:
  assumes "block_ok (a, t)" "block_ok (b, u)" "unat a + unat t = unat b"
  shows "unat (t + u) = unat t + unat u" "block_ok (a, t + u)" "unat a + unat (t + u) = unat b + unat u"
proof -
  show *: "unat (t + u) = unat t + unat u" using assms by (intro unat_plus_ok) (simp add: block_ok_def)
  show "block_ok (a, t + u)" "unat a + unat (t + u) = unat b + unat u"
    using assms by (auto simp: block_ok_def *)
qed

lemma ins_free_separated:
  assumes "separated fl" "block_ok (a, t)" "\<forall>c\<in>set fl. disj (a, t) c"
  shows "separated (ins_free a t fl) \<and>
    (\<forall>x. covers (ins_free a t fl) x \<longleftrightarrow> in_block x (a, t) \<or> covers fl x) \<and>
    (\<forall>c. block_ok c \<longrightarrow> before c (a, t) \<longrightarrow> (\<forall>d\<in>set fl. before c d) \<longrightarrow>
       (\<forall>d\<in>set (ins_free a t fl). before c d))"
  using assms
proof (induction a t fl rule: ins_free.induct)
  case (1 a t)
  then show ?case by (simp add: covers_def)
next
  case (2 a t b u fl)
  then have ok: "block_ok (b, u)" "separated fl" "\<forall>c\<in>set fl. before (b, u) c" "disj (a, t) (b, u)"
    "\<forall>c\<in>set fl. disj (a, t) c" by auto
  note at = 2(4)
  show ?case
  proof (cases "a < b")
    case True
    then have "unat a + unat t \<le> unat b" using ok(4) at by (auto simp: disj_def gap_def block_ok_def word_less_nat_alt)
    show ?thesis
    proof (cases "a + t < b")
      case lt: True
      then have "before (a, t) (b, u)" using word_before [OF at] by simp
      moreover from this have "\<forall>c\<in>set fl. before (a, t) c" using ok(3) by (fastforce simp: before_def)
      ultimately show ?thesis using True lt ok at by (auto simp: covers_def)
    next
      case False
      then have eq: "unat a + unat t = unat b"
        using \<open>unat a + unat t \<le> unat b\<close> word_before [OF at] by (auto simp: before_def)
      note M = merge_block [OF at ok(1) eq]
      have "\<forall>c\<in>set fl. before (a, t + u) c" using ok(3) M(3) by (auto simp: before_def)
      then show ?thesis using True False M ok eq
        by (auto simp: covers_def in_block_def before_def)
    qed
  next
    case False
    then have le: "unat b + unat u \<le> unat a" using ok(1,4) at by (auto simp: disj_def gap_def block_ok_def word_less_nat_alt)
    show ?thesis
    proof (cases "b + u < a")
      case True
      note IH = 2(1) [OF False True ok(2) at ok(5)]
      have "before (b, u) (a, t)" using True word_before [OF ok(1)] by simp
      with IH ok(1,3) have "\<forall>d\<in>set (ins_free a t fl). before (b, u) d" by blast
      with IH False True ok show ?thesis by (auto simp: covers_def)
    next
      case nlt: False
      then have eq: "unat b + unat u = unat a" using le word_before [OF ok(1)] by (auto simp: before_def)
      note M = merge_block [OF ok(1) at eq]
      have "\<forall>c\<in>set fl. disj (b, u + t) c"
      proof
        fix c assume c: "c \<in> set fl"
        with ok(2) have "block_ok c" by (simp add: separated_def)
        with c ok(3,5) M eq at show "disj (b, u + t) c" by (fastforce simp: disj_def gap_def before_def block_ok_def)
      qed
      note IH = 2(2) [OF False nlt ok(2) M(2) this]
      have "in_block x (b, u + t) \<longleftrightarrow> in_block x (a, t) \<or> in_block x (b, u)" for x
        using M eq by (auto simp: in_block_def)
      with IH False nlt show ?thesis by (auto simp: covers_def before_def)
    qed
  qed
qed


definition free_bytes :: "block list \<Rightarrow> nat" where
  "free_bytes fl = sum_list (map (unat \<circ> snd) fl)"

lemma free_bytes_simps [simp]:
  "free_bytes [] = 0" "free_bytes (b # fl) = unat (snd b) + free_bytes fl"
  "free_bytes (xs @ ys) = free_bytes xs + free_bytes ys"
  by (simp_all add: free_bytes_def)

lemma alloc_list_correct:
  assumes sep: "separated fl" and r: "16 dvd unat r" "16 \<le> unat r" and al: "alloc_list r fl = Some (a, gl)"
  shows "separated gl" "block_ok (a, r)" "\<forall>c\<in>set gl. disj (a, r) c"
    "covers fl x \<longleftrightarrow> in_block x (a, r) \<or> covers gl x" "ins_free a r gl = fl"
    "free_bytes fl = unat r + free_bytes gl" "\<exists>t. (a, t) \<in> set fl \<and> r \<le> t"
proof -
  from alloc_list_SomeD [OF al] obtain xs t ys where
    fl: "fl = xs @ (a, t) # ys" "\<forall>x\<in>set xs. snd x < r" "r \<le> t"
    and gl: "gl = xs @ (if r \<noteq> t then [(a + r, t - r)] else []) @ ys" by blast
  from sep fl(1) have S: "separated xs" "separated ys" "block_ok (a, t)" "\<forall>x\<in>set xs. before x (a, t)"
    "\<forall>y\<in>set ys. before (a, t) y" "\<forall>x\<in>set xs. \<forall>y\<in>set ys. before x y" by auto
  have at: "unat (a + t) = unat a + unat t" using word_before(2) [OF S(3)] .
  have rt: "unat r \<le> unat t" using fl(3) by (simp add: word_le_nat_alt)
  show okr: "block_ok (a, r)" using S(3) r rt by (auto simp: block_ok_def)
  have okx: "block_ok x" if "x \<in> set xs" for x using that S(1) by (simp add: separated_def)
  have skip: "\<forall>x\<in>set xs. \<not> a < fst x \<and> fst x + snd x < a"
  proof
    fix x assume x: "x \<in> set xs"
    with S(4) word_before(1) [of "fst x" "snd x" a t] okx [OF x]
    show "\<not> a < fst x \<and> fst x + snd x < a"
      by (auto simp: before_def word_less_nat_alt)
  qed
  have L: "unat (a + r) = unat a + unat r" "unat (t - r) = unat t - unat r" "block_ok (a + r, t - r)"
    if "r \<noteq> t"
  proof -
    from that fl(3) have lt: "r < t" by simp
    note W = free_wf_alloc [OF separated_wf [OF sep [unfolded fl(1)]] r lt]
    show "unat (a + r) = unat a + unat r" "unat (t - r) = unat t - unat r" by (rule W)+
    show "block_ok (a + r, t - r)" using W(1) by (simp add: free_wf_def)
  qed
  show "separated gl"
  proof (cases "r = t")
    case True
    with gl S show ?thesis by simp
  next
    case False
    then show ?thesis using gl S L [OF False] rt by (auto simp: before_def)
  qed
  show "\<forall>c\<in>set gl. disj (a, r) c"
    using gl S(4,5) L rt by (auto simp: disj_def gap_def before_def)
  show "covers fl x \<longleftrightarrow> in_block x (a, r) \<or> covers gl x"
  proof (cases "r = t")
    case False
    have "in_block x (a, t) \<longleftrightarrow> in_block x (a, r) \<or> in_block x (a + r, t - r)"
      using L [OF False] rt by (auto simp: in_block_def)
    with False show ?thesis unfolding covers_def fl(1) gl by auto
  qed (auto simp: covers_def fl(1) gl)
  show "free_bytes fl = unat r + free_bytes gl" using L rt fl(1) gl by simp
  show "\<exists>t. (a, t) \<in> set fl \<and> r \<le> t" using fl by auto
  have "ins_free a r gl = xs @ ins_free a r ((if r \<noteq> t then [(a + r, t - r)] else []) @ ys)"
    unfolding gl by (rule ins_free_skip [OF skip])
  also have "ins_free a r ((if r \<noteq> t then [(a + r, t - r)] else []) @ ys) = (a, t) # ys"
  proof (cases "r = t")
    case False
    then have "a < a + r" using L(1) r(2) by (simp add: word_less_nat_alt)
    with False show ?thesis by simp
  next
    case True
    then show ?thesis
    proof (cases ys)
      case (Cons y zs)
      then have "before (a, t) y" using S(5) by simp
      then have "a < fst y" "a + t < fst y" by (simp_all add: word_less_nat_alt at before_def)
      with True Cons show ?thesis by (cases y) simp
    qed simp
  qed
  finally show "ins_free a r gl = fl" using fl(1) by simp
qed

lemma ins_free_bytes:
  assumes "separated fl" "block_ok (a, t)" "\<forall>c\<in>set fl. disj (a, t) c"
  shows "free_bytes (ins_free a t fl) = unat t + free_bytes fl"
  using assms
proof (induction a t fl rule: ins_free.induct)
  case (2 a t b u fl)
  then have ok: "block_ok (a, t)" "block_ok (b, u)" "disj (a, t) (b, u)" "\<forall>c\<in>set fl. before (b, u) c"
    "\<forall>c\<in>set fl. disj (a, t) c" "separated fl" by auto
  show ?case
  proof (cases "a < b")
    case True
    have "unat (t + u) = unat t + unat u" if "\<not> a + t < b"
    proof -
      from that True ok(1-3) word_before [OF ok(1)] have "unat a + unat t = unat b"
        by (auto simp: disj_def gap_def before_def block_ok_def word_less_nat_alt)
      then show ?thesis using merge_block [OF ok(1,2)] by simp
    qed
    with True show ?thesis by simp
  next
    case False
    show ?thesis
  proof (cases "b + u < a")
    case True
    with 2(1) [OF False True ok(6,1,5)] False show ?thesis by simp
  next
    case nlt': False
    note nlt = False nlt'
    then have eq: "unat b + unat u = unat a"
      using ok(1-3) word_before [OF ok(2)]
      by (auto simp: disj_def gap_def before_def block_ok_def word_less_nat_alt)
    note M = merge_block [OF ok(2,1) eq]
    have "\<forall>c\<in>set fl. disj (b, u + t) c"
    proof
      fix c assume c: "c \<in> set fl"
      with ok(6) have "block_ok c" by (simp add: separated_def)
      with c ok(4,5) M eq ok(1) show "disj (b, u + t) c" by (fastforce simp: disj_def gap_def before_def block_ok_def)
    qed
    from 2(2) [OF nlt ok(6) M(2) this] nlt M(1) show ?thesis by simp
  qed
  qed
qed simp

end
