(* ===== verification/Mem_Heap.thy ===== *)
theory Mem_Heap
  imports Mem_Correct
begin

text \<open>
  The heap as the rest of the kernel sees it: a separated free list and a set of live blocks
  (\<open>heap_inv\<close>), the allocator contract as a locale interpreted on \<^const>\<open>kmalloc\<close> and
  \<^const>\<open>kfree\<close>, and the histories of the heap from \<^const>\<open>kmeminit\<close> on, in which the
  owners of live blocks also write to them (\<open>heap_reach\<close>).
\<close>

unbundle bit_operations_syntax

text \<open>Headers of a block are read from the block's own bytes.\<close>

lemma hdr_cong:
  assumes ok: "block_ok b" and eq: "\<And>x. in_block x b \<Longrightarrow> m' x = m x"
  shows "hdr_size m' (fst b) = hdr_size m (fst b)" "hdr_sanity m' (fst b) = hdr_sanity m (fst b)"
proof -
  have al: "16 dvd unat (fst b)" using ok by (simp add: block_ok_def)
  have e: "m' (fst b + of_nat k) = m (fst b + of_nat k)" if "k < 16" for k
    using ok aligned16_offset_unat [OF al that] that by (intro eq) (auto simp: in_block_def block_ok_def)
  note e' = e [of 0] e [of 1] e [of 2] e [of 3] e [of 12] e [of 13] e [of 14] e [of 15]
  show "hdr_size m' (fst b) = hdr_size m (fst b)"
    unfolding hdr_size_def using e' by (intro load32_cong) simp_all
  show "hdr_sanity m' (fst b) = hdr_sanity m (fst b)"
    unfolding hdr_sanity_def using e' by (intro load32_cong) (simp_all add: add.assoc)
qed

text \<open>The heap: a separated free list and the blocks handed out, headers intact.\<close>

definition alloc_ok :: "memory \<Rightarrow> block \<Rightarrow> bool" where
  "alloc_ok m b \<longleftrightarrow> block_ok b \<and> hdr_size m (fst b) = snd b \<and> hdr_sanity m (fst b) = data_start (fst b)"

definition heap_inv :: "mem_state \<Rightarrow> block list \<Rightarrow> block set \<Rightarrow> bool" where
  "heap_inv s fl al \<longleftrightarrow> heap_repr s fl \<and> separated fl \<and>
     (\<forall>b\<in>al. alloc_ok (mem s) b \<and> (\<forall>c\<in>set fl. disj b c)) \<and>
     (\<forall>b\<in>al. \<forall>c\<in>al. b \<noteq> c \<longrightarrow> disj b c)"

lemma disj_in_block: "disj b c \<Longrightarrow> in_block x b \<Longrightarrow> \<not> in_block x c"
  by (auto simp: disj_def gap_def in_block_def)

lemma disj_not_covers: "\<forall>c\<in>set fl. disj b c \<Longrightarrow> in_block x b \<Longrightarrow> \<not> covers fl x"
  unfolding covers_def using disj_in_block by blast

lemma disj_sym: "disj b c = disj c b"
  by (auto simp: disj_def)

lemma block_ok_in: "block_ok b \<Longrightarrow> in_block (fst b) b"
  by (auto simp: block_ok_def in_block_def)

text \<open>The bytes of the free blocks decide disjointness from them.\<close>

lemma disj_from_bytes:
  assumes b: "block_ok b" and c: "block_ok c" and n: "\<And>x. in_block x b \<Longrightarrow> \<not> in_block x c"
  shows "disj b c"
proof (rule ccontr)
  assume "\<not> disj b c"
  then have lt: "unat (fst c) < unat (fst b) + unat (snd b)" "unat (fst b) < unat (fst c) + unat (snd c)"
    by (auto simp: disj_def gap_def)
  show False
  proof (cases "unat (fst b) \<le> unat (fst c)")
    case True
    then have "in_block (fst c) b" using lt by (simp add: in_block_def)
    with n block_ok_in [OF c] show False by blast
  next
    case False
    then have "in_block (fst b) c" using lt by (simp add: in_block_def)
    with n block_ok_in [OF b] show False by blast
  qed
qed

lemma alloc_ok_cong:
  assumes "alloc_ok m b" "\<And>x. in_block x b \<Longrightarrow> m' x = m x"
  shows "alloc_ok m' b"
  using assms hdr_cong [of b m' m] by (simp add: alloc_ok_def)

lemma in_block_16: "block_ok b \<Longrightarrow> in_block x b \<Longrightarrow> 16 \<le> unat x"
  by (auto simp: block_ok_def in_block_def)

lemma kmalloc_eq:
  assumes "heap_repr s fl" "0 < sz"
  shows "kmalloc sz s = (let r = align_to_paragraph sz + sizeof_mem_header in
    case find (\<lambda>b. r \<le> snd b) fl of None \<Rightarrow> Some (0, s)
    | Some b \<Rightarrow> Some (kmalloc_take r (fst b) s))"
proof -
  have nz: "fst b \<noteq> 0" if "b \<in> set fl" for b using assms(1) that by (auto simp: heap_repr_def free_wf_def)
  then have "find_fit (mem s) r (free_list s) = Some (case find (\<lambda>b. r \<le> snd b) fl of None \<Rightarrow> 0 | Some b \<Rightarrow> fst b)" for r
    using assms(1) by (intro find_fit_seg) (auto simp: heap_repr_def)
  moreover have "fst b \<noteq> 0" if "find P fl = Some b" for P b using that nz by (metis find_Some_iff nth_mem)
  ultimately show ?thesis using assms(2)
    by (auto simp: kmalloc_def Let_def word_le_nat_alt word_less_nat_alt split: option.splits)
qed

lemma kmalloc_repr:
  assumes repr: "heap_repr s fl" and sep: "separated fl" and sz: "0 < sz"
    and r: "r = align_to_paragraph sz + sizeof_mem_header" "16 dvd unat r" "16 \<le> unat r"
    and al: "alloc_list r fl = Some (a, gl)"
  shows "\<exists>s'. kmalloc sz s = Some (data_start a, s') \<and> heap_repr s' gl \<and> alloc_ok (mem s') (a, r) \<and>
    (\<forall>x. 16 \<le> unat x \<longrightarrow> \<not> covers fl x \<longrightarrow> mem s' x = mem s x) \<and>
    freemem s' = freemem s \<and> maxaddr s' = maxaddr s"
proof -
  from alloc_list_SomeD [OF al] obtain xs t ys where
    fl: "fl = xs @ (a, t) # ys" and lt: "\<forall>x\<in>set xs. snd x < r" and rt: "r \<le> t"
    and gl: "gl = xs @ (if r \<noteq> t then [(a + r, t - r)] else []) @ ys" by blast
  obtain d s' where res: "kmalloc_take r a s = (d, s')" by (cases "kmalloc_take r a s")
  have "find (\<lambda>b. r \<le> snd b) fl = Some (a, t)"
  proof -
    have "find (\<lambda>b. r \<le> snd b) (xs @ (a, t) # ys) = Some (a, t)"
      using lt rt by (induction xs) (auto simp: not_le)
    then show ?thesis using fl by simp
  qed
  then have k: "kmalloc sz s = Some (d, s')"
    using kmalloc_eq [OF repr sz] res r(1) by (simp add: Let_def)
  have repr': "heap_repr s (xs @ (a, t) # ys)" using repr fl by simp
  have frame: "mem s' x = mem s x" if "16 \<le> unat x" "\<not> covers fl x" for x
    using kmalloc_take_frame [OF repr' res r(2,3) rt that(1)] that(2) fl by (simp add: covers_def)
  have rest: "freemem s' = freemem s" "maxaddr s' = maxaddr s"
    using res by (auto simp: kmalloc_take_def Let_def split: prod.splits if_splits)
  have main: "heap_repr s' gl \<and> d = data_start a \<and> hdr_size (mem s') a = r \<and> hdr_sanity (mem s') a = data_start a"
  proof (cases "r = t")
    case True
    with kmalloc_take_exact [OF repr'] res gl show ?thesis by simp
  next
    case False
    with rt have "r < t" by simp
    from kmalloc_take_split [OF repr' res r(2,3) this] False gl show ?thesis by simp
  qed
  have "block_ok (a, r)" using alloc_list_correct(2) [OF sep r(2,3) al] .
  with main have "alloc_ok (mem s') (a, r)" by (simp add: alloc_ok_def)
  with k main frame rest show ?thesis by blast
qed

lemma kmalloc_heap_inv:
  assumes inv: "heap_inv s fl al" and sz: "0 < sz"
    and r: "r = align_to_paragraph sz + sizeof_mem_header" "16 dvd unat r" "16 \<le> unat r"
    and some: "alloc_list r fl = Some (a, gl)"
  shows "\<exists>s'. kmalloc sz s = Some (data_start a, s') \<and> heap_inv s' gl (insert (a, r) al) \<and>
    (\<forall>x. 16 \<le> unat x \<longrightarrow> \<not> covers fl x \<longrightarrow> mem s' x = mem s x) \<and>
    freemem s' = freemem s \<and> maxaddr s' = maxaddr s"
proof -
  have I: "heap_repr s fl" "separated fl" "\<forall>b\<in>al. alloc_ok (mem s) b" "\<forall>b\<in>al. \<forall>c\<in>set fl. disj b c"
    "\<forall>b\<in>al. \<forall>c\<in>al. b \<noteq> c \<longrightarrow> disj b c" using inv by (auto simp: heap_inv_def)
  from kmalloc_repr [OF I(1,2) sz r some] obtain s' where
    k: "kmalloc sz s = Some (data_start a, s')" "heap_repr s' gl" "alloc_ok (mem s') (a, r)"
    and frame: "\<And>x. 16 \<le> unat x \<Longrightarrow> \<not> covers fl x \<Longrightarrow> mem s' x = mem s x"
    and rest: "freemem s' = freemem s" "maxaddr s' = maxaddr s" by blast
  note A = alloc_list_correct [OF I(2) r(2,3) some]
  have okb: "block_ok b" if "b \<in> al" for b using I(3) that by (simp add: alloc_ok_def)
  have notcov: "\<not> covers fl x" if "b \<in> al" "in_block x b" for x b
    using I(4) that disj_not_covers by blast
  have keep: "alloc_ok (mem s') b" if b: "b \<in> al" for b
  proof (rule alloc_ok_cong)
    show "alloc_ok (mem s) b" using I(3) b by blast
    show "mem s' x = mem s x" if "in_block x b" for x
      using frame notcov [OF b that] in_block_16 [OF okb [OF b] that] by simp
  qed
  have dn: "disj b (a, r)" if "b \<in> al" for b
    using notcov [OF that] A(2) okb [OF that] A(4) by (intro disj_from_bytes) auto
  have dg: "disj b c" if "b \<in> al" "c \<in> set gl" for b c
  proof (rule disj_from_bytes [OF okb [OF that(1)]])
    show "block_ok c" using A(1) that(2) by (simp add: separated_def)
    show "\<not> in_block x c" if "in_block x b" for x
      using notcov [OF \<open>b \<in> al\<close> that] \<open>c \<in> set gl\<close> A(4) by (auto simp: covers_def)
  qed
  have "heap_inv s' gl (insert (a, r) al)"
    using k(2,3) A(1,3) keep dn dg I(5) disj_sym by (auto simp: heap_inv_def)
  with k(1) frame rest show ?thesis by blast
qed

lemma kfree_heap_inv:
  assumes inv: "heap_inv s fl al" and b: "(a, t) \<in> al"
  shows "\<exists>s'. kfree (data_start a) s = Some (1, s') \<and> heap_inv s' (ins_free a t fl) (al - {(a, t)}) \<and>
    (\<forall>x. 16 \<le> unat x \<longrightarrow> \<not> covers ((a, t) # fl) x \<longrightarrow> mem s' x = mem s x) \<and>
    freemem s' = freemem s \<and> maxaddr s' = maxaddr s"
proof -
  have I: "heap_repr s fl" "separated fl" "\<forall>b\<in>al. alloc_ok (mem s) b" "\<forall>b\<in>al. \<forall>c\<in>set fl. disj b c"
    "\<forall>b\<in>al. \<forall>c\<in>al. b \<noteq> c \<longrightarrow> disj b c" using inv by (auto simp: heap_inv_def)
  have okb: "block_ok b" if "b \<in> al" for b using I(3) that by (simp add: alloc_ok_def)
  have ab: "block_ok (a, t)" "hdr_size (mem s) a = t" "hdr_sanity (mem s) a = data_start a"
    "\<forall>c\<in>set fl. disj (a, t) c" using I(3,4) b by (force simp: alloc_ok_def)+
  from kfree_repr [OF I(1) ab] obtain s' where
    k: "kfree (data_start a) s = Some (1, s')" "heap_repr s' (ins_free a t fl)"
    and frame: "\<And>x. 16 \<le> unat x \<Longrightarrow> \<not> covers ((a, t) # fl) x \<Longrightarrow> mem s' x = mem s x"
    and rest: "freemem s' = freemem s" "maxaddr s' = maxaddr s" by (auto simp: covers_def)
  note S = ins_free_separated [OF I(2) ab(1,4)]
  have notcov: "\<not> covers ((a, t) # fl) x" if c: "c \<in> al" "c \<noteq> (a, t)" "in_block x c" for x c
  proof -
    have "disj c d" if "d \<in> set ((a, t) # fl)" for d using I(4,5) b c that by auto
    then show ?thesis by (intro disj_not_covers [OF _ c(3)]) blast
  qed
  have keep: "alloc_ok (mem s') c" if c: "c \<in> al" "c \<noteq> (a, t)" for c
  proof (rule alloc_ok_cong)
    show "alloc_ok (mem s) c" using I(3) c by blast
    show "mem s' x = mem s x" if "in_block x c" for x
      using frame notcov [OF c that] in_block_16 [OF okb [OF c(1)] that] by simp
  qed
  have dg: "disj c d" if c: "c \<in> al" "c \<noteq> (a, t)" and d: "d \<in> set (ins_free a t fl)" for c d
  proof (rule disj_from_bytes [OF okb [OF c(1)]])
    show "block_ok d" using S d by (simp add: separated_def)
    show "\<not> in_block x d" if "in_block x c" for x
      using notcov [OF c that] S d by (auto simp: covers_def)
  qed
  have "heap_inv s' (ins_free a t fl) (al - {(a, t)})"
    using k(2) S keep dg I(5) by (auto simp: heap_inv_def)
  with k(1) frame rest show ?thesis by blast
qed

text \<open>Requests: the chunk that a size asks for.\<close>

definition chunk :: "u32 \<Rightarrow> u32" where
  "chunk sz = align_to_paragraph sz + sizeof_mem_header"

lemma chunk_ok:
  assumes "unat sz \<le> 2 ^ 32 - 64"
  shows "unat (chunk sz) = (unat sz + 15) div 16 * 16 + 16" "16 dvd unat (chunk sz)" "16 \<le> unat (chunk sz)"
    "unat sz + 16 \<le> unat (chunk sz)"
proof -
  have al: "unat (align_to_paragraph sz) = (unat sz + 15) div 16 * 16"
    using assms by (intro unat_align_to_paragraph) simp
  have "(unat sz + 15) div 16 * 16 \<le> (unat sz + 15)" by simp
  then show u: "unat (chunk sz) = (unat sz + 15) div 16 * 16 + 16"
    using assms al by (simp add: chunk_def sizeof_mem_header_def unat_word_ariths)
  show "16 dvd unat (chunk sz)" "16 \<le> unat (chunk sz)" unfolding u by simp_all
  have "unat sz \<le> (unat sz + 15) div 16 * 16" by linarith
  with u show "unat sz + 16 \<le> unat (chunk sz)" by simp
qed

lemma kmalloc_fail:
  assumes "heap_inv s fl al" "0 < sz" "alloc_list (chunk sz) fl = None"
  shows "kmalloc sz s = Some (0, s)"
  using assms kmalloc_eq [of s fl sz] by (simp add: heap_inv_def Let_def chunk_def alloc_list_None)

lemma kmalloc_chunk:
  assumes "heap_inv s fl al" "0 < sz" "unat sz \<le> 2 ^ 32 - 64" "alloc_list (chunk sz) fl = Some (a, gl)"
  shows "\<exists>s'. kmalloc sz s = Some (data_start a, s') \<and> heap_inv s' gl (insert (a, chunk sz) al) \<and>
    (\<forall>x. 16 \<le> unat x \<longrightarrow> \<not> covers fl x \<longrightarrow> mem s' x = mem s x) \<and>
    freemem s' = freemem s \<and> maxaddr s' = maxaddr s"
  using kmalloc_heap_inv [OF assms(1,2) chunk_def [of sz] chunk_ok(2,3) [OF assms(3)] assms(4)] .

text \<open>The initial heap: the memory below the hole and the memory above it.\<close>

definition boot_list :: "mem_state \<Rightarrow> block list" where
  "boot_list s = [(align_to_paragraph (freemem s), HOLESTART - align_to_paragraph (freemem s)),
     (HOLEEND, (maxaddr s - HOLEEND) AND NOT (PARAGRAPH_SIZE - 1))]"

definition boot_ok :: "mem_state \<Rightarrow> bool" where
  "boot_ok s \<longleftrightarrow> 0 < freemem s \<and> unat (freemem s) + 32 \<le> unat HOLESTART \<and>
     unat HOLEEND + 32 \<le> unat (maxaddr s) \<and> unat (maxaddr s) + 64 \<le> 2 ^ 32"

lemma boot_blocks:
  assumes "boot_ok s"
  shows "separated (boot_list s)"
proof -
  let ?f = "align_to_paragraph (freemem s)"
  have f: "0 < unat (freemem s)" "unat (freemem s) + 32 \<le> 655360"
    using assms by (simp_all add: boot_ok_def mem_const_defs word_less_nat_alt)
  have F: "unat ?f = (unat (freemem s) + 15) div 16 * 16" using f by (intro unat_align_to_paragraph) simp
  have g: "16 \<le> unat ?f" "unat ?f + 16 \<le> 655360" "16 dvd unat ?f" unfolding F using f by simp_all
  have "unat (HOLESTART - ?f) = 655360 - unat ?f"
    using g by (subst unat_sub) (simp_all add: mem_const_defs word_le_nat_alt)
  with g have b1: "block_ok (?f, HOLESTART - ?f)" "unat ?f + unat (HOLESTART - ?f) = 655360"
    by (auto simp: block_ok_def intro!: dvd_diff_nat)
  let ?d = "maxaddr s - HOLEEND"
  have m: "unat HOLEEND + 32 \<le> unat (maxaddr s)" "unat (maxaddr s) + 64 \<le> 2 ^ 32"
    using assms by (simp_all add: boot_ok_def)
  have d: "unat ?d = unat (maxaddr s) - unat HOLEEND" using m by (intro unat_sub) (simp add: word_le_nat_alt)
  have e: "unat (?d AND - 16) = unat ?d - unat ?d mod 16" by (rule unat_and_not_15)
  have h: "unat HOLEEND = 1662976" by (simp add: mem_const_defs)
  have "16 dvd unat ?d - unat ?d mod 16" by (simp add: minus_mod_eq_div_mult)
  moreover have "16 \<le> unat ?d - unat ?d mod 16" "unat ?d - unat ?d mod 16 \<le> unat ?d" using m d by linarith+
  ultimately have b2: "block_ok (HOLEEND, ?d AND - 16)"
    using m d unfolding block_ok_def fst_conv snd_conv e h by auto
  show "separated (boot_list s)"
    using b1 b2 by (simp add: boot_list_def before_def h mem_const_defs)
qed

lemma kmeminit_inv:
  assumes "boot_ok s"
  shows "heap_inv (kmeminit s) (boot_list s) {}"
proof -
  let ?f = "align_to_paragraph (freemem s)"
  have S: "separated (boot_list s)" by (rule boot_blocks [OF assms])
  then have al: "16 dvd unat ?f" "16 dvd unat HOLEEND" "?f \<noteq> HOLEEND" "block_ok (?f, HOLESTART - ?f)"
    by (auto simp: boot_list_def block_ok_def before_def)
  note [simp] = al(1-3) al(3) [symmetric] hdr_simps
  have "seg (mem (kmeminit s)) 0 (free_list (kmeminit s)) (boot_list s) 0"
    by (simp add: boot_list_def kmeminit_def Let_def)
  with S show ?thesis by (simp add: heap_inv_def heap_repr_def separated_wf)
qed


section \<open>The allocator interface\<close>

definition heap_of :: "mem_state \<Rightarrow> block set \<Rightarrow> bool" where
  "heap_of s al \<longleftrightarrow> (\<exists>fl. heap_inv s fl al)"

definition request_ok :: "u32 \<Rightarrow> bool" where
  "request_ok sz \<longleftrightarrow> unat sz \<le> 2 ^ 32 - 64"

text \<open>
  What the rest of the kernel relies on: a request returns, either with 0 and nothing changed
  or with a block that is disjoint from those handed out before; a block handed out can be
  given back; neither touches the bytes of the other blocks.
\<close>

locale block_allocator =
  fixes alloc :: "u32 \<Rightarrow> 's \<Rightarrow> (addr \<times> 's) option"
    and free :: "addr \<Rightarrow> 's \<Rightarrow> (i32 \<times> 's) option"
    and heap :: "'s \<Rightarrow> block set \<Rightarrow> bool"
    and bytes :: "'s \<Rightarrow> memory"
  assumes alloc_law: "heap s al \<Longrightarrow> request_ok sz \<Longrightarrow>
      alloc sz s = Some (0, s) \<or>
      (\<exists>a r s'. alloc sz s = Some (data_start a, s') \<and> data_start a \<noteq> 0 \<and> unat sz + 16 \<le> unat r \<and>
         (\<forall>b\<in>al. disj (a, r) b) \<and> heap s' (insert (a, r) al) \<and>
         (\<forall>b\<in>al. \<forall>x. in_block x b \<longrightarrow> bytes s' x = bytes s x))"
    and free_law: "heap s al \<Longrightarrow> (a, t) \<in> al \<Longrightarrow>
      \<exists>s'. free (data_start a) s = Some (1, s') \<and> heap s' (al - {(a, t)}) \<and>
         (\<forall>b\<in>al - {(a, t)}. \<forall>x. in_block x b \<longrightarrow> bytes s' x = bytes s x)"
    and block_law: "heap s al \<Longrightarrow> b \<in> al \<Longrightarrow> block_ok b"
begin

lemma alloc_returns: "heap s al \<Longrightarrow> request_ok sz \<Longrightarrow> alloc sz s \<noteq> None"
  using alloc_law [of s al sz] by auto

lemma alloc_obtains:
  assumes "heap s al" "request_ok sz" "alloc sz s = Some (p, s')" "p \<noteq> 0"
  obtains a r where "p = data_start a" "unat sz + 16 \<le> unat r" "\<forall>b\<in>al. disj (a, r) b"
    "heap s' (insert (a, r) al)" "\<forall>b\<in>al. \<forall>x. in_block x b \<longrightarrow> bytes s' x = bytes s x"
  using alloc_law [OF assms(1,2)] assms(3,4) by auto

lemma fresh: "block_ok b \<Longrightarrow> \<forall>c\<in>al. disj b c \<Longrightarrow> b \<notin> al"
  by (auto simp: disj_def gap_def block_ok_def)

lemma alloc_then_free:
  assumes "heap s al" "request_ok sz" "alloc sz s = Some (p, s')" "p \<noteq> 0"
  shows "\<exists>s''. free p s' = Some (1, s'') \<and> heap s'' al"
proof -
  obtain a r where A: "p = data_start a" "\<forall>b\<in>al. disj (a, r) b" "heap s' (insert (a, r) al)"
    using alloc_obtains [OF assms] .
  have "(a, r) \<notin> al" using fresh [OF block_law [OF A(3)] A(2)] by simp
  then have "insert (a, r) al - {(a, r)} = al" by simp
  with free_law [OF A(3), of a r] A(1) show ?thesis by auto
qed

text \<open>Two live blocks never overlap; the second allocation keeps the first block's bytes.\<close>

lemma two_blocks:
  assumes "heap s al" "request_ok m" "request_ok n"
    and "alloc m s = Some (p, s1)" "p \<noteq> 0" "alloc n s1 = Some (q, s2)" "q \<noteq> 0"
  shows "\<exists>a t b u. p = data_start a \<and> q = data_start b \<and> disj (b, u) (a, t) \<and>
    unat m + 16 \<le> unat t \<and> unat n + 16 \<le> unat u \<and> heap s2 (insert (b, u) (insert (a, t) al)) \<and>
    (\<forall>x. in_block x (a, t) \<longrightarrow> bytes s2 x = bytes s1 x)"
proof -
  obtain a t where A: "p = data_start a" "unat m + 16 \<le> unat t" "heap s1 (insert (a, t) al)"
    using alloc_obtains [OF assms(1,2,4,5)] .
  obtain b u where "q = data_start b" "unat n + 16 \<le> unat u" "\<forall>c\<in>insert (a, t) al. disj (b, u) c"
    "heap s2 (insert (b, u) (insert (a, t) al))"
    "\<forall>c\<in>insert (a, t) al. \<forall>x. in_block x c \<longrightarrow> bytes s2 x = bytes s1 x"
    using alloc_obtains [OF A(3) assms(3,6,7)] .
  with A show ?thesis by (intro exI [of _ a] exI [of _ t] exI [of _ b] exI [of _ u]) auto
qed

end

lemma kmalloc_zero: "kmalloc 0 s = Some (0, s)"
  by (simp add: kmalloc_def)

lemma data_start_nonnull: "block_ok (a, t) \<Longrightarrow> data_start a \<noteq> 0"
proof -
  assume "block_ok (a, t)"
  then have "unat (a + 16) = unat a + 16" by (intro unat_plus_ok [of a 16, simplified]) (simp add: block_ok_def)
  then show ?thesis by (auto simp: data_start_def sizeof_mem_header_def)
qed

interpretation kheap: block_allocator kmalloc kfree heap_of mem
proof
  fix s al sz
  assume h: "heap_of s al" and sz: "request_ok sz"
  from h obtain fl where I: "heap_inv s fl al" by (auto simp: heap_of_def)
  then have sep: "separated fl" by (simp add: heap_inv_def)
  have n: "unat sz \<le> 2 ^ 32 - 64" using sz by (simp add: request_ok_def)
  show "kmalloc sz s = Some (0, s) \<or>
      (\<exists>a r s'. kmalloc sz s = Some (data_start a, s') \<and> data_start a \<noteq> 0 \<and> unat sz + 16 \<le> unat r \<and>
         (\<forall>b\<in>al. disj (a, r) b) \<and> heap_of s' (insert (a, r) al) \<and>
         (\<forall>b\<in>al. \<forall>x. in_block x b \<longrightarrow> mem s' x = mem s x))"
  proof (cases "sz = 0 \<or> alloc_list (chunk sz) fl = None")
    case True
    then show ?thesis using kmalloc_zero kmalloc_fail [OF I] by (cases "sz = 0") (auto simp: word_neq_0_conv)
  next
    case False
    then obtain a gl where al: "alloc_list (chunk sz) fl = Some (a, gl)" and pos: "0 < sz" by (auto simp: word_neq_0_conv)
    from kmalloc_chunk [OF I pos n al] obtain s' where
      k: "kmalloc sz s = Some (data_start a, s')" "heap_inv s' gl (insert (a, chunk sz) al)"
      and fr: "\<And>x. 16 \<le> unat x \<Longrightarrow> \<not> covers fl x \<Longrightarrow> mem s' x = mem s x" by blast
    note A = alloc_list_correct [OF sep chunk_ok(2,3) [OF n] al]
    have ok: "block_ok b" "\<forall>c\<in>set fl. disj b c" if "b \<in> al" for b
      using I that by (auto simp: heap_inv_def alloc_ok_def)
    have nc: "\<not> covers fl x" if "b \<in> al" "in_block x b" for x b
      using disj_not_covers [OF ok(2) [OF that(1)] that(2)] .
    have dj: "disj (a, chunk sz) b" if "b \<in> al" for b
      using nc [OF that] A(4) disj_from_bytes [OF ok(1) [OF that] A(2)] by (auto simp: disj_sym)
    have "mem s' x = mem s x" if "b \<in> al" "in_block x b" for x b
      using fr nc [OF that] in_block_16 [OF ok(1) [OF that(1)] that(2)] by blast
    with k dj chunk_ok(4) [OF n] data_start_nonnull [OF A(2)] show ?thesis
      by (intro disjI2 exI [of _ a] exI [of _ "chunk sz"] exI [of _ s']) (auto simp: heap_of_def)
  qed
next
  fix s al a t
  assume h: "heap_of s al" and b: "(a, t) \<in> al"
  from h obtain fl where I: "heap_inv s fl al" by (auto simp: heap_of_def)
  from kfree_heap_inv [OF I b] obtain s' where
    k: "kfree (data_start a) s = Some (1, s')" "heap_inv s' (ins_free a t fl) (al - {(a, t)})"
    and fr: "\<And>x. 16 \<le> unat x \<Longrightarrow> \<not> covers ((a, t) # fl) x \<Longrightarrow> mem s' x = mem s x" by blast
  have "mem s' x = mem s x" if c: "c \<in> al - {(a, t)}" and x: "in_block x c" for x c
  proof (rule fr)
    show "16 \<le> unat x" using I c in_block_16 [OF _ x] by (auto simp: heap_inv_def alloc_ok_def)
    have "disj c d" if "d \<in> set ((a, t) # fl)" for d using I b c that by (auto simp: heap_inv_def)
    then show "\<not> covers ((a, t) # fl) x" by (intro disj_not_covers [OF _ x]) blast
  qed
  with k show "\<exists>s'. kfree (data_start a) s = Some (1, s') \<and> heap_of s' (al - {(a, t)}) \<and>
      (\<forall>b\<in>al - {(a, t)}. \<forall>x. in_block x b \<longrightarrow> mem s' x = mem s x)"
    by (auto simp: heap_of_def)
next
  fix s al b
  assume "heap_of s al" "b \<in> al"
  then show "block_ok b" by (auto simp: heap_of_def heap_inv_def alloc_ok_def)
qed


section \<open>Histories of the heap\<close>

text \<open>A separated list is determined by the bytes it covers.\<close>

lemma covers_Cons: "covers (b # fl) x \<longleftrightarrow> in_block x b \<or> covers fl x"
  by (simp add: covers_def)

lemma separated_head:
  assumes "separated ((a, t) # fl)" "covers ((a, t) # fl) x"
  shows "unat a \<le> unat x" "in_block x (a, t) \<or> unat a + unat t < unat x"
  using assms by (auto simp: covers_def before_def in_block_def)

lemma separated_unique:
  assumes "separated fl" "separated gl" "\<And>x. covers fl x \<longleftrightarrow> covers gl x"
  shows "fl = gl"
  using assms
proof (induction fl arbitrary: gl)
  case Nil
  then show ?case using block_ok_in by (cases gl) (force simp: covers_def)+
next
  case (Cons c fl)
  obtain a t where c: "c = (a, t)" by (cases c)
  have ok: "block_ok (a, t)" using Cons.prems(1) c by simp
  have cov: "covers gl a" using Cons.prems(3) [of a] block_ok_in [OF ok] c by (simp add: covers_Cons)
  then obtain d hl where d: "gl = d # hl" by (cases gl) (auto simp: covers_def)
  obtain b u where bu: "d = (b, u)" by (cases d)
  have ok': "block_ok (b, u)" using Cons.prems(2) d bu by simp
  have sep: "separated ((a, t) # fl)" "separated ((b, u) # hl)" using Cons.prems d bu c by auto
  have eq: "covers ((a, t) # fl) x \<longleftrightarrow> covers ((b, u) # hl) x" for x using Cons.prems(3) c d bu by simp
  have "covers ((b, u) # hl) b" using block_ok_in [OF ok'] by (simp add: covers_Cons)
  then have "unat a \<le> unat b" using separated_head(1) [OF sep(1)] eq by blast
  moreover have "unat b \<le> unat a" using separated_head(1) [OF sep(2)] cov d bu by blast
  ultimately have ab: "a = b" by (simp add: word_unat_eq_iff)
  have sz: "\<not> unat v < unat w" if "separated ((a, v) # xs)" "separated ((a, w) # ys)"
    "\<And>x. covers ((a, v) # xs) x \<longleftrightarrow> covers ((a, w) # ys) x" for v w xs ys
  proof
    assume lt: "unat v < unat w"
    have e: "unat (a + v) = unat a + unat v" using that(1) word_before(2) by simp
    then have "covers ((a, w) # ys) (a + v)" using lt by (simp add: covers_Cons in_block_def)
    then have "covers ((a, v) # xs) (a + v)" using that(3) by simp
    with separated_head(2) [OF that(1) this] show False by (simp add: in_block_def e)
  qed
  have "t = u" using sz [of t fl u hl] sz [of u hl t fl] sep eq ab by (simp add: word_unat_eq_iff)
  have sub: "covers xs x \<longleftrightarrow> covers ((a, t) # xs) x \<and> \<not> in_block x (a, t)" if "separated ((a, t) # xs)" for xs x
    using that by (auto simp: covers_def before_def in_block_def)
  have "covers fl x \<longleftrightarrow> covers hl x" for x
    using sub [of fl x] sub [of hl x] sep eq ab \<open>t = u\<close> by simp
  then have "fl = hl" using Cons.IH sep by simp
  with c d bu ab \<open>t = u\<close> show ?case by simp
qed

text \<open>
  A history from \<^const>\<open>kmeminit\<close>: requests, releases of live blocks, and writes by the
  owners of live blocks to the bytes after their headers.
\<close>

definition payload :: "addr \<Rightarrow> block \<Rightarrow> bool" where
  "payload x b \<longleftrightarrow> unat (fst b) + 16 \<le> unat x \<and> unat x < unat (fst b) + unat (snd b)"

inductive heap_reach :: "mem_state \<Rightarrow> mem_state \<Rightarrow> block set \<Rightarrow> bool" for s0 where
  boot: "heap_reach s0 (kmeminit s0) {}"
| refused: "heap_reach s0 s al \<Longrightarrow> request_ok sz \<Longrightarrow> kmalloc sz s = Some (0, s') \<Longrightarrow> heap_reach s0 s' al"
| granted: "heap_reach s0 s al \<Longrightarrow> request_ok sz \<Longrightarrow> kmalloc sz s = Some (data_start a, s') \<Longrightarrow>
    data_start a \<noteq> 0 \<Longrightarrow> heap_reach s0 s' (insert (a, chunk sz) al)"
| released: "heap_reach s0 s al \<Longrightarrow> (a, t) \<in> al \<Longrightarrow> kfree (data_start a) s = Some (r, s') \<Longrightarrow>
    heap_reach s0 s' (al - {(a, t)})"
| written: "heap_reach s0 s al \<Longrightarrow> (\<And>x. m x \<noteq> mem s x \<Longrightarrow> \<exists>b\<in>al. payload x b) \<Longrightarrow>
    heap_reach s0 (s\<lparr>mem := m\<rparr>) al"

lemma payload_in_block: "payload x b \<Longrightarrow> in_block x b"
  by (auto simp: payload_def in_block_def)

lemma hdr_cong16:
  assumes al: "16 dvd unat a" and eq: "\<And>x. unat a \<le> unat x \<Longrightarrow> unat x < unat a + 16 \<Longrightarrow> m' x = m x"
  shows "hdr_size m' a = hdr_size m a" "hdr_prev m' a = hdr_prev m a" "hdr_next m' a = hdr_next m a"
    "hdr_sanity m' a = hdr_sanity m a"
proof -
  have e: "m' (a + of_nat k) = m (a + of_nat k)" if "k < 16" for k
    using aligned16_offset_unat [OF al that] that by (intro eq) auto
  have f: "load32 m' (a + of_nat k) = load32 m (a + of_nat k)" if "k + 3 < 16" for k
  proof (rule load32_cong)
    show "m' (a + of_nat k) = m (a + of_nat k)" "m' (a + of_nat k + 1) = m (a + of_nat k + 1)"
      "m' (a + of_nat k + 2) = m (a + of_nat k + 2)" "m' (a + of_nat k + 3) = m (a + of_nat k + 3)"
      using e [of k] e [of "k + 1"] e [of "k + 2"] e [of "k + 3"] that by (simp_all add: ac_simps)
  qed
  show "hdr_size m' a = hdr_size m a" "hdr_prev m' a = hdr_prev m a" "hdr_next m' a = hdr_next m a"
    "hdr_sanity m' a = hdr_sanity m a"
    using f [of 0] f [of 4] f [of 8] f [of 12]
    by (simp_all add: hdr_size_def hdr_prev_def hdr_next_def hdr_sanity_def)
qed

lemma heap_inv_write:
  assumes inv: "heap_inv s fl al" and w: "\<And>x. m x \<noteq> mem s x \<Longrightarrow> \<exists>b\<in>al. payload x b"
  shows "heap_inv (s\<lparr>mem := m\<rparr>) fl al"
proof -
  have okb: "block_ok b" if "b \<in> al" for b using inv that by (auto simp: heap_inv_def alloc_ok_def)
  have okf: "block_ok b" if "b \<in> set fl" for b using inv that by (auto simp: heap_inv_def separated_def)
  have free: "hdr_size m (fst c) = hdr_size (mem s) (fst c) \<and> hdr_prev m (fst c) = hdr_prev (mem s) (fst c) \<and>
      hdr_next m (fst c) = hdr_next (mem s) (fst c)" if c: "c \<in> set fl" for c
  proof -
    have al: "16 dvd unat (fst c)" "16 \<le> unat (snd c)" using okf [OF c] by (auto simp: block_ok_def)
    have "m x = mem s x" if "unat (fst c) \<le> unat x" "unat x < unat (fst c) + 16" for x
    proof (rule ccontr)
      assume "m x \<noteq> mem s x"
      then obtain b where b: "b \<in> al" "payload x b" using w by blast
      have "disj b c" using inv b(1) c by (simp add: heap_inv_def)
      then have "\<not> in_block x c" using payload_in_block [OF b(2)] by (rule disj_in_block)
      with that al(2) show False by (simp add: in_block_def)
    qed
    with hdr_cong16 [OF al(1), of m "mem s"] show ?thesis by blast
  qed
  have live: "hdr_size m (fst c) = hdr_size (mem s) (fst c) \<and> hdr_sanity m (fst c) = hdr_sanity (mem s) (fst c)"
    if c: "c \<in> al" for c
  proof -
    have al: "16 dvd unat (fst c)" "16 \<le> unat (snd c)" using okb [OF c] by (auto simp: block_ok_def)
    have "m x = mem s x" if "unat (fst c) \<le> unat x" "unat x < unat (fst c) + 16" for x
    proof (rule ccontr)
      assume "m x \<noteq> mem s x"
      then obtain b where b: "b \<in> al" "payload x b" using w by blast
      have "in_block x c" using that al(2) by (simp add: in_block_def)
      moreover have "in_block x b" using b(2) by (rule payload_in_block)
      moreover have "b = c \<or> disj b c" using inv b(1) c by (auto simp: heap_inv_def)
      ultimately have "b = c" using disj_in_block by blast
      with b(2) that show False by (simp add: payload_def)
    qed
    with hdr_cong16 [OF al(1), of m "mem s"] show ?thesis by blast
  qed
  have "seg m 0 (free_list s) fl 0"
    using inv free seg_cong [of fl m "mem s"] by (simp add: heap_inv_def heap_repr_def)
  with inv live show ?thesis by (auto simp: heap_inv_def heap_repr_def alloc_ok_def)
qed

definition live_byte :: "block set \<Rightarrow> addr \<Rightarrow> bool" where
  "live_byte al x \<longleftrightarrow> (\<exists>b\<in>al. in_block x b)"

lemma heap_reach_inv:
  assumes "boot_ok s0" "heap_reach s0 s al"
  shows "\<exists>fl. heap_inv s fl al \<and> (\<forall>x. covers fl x \<or> live_byte al x \<longleftrightarrow> covers (boot_list s0) x)"
  using assms(2)
proof induction
  case boot
  then show ?case using kmeminit_inv [OF assms(1)] by (auto simp: live_byte_def)
next
  case (refused s al sz s')
  then obtain fl where I: "heap_inv s fl al" "\<forall>x. covers fl x \<or> live_byte al x \<longleftrightarrow> covers (boot_list s0) x" by blast
  have "s' = s"
  proof (cases "sz = 0 \<or> alloc_list (chunk sz) fl = None")
    case True
    with refused kmalloc_zero kmalloc_fail [OF I(1)] show ?thesis by (cases "sz = 0") (auto simp: word_neq_0_conv)
  next
    case False
    then obtain a gl where a: "alloc_list (chunk sz) fl = Some (a, gl)" and pos: "0 < sz" by (auto simp: word_neq_0_conv)
    have n: "unat sz \<le> 2 ^ 32 - 64" using refused by (simp add: request_ok_def)
    have "block_ok (a, chunk sz)" using I(1) alloc_list_correct(2) [OF _ chunk_ok(2,3) [OF n] a] by (simp add: heap_inv_def)
    with kmalloc_chunk [OF I(1) pos n a] refused data_start_nonnull show ?thesis by fastforce
  qed
  with I show ?case by blast
next
  case (granted s al sz a s')
  then obtain fl where I: "heap_inv s fl al" "\<forall>x. covers fl x \<or> live_byte al x \<longleftrightarrow> covers (boot_list s0) x" by blast
  have n: "unat sz \<le> 2 ^ 32 - 64" using granted by (simp add: request_ok_def)
  have pos: "0 < sz" using granted kmalloc_zero [of s] by (cases "sz = 0") (auto simp: word_neq_0_conv)
  have "alloc_list (chunk sz) fl \<noteq> None"
  proof
    assume "alloc_list (chunk sz) fl = None"
    with kmalloc_fail [OF I(1) pos] granted.hyps(3,4) show False by simp
  qed
  then have "\<exists>a' gl. alloc_list (chunk sz) fl = Some (a', gl)" by simp
  then obtain a' gl where a: "alloc_list (chunk sz) fl = Some (a', gl)" by blast
  note A = alloc_list_correct [OF _ chunk_ok(2,3) [OF n] a]
  have sep: "separated fl" using I(1) by (simp add: heap_inv_def)
  from kmalloc_chunk [OF I(1) pos n a] granted have "a' = a" "heap_inv s' gl (insert (a, chunk sz) al)"
    by (auto simp: data_start_def)
  with A(4) [OF sep] I(2) show ?case
    by (intro exI [of _ gl]) (auto simp: live_byte_def)
next
  case (released s al a t r s')
  then obtain fl where I: "heap_inv s fl al" "\<forall>x. covers fl x \<or> live_byte al x \<longleftrightarrow> covers (boot_list s0) x" by blast
  have ab: "separated fl" "block_ok (a, t)" "\<forall>c\<in>set fl. disj (a, t) c"
    using I(1) released by (auto simp: heap_inv_def alloc_ok_def)
  from kfree_heap_inv [OF I(1) released.hyps(2)] released have "heap_inv s' (ins_free a t fl) (al - {(a, t)})" by auto
  with ins_free_separated [OF ab] I(2) released.hyps(2) show ?case
    by (intro exI [of _ "ins_free a t fl"]) (auto simp: live_byte_def)
next
  case (written s al m)
  then obtain fl where I: "heap_inv s fl al" "\<forall>x. covers fl x \<or> live_byte al x \<longleftrightarrow> covers (boot_list s0) x" by blast
  with heap_inv_write [OF I(1) written.hyps(2)] show ?case by blast
qed

text \<open>When every block has been given back, the free list is the one the boot made.\<close>

lemma heap_all_released:
  assumes "boot_ok s0" "heap_reach s0 s {}"
  shows "heap_inv s (boot_list s0) {}"
proof -
  from heap_reach_inv [OF assms] obtain fl where
    I: "heap_inv s fl {}" "\<forall>x. covers fl x \<longleftrightarrow> covers (boot_list s0) x" by (auto simp: live_byte_def)
  have "fl = boot_list s0"
    using I boot_blocks [OF assms(1)] by (intro separated_unique) (auto simp: heap_inv_def)
  with I show ?thesis by simp
qed

end
