(* ===== verification/Mem_Properties.thy ===== *)
theory Mem_Properties
  imports Mem_Heap
begin

text \<open>
  The properties of the memory manager, on the definitions of \<open>Mem_Manager\<close>, each with an
  instance on the 4 MB machine.
\<close>

unbundle bit_operations_syntax

section \<open>A concrete heap\<close>

text \<open>The 4 MB machine with the kernel's image ending at 64 KB.\<close>

definition boot_state :: mem_state where
  "boot_state = \<lparr>mem = (\<lambda>_. 0), free_list = 0, freemem = 0x10000, maxaddr = 0x3FFFFF\<rparr>"

lemma boot_state_ok: "boot_ok boot_state"
  by (simp add: boot_ok_def boot_state_def mem_const_defs)

lemma boot_state_list: "boot_list boot_state = [(0x10000, 0x90000), (0x196000, 0x269FF0)]"
  by (simp add: boot_list_def boot_state_def align_to_paragraph_def mem_const_defs)

lemma boot_state_inv: "heap_inv (kmeminit boot_state) [(0x10000, 0x90000), (0x196000, 0x269FF0)] {}"
  using kmeminit_inv [OF boot_state_ok] by (simp add: boot_state_list)

lemma chunk_100: "chunk 100 = 128"
  by (simp add: chunk_def align_to_paragraph_def sizeof_mem_header_def mem_const_defs)

section \<open>Properties\<close>

text \<open>C5. \<^verbatim>\<open>kmalloc\<close> implements first-fit allocation on the list of free blocks: when no
  block fits it returns 0 and changes nothing; otherwise it returns the data start of the first
  block that fits, the heap is well formed again with the rest of that block free and the new
  block live, the new block is disjoint from every live block, and outside the free blocks no
  byte above the first paragraph changes.\<close>

theorem kmalloc_correct:
  assumes "heap_inv s fl al" "0 < sz" "request_ok sz"
  shows "case alloc_list (chunk sz) fl of
      None \<Rightarrow> kmalloc sz s = Some (0, s)
    | Some (a, gl) \<Rightarrow> \<exists>s'. kmalloc sz s = Some (data_start a, s') \<and>
        heap_inv s' gl (insert (a, chunk sz) al) \<and> (\<forall>b\<in>al. disj (a, chunk sz) b) \<and>
        unat sz + 16 \<le> unat (chunk sz) \<and>
        (\<forall>x. 16 \<le> unat x \<longrightarrow> \<not> covers fl x \<longrightarrow> mem s' x = mem s x)"
proof (cases "alloc_list (chunk sz) fl")
  case None
  with kmalloc_fail [OF assms(1,2)] show ?thesis by simp
next
  case (Some r)
  obtain a gl where r: "r = (a, gl)" by (cases r)
  have n: "unat sz \<le> 2 ^ 32 - 64" using assms(3) by (simp add: request_ok_def)
  have sep: "separated fl" using assms(1) by (simp add: heap_inv_def)
  note A = alloc_list_correct [OF sep chunk_ok(2,3) [OF n] Some [unfolded r]]
  have "disj (a, chunk sz) b" if "b \<in> al" for b
  proof -
    have b: "block_ok b" "\<forall>c\<in>set fl. disj b c" using assms(1) that by (auto simp: heap_inv_def alloc_ok_def)
    have "disj b (a, chunk sz)"
      using disj_not_covers [OF b(2)] A(4) by (intro disj_from_bytes [OF b(1) A(2)]) auto
    then show ?thesis by (simp add: disj_sym)
  qed
  with kmalloc_chunk [OF assms(1,2) n Some [unfolded r]] chunk_ok(4) [OF n] Some r show ?thesis by auto
qed

theorem kmalloc_correct_witness:
  "\<exists>s'. kmalloc 100 (kmeminit boot_state) = Some (0x10010, s') \<and>
     heap_inv s' [(0x10080, 0x8FF80), (0x196000, 0x269FF0)] {(0x10000, 128)}"
  using kmalloc_correct [OF boot_state_inv, where sz = "100"]
  by (auto simp: chunk_100 request_ok_def data_start_def sizeof_mem_header_def)

text \<open>C6. \<^verbatim>\<open>kfree\<close> of a live block returns 1, removes it from the live blocks and puts it in
  its place in the free list, merged with the free blocks it touches; it changes no byte (above
  the first paragraph) outside the free blocks and the block itself.\<close>

theorem kfree_correct:
  assumes "heap_inv s fl al" "(a, t) \<in> al"
  shows "\<exists>s'. kfree (data_start a) s = Some (1, s') \<and> heap_inv s' (ins_free a t fl) (al - {(a, t)}) \<and>
    (\<forall>x. covers (ins_free a t fl) x \<longleftrightarrow> in_block x (a, t) \<or> covers fl x) \<and>
    free_bytes (ins_free a t fl) = unat t + free_bytes fl \<and>
    (\<forall>x. 16 \<le> unat x \<longrightarrow> \<not> covers ((a, t) # fl) x \<longrightarrow> mem s' x = mem s x)"
proof -
  have "separated fl" "block_ok (a, t)" "\<forall>c\<in>set fl. disj (a, t) c"
    using assms by (auto simp: heap_inv_def alloc_ok_def)
  from ins_free_separated [OF this] ins_free_bytes [OF this] kfree_heap_inv [OF assms]
  show ?thesis by blast
qed

lemma live_block_exists:
  "\<exists>s. heap_inv s [(0x10080, 0x8FF80), (0x196000, 0x269FF0)] {(0x10000, 128)}"
proof -
  have "alloc_list (chunk 100) [(0x10000, 0x90000), (0x196000, 0x269FF0)] =
      Some (0x10000, [(0x10080, 0x8FF80), (0x196000, 0x269FF0)])" by (simp add: chunk_100)
  from kmalloc_chunk [OF boot_state_inv _ _ this] show ?thesis by (auto simp: chunk_100)
qed

theorem kfree_correct_witness:
  "\<exists>s s'. kfree 0x10010 s = Some (1, s') \<and> heap_inv s' [(0x10000, 0x90000), (0x196000, 0x269FF0)] {}"
proof -
  from live_block_exists obtain s where
    s: "heap_inv s [(0x10080, 0x8FF80), (0x196000, 0x269FF0)] {(0x10000, 128)}" by blast
  from kfree_correct [OF s, where a = "0x10000" and t = "128"] show ?thesis
    by (auto simp: data_start_def sizeof_mem_header_def)
qed

text \<open>C1. In every history of the heap from \<^verbatim>\<open>kmeminit\<close> on (requests granted or refused,
  releases, writes of the owners to their blocks) the live blocks are pairwise disjoint and
  disjoint from the free blocks, their headers are intact, and the bytes of the free and the
  live blocks together are exactly those the boot made free: nothing is lost or handed out twice.\<close>

theorem heap_history_invariant:
  assumes "boot_ok s0" "heap_reach s0 s al"
  shows "\<exists>fl. heap_repr s fl \<and> separated fl \<and>
    (\<forall>b\<in>al. alloc_ok (mem s) b \<and> (\<forall>c\<in>set fl. disj b c)) \<and>
    (\<forall>b\<in>al. \<forall>c\<in>al. b \<noteq> c \<longrightarrow> disj b c) \<and>
    (\<forall>x. covers fl x \<or> live_byte al x \<longleftrightarrow> covers (boot_list s0) x)"
  using heap_reach_inv [OF assms] by (auto simp: heap_inv_def)

theorem heap_history_invariant_witness:
  "\<exists>fl. heap_repr (kmeminit boot_state) fl \<and> separated fl \<and>
    (\<forall>x. covers fl x \<or> live_byte {} x \<longleftrightarrow> covers (boot_list boot_state) x)"
  using heap_history_invariant [OF boot_state_ok heap_reach.boot] by blast

text \<open>C35. When every block has been given back, whatever the order of the releases, the free
  list is the one that \<^verbatim>\<open>kmeminit\<close> made: the heap leaves no fragmentation behind.\<close>

theorem heap_no_fragmentation:
  assumes "boot_ok s0" "heap_reach s0 s {}"
  shows "heap_repr s (boot_list s0)"
  using heap_all_released [OF assms] by (simp add: heap_inv_def)

theorem heap_no_fragmentation_witness: "heap_repr (kmeminit boot_state) [(0x10000, 0x90000), (0x196000, 0x269FF0)]"
  using heap_no_fragmentation [OF boot_state_ok heap_reach.boot] by (simp add: boot_state_list)

text \<open>A block that is freed right after it was allocated leaves the free list as it was.\<close>

theorem kmalloc_kfree_roundtrip:
  assumes "heap_inv s fl al" "request_ok sz" "kmalloc sz s = Some (p, s')" "p \<noteq> 0"
  shows "\<exists>s''. kfree p s' = Some (1, s'') \<and> heap_inv s'' fl al"
proof -
  have pos: "0 < sz" using assms(3,4) kmalloc_zero [of s] by (cases "sz = 0") (auto simp: word_neq_0_conv)
  have n: "unat sz \<le> 2 ^ 32 - 64" using assms(2) by (simp add: request_ok_def)
  have "alloc_list (chunk sz) fl \<noteq> None"
  proof
    assume "alloc_list (chunk sz) fl = None"
    with kmalloc_fail [OF assms(1) pos] assms(3,4) show False by simp
  qed
  then have "\<exists>a gl. alloc_list (chunk sz) fl = Some (a, gl)" by simp
  then obtain a gl where al: "alloc_list (chunk sz) fl = Some (a, gl)" by blast
  have sep: "separated fl" using assms(1) by (simp add: heap_inv_def)
  note A = alloc_list_correct [OF sep chunk_ok(2,3) [OF n] al]
  from kmalloc_chunk [OF assms(1) pos n al] assms(3) have
    p: "p = data_start a" and inv: "heap_inv s' gl (insert (a, chunk sz) al)" by auto
  have "(a, chunk sz) \<notin> al"
  proof
    assume "(a, chunk sz) \<in> al"
    then have "\<forall>c\<in>set fl. disj (a, chunk sz) c" using assms(1) by (auto simp: heap_inv_def)
    from disj_not_covers [OF this block_ok_in [OF A(2), unfolded fst_conv]] A(4) block_ok_in [OF A(2)]
    show False by simp
  qed
  then have "insert (a, chunk sz) al - {(a, chunk sz)} = al" by simp
  with kfree_heap_inv [OF inv, of a "chunk sz"] A(5) p show ?thesis by auto
qed

theorem kmalloc_kfree_roundtrip_witness:
  "\<exists>s' s''. kmalloc 100 (kmeminit boot_state) = Some (0x10010, s') \<and> kfree 0x10010 s' = Some (1, s'') \<and>
     heap_inv s'' [(0x10000, 0x90000), (0x196000, 0x269FF0)] {}"
proof -
  have "alloc_list (chunk 100) [(0x10000, 0x90000), (0x196000, 0x269FF0)] =
      Some (0x10000, [(0x10080, 0x8FF80), (0x196000, 0x269FF0)])" by (simp add: chunk_100)
  from kmalloc_chunk [OF boot_state_inv _ _ this] obtain s' where
    k: "kmalloc 100 (kmeminit boot_state) = Some (0x10010, s')"
    by (auto simp: data_start_def sizeof_mem_header_def)
  from kmalloc_kfree_roundtrip [OF boot_state_inv _ k] k show ?thesis by (simp add: request_ok_def)
qed

text \<open>In every history of the heap, a request and a release of a live block return.\<close>

theorem heap_operations_return:
  assumes "boot_ok s0" "heap_reach s0 s al"
  shows "(\<forall>sz. request_ok sz \<longrightarrow> kmalloc sz s \<noteq> None) \<and> (\<forall>(a, t)\<in>al. kfree (data_start a) s \<noteq> None)"
proof -
  have h: "heap_of s al" using heap_reach_inv [OF assms] by (auto simp: heap_of_def)
  show ?thesis using kheap.alloc_returns [OF h] kheap.free_law [OF h] by fastforce
qed

theorem heap_operations_return_witness: "kmalloc 100 (kmeminit boot_state) \<noteq> None"
  using heap_operations_return [OF boot_state_ok heap_reach.boot] by (simp add: request_ok_def)

text \<open>Two blocks allocated one after the other, as \<^verbatim>\<open>create\<close> allocates a stack and a signal
  table, do not overlap, have room for what was asked, and the second allocation does not touch
  the first block.\<close>

theorem kmalloc_twice_disjoint:
  assumes "heap_of s al" "request_ok m" "request_ok n"
    and "kmalloc m s = Some (p, s1)" "p \<noteq> 0" "kmalloc n s1 = Some (q, s2)" "q \<noteq> 0"
  shows "\<exists>a t b u. p = data_start a \<and> q = data_start b \<and> disj (b, u) (a, t) \<and>
    unat m + 16 \<le> unat t \<and> unat n + 16 \<le> unat u \<and> heap_of s2 (insert (b, u) (insert (a, t) al)) \<and>
    (\<forall>x. in_block x (a, t) \<longrightarrow> mem s2 x = mem s1 x)"
  by (rule kheap.two_blocks [OF assms])

theorem kmalloc_twice_disjoint_witness:
  "\<exists>p s1 q s2 a t b u. kmalloc 100 (kmeminit boot_state) = Some (p, s1) \<and> kmalloc 100 s1 = Some (q, s2) \<and>
     p = data_start a \<and> q = data_start b \<and> disj (b, u) (a, t)"
proof -
  have "alloc_list (chunk 100) [(0x10000, 0x90000), (0x196000, 0x269FF0)] =
      Some (0x10000, [(0x10080, 0x8FF80), (0x196000, 0x269FF0)])" by (simp add: chunk_100)
  from kmalloc_chunk [OF boot_state_inv _ _ this] obtain s1 where
    k: "kmalloc 100 (kmeminit boot_state) = Some (0x10010, s1)"
      "heap_inv s1 [(0x10080, 0x8FF80), (0x196000, 0x269FF0)] {(0x10000, 128)}"
    by (auto simp: data_start_def sizeof_mem_header_def chunk_100)
  have "alloc_list (chunk 100) [(0x10080, 0x8FF80), (0x196000, 0x269FF0)] =
      Some (0x10080, [(0x10100, 0x8FF00), (0x196000, 0x269FF0)])" by (simp add: chunk_100)
  from kmalloc_chunk [OF k(2) _ _ this] obtain s2 where
    l: "kmalloc 100 s1 = Some (0x10090, s2)" by (auto simp: data_start_def sizeof_mem_header_def)
  have "heap_of (kmeminit boot_state) {}" using boot_state_inv by (auto simp: heap_of_def)
  from kmalloc_twice_disjoint [OF this _ _ k(1) _ l] k(1) l show ?thesis
    by (auto simp: request_ok_def)
qed

text \<open>C36. An exact fit of the last free block stores through a null pointer: after it, the
  previous-pointer field of the header at address 0 holds the address of the free block before
  it (\<^verbatim>\<open>curr->next->prev = curr->prev\<close> without a test of \<^verbatim>\<open>curr->next\<close>).\<close>

theorem kmalloc_exact_fit_writes_null:
  assumes "heap_repr s (xs @ [(a, chunk sz)])" "\<forall>x\<in>set xs. snd x < chunk sz" "0 < sz"
  shows "\<exists>s'. kmalloc sz s = Some (data_start a, s') \<and> hdr_prev (mem s') 0 = lastp 0 xs"
proof -
  note F = heap_repr_focus [OF assms(1)]
  obtain d s' where res: "kmalloc_take (chunk sz) a s = (d, s')" by (cases "kmalloc_take (chunk sz) a s")
  have "find (\<lambda>b. chunk sz \<le> snd b) (xs @ [(a, chunk sz)]) = Some (a, chunk sz)"
    using assms(2) by (induction xs) (auto simp: not_le)
  then have "kmalloc sz s = Some (d, s')"
    using kmalloc_eq [OF assms(1,3)] res by (simp add: Let_def chunk_def)
  moreover have "d = data_start a" "hdr_prev (mem s') 0 = lastp 0 xs"
    using kmalloc_take_fields_exact [OF F(3,4,5) F(7,9,10) F(6,12,11) res, of 0] by simp_all
  ultimately show ?thesis by blast
qed

theorem kmalloc_exact_fit_writes_null_witness:
  "\<exists>s'. kmalloc 0x269FE0 (kmeminit boot_state) = Some (0x196010, s') \<and> hdr_prev (mem s') 0 = 0x10000"
proof -
  have c: "chunk 0x269FE0 = 0x269FF0"
    by (simp add: chunk_def align_to_paragraph_def sizeof_mem_header_def mem_const_defs)
  have "heap_repr (kmeminit boot_state) ([(0x10000, 0x90000)] @ [(0x196000, chunk 0x269FE0)])"
    using boot_state_inv c by (simp add: heap_inv_def)
  from kmalloc_exact_fit_writes_null [OF this] c show ?thesis
    by (simp add: data_start_def sizeof_mem_header_def)
qed

text \<open>A request within 15 bytes of the word size wraps to zero when it is rounded up: it is
  granted a block of 16 bytes, which is only its header.\<close>

theorem kmalloc_huge_request_granted:
  assumes "heap_inv s ((a, t) # fl) al" "0xFFFFFFF1 \<le> sz"
  shows "\<exists>s' gl. kmalloc sz s = Some (data_start a, s') \<and> heap_inv s' gl (insert (a, 16) al)"
proof -
  have nz: "sz AND 15 \<noteq> 0" and z: "sz + 16 AND - 16 = 0"
  proof -
    have b: "0xFFFFFFF1 \<le> unat sz" "unat sz < 2 ^ 32" using assms(2) unsigned_less [of sz] by (auto simp: word_le_nat_alt)
    show "sz AND 15 \<noteq> 0"
    proof
      assume "sz AND 15 = 0"
      then have "16 dvd unat sz" by (simp add: and_15_eq_0_iff)
      then obtain q where q: "unat sz = 16 * q" by (auto elim: dvdE)
      with b(1) have "268435456 \<le> q" by simp
      with b(2) q show False by simp
    qed
    have "unat (sz + 16) = unat sz + 16 - 2 ^ 32" using b by (simp add: unat_word_ariths mod_if)
    then have "unat (sz + 16) < 16" using b by simp
    then have "unat (sz + 16 AND - 16) = 0" by (simp add: unat_and_not_15)
    then show "sz + 16 AND - 16 = 0" by (simp add: unat_eq_zero)
  qed
  have c: "16 = align_to_paragraph sz + sizeof_mem_header"
    using nz z by (simp add: align_to_paragraph_def mem_const_defs sizeof_mem_header_def)
  have "block_ok (a, t)" using assms(1) by (simp add: heap_inv_def)
  then have "16 \<le> t" by (simp add: block_ok_def word_le_nat_alt)
  then obtain gl where al: "alloc_list 16 ((a, t) # fl) = Some (a, gl)" by simp
  have "0 < sz" using assms(2) by (simp add: word_gt_0) auto
  from kmalloc_heap_inv [OF assms(1) this c _ _ al] show ?thesis by auto
qed

theorem kmalloc_huge_request_granted_witness:
  "\<exists>s' gl. kmalloc 0xFFFFFFF8 (kmeminit boot_state) = Some (0x10010, s') \<and> heap_inv s' gl {(0x10000, 16)}"
  using kmalloc_huge_request_granted [OF boot_state_inv, where sz = "0xFFFFFFF8"]
  by (simp add: data_start_def sizeof_mem_header_def)

lemma verify_sysptr_iff:
  "verify_sysptr ptr len s = Some OK \<longleftrightarrow> 0 < sint len \<and> 0 < sint ptr \<and> sint (ptr + len - 1) \<le> sint (maxaddr s) \<and>
     \<not> (sint HOLESTART \<le> sint ptr \<and> sint ptr < sint HOLEEND) \<and>
     \<not> (sint HOLESTART \<le> sint (ptr + len - 1) \<and> sint (ptr + len - 1) < sint HOLEEND) \<and>
     \<not> (sint (freemem s - KERNEL_STACK) \<le> sint ptr \<and> sint ptr < sint (freemem s))"
proof -
  have "OK \<noteq> SYSERR" "SYSERR \<noteq> OK" by (simp_all add: OK_def SYSERR_def)
  then show ?thesis unfolding verify_sysptr_def Let_def
    by (cases "0 < sint len") (auto simp: not_le not_less)
qed

lemma sint_end: "sint (ptr + len - 1 :: addr) = signed_take_bit 31 (sint ptr + sint len - 1)"
proof -
  have "ptr + len - 1 = word_of_int (sint ptr + sint len - 1)" by simp
  then have "sint (ptr + len - 1) = sint (word_of_int (sint ptr + sint len - 1) :: addr)" by (rule arg_cong)
  also have "\<dots> = signed_take_bit 31 (sint ptr + sint len - 1)" by (simp only: signed_of_int) simp
  finally show ?thesis .
qed

text \<open>C36. A pointer range that \<^verbatim>\<open>verify_sysptr\<close> accepts, and whose end does not pass
  \<open>2\<^sup>31\<close>, lies in memory: every byte of it is between 1 and \<^verbatim>\<open>maxaddr\<close>, none is in the hole when
  the range is not longer than the hole, and it does not begin in the kernel's stack.\<close>

theorem verify_sysptr_sound:
  assumes "verify_sysptr ptr len s = Some OK" "sint ptr + sint len \<le> 2 ^ 31"
    and "sint ptr \<le> x" "x < sint ptr + sint len"
  shows "0 < x \<and> x \<le> sint (maxaddr s) \<and>
    (sint len \<le> sint HOLEEND - sint HOLESTART \<longrightarrow> \<not> (sint HOLESTART \<le> x \<and> x < sint HOLEEND)) \<and>
    \<not> (sint (freemem s - KERNEL_STACK) \<le> sint ptr \<and> sint ptr < sint (freemem s))"
proof -
  from assms(1) have len: "0 < sint len"
    and p: "0 < sint ptr" and e: "sint (ptr + len - 1) \<le> sint (maxaddr s)"
    and h1: "\<not> (sint HOLESTART \<le> sint ptr \<and> sint ptr < sint HOLEEND)"
    and h2: "\<not> (sint HOLESTART \<le> sint (ptr + len - 1) \<and> sint (ptr + len - 1) < sint HOLEEND)"
    and k: "\<not> (sint (freemem s - KERNEL_STACK) \<le> sint ptr \<and> sint ptr < sint (freemem s))"
    unfolding verify_sysptr_iff by auto
  have "sint (ptr + len - 1) = sint ptr + sint len - 1"
    unfolding sint_end using p len assms(2) by (intro signed_take_bit_int_eq_self) simp_all
  with e h1 h2 k p len assms(3,4) show ?thesis by auto
qed

theorem verify_sysptr_sound_witness:
  "verify_sysptr 0x200000 100 (kmeminit boot_state) = Some OK \<and> 0x200005 \<le> sint (maxaddr (kmeminit boot_state))"
proof -
  have v: "verify_sysptr 0x200000 100 (kmeminit boot_state) = Some OK"
    by (simp add: verify_sysptr_def kmeminit_def boot_state_def Let_def OK_def SYSERR_def mem_const_defs)
  with verify_sysptr_sound [OF v, where x = "0x200005"] show ?thesis by simp
qed

text \<open>A range whose end passes \<open>2\<^sup>31\<close> is accepted, although it is not in memory: the end
  wraps to a negative address, which is below \<^verbatim>\<open>maxaddr\<close>.\<close>

theorem verify_sysptr_accepts_overflow:
  assumes "0 < sint ptr" "2 ^ 31 < sint ptr + sint len" "0 < sint len" "0 \<le> sint (maxaddr s)"
    and "\<not> (sint HOLESTART \<le> sint ptr \<and> sint ptr < sint HOLEEND)"
    and "\<not> (sint (freemem s - KERNEL_STACK) \<le> sint ptr \<and> sint ptr < sint (freemem s))"
  shows "verify_sysptr ptr len s = Some OK"
proof -
  have b: "sint ptr < 2 ^ 31" "sint len < 2 ^ 31" using sint_less [of ptr] sint_less [of len] by simp_all
  have d: "(sint ptr + sint len - 1) div 2 ^ 31 = 1"
    using b assms(1-3) by (intro int_div_pos_eq [of _ _ _ "sint ptr + sint len - 1 - 2 ^ 31"]) simp_all
  have "signed_take_bit 31 (sint ptr + sint len - 1) < 0"
    unfolding signed_take_bit_negative_iff bit_iff_odd d by simp
  then have "sint (ptr + len - 1) < 0" by (simp only: sint_end)
  with assms show ?thesis by (simp add: verify_sysptr_iff mem_const_defs)
qed

theorem verify_sysptr_accepts_overflow_witness:
  "verify_sysptr 0x200000 0x7FFFFFFF (kmeminit boot_state) = Some OK"
  by (rule verify_sysptr_accepts_overflow)
    (simp_all add: kmeminit_def boot_state_def Let_def mem_const_defs)

end
