(* ===== verification/Pcb_Queue.thy ===== *)
theory Pcb_Queue
  imports Xeros_Prelude
begin

text \<open>
  Process control blocks (\<^verbatim>\<open>h/xeroskernel.h\<close>) and the queues of them (\<^verbatim>\<open>h/pcb.h\<close>,
  \<^verbatim>\<open>c/pcbqueue.c\<close>). A PCB is addressed by its place: a slot of \<^verbatim>\<open>pcb_array\<close>, the idle process,
  or \<^verbatim>\<open>NULL\<close>, which has a cell of its own because a store through a null PCB pointer succeeds
  on this machine. The queues are the kernel's four, each with head, tail and size; the links
  are the \<^verbatim>\<open>next\<close> fields of the PCBs. The second half relates them to lists.
\<close>

unbundle bit_operations_syntax

section \<open>Constants\<close>

definition PCB_TABLE_SIZE :: nat where "PCB_TABLE_SIZE = 32"
definition SIGNAL_TABLE_SIZE :: i32 where "SIGNAL_TABLE_SIZE = 32"
definition PID_MAX :: u32 where "PID_MAX = 32768"
definition PCB_MAX_FDS :: nat where "PCB_MAX_FDS = 4"
definition MS_PER_CLOCK_TICK :: u32 where "MS_PER_CLOCK_TICK = 10"

section \<open>Data\<close>

datatype pcb_ptr = NullPcb | PcbSlot nat | IdlePcb

datatype proc_state =
  PROC_STATE_READY | PROC_STATE_STOPPED | PROC_STATE_RUNNING | PROC_STATE_BLOCKED

datatype blocked_status =
  BLOCKED_STATUS_NONE | BLOCKED_STATUS_SEND | BLOCKED_STATUS_RECEIVE | BLOCKED_STATUS_WAITING
| BLOCKED_STATUS_SLEEP | BLOCKED_STATUS_DEVICE

record pcb =
  p_pid :: u32
  p_state :: proc_state
  p_blocked_id :: u32
  p_blocked_status :: blocked_status
  p_next :: pcb_ptr
  p_stack_start :: addr
  p_esp :: addr
  p_ret :: i32
  p_cpu_time :: i32
  p_args :: addr
  p_signal_table :: addr
  p_signals_enabled :: u32
  p_signals_pending :: u32
  p_fd_table :: "nat \<Rightarrow> nat option"

record pcb_queue =
  q_head :: pcb_ptr
  q_tail :: pcb_ptr
  q_size :: i32

datatype queue_id = StoppedQueue | ReadyQueue | BlockedQueue | SleepQueue

record procs =
  pcbs :: "pcb_ptr \<Rightarrow> pcb"
  queues :: "queue_id \<Rightarrow> pcb_queue"

definition upd_pcb :: "pcb_ptr \<Rightarrow> (pcb \<Rightarrow> pcb) \<Rightarrow> procs \<Rightarrow> procs" where
  "upd_pcb p f s = s\<lparr>pcbs := (pcbs s)(p := f (pcbs s p))\<rparr>"

definition upd_queue :: "queue_id \<Rightarrow> (pcb_queue \<Rightarrow> pcb_queue) \<Rightarrow> procs \<Rightarrow> procs" where
  "upd_queue q f s = s\<lparr>queues := (queues s)(q := f (queues s q))\<rparr>"

lemma upd_simps [simp]:
  "pcbs (upd_pcb p f s) = (pcbs s)(p := f (pcbs s p))"
  "queues (upd_pcb p f s) = queues s"
  "pcbs (upd_queue q g s) = pcbs s"
  "queues (upd_queue q g s) = (queues s)(q := g (queues s q))"
  by (simp_all add: upd_pcb_def upd_queue_def)

section \<open>Operations\<close>

text \<open>The fields that \<^verbatim>\<open>init_pcb_queue\<close> sets; the allocation is in \<open>Pcb_Table\<close>.\<close>

definition empty_pcb_queue :: "queue_id \<Rightarrow> procs \<Rightarrow> procs" where
  "empty_pcb_queue q s = upd_queue q (\<lambda>u. u\<lparr>q_head := NullPcb, q_tail := NullPcb, q_size := 0\<rparr>) s"

definition pcb_size :: "queue_id \<Rightarrow> procs \<Rightarrow> i32" where
  "pcb_size q s = q_size (queues s q)"

definition pcb_poll :: "queue_id \<Rightarrow> procs \<Rightarrow> pcb_ptr \<times> procs" where
  "pcb_poll q s =
     (if q_head (queues s q) = NullPcb then (NullPcb, s)
      else
        let s = upd_queue q (\<lambda>u. u\<lparr>q_size := q_size u - 1\<rparr>) s;
            node = q_head (queues s q);
            s = upd_queue q (\<lambda>u. u\<lparr>q_head := p_next (pcbs s (q_head u))\<rparr>) s;
            s = (if q_head (queues s q) = NullPcb then upd_queue q (\<lambda>u. u\<lparr>q_tail := NullPcb\<rparr>) s else s);
            s = upd_pcb node (\<lambda>p. p\<lparr>p_next := NullPcb\<rparr>) s
        in (node, s))"

definition pcb_peek :: "queue_id \<Rightarrow> procs \<Rightarrow> pcb_ptr" where
  "pcb_peek q s = q_head (queues s q)"

definition pcb_offer :: "queue_id \<Rightarrow> pcb_ptr \<Rightarrow> procs \<Rightarrow> procs" where
  "pcb_offer q entry s =
     (let s = upd_queue q (\<lambda>u. u\<lparr>q_size := q_size u + 1\<rparr>) s in
      if q_head (queues s q) = NullPcb then
        let s = upd_queue q (\<lambda>u. u\<lparr>q_head := entry, q_tail := entry\<rparr>) s
        in upd_pcb entry (\<lambda>p. p\<lparr>p_next := NullPcb\<rparr>) s
      else
        let s = upd_pcb (q_tail (queues s q)) (\<lambda>p. p\<lparr>p_next := entry\<rparr>) s;
            s = upd_queue q (\<lambda>u. u\<lparr>q_tail := p_next (pcbs s (q_tail u))\<rparr>) s
        in upd_pcb entry (\<lambda>p. p\<lparr>p_next := NullPcb\<rparr>) s)"

partial_function (option) pcb_find ::
  "(pcb_ptr \<Rightarrow> pcb) \<Rightarrow> pcb_ptr \<Rightarrow> pcb_ptr \<Rightarrow> pcb_ptr \<Rightarrow> (pcb_ptr \<times> pcb_ptr) option" where
  "pcb_find ps entry prev cur =
     (if cur \<noteq> NullPcb \<and> cur \<noteq> entry then pcb_find ps entry cur (p_next (ps cur))
      else Some (prev, cur))"

definition pcb_remove :: "queue_id \<Rightarrow> pcb_ptr \<Rightarrow> procs \<Rightarrow> (bool \<times> procs) option" where
  "pcb_remove q entry s = do {
     (prev, cur) \<leftarrow> pcb_find (pcbs s) entry NullPcb (q_head (queues s q));
     Some (
       if cur = NullPcb then (False, s)
       else if prev = NullPcb then (True, snd (pcb_poll q s))
       else
         let s = (if p_next (pcbs s cur) = NullPcb then upd_queue q (\<lambda>u. u\<lparr>q_tail := prev\<rparr>) s else s);
             nxt = p_next (pcbs s cur);
             s = upd_pcb prev (\<lambda>p. p\<lparr>p_next := nxt\<rparr>) s;
             s = upd_pcb cur (\<lambda>p. p\<lparr>p_next := NullPcb\<rparr>) s
         in (True, upd_queue q (\<lambda>u. u\<lparr>q_size := q_size u - 1\<rparr>) s))
   }"

text \<open>\<^verbatim>\<open>dump_pcb_queue\<close>: the lines it prints, a pair of pid and ret for every PCB of the chain.\<close>

partial_function (option) dump_chain :: "(pcb_ptr \<Rightarrow> pcb) \<Rightarrow> pcb_ptr \<Rightarrow> (u32 \<times> i32) list option" where
  "dump_chain ps cur =
     (if cur \<noteq> NullPcb then do {
        rest \<leftarrow> dump_chain ps (p_next (ps cur));
        Some ((p_pid (ps cur), p_ret (ps cur)) # rest)
      } else Some [])"

definition dump_pcb_queue :: "queue_id \<Rightarrow> procs \<Rightarrow> (u32 \<times> i32) list option" where
  "dump_pcb_queue q s = dump_chain (pcbs s) (q_head (queues s q))"

section \<open>Queues as lists\<close>

fun chain :: "(pcb_ptr \<Rightarrow> pcb) \<Rightarrow> pcb_ptr \<Rightarrow> pcb_ptr list \<Rightarrow> pcb_ptr \<Rightarrow> bool" where
  "chain ps c [] d \<longleftrightarrow> c = d"
| "chain ps c (x # xs) d \<longleftrightarrow> c = x \<and> x \<noteq> NullPcb \<and> chain ps (p_next (ps x)) xs d"

definition queue_repr :: "procs \<Rightarrow> queue_id \<Rightarrow> pcb_ptr list \<Rightarrow> bool" where
  "queue_repr s q xs \<longleftrightarrow> chain (pcbs s) (q_head (queues s q)) xs NullPcb \<and> distinct xs \<and>
     q_tail (queues s q) = (if xs = [] then NullPcb else last xs) \<and>
     q_size (queues s q) = of_nat (length xs)"

text \<open>All four queues at once: disjoint, and a PCB outside them has no successor.\<close>

definition queues_repr :: "procs \<Rightarrow> (queue_id \<Rightarrow> pcb_ptr list) \<Rightarrow> bool" where
  "queues_repr s L \<longleftrightarrow> (\<forall>q. queue_repr s q (L q)) \<and>
     (\<forall>q r. q \<noteq> r \<longrightarrow> set (L q) \<inter> set (L r) = {}) \<and>
     (\<forall>p. (\<forall>q. p \<notin> set (L q)) \<longrightarrow> p \<noteq> NullPcb \<longrightarrow> p_next (pcbs s p) = NullPcb)"

text \<open>Two process tables that differ at most in the links.\<close>

definition same_but_next :: "procs \<Rightarrow> procs \<Rightarrow> bool" where
  "same_but_next s s' \<longleftrightarrow> (\<forall>p. (pcbs s' p)\<lparr>p_next := NullPcb\<rparr> = (pcbs s p)\<lparr>p_next := NullPcb\<rparr>)"

lemma chain_append: "chain ps c (xs @ ys) d \<longleftrightarrow> (\<exists>e. chain ps c xs e \<and> chain ps e ys d)"
  by (induction xs arbitrary: c) auto

lemma chain_cong:
  "(\<And>x. x \<in> set xs \<Longrightarrow> p_next (ps' x) = p_next (ps x)) \<Longrightarrow> chain ps' c xs d = chain ps c xs d"
  by (induction xs arbitrary: c) auto

lemma chain_upd [simp]: "w \<notin> set xs \<Longrightarrow> chain (ps(w := v)) c xs d = chain ps c xs d"
  by (rule chain_cong) auto

lemma chain_nonnull: "chain ps c xs d \<Longrightarrow> NullPcb \<notin> set xs"
  by (induction xs arbitrary: c) auto

lemma chain_Null: "chain ps NullPcb xs NullPcb \<longleftrightarrow> xs = []"
  by (cases xs) auto

lemma chain_head: "chain ps c xs NullPcb \<Longrightarrow> c = (case xs of [] \<Rightarrow> NullPcb | x # _ \<Rightarrow> x)"
  by (cases xs) auto

lemma chain_snoc: "chain ps c (xs @ [w]) d \<longleftrightarrow> chain ps c xs w \<and> w \<noteq> NullPcb \<and> p_next (ps w) = d"
  by (auto simp: chain_append)

text \<open>Each operation on a represented queue, in closed form.\<close>

lemma pcb_poll_empty: "queue_repr s q [] \<Longrightarrow> pcb_poll q s = (NullPcb, s)"
  by (simp add: queue_repr_def pcb_poll_def)

lemma pcb_poll_Cons:
  assumes "queue_repr s q (x # xs)" "pcb_poll q s = (y, s')"
  shows "y = x" "queue_repr s' q xs" "pcbs s' = (pcbs s)(x := (pcbs s x)\<lparr>p_next := NullPcb\<rparr>)"
    "\<And>r. r \<noteq> q \<Longrightarrow> queues s' r = queues s r"
  using assms by (auto simp: queue_repr_def pcb_poll_def Let_def fun_eq_iff chain_Null split: if_splits)

lemma pcb_offer_repr:
  assumes "queue_repr s q xs" "e \<noteq> NullPcb" "e \<notin> set xs"
  shows "queue_repr (pcb_offer q e s) q (xs @ [e])"
    "pcbs (pcb_offer q e s) = (let ps = (if xs = [] then pcbs s else
        (pcbs s)(last xs := (pcbs s (last xs))\<lparr>p_next := e\<rparr>)) in ps(e := (ps e)\<lparr>p_next := NullPcb\<rparr>))"
    "\<And>r. r \<noteq> q \<Longrightarrow> queues (pcb_offer q e s) r = queues s r"
proof -
  have "queue_repr (pcb_offer q e s) q (xs @ [e]) \<and>
    pcbs (pcb_offer q e s) = (let ps = (if xs = [] then pcbs s else
        (pcbs s)(last xs := (pcbs s (last xs))\<lparr>p_next := e\<rparr>)) in ps(e := (ps e)\<lparr>p_next := NullPcb\<rparr>)) \<and>
    (\<forall>r. r \<noteq> q \<longrightarrow> queues (pcb_offer q e s) r = queues s r)"
  proof (cases xs rule: rev_cases)
    case Nil
    with assms show ?thesis
      by (auto simp: queue_repr_def pcb_offer_def Let_def upd_pcb_def upd_queue_def)
  next
    case (snoc ws w)
    have c: "chain (pcbs s) (q_head (queues s q)) ws w" "w \<noteq> NullPcb" "w \<noteq> e" "e \<notin> set ws" "w \<notin> set ws"
      using assms snoc by (auto simp: queue_repr_def chain_snoc)
    have h: "q_head (queues s q) \<noteq> NullPcb"
      using assms(1) snoc chain_Null by (fastforce simp: queue_repr_def)
    have t: "q_tail (queues s q) = w" using assms(1) snoc by (simp add: queue_repr_def)
    show ?thesis
      using assms c h t snoc
      by (auto simp: queue_repr_def pcb_offer_def Let_def chain_append upd_pcb_def upd_queue_def)
  qed
  then show "queue_repr (pcb_offer q e s) q (xs @ [e])"
    "pcbs (pcb_offer q e s) = (let ps = (if xs = [] then pcbs s else
        (pcbs s)(last xs := (pcbs s (last xs))\<lparr>p_next := e\<rparr>)) in ps(e := (ps e)\<lparr>p_next := NullPcb\<rparr>))"
    "\<And>r. r \<noteq> q \<Longrightarrow> queues (pcb_offer q e s) r = queues s r" by blast+
qed

lemma pcb_find_chain:
  assumes "chain ps c xs NullPcb"
  shows "pcb_find ps e p c = Some (if e \<in> set xs
    then (let ws = takeWhile (\<lambda>x. x \<noteq> e) xs in if ws = [] then p else last ws, e)
    else (if xs = [] then p else last xs, NullPcb))"
  using assms
proof (induction xs arbitrary: p c)
  case Nil
  then show ?case by (subst pcb_find.simps) simp
next
  case (Cons x xs)
  show ?case
  proof (cases "x = e")
    case True
    with Cons.prems show ?thesis by (subst pcb_find.simps) simp
  next
    case False
    with Cons show ?thesis by (subst pcb_find.simps) (auto simp: Let_def)
  qed
qed

lemma pcb_remove_absent:
  assumes "queue_repr s q xs" "e \<notin> set xs"
  shows "pcb_remove q e s = Some (False, s)"
  using assms pcb_find_chain [of "pcbs s" "q_head (queues s q)" xs e NullPcb]
  by (simp add: pcb_remove_def queue_repr_def)

lemma pcb_remove_head:
  assumes "queue_repr s q (e # xs)"
  shows "pcb_remove q e s = Some (True, snd (pcb_poll q s))"
proof -
  have "e \<noteq> NullPcb" using assms by (simp add: queue_repr_def)
  with assms show ?thesis
    by (simp add: pcb_remove_def queue_repr_def pcb_find_chain [where xs = "e # xs"])
qed

lemma pcb_remove_inner:
  assumes "queue_repr s q (ws @ w # e # ys)"
  shows "\<exists>s'. pcb_remove q e s = Some (True, s') \<and> queue_repr s' q (ws @ w # ys) \<and>
    pcbs s' = (pcbs s)(w := (pcbs s w)\<lparr>p_next := p_next (pcbs s e)\<rparr>, e := (pcbs s e)\<lparr>p_next := NullPcb\<rparr>) \<and>
    (\<forall>r. r \<noteq> q \<longrightarrow> queues s' r = queues s r)"
proof -
  let ?xs = "ws @ w # e # ys"
  have d: "e \<notin> set ws" "e \<notin> set ys" "w \<noteq> e" "w \<notin> set ws" "w \<notin> set ys" "distinct (ws @ w # ys)"
    and c: "chain (pcbs s) (q_head (queues s q)) ?xs NullPcb"
    and sz: "q_size (queues s q) = of_nat (length ?xs)" "q_tail (queues s q) = last ?xs"
    using assms by (auto simp: queue_repr_def)
  from c have c': "chain (pcbs s) (q_head (queues s q)) ws w" "w \<noteq> NullPcb" "e \<noteq> NullPcb"
    "chain (pcbs s) (p_next (pcbs s e)) ys NullPcb" by (auto simp: chain_append)
  have tw: "takeWhile (\<lambda>x. x \<noteq> e) ?xs = ws @ [w]" using d by (subst takeWhile_append2) auto
  have f: "pcb_find (pcbs s) e NullPcb (q_head (queues s q)) = Some (w, e)"
    using pcb_find_chain [OF c, of e NullPcb] tw by simp
  have n: "p_next (pcbs s e) = NullPcb \<longleftrightarrow> ys = []"
    using c'(4) by (cases ys) auto
  show ?thesis
    using d c' sz n
    by (cases "ys = []")
      (auto simp: pcb_remove_def f Let_def queue_repr_def chain_append upd_pcb_def upd_queue_def)
qed

text \<open>The operations on all four queues.\<close>

lemma same_but_nextI:
  "(\<And>p. (pcbs s' p)\<lparr>p_next := NullPcb\<rparr> = (pcbs s p)\<lparr>p_next := NullPcb\<rparr>) \<Longrightarrow> same_but_next s s'"
  by (simp add: same_but_next_def)

lemma same_but_next_refl [simp]: "same_but_next s s"
  by (simp add: same_but_next_def)

lemma same_but_next_trans [trans]: "same_but_next s t \<Longrightarrow> same_but_next t u \<Longrightarrow> same_but_next s u"
  by (simp add: same_but_next_def)

lemma same_but_next_fields:
  assumes "same_but_next s s'"
  shows "p_pid (pcbs s' p) = p_pid (pcbs s p)"
    "p_state (pcbs s' p) = p_state (pcbs s p)"
    "p_blocked_id (pcbs s' p) = p_blocked_id (pcbs s p)"
    "p_blocked_status (pcbs s' p) = p_blocked_status (pcbs s p)"
    "p_ret (pcbs s' p) = p_ret (pcbs s p)"
    "p_cpu_time (pcbs s' p) = p_cpu_time (pcbs s p)"
    "p_stack_start (pcbs s' p) = p_stack_start (pcbs s p)"
    "p_esp (pcbs s' p) = p_esp (pcbs s p)"
    "p_args (pcbs s' p) = p_args (pcbs s p)"
    "p_signal_table (pcbs s' p) = p_signal_table (pcbs s p)"
    "p_signals_enabled (pcbs s' p) = p_signals_enabled (pcbs s p)"
    "p_signals_pending (pcbs s' p) = p_signals_pending (pcbs s p)"
    "p_fd_table (pcbs s' p) = p_fd_table (pcbs s p)"
proof -
  have eq: "(pcbs s' p)\<lparr>p_next := NullPcb\<rparr> = (pcbs s p)\<lparr>p_next := NullPcb\<rparr>"
    using assms by (simp add: same_but_next_def)
  show "p_pid (pcbs s' p) = p_pid (pcbs s p)" using arg_cong [OF eq, of p_pid] by simp
  show "p_state (pcbs s' p) = p_state (pcbs s p)" using arg_cong [OF eq, of p_state] by simp
  show "p_blocked_id (pcbs s' p) = p_blocked_id (pcbs s p)" using arg_cong [OF eq, of p_blocked_id] by simp
  show "p_blocked_status (pcbs s' p) = p_blocked_status (pcbs s p)" using arg_cong [OF eq, of p_blocked_status] by simp
  show "p_ret (pcbs s' p) = p_ret (pcbs s p)" using arg_cong [OF eq, of p_ret] by simp
  show "p_cpu_time (pcbs s' p) = p_cpu_time (pcbs s p)" using arg_cong [OF eq, of p_cpu_time] by simp
  show "p_stack_start (pcbs s' p) = p_stack_start (pcbs s p)" using arg_cong [OF eq, of p_stack_start] by simp
  show "p_esp (pcbs s' p) = p_esp (pcbs s p)" using arg_cong [OF eq, of p_esp] by simp
  show "p_args (pcbs s' p) = p_args (pcbs s p)" using arg_cong [OF eq, of p_args] by simp
  show "p_signal_table (pcbs s' p) = p_signal_table (pcbs s p)" using arg_cong [OF eq, of p_signal_table] by simp
  show "p_signals_enabled (pcbs s' p) = p_signals_enabled (pcbs s p)" using arg_cong [OF eq, of p_signals_enabled] by simp
  show "p_signals_pending (pcbs s' p) = p_signals_pending (pcbs s p)" using arg_cong [OF eq, of p_signals_pending] by simp
  show "p_fd_table (pcbs s' p) = p_fd_table (pcbs s p)" using arg_cong [OF eq, of p_fd_table] by simp
qed

lemma queues_repr_change:
  assumes rep: "queues_repr s L" and q: "queue_repr s' q xs"
    and other: "\<And>r. r \<noteq> q \<Longrightarrow> queues s' r = queues s r"
    and frame: "\<And>r x. r \<noteq> q \<Longrightarrow> x \<in> set (L r) \<Longrightarrow> p_next (pcbs s' x) = p_next (pcbs s x)"
    and disj: "\<And>r. r \<noteq> q \<Longrightarrow> set xs \<inter> set (L r) = {}"
    and outside: "\<And>p. p \<notin> set xs \<Longrightarrow> (\<forall>r. r \<noteq> q \<longrightarrow> p \<notin> set (L r)) \<Longrightarrow> p \<noteq> NullPcb \<Longrightarrow> p_next (pcbs s' p) = NullPcb"
  shows "queues_repr s' (L(q := xs))"
proof -
  have "queue_repr s' r (L r)" if "r \<noteq> q" for r
    using rep other [OF that] chain_cong [of "L r" "pcbs s'" "pcbs s"] frame [OF that]
    by (simp add: queues_repr_def queue_repr_def)
  moreover have "set (L r) \<inter> set xs = {}" if "r \<noteq> q" for r using disj [OF that] by blast
  ultimately show ?thesis
    using rep q disj outside unfolding queues_repr_def by (auto 0 0)
qed

lemma poll_queues:
  assumes rep: "queues_repr s L" and res: "pcb_poll q s = (y, s')"
  shows "L q = [] \<and> y = NullPcb \<and> s' = s \<or>
    (\<exists>xs. L q = y # xs \<and> y \<noteq> NullPcb \<and> queues_repr s' (L(q := xs)) \<and> same_but_next s s')"
proof (cases "L q")
  case Nil
  then have "queue_repr s q []" using rep by (metis queues_repr_def)
  with Nil res pcb_poll_empty [of s q] show ?thesis by simp
next
  case (Cons x xs)
  have r: "queue_repr s q (x # xs)" using rep Cons by (metis queues_repr_def)
  note P = pcb_poll_Cons [OF r res]
  have d: "x \<notin> set xs" "x \<noteq> NullPcb" using r by (auto simp: queue_repr_def)
  have nx: "x \<notin> set (L r)" if "r \<noteq> q" for r using rep Cons that by (fastforce simp: queues_repr_def)
  have "queues_repr s' (L(q := xs))"
  proof (rule queues_repr_change [OF rep P(2,4)])
    show "p_next (pcbs s' z) = p_next (pcbs s z)" if "r \<noteq> q" "z \<in> set (L r)" for r z
      using nx that P(3) by auto
    show "set xs \<inter> set (L r) = {}" if "r \<noteq> q" for r
      using rep Cons that by (fastforce simp: queues_repr_def)
    show "p_next (pcbs s' p) = NullPcb" if "p \<notin> set xs" "\<forall>r. r \<noteq> q \<longrightarrow> p \<notin> set (L r)" "p \<noteq> NullPcb" for p
    proof (cases "p = x")
      case False
      then have "\<forall>r. p \<notin> set (L r)" using that Cons by (metis set_ConsD)
      with rep that False P(3) show ?thesis by (simp add: queues_repr_def)
    qed (simp add: P(3))
  qed
  moreover have "same_but_next s s'" by (rule same_but_nextI) (auto simp: P(3))
  ultimately show ?thesis using Cons P(1) d by blast
qed

lemma offer_queues:
  assumes rep: "queues_repr s L" and e: "e \<noteq> NullPcb" "\<And>r. e \<notin> set (L r)"
  shows "queues_repr (pcb_offer q e s) (L(q := L q @ [e]))" "same_but_next s (pcb_offer q e s)"
proof -
  have r: "queue_repr s q (L q)" using rep by (simp add: queues_repr_def)
  note P = pcb_offer_repr [OF r e(1) e(2)]
  show "same_but_next s (pcb_offer q e s)" by (rule same_but_nextI) (auto simp: P(2) Let_def)
  show "queues_repr (pcb_offer q e s) (L(q := L q @ [e]))"
  proof (rule queues_repr_change [OF rep P(1,3)])
    have l: "last (L q) \<notin> set (L r)" if "r \<noteq> q" "L q \<noteq> []" for r
      using rep that last_in_set [OF that(2)] by (fastforce simp: queues_repr_def)
    show "p_next (pcbs (pcb_offer q e s) z) = p_next (pcbs s z)" if "r \<noteq> q" "z \<in> set (L r)" for r z
      using l [OF that(1)] that e(2) by (auto simp: P(2) Let_def)
    show "set (L q @ [e]) \<inter> set (L r) = {}" if "r \<noteq> q" for r
      using rep e(2) that by (fastforce simp: queues_repr_def)
    show "p_next (pcbs (pcb_offer q e s) p) = NullPcb"
      if "p \<notin> set (L q @ [e])" "\<forall>r. r \<noteq> q \<longrightarrow> p \<notin> set (L r)" "p \<noteq> NullPcb" for p
    proof -
      have "\<forall>r. p \<notin> set (L r)" using that by auto
      then have "p_next (pcbs s p) = NullPcb" using rep that(3) by (simp add: queues_repr_def)
      with that(1) show ?thesis by (auto simp: P(2) Let_def)
    qed
  qed
qed

lemma remove_queues:
  assumes rep: "queues_repr s L"
  shows "\<exists>s'. pcb_remove q e s = Some (e \<in> set (L q), s') \<and> queues_repr s' (L(q := remove1 e (L q))) \<and>
    same_but_next s s'"
proof (cases "e \<in> set (L q)")
  case False
  have r: "queue_repr s q (L q)" using rep by (simp add: queues_repr_def)
  from pcb_remove_absent [OF r False] False rep show ?thesis by (simp add: remove1_idem)
next
  case True
  then obtain ws ys where L: "L q = ws @ e # ys" "e \<notin> set ws" by (metis split_list_first)
  have r: "queue_repr s q (ws @ e # ys)" using rep L(1) by (metis queues_repr_def)
  have rm: "remove1 e (L q) = ws @ ys" using L by (simp add: remove1_append)
  show ?thesis
  proof (cases ws rule: rev_cases)
    case Nil
    obtain s' where s': "pcb_poll q s = (e, s')"
      using pcb_poll_Cons(1) [of s q e ys] r Nil by (metis append_Nil prod.exhaust)
    from poll_queues [OF rep s'] L Nil pcb_remove_head [of s q e ys] r s' rm True show ?thesis by auto
  next
    case (snoc vs w)
    then have r': "queue_repr s q (vs @ w # e # ys)" using r by simp
    from pcb_remove_inner [OF r'] obtain s' where
      s': "pcb_remove q e s = Some (True, s')" "queue_repr s' q (vs @ w # ys)"
        "pcbs s' = (pcbs s)(w := (pcbs s w)\<lparr>p_next := p_next (pcbs s e)\<rparr>, e := (pcbs s e)\<lparr>p_next := NullPcb\<rparr>)"
      and o: "\<And>r. r \<noteq> q \<Longrightarrow> queues s' r = queues s r" by blast
    have Lq: "L q = vs @ w # e # ys" using L snoc by simp
    have nx: "w \<notin> set (L r)" "e \<notin> set (L r)" "set (vs @ w # ys) \<inter> set (L r) = {}" if "r \<noteq> q" for r
      using rep Lq that unfolding queues_repr_def by fastforce+
    have "queues_repr s' (L(q := vs @ w # ys))"
    proof (rule queues_repr_change [OF rep s'(2) o])
      show "p_next (pcbs s' z) = p_next (pcbs s z)" if "r \<noteq> q" "z \<in> set (L r)" for r z
        using nx [OF that(1)] that(2) s'(3) by auto
      show "set (vs @ w # ys) \<inter> set (L r) = {}" if "r \<noteq> q" for r using nx [OF that] by simp
      show "p_next (pcbs s' p) = NullPcb"
        if "p \<notin> set (vs @ w # ys)" "\<forall>r. r \<noteq> q \<longrightarrow> p \<notin> set (L r)" "p \<noteq> NullPcb" for p
      proof (cases "p = e")
        case False
        then have "p \<notin> set (L q)" using that Lq by auto
        then have "\<forall>r. p \<notin> set (L r)" using that by metis
        with rep that False s'(3) show ?thesis by (simp add: queues_repr_def)
      qed (simp add: s'(3))
    qed
    moreover have "same_but_next s s'" by (rule same_but_nextI) (auto simp: s'(3))
    ultimately show ?thesis using s'(1) True rm snoc by auto
  qed
qed

end
