(* ===== verification/Pcb_Table.thy ===== *)
theory Pcb_Table
  imports Pcb_Queue
begin

text \<open>
  The process table, \<^verbatim>\<open>c/pcb.c\<close>, on the queues of \<open>Pcb_Queue\<close>: the operations that
  schedule, block and unblock processes, with the effect of each on the four queues taken as
  lists. Start-up, clean-up and the status report need the heap and are in \<open>Processes\<close>.
\<close>

unbundle bit_operations_syntax

section \<open>Operations\<close>

definition add_pcb_to_stopped_queue :: "pcb_ptr \<Rightarrow> procs \<Rightarrow> procs" where
  "add_pcb_to_stopped_queue p s =
     (let s = upd_pcb p (\<lambda>u. u\<lparr>p_pid := (p_pid u + of_nat PCB_TABLE_SIZE - 1) mod PID_MAX + 1\<rparr>) s;
          s = upd_pcb p (\<lambda>u. u\<lparr>p_cpu_time := 0\<rparr>) s;
          s = upd_pcb p (\<lambda>u. u\<lparr>p_state := PROC_STATE_STOPPED\<rparr>) s
      in pcb_offer StoppedQueue p s)"

definition add_pcb_to_ready_queue :: "pcb_ptr \<Rightarrow> procs \<Rightarrow> procs option" where
  "add_pcb_to_ready_queue p s = do {
     ASSERT (p \<noteq> NullPcb);
     let s = upd_pcb p (\<lambda>u. u\<lparr>p_state := PROC_STATE_READY\<rparr>) s;
     let s = upd_pcb p (\<lambda>u. u\<lparr>p_blocked_status := BLOCKED_STATUS_NONE\<rparr>) s;
     Some (pcb_offer ReadyQueue p s)
   }"

definition remove_pcb_from_ready_queue :: "pcb_ptr \<Rightarrow> procs \<Rightarrow> (bool \<times> procs) option" where
  "remove_pcb_from_ready_queue p s = do { ASSERT (p \<noteq> NullPcb); pcb_remove ReadyQueue p s }"

definition add_pcb_to_blocked_queue :: "pcb_ptr \<Rightarrow> procs \<Rightarrow> procs option" where
  "add_pcb_to_blocked_queue p s = do {
     ASSERT (p \<noteq> NullPcb);
     let s = upd_pcb p (\<lambda>u. u\<lparr>p_state := PROC_STATE_BLOCKED\<rparr>) s;
     Some (pcb_offer BlockedQueue p s)
   }"

definition remove_pcb_from_blocked_queue :: "pcb_ptr \<Rightarrow> procs \<Rightarrow> (bool \<times> procs) option" where
  "remove_pcb_from_blocked_queue p s = do { ASSERT (p \<noteq> NullPcb); pcb_remove BlockedQueue p s }"

text \<open>The loop shared by the two peeks: rotate the whole blocked queue, keep the first match.\<close>

fun peek_loop :: "nat \<Rightarrow> (pcb \<Rightarrow> bool) \<Rightarrow> pcb_ptr \<Rightarrow> procs \<Rightarrow> pcb_ptr \<times> procs" where
  "peek_loop 0 P result s = (result, s)"
| "peek_loop (Suc n) P result s =
     (let (entry, s) = pcb_poll BlockedQueue s;
          result = (if result = NullPcb \<and> P (pcbs s entry) then entry else result)
      in peek_loop n P result (pcb_offer BlockedQueue entry s))"

definition peek_next_sender :: "procs \<Rightarrow> pcb_ptr \<times> procs" where
  "peek_next_sender s = peek_loop (nat (sint (pcb_size BlockedQueue s)))
     (\<lambda>u. p_blocked_status u = BLOCKED_STATUS_SEND) NullPcb s"

definition peek_any_receiver :: "procs \<Rightarrow> pcb_ptr \<times> procs" where
  "peek_any_receiver s = peek_loop (nat (sint (pcb_size BlockedQueue s)))
     (\<lambda>u. p_blocked_id u = 0) NullPcb s"

fun unblock_loop :: "nat \<Rightarrow> u32 \<Rightarrow> procs \<Rightarrow> procs option" where
  "unblock_loop 0 pid s = Some s"
| "unblock_loop (Suc n) pid s = do {
     let (entry, s) = pcb_poll BlockedQueue s;
     s \<leftarrow> (if p_blocked_id (pcbs s entry) = pid
           then add_pcb_to_ready_queue entry (upd_pcb entry (\<lambda>u. u\<lparr>p_blocked_id := 0\<rparr>) s)
           else add_pcb_to_blocked_queue entry s);
     unblock_loop n pid s
   }"

definition unblock_pcb_waiting_for_pid :: "u32 \<Rightarrow> procs \<Rightarrow> procs option" where
  "unblock_pcb_waiting_for_pid pid s = unblock_loop (nat (sint (pcb_size BlockedQueue s))) pid s"

definition get_next_pcb :: "procs \<Rightarrow> pcb_ptr \<times> procs" where
  "get_next_pcb s =
     (let (next_pcb, s) = pcb_poll ReadyQueue s;
          s = upd_pcb next_pcb (\<lambda>u. u\<lparr>p_state := PROC_STATE_RUNNING\<rparr>) s;
          s = upd_pcb next_pcb (\<lambda>u. u\<lparr>p_cpu_time := p_cpu_time u + 1\<rparr>) s
      in (next_pcb, s))"

definition get_free_pcb :: "procs \<Rightarrow> pcb_ptr \<times> procs" where
  "get_free_pcb s = pcb_poll StoppedQueue s"

definition pid_to_pcb :: "u32 \<Rightarrow> procs \<Rightarrow> pcb_ptr" where
  "pid_to_pcb pid s =
     (if 1 \<le> pid then
        let p = PcbSlot (unat ((pid - 1) mod of_nat PCB_TABLE_SIZE)) in
        if p_state (pcbs s p) \<noteq> PROC_STATE_STOPPED then p else NullPcb
      else NullPcb)"

section \<open>The sleep queue, c/sleep.c\<close>

text \<open>The walk of \<^verbatim>\<open>add_pcb_to_sleep_queue\<close>, which takes the deltas it passes off the entry's.\<close>

partial_function (option) sleep_find ::
  "pcb_ptr \<Rightarrow> procs \<Rightarrow> pcb_ptr \<Rightarrow> pcb_ptr \<Rightarrow> (procs \<times> pcb_ptr \<times> pcb_ptr) option" where
  "sleep_find entry s prev cur =
     (if cur \<noteq> NullPcb \<and> sint (p_ret (pcbs s cur)) < sint (p_ret (pcbs s entry))
      then
        let s = upd_pcb entry (\<lambda>u. u\<lparr>p_ret := p_ret u - p_ret (pcbs s cur)\<rparr>) s
        in sleep_find entry s cur (p_next (pcbs s cur))
      else Some (s, prev, cur))"

definition add_pcb_to_sleep_queue :: "pcb_ptr \<Rightarrow> procs \<Rightarrow> procs option" where
  "add_pcb_to_sleep_queue entry s = do {
     ASSERT (p_next (pcbs s entry) = NullPcb);
     let s = upd_pcb entry (\<lambda>u. u\<lparr>p_state := PROC_STATE_BLOCKED\<rparr>) s;
     let s = upd_pcb entry (\<lambda>u. u\<lparr>p_blocked_status := BLOCKED_STATUS_SLEEP\<rparr>) s;
     (s, prev, cur) \<leftarrow> sleep_find entry s NullPcb (q_head (queues s SleepQueue));
     Some (
       if cur = NullPcb then pcb_offer SleepQueue entry s
       else
         let s = upd_pcb cur (\<lambda>u. u\<lparr>p_ret := p_ret u - p_ret (pcbs s entry)\<rparr>) s;
             s = upd_pcb entry (\<lambda>u. u\<lparr>p_next := cur\<rparr>) s;
             s = upd_queue SleepQueue (\<lambda>u. u\<lparr>q_size := q_size u + 1\<rparr>) s
         in if prev = NullPcb then upd_queue SleepQueue (\<lambda>u. u\<lparr>q_head := entry\<rparr>) s
            else upd_pcb prev (\<lambda>u. u\<lparr>p_next := entry\<rparr>) s)
   }"

definition remove_pcb_from_sleep_queue :: "pcb_ptr \<Rightarrow> procs \<Rightarrow> (bool \<times> procs) option" where
  "remove_pcb_from_sleep_queue p s = pcb_remove SleepQueue p s"

definition peek_pcb_from_sleep_queue :: "procs \<Rightarrow> pcb_ptr" where
  "peek_pcb_from_sleep_queue s = pcb_peek SleepQueue s"

definition sleep :: "pcb_ptr \<Rightarrow> u32 \<Rightarrow> procs \<Rightarrow> procs option" where
  "sleep p milliseconds s =
     add_pcb_to_sleep_queue p (upd_pcb p (\<lambda>u. u\<lparr>p_ret :=
       milliseconds div MS_PER_CLOCK_TICK + (if milliseconds mod MS_PER_CLOCK_TICK \<noteq> 0 then 1 else 0)\<rparr>) s)"

definition wake :: "pcb_ptr \<Rightarrow> procs \<Rightarrow> procs option" where
  "wake p s = do {
     (_, s) \<leftarrow> remove_pcb_from_sleep_queue p s;
     add_pcb_to_ready_queue p s
   }"

partial_function (option) tick_loop :: "pcb_ptr \<Rightarrow> procs \<Rightarrow> procs option" where
  "tick_loop head s =
     (if head \<noteq> NullPcb \<and> sint (p_ret (pcbs s head)) \<le> 0 then do {
        s \<leftarrow> wake head s;
        tick_loop (peek_pcb_from_sleep_queue s) s
      } else Some s)"

definition tick :: "procs \<Rightarrow> procs option" where
  "tick s =
     (let head = peek_pcb_from_sleep_queue s in
      if head = NullPcb then Some s
      else tick_loop head (upd_pcb head (\<lambda>u. u\<lparr>p_ret := p_ret u - 1\<rparr>) s))"

definition dump_stopped_queue :: "procs \<Rightarrow> (u32 \<times> i32) list option" where
  "dump_stopped_queue s = dump_pcb_queue StoppedQueue s"
definition dump_ready_queue :: "procs \<Rightarrow> (u32 \<times> i32) list option" where
  "dump_ready_queue s = dump_pcb_queue ReadyQueue s"
definition dump_blocked_queue :: "procs \<Rightarrow> (u32 \<times> i32) list option" where
  "dump_blocked_queue s = dump_pcb_queue BlockedQueue s"
definition dump_sleep_queue :: "procs \<Rightarrow> (u32 \<times> i32) list option" where
  "dump_sleep_queue s = dump_pcb_queue SleepQueue s"

section \<open>Effects on the queues\<close>

lemma queues_repr_ext: "queues_repr s L \<Longrightarrow> (\<And>q. L q = M q) \<Longrightarrow> queues_repr s M"
  using ext [of L M] by simp

lemma queues_repr_upd:
  assumes "\<And>u. p_next (f u) = p_next u"
  shows "queues_repr (upd_pcb p f s) L = queues_repr s L"
proof -
  have "p_next (pcbs (upd_pcb p f s) x) = p_next (pcbs s x)" for x using assms by simp
  then have "queue_repr (upd_pcb p f s) q xs = queue_repr s q xs" for q xs
    using chain_cong [of xs "pcbs (upd_pcb p f s)" "pcbs s"] by (simp add: queue_repr_def)
  with \<open>\<And>x. p_next (pcbs (upd_pcb p f s) x) = p_next (pcbs s x)\<close> show ?thesis
    by (simp add: queues_repr_def del: upd_simps)
qed

lemma queues_repr_nonnull: "queues_repr s L \<Longrightarrow> NullPcb \<notin> set (L q)"
  using chain_nonnull by (fastforce simp: queues_repr_def queue_repr_def)

lemma queues_repr_distinct: "queues_repr s L \<Longrightarrow> distinct (L q)"
  by (simp add: queues_repr_def queue_repr_def)

lemma queues_repr_disjoint: "queues_repr s L \<Longrightarrow> p \<in> set (L q) \<Longrightarrow> q \<noteq> r \<Longrightarrow> p \<notin> set (L r)"
  unfolding queues_repr_def by blast

lemma queues_repr_size: "queues_repr s L \<Longrightarrow> pcb_size q s = of_nat (length (L q))"
  by (simp add: queues_repr_def queue_repr_def pcb_size_def)

lemma add_ready_queues:
  assumes "queues_repr s L" "p \<noteq> NullPcb" "\<And>q. p \<notin> set (L q)"
  shows "\<exists>s'. add_pcb_to_ready_queue p s = Some s' \<and> queues_repr s' (L(ReadyQueue := L ReadyQueue @ [p])) \<and>
    same_but_next (upd_pcb p (\<lambda>u. u\<lparr>p_state := PROC_STATE_READY, p_blocked_status := BLOCKED_STATUS_NONE\<rparr>) s) s'"
proof -
  let ?t = "upd_pcb p (\<lambda>u. u\<lparr>p_state := PROC_STATE_READY, p_blocked_status := BLOCKED_STATUS_NONE\<rparr>) s"
  have r: "queues_repr ?t L" using assms(1) by (simp add: queues_repr_upd)
  have "add_pcb_to_ready_queue p s = Some (pcb_offer ReadyQueue p ?t)"
    using assms(2) by (simp add: add_pcb_to_ready_queue_def upd_pcb_def)
  with offer_queues [OF r assms(2,3)] show ?thesis by blast
qed

lemma add_blocked_queues:
  assumes "queues_repr s L" "p \<noteq> NullPcb" "\<And>q. p \<notin> set (L q)"
  shows "\<exists>s'. add_pcb_to_blocked_queue p s = Some s' \<and> queues_repr s' (L(BlockedQueue := L BlockedQueue @ [p])) \<and>
    same_but_next (upd_pcb p (\<lambda>u. u\<lparr>p_state := PROC_STATE_BLOCKED\<rparr>) s) s'"
proof -
  let ?t = "upd_pcb p (\<lambda>u. u\<lparr>p_state := PROC_STATE_BLOCKED\<rparr>) s"
  have r: "queues_repr ?t L" using assms(1) by (simp add: queues_repr_upd)
  have "add_pcb_to_blocked_queue p s = Some (pcb_offer BlockedQueue p ?t)"
    using assms(2) by (simp add: add_pcb_to_blocked_queue_def)
  with offer_queues [OF r assms(2,3)] show ?thesis by blast
qed

definition stopped_pcb :: "pcb \<Rightarrow> pcb" where
  "stopped_pcb u = u\<lparr>p_pid := (p_pid u + of_nat PCB_TABLE_SIZE - 1) mod PID_MAX + 1,
     p_cpu_time := 0, p_state := PROC_STATE_STOPPED\<rparr>"

lemma add_stopped_queues:
  assumes "queues_repr s L" "p \<noteq> NullPcb" "\<And>q. p \<notin> set (L q)"
  shows "queues_repr (add_pcb_to_stopped_queue p s) (L(StoppedQueue := L StoppedQueue @ [p])) \<and>
    same_but_next (upd_pcb p stopped_pcb s) (add_pcb_to_stopped_queue p s)"
proof -
  have r: "queues_repr (upd_pcb p stopped_pcb s) L"
    using assms(1) by (simp add: queues_repr_upd stopped_pcb_def)
  have "add_pcb_to_stopped_queue p s = pcb_offer StoppedQueue p (upd_pcb p stopped_pcb s)"
    by (simp add: add_pcb_to_stopped_queue_def upd_pcb_def stopped_pcb_def)
  with offer_queues [OF r assms(2,3)] show ?thesis by simp
qed

lemma same_but_next_P:
  assumes "same_but_next s t" "\<And>u n. P (u\<lparr>p_next := n\<rparr>) = P u"
  shows "P (pcbs t p) = P (pcbs s p)"
proof -
  have "P (pcbs t p) = P ((pcbs t p)\<lparr>p_next := NullPcb\<rparr>)" by (rule assms(2) [symmetric])
  also have "\<dots> = P ((pcbs s p)\<lparr>p_next := NullPcb\<rparr>)" using assms(1) by (simp add: same_but_next_def)
  also have "\<dots> = P (pcbs s p)" by (rule assms(2))
  finally show ?thesis .
qed

text \<open>A full rotation of the blocked queue leaves it as it was and finds the first match.\<close>

lemma peek_loop_queues:
  assumes rep: "queues_repr s L" and L: "L BlockedQueue = xs @ ys"
    and P: "\<And>u n. P (u\<lparr>p_next := n\<rparr>) = P u"
    and res: "peek_loop (length xs) P r s = (e, s')"
  shows "queues_repr s' (L(BlockedQueue := ys @ xs)) \<and> same_but_next s s' \<and>
    e = (if r \<noteq> NullPcb then r else case find (\<lambda>p. P (pcbs s p)) xs of None \<Rightarrow> NullPcb | Some p \<Rightarrow> p)"
  using rep L res
proof (induction xs arbitrary: ys r s L)
  case Nil
  then have "L(BlockedQueue := ys @ []) = L" by auto
  with Nil show ?case by auto
next
  case (Cons x xs)
  obtain y s1 where pl: "pcb_poll BlockedQueue s = (y, s1)" by (cases "pcb_poll BlockedQueue s")
  with poll_queues [OF Cons.prems(1) pl] Cons.prems(2) have
    y: "y = x" "x \<noteq> NullPcb" and r1: "queues_repr s1 (L(BlockedQueue := xs @ ys))" and n1: "same_but_next s s1" by auto
  have nx: "x \<notin> set ((L(BlockedQueue := xs @ ys)) q)" for q
  proof -
    have "distinct (x # xs @ ys)" using queues_repr_distinct [OF Cons.prems(1), of BlockedQueue] Cons.prems(2) by simp
    moreover have "x \<in> set (L BlockedQueue)" using Cons.prems(2) by simp
    ultimately show ?thesis using queues_repr_disjoint [OF Cons.prems(1)] by (cases "q = BlockedQueue") auto
  qed
  let ?s2 = "pcb_offer BlockedQueue x s1"
  note O = offer_queues [OF r1 y(2) nx, of BlockedQueue]
  have Pc: "P (pcbs t p) = P (pcbs s p)" if "same_but_next s t" for t p
    using that P by (rule same_but_next_P)
  have res': "peek_loop (length xs) P (if r = NullPcb \<and> P (pcbs s1 x) then x else r) ?s2 = (e, s')"
    using Cons.prems(3) pl y by (simp add: Let_def)
  have r2: "queues_repr ?s2 (L(BlockedQueue := xs @ (ys @ [x])))"
    using O(1) by (simp only: fun_upd_upd fun_upd_same append_assoc)
  have n2: "same_but_next s ?s2" using n1 O(2) by (rule same_but_next_trans)
  from Cons.IH [OF r2 _ res'] have
    I: "queues_repr s' (L(BlockedQueue := (ys @ [x]) @ xs))" "same_but_next ?s2 s'"
      "e = (if (if r = NullPcb \<and> P (pcbs s1 x) then x else r) \<noteq> NullPcb
         then (if r = NullPcb \<and> P (pcbs s1 x) then x else r)
         else case find (\<lambda>p. P (pcbs ?s2 p)) xs of None \<Rightarrow> NullPcb | Some p \<Rightarrow> p)"
    by (simp_all only: fun_upd_upd fun_upd_same)
  have "find (\<lambda>p. P (pcbs ?s2 p)) xs = find (\<lambda>p. P (pcbs s p)) xs"
    using Pc [OF n2] by simp
  with I(3) y Pc [OF n1] have "e = (if r \<noteq> NullPcb then r
      else case find (\<lambda>p. P (pcbs s p)) (x # xs) of None \<Rightarrow> NullPcb | Some p \<Rightarrow> p)" by auto
  moreover have "queues_repr s' (L(BlockedQueue := ys @ x # xs))"
    by (rule queues_repr_ext [OF I(1)]) simp
  ultimately show ?case using same_but_next_trans [OF n2 I(2)] by blast
qed

lemma peek_queues:
  assumes "queues_repr s L" "length (L BlockedQueue) < 2 ^ 31" "\<And>u n. P (u\<lparr>p_next := n\<rparr>) = P u"
    "peek_loop (nat (sint (pcb_size BlockedQueue s))) P NullPcb s = (e, s')"
  shows "queues_repr s' L" "same_but_next s s'"
    "e = (case find (\<lambda>p. P (pcbs s p)) (L BlockedQueue) of None \<Rightarrow> NullPcb | Some p \<Rightarrow> p)"
proof -
  have "nat (sint (pcb_size BlockedQueue s)) = length (L BlockedQueue)"
    using assms(1,2) by (simp add: queues_repr_size sint_of_nat)
  then show "queues_repr s' L" "same_but_next s s'"
    "e = (case find (\<lambda>p. P (pcbs s p)) (L BlockedQueue) of None \<Rightarrow> NullPcb | Some p \<Rightarrow> p)"
    using peek_loop_queues [OF assms(1) _ assms(3), of "L BlockedQueue" "[]" NullPcb e s'] assms(4) by auto
qed

text \<open>The unblocking loop splits the blocked queue, keeping the order on both sides.\<close>

definition waiting_for :: "procs \<Rightarrow> u32 \<Rightarrow> pcb_ptr \<Rightarrow> bool" where
  "waiting_for s pid p \<longleftrightarrow> p_blocked_id (pcbs s p) = pid"

definition unblocked :: "pcb \<Rightarrow> pcb" where
  "unblocked u = u\<lparr>p_blocked_id := 0, p_state := PROC_STATE_READY, p_blocked_status := BLOCKED_STATUS_NONE\<rparr>"

lemma unblocked_next: "(unblocked u)\<lparr>p_next := n\<rparr> = unblocked (u\<lparr>p_next := n\<rparr>)"
  by (simp add: unblocked_def)

definition unblock_all :: "procs \<Rightarrow> u32 \<Rightarrow> pcb_ptr set \<Rightarrow> procs" where
  "unblock_all s pid A = s\<lparr>pcbs := (\<lambda>p. if p \<in> A \<and> waiting_for s pid p then unblocked (pcbs s p) else pcbs s p)\<rparr>"

lemma same_but_next_upd:
  assumes "same_but_next s s'" "\<And>u n. f (u\<lparr>p_next := n\<rparr>) = (f u)\<lparr>p_next := n\<rparr>"
  shows "same_but_next (upd_pcb p f s) (upd_pcb p f s')"
proof (rule same_but_nextI)
  fix q
  have "(f (pcbs s' p))\<lparr>p_next := NullPcb\<rparr> = (f (pcbs s p))\<lparr>p_next := NullPcb\<rparr>"
    using assms by (metis same_but_next_def)
  with assms(1) show "(pcbs (upd_pcb p f s') q)\<lparr>p_next := NullPcb\<rparr> = (pcbs (upd_pcb p f s) q)\<lparr>p_next := NullPcb\<rparr>"
    by (simp add: same_but_next_def)
qed

lemma unblock_loop_queues:
  assumes rep: "queues_repr s L" and L: "L BlockedQueue = xs @ ys"
    and blocked: "\<forall>x\<in>set xs. p_state (pcbs s x) = PROC_STATE_BLOCKED"
  shows "\<exists>s'. unblock_loop (length xs) pid s = Some s' \<and>
    queues_repr s' (L(BlockedQueue := ys @ filter (\<lambda>p. \<not> waiting_for s pid p) xs,
      ReadyQueue := L ReadyQueue @ filter (waiting_for s pid) xs)) \<and>
    same_but_next (unblock_all s pid (set xs)) s'"
  using assms
proof (induction xs arbitrary: ys s L)
  case Nil
  have "queues_repr s (L(BlockedQueue := ys @ filter (\<lambda>p. \<not> waiting_for s pid p) [],
      ReadyQueue := L ReadyQueue @ filter (waiting_for s pid) []))"
    by (rule queues_repr_ext [OF Nil.prems(1)]) (use Nil.prems(2) in simp)
  moreover have "unblock_loop (length []) pid s = Some s" "same_but_next (unblock_all s pid (set [])) s"
    by (simp_all add: unblock_all_def)
  ultimately show ?case by blast
next
  case (Cons x xs)
  obtain y s1 where pl: "pcb_poll BlockedQueue s = (y, s1)" by (cases "pcb_poll BlockedQueue s")
  with poll_queues [OF Cons.prems(1) pl] Cons.prems(2) have
    y: "y = x" "x \<noteq> NullPcb" and r1: "queues_repr s1 (L(BlockedQueue := xs @ ys))" and n1: "same_but_next s s1" by auto
  have d: "x \<notin> set xs" "x \<notin> set ys"
    using queues_repr_distinct [OF Cons.prems(1), of BlockedQueue] Cons.prems(2) by simp_all
  have xB: "x \<in> set (L BlockedQueue)" using Cons.prems(2) by simp
  have nx: "x \<notin> set ((L(BlockedQueue := xs @ ys)) q)" for q
    using d xB queues_repr_disjoint [OF Cons.prems(1)] by (cases "q = BlockedQueue") auto
  let ?f = "\<lambda>u. if waiting_for s pid x then unblocked u else u\<lparr>p_state := PROC_STATE_BLOCKED\<rparr>"
  let ?q = "if waiting_for s pid x then ReadyQueue else BlockedQueue"
  let ?L = "\<lambda>q. if q = BlockedQueue then xs @ ys @ (if waiting_for s pid x then [] else [x])
      else if q = ReadyQueue then L ReadyQueue @ (if waiting_for s pid x then [x] else []) else L q"
  have w1: "p_blocked_id (pcbs s1 x) = pid \<longleftrightarrow> waiting_for s pid x"
    using same_but_next_fields(3) [OF n1] by (simp add: waiting_for_def)
  have "\<exists>s2. (if p_blocked_id (pcbs s1 x) = pid
           then add_pcb_to_ready_queue x (upd_pcb x (\<lambda>u. u\<lparr>p_blocked_id := 0\<rparr>) s1)
           else add_pcb_to_blocked_queue x s1) = Some s2 \<and> queues_repr s2 ?L \<and>
           same_but_next (upd_pcb x ?f s1) s2"
  proof (cases "waiting_for s pid x")
    case True
    let ?t = "upd_pcb x (\<lambda>u. u\<lparr>p_blocked_id := 0\<rparr>) s1"
    have rt: "queues_repr ?t (L(BlockedQueue := xs @ ys))" using r1 by (simp add: queues_repr_upd)
    have e: "upd_pcb x (\<lambda>u. u\<lparr>p_state := PROC_STATE_READY, p_blocked_status := BLOCKED_STATUS_NONE\<rparr>) ?t =
      upd_pcb x unblocked s1" by (simp add: upd_pcb_def unblocked_def)
    from add_ready_queues [OF rt y(2) nx, unfolded e] obtain s2 where
      s2: "add_pcb_to_ready_queue x ?t = Some s2" "same_but_next (upd_pcb x unblocked s1) s2"
      and q: "queues_repr s2 (L(BlockedQueue := xs @ ys,
        ReadyQueue := (L(BlockedQueue := xs @ ys)) ReadyQueue @ [x]))" by blast
    have "queues_repr s2 ?L" by (rule queues_repr_ext [OF q]) (use True in auto)
    with True w1 s2 show ?thesis by auto
  next
    case False
    from add_blocked_queues [OF r1 y(2) nx] obtain s2 where
      s2: "add_pcb_to_blocked_queue x s1 = Some s2"
        "same_but_next (upd_pcb x (\<lambda>u. u\<lparr>p_state := PROC_STATE_BLOCKED\<rparr>) s1) s2"
      and q: "queues_repr s2 (L(BlockedQueue := xs @ ys,
        BlockedQueue := (L(BlockedQueue := xs @ ys)) BlockedQueue @ [x]))" by blast
    have "queues_repr s2 ?L" by (rule queues_repr_ext [OF q]) (use False in auto)
    with False w1 s2 show ?thesis by auto
  qed
  then obtain s2 where s2: "(if p_blocked_id (pcbs s1 x) = pid
           then add_pcb_to_ready_queue x (upd_pcb x (\<lambda>u. u\<lparr>p_blocked_id := 0\<rparr>) s1)
           else add_pcb_to_blocked_queue x s1) = Some s2" "queues_repr s2 ?L"
           "same_but_next (upd_pcb x ?f s1) s2" by blast
  have n2: "same_but_next (upd_pcb x ?f s) s2"
    by (rule same_but_next_trans [OF same_but_next_upd [OF n1] s2(3)]) (simp add: unblocked_def)
  have ws: "waiting_for s2 pid p = waiting_for s pid p" if "p \<noteq> x" for p
    using same_but_next_fields(3) [OF n2, of p] that by (simp add: waiting_for_def)
  have st: "\<forall>z\<in>set xs. p_state (pcbs s2 z) = PROC_STATE_BLOCKED"
    using Cons.prems(3) d same_but_next_fields(2) [OF n2] by auto
  have LB: "?L BlockedQueue = xs @ (ys @ (if waiting_for s pid x then [] else [x]))" by simp
  from Cons.IH [OF s2(2) LB st] obtain s' where
    s': "unblock_loop (length xs) pid s2 = Some s'" "same_but_next (unblock_all s2 pid (set xs)) s'"
    and q: "queues_repr s' (?L(BlockedQueue := (ys @ (if waiting_for s pid x then [] else [x])) @ filter (\<lambda>p. \<not> waiting_for s2 pid p) xs,
      ReadyQueue := ?L ReadyQueue @ filter (waiting_for s2 pid) xs))" by blast
  have f: "filter (waiting_for s2 pid) xs = filter (waiting_for s pid) xs"
    "filter (\<lambda>p. \<not> waiting_for s2 pid p) xs = filter (\<lambda>p. \<not> waiting_for s pid p) xs"
    using d(1) ws by (metis filter_cong)+
  have run: "unblock_loop (length (x # xs)) pid s = Some s'" using pl y s2(1) s'(1) by simp
  have rq: "queues_repr s' (L(BlockedQueue := ys @ filter (\<lambda>p. \<not> waiting_for s pid p) (x # xs),
      ReadyQueue := L ReadyQueue @ filter (waiting_for s pid) (x # xs)))"
    by (rule queues_repr_ext [OF q]) (simp add: f)
  have "same_but_next (unblock_all s pid (set (x # xs))) (unblock_all s2 pid (set xs))"
  proof (rule same_but_nextI)
    fix p
    have "(pcbs s2 p)\<lparr>p_next := NullPcb\<rparr> = (pcbs (upd_pcb x ?f s) p)\<lparr>p_next := NullPcb\<rparr>"
      using n2 by (simp add: same_but_next_def)
    moreover have "pcbs s x = (pcbs s x)\<lparr>p_state := PROC_STATE_BLOCKED\<rparr>" using Cons.prems(3) by simp
    ultimately show "(pcbs (unblock_all s2 pid (set xs)) p)\<lparr>p_next := NullPcb\<rparr> =
      (pcbs (unblock_all s pid (set (x # xs))) p)\<lparr>p_next := NullPcb\<rparr>"
      using d(1) ws [of p] by (cases "p = x") (auto simp: unblock_all_def unblocked_next)
  qed
  with run rq same_but_next_trans [OF _ s'(2)] show ?case by blast
qed

lemma unblock_queues:
  assumes "queues_repr s L" "length (L BlockedQueue) < 2 ^ 31"
    "\<forall>x\<in>set (L BlockedQueue). p_state (pcbs s x) = PROC_STATE_BLOCKED"
  shows "\<exists>s'. unblock_pcb_waiting_for_pid pid s = Some s' \<and>
    queues_repr s' (L(BlockedQueue := filter (\<lambda>p. \<not> waiting_for s pid p) (L BlockedQueue),
      ReadyQueue := L ReadyQueue @ filter (waiting_for s pid) (L BlockedQueue))) \<and>
    same_but_next (unblock_all s pid (set (L BlockedQueue))) s'"
proof -
  have "nat (sint (pcb_size BlockedQueue s)) = length (L BlockedQueue)"
    using assms(1,2) by (simp add: queues_repr_size sint_of_nat)
  with unblock_loop_queues [OF assms(1) _ assms(3), of "[]" pid] show ?thesis
    by (simp add: unblock_pcb_waiting_for_pid_def)
qed

end
