(* ===== verification/Lib_Memory.thy ===== *)
theory Lib_Memory
  imports Xeros_Prelude
begin

text \<open>
  Block operations of the C library on the byte memory: \<^verbatim>\<open>memset\<close> as its loop, and
  \<^verbatim>\<open>blkcopy\<close> (\<^verbatim>\<open>lib/libxc/blkcopy.s\<close>) as its string instructions, whose equivalence with a
  simultaneous copy of the block is proved.
\<close>

unbundle bit_operations_syntax

section \<open>memset\<close>

fun fill_bytes :: "nat \<Rightarrow> addr \<Rightarrow> u8 \<Rightarrow> memory \<Rightarrow> memory" where
  "fill_bytes 0 p c m = m"
| "fill_bytes (Suc n) p c m = fill_bytes n (p + 1) c (m(p := c))"

definition memset :: "addr \<Rightarrow> i32 \<Rightarrow> i32 \<Rightarrow> memory \<Rightarrow> memory" where
  "memset pch c len m = (if sint len \<le> 0 then m else fill_bytes (nat (sint len)) pch (ucast c) m)"

section \<open>blkcopy\<close>

text \<open>\<^verbatim>\<open>rep movsb\<close> and \<^verbatim>\<open>rep movsl\<close>: ecx steps, the pointers moving by \<open>d\<close>.\<close>

fun rep_movsb :: "nat \<Rightarrow> u32 \<Rightarrow> addr \<Rightarrow> addr \<Rightarrow> memory \<Rightarrow> addr \<times> addr \<times> memory" where
  "rep_movsb 0 d esi edi m = (esi, edi, m)"
| "rep_movsb (Suc n) d esi edi m = rep_movsb n d (esi + d) (edi + d) (m(edi := m esi))"

fun rep_movsl :: "nat \<Rightarrow> u32 \<Rightarrow> addr \<Rightarrow> addr \<Rightarrow> memory \<Rightarrow> addr \<times> addr \<times> memory" where
  "rep_movsl 0 d esi edi m = (esi, edi, m)"
| "rep_movsl (Suc n) d esi edi m = rep_movsl n d (esi + d) (edi + d) (store32 m edi (load32 m esi))"

definition blkcopy :: "addr \<Rightarrow> addr \<Rightarrow> i32 \<Rightarrow> memory \<Rightarrow> memory" where
  "blkcopy dst src count m =
     (if sint src \<le> sint dst then
        let ecx = count - 1;
            esi = src + ecx;
            edi = dst + ecx;
            ecx = ecx + 1;
            (esi, edi, m) = rep_movsb (unat (ecx AND 3)) (- 1) esi edi m;
            (esi, edi, m) = rep_movsl (unat (signed_drop_bit 2 count)) (- 4) (esi - 3) (edi - 3) m
        in m
      else
        let (esi, edi, m) = rep_movsl (unat (signed_drop_bit 2 count)) 4 src dst m;
            (esi, edi, m) = rep_movsb (unat (count AND 3)) 1 esi edi m
        in m)"

section \<open>Their effect\<close>

definition offset_in :: "addr \<Rightarrow> addr \<Rightarrow> nat \<Rightarrow> bool" where
  "offset_in x p n \<longleftrightarrow> unat (x - p) < n"

lemma fill_bytes_apply:
  "n \<le> 2 ^ 32 \<Longrightarrow> fill_bytes n p c m x = (if unat (x - p) < n then c else m x)"
proof (induction n p c m rule: fill_bytes.induct)
  case (2 n p c m)
  have e: "unat (x - p) < Suc n \<longleftrightarrow> x = p \<or> unat (x - (p + 1)) < n"
  proof (cases "x = p")
    case False
    then have "1 \<le> x - p" by (simp add: word_le_nat_alt) (metis One_nat_def Suc_leI eq_iff_diff_eq_0 unat_gt_0)
    then have "unat (x - p - 1) = unat (x - p) - 1" by (simp add: unat_sub)
    moreover have "0 < unat (x - p)" using False by (simp add: unat_gt_0)
    ultimately show ?thesis using False by (auto simp: algebra_simps)
  qed simp
  have "fill_bytes (Suc n) p c m x = (if unat (x - (p + 1)) < n then c else (m(p := c)) x)"
    unfolding fill_bytes.simps by (rule "2.IH") (use "2.prems" in simp)
  with e show ?case by (cases "x = p") simp_all
qed simp

lemma memset_apply: "memset p c len m x =
   (if unat (x - p) < nat (sint len) then ucast c else m x)"
proof -
  have "nat (sint len) \<le> 2 ^ 32" using sint_less [of len] by simp
  then show ?thesis by (auto simp: memset_def fill_bytes_apply)
qed

section \<open>The string instructions copy\<close>

text \<open>The block at \<open>dst\<close> as it was at \<open>src\<close>, all else as it was.\<close>

definition copied :: "memory \<Rightarrow> addr \<Rightarrow> addr \<Rightarrow> nat \<Rightarrow> memory" where
  "copied m src dst n = (\<lambda>x. if unat (x - dst) < n then m (src + (x - dst)) else m x)"

lemma store_load_copied: "store32 m e (load32 m s) = copied m s e 4"
  unfolding copied_def store32_def load32_bytes less_4_cases
  by (rule ext) (auto simp: fun_upd_def)

text \<open>The copy up from the low end, and down from the high end, in steps of d bytes.\<close>

definition no_clobber :: "nat \<Rightarrow> u32 \<Rightarrow> bool" where
  "no_clobber n d \<longleftrightarrow> d = 0 \<or> n \<le> unat d"

lemma copied_up:
  assumes "no_clobber (k + n) (dst - src)" "k + n < 2 ^ 32"
  shows "copied (copied m src dst k) (src + of_nat k) (dst + of_nat k) n = copied m src dst (k + n)"
proof (rule ext)
  fix x
  have k: "unat (of_nat k :: u32) = k" using assms by (simp add: unat_of_nat)
  define t where "t = x - dst"
  have x: "x = dst + t" by (simp add: t_def)
  have d: "x - (dst + of_nat k) = t - of_nat k" by (simp add: x)
  show "copied (copied m src dst k) (src + of_nat k) (dst + of_nat k) n x = copied m src dst (k + n) x"
  proof (cases "unat (t - of_nat k) < n")
    case True
    with assms k have t: "k \<le> unat t" "unat t < k + n" by (auto simp: unat_diff split: if_splits)
    have "\<not> unat (src + t - dst) < k"
    proof (cases "dst = src")
      case False
      then have g: "k + n \<le> unat (dst - src)" using assms by (simp add: no_clobber_def)
      have "src + t - dst = t - (dst - src)" by simp
      then show ?thesis using g t unat_lt [of "dst - src"] by (simp only: unat_diff [of t]) simp
    qed (use t in simp)
    with True t show ?thesis by (simp add: copied_def d) (simp add: x algebra_simps)
  next
    case False
    with k assms show ?thesis by (auto simp: copied_def d unat_diff [of t] simp flip: t_def)
  qed
qed

lemma copied_down:
  assumes "no_clobber (k + n) (src - dst)" "k + n < 2 ^ 32"
  shows "copied (copied m (src + of_nat n) (dst + of_nat n) k) src dst n = copied m src dst (k + n)"
proof (rule ext)
  fix x
  have k: "unat (of_nat n :: u32) = n" using assms by (simp add: unat_of_nat)
  define t where "t = x - dst"
  have x: "x = dst + t" by (simp add: t_def)
  have d: "x - (dst + of_nat n) = t - of_nat n" by (simp add: x)
  show "copied (copied m (src + of_nat n) (dst + of_nat n) k) src dst n x = copied m src dst (k + n) x"
  proof (cases "unat t < n")
    case True
    have "\<not> unat (src + t - (dst + of_nat n)) < k"
    proof (cases "src = dst")
      case False
      then have g: "k + n \<le> unat (src - dst)" using assms by (simp add: no_clobber_def)
      define g where "g = src - dst"
      have e: "src + t - (dst + of_nat n) = (t - of_nat n) + g" by (simp add: g_def)
      have u: "unat (t - of_nat n) = 2 ^ 32 + unat t - n" using True k by (simp add: unat_diff)
      show ?thesis unfolding e unat_word_ariths(1) u using g g_def True unat_lt [of g]
        by (auto simp: mod_if)
    next
      case True
      then have "src + t - (dst + of_nat n) = t - of_nat n" by simp
      with \<open>unat t < n\<close> k assms show ?thesis by (simp only: unat_diff [of t]) simp
    qed
    with True show ?thesis by (simp add: copied_def flip: t_def)
  next
    case False
    with k assms show ?thesis by (auto simp: copied_def d unat_diff [of t] x algebra_simps)
  qed
qed

lemma no_clobber_mono: "no_clobber n d \<Longrightarrow> k \<le> n \<Longrightarrow> no_clobber k d"
  by (auto simp: no_clobber_def)

lemma copied_0 [simp]: "copied m src dst 0 = m"
  by (simp add: copied_def)

lemma copied_1: "m(dst := m src) = copied m src dst (Suc 0)"
  by (auto simp: copied_def fun_eq_iff unat_eq_zero)

lemma rep_movsb_up:
  "no_clobber n (dst - src) \<Longrightarrow> n < 2 ^ 32 \<Longrightarrow>
   rep_movsb n 1 src dst m = (src + of_nat n, dst + of_nat n, copied m src dst n)"
proof (induction n arbitrary: src dst m)
  case (Suc n)
  have "rep_movsb n 1 (src + 1) (dst + 1) (m(dst := m src)) =
      (src + 1 + of_nat n, dst + 1 + of_nat n, copied (m(dst := m src)) (src + 1) (dst + 1) n)"
    by (rule Suc.IH) (use Suc.prems in \<open>auto simp: no_clobber_def\<close>)
  then show ?case using copied_up [of "Suc 0" n dst src m] Suc.prems
    by (simp only: rep_movsb.simps copied_1) (simp add: ac_simps)
qed simp

lemma rep_movsb_down:
  "no_clobber n (src - dst) \<Longrightarrow> n < 2 ^ 32 \<Longrightarrow>
   rep_movsb n (- 1) (src + of_nat n - 1) (dst + of_nat n - 1) m = (src - 1, dst - 1, copied m src dst n)"
proof (induction n arbitrary: m)
  case (Suc n)
  have e: "p + of_nat (Suc n) - 1 = p + of_nat n" "p + of_nat n + - 1 = p + of_nat n - 1" for p :: u32
    by simp_all
  show ?case using copied_down [of "Suc 0" n src dst m] Suc
    by (simp only: rep_movsb.simps e copied_1) (auto simp: no_clobber_def)
qed simp

lemma rep_movsl_up:
  "no_clobber (4 * n) (dst - src) \<Longrightarrow> 4 * n < 2 ^ 32 \<Longrightarrow>
   rep_movsl n 4 src dst m = (src + of_nat (4 * n), dst + of_nat (4 * n), copied m src dst (4 * n))"
proof (induction n arbitrary: src dst m)
  case (Suc n)
  have "rep_movsl n 4 (src + 4) (dst + 4) (copied m src dst 4) =
      (src + 4 + of_nat (4 * n), dst + 4 + of_nat (4 * n), copied (copied m src dst 4) (src + 4) (dst + 4) (4 * n))"
    by (rule Suc.IH) (use Suc.prems in \<open>auto simp: no_clobber_def\<close>)
  then show ?case using copied_up [of 4 "4 * n" dst src m] Suc.prems
    by (simp only: rep_movsl.simps store_load_copied) (simp add: ac_simps)
qed simp

lemma rep_movsl_down:
  "no_clobber (4 * n) (src - dst) \<Longrightarrow> 4 * n < 2 ^ 32 \<Longrightarrow>
   rep_movsl n (- 4) (src + of_nat (4 * n) - 4) (dst + of_nat (4 * n) - 4) m = (src - 4, dst - 4, copied m src dst (4 * n))"
proof (induction n arbitrary: m)
  case (Suc n)
  have e: "p + of_nat (4 * Suc n) - 4 = p + of_nat (4 * n)" "p + of_nat (4 * n) + - 4 = p + of_nat (4 * n) - 4" for p :: u32
    by simp_all
  have i: "no_clobber (4 * n) (src - dst)" "4 * n < 2 ^ 32" "no_clobber (4 + 4 * n) (src - dst)" "4 + 4 * n < 2 ^ 32"
    using Suc.prems by (auto simp: no_clobber_def)
  have "copied (copied m (src + of_nat (4 * n)) (dst + of_nat (4 * n)) 4) src dst (4 * n) = copied m src dst (4 + 4 * n)"
    by (rule copied_down [OF i(3,4)])
  with Suc.IH [OF i(1,2)] show ?case
    by (simp only: rep_movsl.simps e store_load_copied) simp
qed simp

lemma count_parts:
  fixes count :: i32
  assumes "0 \<le> sint count"
  shows "unat (signed_drop_bit 2 count) = unat count div 4" "unat (count AND 3) = unat count mod 4"
proof -
  have "\<not> bit count 31" using assms bit_last_iff [of count] by simp
  then have "signed_drop_bit 2 count = drop_bit 2 count"
    by (intro bit_word_eqI) (auto simp: bit_simps not_less le_less dest: bit_imp_le_length)
  then show "unat (signed_drop_bit 2 count) = unat count div 4"
    by (simp add: unat_drop_bit_eq) (simp add: drop_bit_nat_eq drop_bit_eq_div)
  have "count AND 3 = take_bit 2 count" by (simp add: take_bit_eq_mask mask_eq_exp_minus_1 flip: )
  then show "unat (count AND 3) = unat count mod 4" by (simp add: unsigned_take_bit_eq) (simp add: take_bit_eq_mod)
qed


lemma signed_no_clobber:
  assumes "sint b \<le> sint a" "sint a + int n \<le> 2 ^ 31"
  shows "no_clobber n (b - a)"
proof (cases "a = b")
  case False
  then have "sint b < sint a" using assms(1) by (auto simp: order_less_le dest: signed_word_eqI)
  moreover have "- (2 ^ 31) \<le> sint b" using sint_greater_eq [of b] by simp
  moreover have "sint a < 2 ^ 31" using sint_less [of a] by simp
  ultimately have "uint (b - a) = 2 ^ 32 + sint b - sint a"
    unfolding uint_diff_sint mod_add_self1 [of "2 ^ 32" "sint b - sint a", symmetric]
    by (subst mod_pos_pos_trivial) auto
  then show ?thesis using assms(2) \<open>- (2 ^ 31) \<le> sint b\<close> unfolding no_clobber_def unat_eq_nat_uint by (auto simp: nat_le_eq_zle le_nat_iff)
qed (simp add: no_clobber_def)

lemma blkcopy_copied:
  assumes "0 \<le> sint count" "sint src + sint count \<le> 2 ^ 31" "sint dst + sint count \<le> 2 ^ 31"
  shows "blkcopy dst src count m = copied m src dst (unat count)"
proof -
  let ?n = "unat count" and ?q = "unat count div 4" and ?r = "unat count mod 4"
  have n: "int ?n = sint count" using sint_small [OF assms(1)] by simp
  have "?n < 2 ^ 32" by (rule unat_lt)
  then have l: "?r < 2 ^ 32" "4 * ?q < 2 ^ 32" "?r + 4 * ?q = ?n" "4 * ?q + ?r = ?n" by simp_all
  have cnt: "count = of_nat ?r + of_nat (4 * ?q)"
    by (simp only: of_nat_add [symmetric] l(3)) simp
  note parts = count_parts [OF assms(1)]
  show ?thesis
  proof (cases "sint src \<le> sint dst")
    case True
    then have c: "no_clobber ?n (src - dst)" using signed_no_clobber assms(3) n by simp
    then have c': "no_clobber ?r (src + of_nat (4 * ?q) - (dst + of_nat (4 * ?q)))" "no_clobber (4 * ?q) (src - dst)"
      by (auto elim: no_clobber_mono)
    have e: "p + (count - 1) = p + of_nat (4 * ?q) + of_nat ?r - 1" for p :: u32
    proof -
      have "p + (of_nat ?r + of_nat (4 * ?q) - 1) = p + of_nat (4 * ?q) + of_nat ?r - 1" by simp
      then show ?thesis by (simp only: cnt [symmetric])
    qed
    have d: "p + of_nat (4 * ?q) - 1 - 3 = p + of_nat (4 * ?q) - 4" for p :: u32 by simp
    have "blkcopy dst src count m = snd (snd (rep_movsl ?q (- 4) (src + of_nat (4 * ?q) - 4) (dst + of_nat (4 * ?q) - 4)
        (copied m (src + of_nat (4 * ?q)) (dst + of_nat (4 * ?q)) ?r)))"
      using True by (simp only: blkcopy_def parts diff_add_cancel e rep_movsb_down [OF c'(1) l(1)] Let_def
        prod.case if_True d case_prod_unfold fst_conv snd_conv)
    also have "\<dots> = copied m src dst ?n"
      by (simp only: rep_movsl_down [OF c'(2) l(2)] snd_conv) (subst copied_down, use c l in simp_all)
    finally show ?thesis .
  next
    case False
    then have c: "no_clobber ?n (dst - src)" using signed_no_clobber assms(2) n by simp
    then have c': "no_clobber ?r (dst + of_nat (4 * ?q) - (src + of_nat (4 * ?q)))" "no_clobber (4 * ?q) (dst - src)"
      by (auto elim: no_clobber_mono)
    have "blkcopy dst src count m = snd (snd (rep_movsb ?r 1 (src + of_nat (4 * ?q)) (dst + of_nat (4 * ?q))
        (copied m src dst (4 * ?q))))"
      using False by (simp only: blkcopy_def parts rep_movsl_up [OF c'(2) l(2)] Let_def prod.case if_False
        case_prod_unfold fst_conv snd_conv)
    also have "\<dots> = copied m src dst ?n"
      by (simp only: rep_movsb_up [OF c'(1) l(1)] snd_conv) (subst copied_up, use c l in simp_all)
    finally show ?thesis .
  qed
qed

section \<open>A run of bytes\<close>

fun write_bytes :: "addr \<Rightarrow> u8 list \<Rightarrow> memory \<Rightarrow> memory" where
  "write_bytes a [] m = m"
| "write_bytes a (c # cs) m = write_bytes (a + 1) cs (m(a := c))"

lemma write_bytes_apply:
  "length cs \<le> 2 ^ 32 \<Longrightarrow> write_bytes a cs m x = (if unat (x - a) < length cs then cs ! unat (x - a) else m x)"
proof (induction cs arbitrary: a m)
  case (Cons c cs)
  have d: "x - (a + 1) = (x - a) - 1" by simp
  have "write_bytes (a + 1) cs (m(a := c)) x =
      (if unat ((x - a) - 1) < length cs then cs ! unat ((x - a) - 1) else (m(a := c)) x)"
    using Cons by (simp add: d)
  moreover have "unat ((x - a) - 1) = unat (x - a) - 1" "0 < unat (x - a)" if "x \<noteq> a"
  proof -
    show "0 < unat (x - a)" using that by (simp add: unat_gt_0)
    then show "unat ((x - a) - 1) = unat (x - a) - 1" using unat_diff [of "x - a" 1] by simp
  qed
  moreover have "unat (a - a - 1) = 2 ^ 32 - 1" using unat_diff [of 0 1] by simp
  ultimately show ?case using Cons.prems by (cases "x = a") (auto simp: nth_Cons')
qed simp

end
