(* ===== verification/Kernel_State.thy ===== *)
theory Kernel_State
  imports Mem_Manager Pcb_Table Lib_Memory
begin

text \<open>
  The state of the whole kernel: the heap with the byte memory, the process table and queues,
  the keyboard driver's statics, the device table, the dispatcher's current process, and what
  crosses the machine's boundary: the bytes that port reads return, the port writes and the
  console output, in order. Addresses that the linker fixes are constants of the state.
\<close>

unbundle bit_operations_syntax

section \<open>Devices and the keyboard's statics\<close>

text \<open>The handlers of a \<^verbatim>\<open>devsw_t\<close> are those of one driver; the keyboard's is the only one.\<close>

datatype driver = NoDriver | KbdDriver

record devsw =
  dvname :: string
  dvdriver :: driver
  dvminor :: i32
  dvioblk :: addr

record kbd_task =
  t_pcb :: pcb_ptr
  t_buff :: addr
  t_bufflen :: i32
  t_buff_count :: i32
  t_waiting_on_read :: i32

record kbd_state =
  kbd_task_list :: "nat \<Rightarrow> kbd_task"
  kbd_task_refcount :: i32
  kbd_refcount :: i32
  kbd_current_type :: i32
  kbd_done :: i32
  keyboard_keystate_flag :: u32
  keyboard_buffer :: "nat \<Rightarrow> u8"
  keyboard_buffer_head :: i32
  keyboard_buffer_tail :: i32
  keyboard_eof :: u8
  keyboard_echo_flag :: u8

section \<open>Tables of the processor\<close>

record idt_entry =
  igd_loffset :: "16 word"
  igd_segsel :: "16 word"
  igd_mbz :: "3 word"
  igd_type :: "5 word"
  igd_dpl :: "2 word"
  igd_present :: "1 word"
  igd_hoffset :: "16 word"

record seg_desc =
  sd_lolimit :: "16 word"
  sd_lobase :: "16 word"
  sd_midbase :: "8 word"
  sd_perm :: "3 word"
  sd_iscode :: "1 word"
  sd_isapp :: "1 word"
  sd_dpl :: "2 word"
  sd_present :: "1 word"
  sd_hilimit :: "4 word"
  sd_avl :: "1 word"
  sd_mbz :: "1 word"
  sd_32b :: "1 word"
  sd_gran :: "1 word"
  sd_hibase :: "8 word"

section \<open>The machine's boundary\<close>

text \<open>
  \<open>PrintFormat a\<close> is a call of \<^verbatim>\<open>kprintf\<close> whose format string is the user's, at address
  \<open>a\<close>; \<open>PrintLog\<close> is a message of the kernel's own, \<open>PrintPair\<close> a line of a queue dump.
\<close>

datatype io_event = Outb u32 u8 | Inb u32 | PrintChar u8 | PrintFormat addr | PrintLog string
  | Lidt | Disable

record symbols =
  sym_sysstop :: addr
  sym_sigtramp :: addr
  sym_idleproc :: addr
  sym_root :: addr
  sym_syscall_entry :: addr
  sym_timer_entry :: addr
  sym_keyboard_entry :: addr
  sym_etext :: addr
  sym_end :: addr
  sym_defevec :: "nat \<Rightarrow> addr"
  sym_cs :: "16 word"

record kernel =
  heap :: mem_state
  pt :: procs
  kbd :: kbd_state
  dev_table :: "nat \<Rightarrow> devsw"
  process :: pcb_ptr
  idt :: "nat \<Rightarrow> idt_entry"
  gdt_copy :: "nat \<Rightarrow> seg_desc"
  gdt :: "nat \<Rightarrow> seg_desc"
  initsp :: i32
  inputs :: "nat \<Rightarrow> u8"
  n_inputs :: nat
  io :: "io_event list"
  syms :: symbols

section \<open>Access to the parts\<close>

definition kmem :: "kernel \<Rightarrow> memory" where
  "kmem k = mem (heap k)"

definition upd_mem :: "(memory \<Rightarrow> memory) \<Rightarrow> kernel \<Rightarrow> kernel" where
  "upd_mem f k = k\<lparr>heap := (heap k)\<lparr>mem := f (mem (heap k))\<rparr>\<rparr>"

definition upd_pt :: "(procs \<Rightarrow> procs) \<Rightarrow> kernel \<Rightarrow> kernel" where
  "upd_pt f k = k\<lparr>pt := f (pt k)\<rparr>"

definition upd_kbd :: "(kbd_state \<Rightarrow> kbd_state) \<Rightarrow> kernel \<Rightarrow> kernel" where
  "upd_kbd f k = k\<lparr>kbd := f (kbd k)\<rparr>"

definition the_pcb :: "pcb_ptr \<Rightarrow> kernel \<Rightarrow> pcb" where
  "the_pcb p k = pcbs (pt k) p"

definition set_pcb :: "pcb_ptr \<Rightarrow> (pcb \<Rightarrow> pcb) \<Rightarrow> kernel \<Rightarrow> kernel" where
  "set_pcb p f k = upd_pt (upd_pcb p f) k"

text \<open>Operations of the parts, on the whole state.\<close>

definition on_procs :: "(procs \<Rightarrow> procs option) \<Rightarrow> kernel \<Rightarrow> kernel option" where
  "on_procs f k = map_option (\<lambda>s. k\<lparr>pt := s\<rparr>) (f (pt k))"

definition on_procs_ret :: "(procs \<Rightarrow> ('a \<times> procs) option) \<Rightarrow> kernel \<Rightarrow> ('a \<times> kernel) option" where
  "on_procs_ret f k = map_option (\<lambda>(x, s). (x, k\<lparr>pt := s\<rparr>)) (f (pt k))"

definition on_heap :: "(mem_state \<Rightarrow> ('a \<times> mem_state) option) \<Rightarrow> kernel \<Rightarrow> ('a \<times> kernel) option" where
  "on_heap f k = map_option (\<lambda>(x, h). (x, k\<lparr>heap := h\<rparr>)) (f (heap k))"

definition emit :: "io_event \<Rightarrow> kernel \<Rightarrow> kernel" where
  "emit e k = k\<lparr>io := io k @ [e]\<rparr>"

definition outb :: "u32 \<Rightarrow> u8 \<Rightarrow> kernel \<Rightarrow> kernel" where
  "outb port v k = emit (Outb port v) k"

definition inb :: "u32 \<Rightarrow> kernel \<Rightarrow> u8 \<times> kernel" where
  "inb port k = (inputs k (n_inputs k), emit (Inb port) (k\<lparr>n_inputs := n_inputs k + 1\<rparr>))"

text \<open>\<^verbatim>\<open>va_arg\<close> on a syscall's argument list: consecutive words at the saved pointer.\<close>

definition va_arg :: "memory \<Rightarrow> addr \<Rightarrow> nat \<Rightarrow> u32" where
  "va_arg m args i = load32 m (args + of_nat (4 * i))"

lemma kernel_access [simp]:
  "kmem (upd_mem f k) = f (kmem k)" "pt (upd_mem f k) = pt k" "kbd (upd_mem f k) = kbd k"
  "kmem (upd_pt g k) = kmem k" "heap (upd_pt g k) = heap k" "pt (upd_pt g k) = g (pt k)" "kbd (upd_pt g k) = kbd k"
  "kmem (upd_kbd h k) = kmem k" "heap (upd_kbd h k) = heap k" "pt (upd_kbd h k) = pt k" "kbd (upd_kbd h k) = h (kbd k)"
  "kmem (emit e k) = kmem k" "heap (emit e k) = heap k" "pt (emit e k) = pt k" "kbd (emit e k) = kbd k"
  "kmem (outb a b k) = kmem k" "heap (outb a b k) = heap k" "pt (outb a b k) = pt k" "kbd (outb a b k) = kbd k"
  "process (upd_mem f k) = process k" "process (upd_pt g k) = process k" "process (upd_kbd h k) = process k"
  "process (emit e k) = process k" "process (outb a b k) = process k"
  by (simp_all add: kmem_def upd_mem_def upd_pt_def upd_kbd_def emit_def outb_def)

lemma the_pcb_set_pcb [simp]:
  "the_pcb q (set_pcb p f k) = (if q = p then f (the_pcb p k) else the_pcb q k)"
  "kmem (set_pcb p f k) = kmem k" "heap (set_pcb p f k) = heap k" "kbd (set_pcb p f k) = kbd k"
  "process (set_pcb p f k) = process k" "pt (set_pcb p f k) = upd_pcb p f (pt k)"
  "the_pcb q (upd_mem g k) = the_pcb q k" "the_pcb q (upd_kbd h k) = the_pcb q k" "the_pcb q (emit e k) = the_pcb q k"
  by (simp_all add: the_pcb_def set_pcb_def)

end
