(* ===== verification/Processes.thy ===== *)
theory Processes
  imports Kernel_State
begin

text \<open>
  Life of a process: start-up of the process table (\<^verbatim>\<open>initpcb\<close>, \<^verbatim>\<open>c/pcb.c\<close>), creation
  (\<^verbatim>\<open>c/create.c\<close>), clean-up, and the status report that walks the table. Context frames and
  signal tables are words in the byte memory, at the offsets of their C types.
\<close>

unbundle bit_operations_syntax

section \<open>Constants\<close>

definition DEFAULT_STACK_SIZE :: i32 where "DEFAULT_STACK_SIZE = 8192"
definition IDLE_PROC_STACK_SIZE :: i32 where "IDLE_PROC_STACK_SIZE = 2048"
definition STARTING_EFLAGS :: u32 where "STARTING_EFLAGS = 0x00003200"
definition CREATE_FAILURE :: i32 where "CREATE_FAILURE = -1"
definition KILL_SIGNAL_NUM :: i32 where "KILL_SIGNAL_NUM = 31"

text \<open>Offsets in \<^verbatim>\<open>context_frame_t\<close>, its size, and the values of the two enumerations.\<close>

definition cf_ebp :: u32 where "cf_ebp = 8"
definition cf_esp :: u32 where "cf_esp = 12"
definition cf_edx :: u32 where "cf_edx = 20"
definition cf_eax :: u32 where "cf_eax = 28"
definition cf_iret_eip :: u32 where "cf_iret_eip = 32"
definition cf_iret_cs :: u32 where "cf_iret_cs = 36"
definition cf_eflags :: u32 where "cf_eflags = 40"
definition sizeof_context_frame :: u32 where "sizeof_context_frame = 44"

lemmas cf_defs = cf_ebp_def cf_esp_def cf_edx_def cf_eax_def cf_iret_eip_def cf_iret_cs_def
  cf_eflags_def sizeof_context_frame_def

fun state_num :: "proc_state \<Rightarrow> u32" where
  "state_num PROC_STATE_READY = 0"
| "state_num PROC_STATE_STOPPED = 1"
| "state_num PROC_STATE_RUNNING = 2"
| "state_num PROC_STATE_BLOCKED = 3"

fun blocked_num :: "blocked_status \<Rightarrow> u32" where
  "blocked_num BLOCKED_STATUS_NONE = 0"
| "blocked_num BLOCKED_STATUS_SEND = 1"
| "blocked_num BLOCKED_STATUS_RECEIVE = 2"
| "blocked_num BLOCKED_STATUS_WAITING = 3"
| "blocked_num BLOCKED_STATUS_SLEEP = 4"
| "blocked_num BLOCKED_STATUS_DEVICE = 5"

section \<open>Start-up of the process table\<close>

definition init_pcb_queue :: "queue_id \<Rightarrow> kernel \<Rightarrow> kernel option" where
  "init_pcb_queue q k = do {
     (_, k) \<leftarrow> on_heap (kmalloc 12) k;
     Some (upd_pt (empty_pcb_queue q) k)
   }"

definition sleepinit :: "kernel \<Rightarrow> kernel option" where
  "sleepinit k = init_pcb_queue SleepQueue k"

definition init_pcb_slot :: "nat \<Rightarrow> procs \<Rightarrow> procs" where
  "init_pcb_slot i s =
     pcb_offer StoppedQueue (PcbSlot i)
       (upd_pcb (PcbSlot i) (\<lambda>u. u\<lparr>p_pid := of_nat (i + 1), p_blocked_id := 0, p_cpu_time := 0,
          p_blocked_status := BLOCKED_STATUS_NONE, p_state := PROC_STATE_STOPPED\<rparr>) s)"

definition initpcb :: "kernel \<Rightarrow> kernel option" where
  "initpcb k = do {
     k \<leftarrow> init_pcb_queue StoppedQueue k;
     k \<leftarrow> init_pcb_queue ReadyQueue k;
     k \<leftarrow> init_pcb_queue BlockedQueue k;
     let k = upd_pt (fold init_pcb_slot [0..<PCB_TABLE_SIZE]) k;
     sleepinit k
   }"

section \<open>Creation\<close>

definition init_context_frame :: "u32 \<Rightarrow> addr \<Rightarrow> addr \<Rightarrow> memory \<Rightarrow> memory" where
  "init_context_frame cs context fp m =
     (let m = memset context 0 sizeof_context_frame m;
          m = store32 m (context + cf_iret_cs) cs;
          m = store32 m (context + cf_iret_eip) fp;
          m = store32 m (context + cf_eflags) STARTING_EFLAGS;
          m = store32 m (context + cf_esp) (context + sizeof_context_frame)
      in store32 m (context + cf_ebp) (load32 m (context + cf_esp)))"

definition getCS :: "kernel \<Rightarrow> u32" where
  "getCS k = ucast (sym_cs (syms k))"

text \<open>The part of \<^verbatim>\<open>create\<close> that fills in the PCB, the signal table and the stack of the new process.\<close>

definition init_process :: "pcb_ptr \<Rightarrow> addr \<Rightarrow> i32 \<Rightarrow> addr \<Rightarrow> addr \<Rightarrow> kernel \<Rightarrow> kernel" where
  "init_process new_proc stack_start stack signal_table fp k =
     (let k = set_pcb new_proc (\<lambda>u. u\<lparr>p_stack_start := stack_start\<rparr>) k;
          k = set_pcb new_proc (\<lambda>u. u\<lparr>p_signal_table := signal_table\<rparr>) k;
          k = set_pcb new_proc (\<lambda>u. u\<lparr>p_signals_enabled := 0\<rparr>) k;
          k = upd_mem (\<lambda>m. store32 m (p_signal_table (the_pcb new_proc k) + 4 * KILL_SIGNAL_NUM)
            (sym_sysstop (syms k))) k;
          sysstop_return_addr = stack_start + stack - 4;
          k = upd_mem (\<lambda>m. store32 m sysstop_return_addr (sym_sysstop (syms k))) k;
          k = set_pcb new_proc (\<lambda>u. u\<lparr>p_esp := sysstop_return_addr - sizeof_context_frame\<rparr>) k;
          new_context = p_esp (the_pcb new_proc k)
      in upd_mem (init_context_frame (getCS k) new_context fp) k)"

definition create :: "addr \<Rightarrow> i32 \<Rightarrow> kernel \<Rightarrow> (i32 \<times> kernel) option" where
  "create fp stack k =
     (if fp = 0 then Some (CREATE_FAILURE, emit (PrintLog ''Null function pointer passed to create!'') k)
      else
        let stack = (if sint stack < sint DEFAULT_STACK_SIZE then DEFAULT_STACK_SIZE else stack) in
        do {
          (stack_start, k) \<leftarrow> on_heap (kmalloc stack) k;
          if stack_start = 0 then Some (CREATE_FAILURE, k)
          else do {
            (signal_table, k) \<leftarrow> on_heap (kmalloc (SIGNAL_TABLE_SIZE * 4)) k;
            if signal_table = 0 then Some (CREATE_FAILURE, k)
            else do {
              let k = upd_mem (memset signal_table 0 4) k;
              let (new_proc, s) = get_free_pcb (pt k);
              let k = k\<lparr>pt := s\<rparr>;
              if new_proc = NullPcb then do {
                let k = emit (PrintLog ''Unable to find an available PCB!'') k;
                (_, k) \<leftarrow> on_heap (kfree stack_start) k;
                (_, k) \<leftarrow> on_heap (kfree signal_table) k;
                Some (CREATE_FAILURE, k)
              } else do {
                let k = init_process new_proc stack_start stack signal_table fp k;
                k \<leftarrow> on_procs (add_pcb_to_ready_queue new_proc) k;
                Some (p_pid (the_pcb new_proc k), k)
              }
            }
          }
        })"

definition idleinit :: "kernel \<Rightarrow> (i32 \<times> kernel) option" where
  "idleinit k = do {
     (stack_start, k) \<leftarrow> on_heap (kmalloc IDLE_PROC_STACK_SIZE) k;
     if stack_start = 0 then Some (CREATE_FAILURE, k)
     else do {
       let k = set_pcb IdlePcb (\<lambda>u. u\<lparr>p_stack_start := stack_start\<rparr>) k;
       let sysstop_return_addr = stack_start + IDLE_PROC_STACK_SIZE - 4;
       let k = upd_mem (\<lambda>m. store32 m sysstop_return_addr (sym_sysstop (syms k))) k;
       let k = set_pcb IdlePcb (\<lambda>u. u\<lparr>p_esp := sysstop_return_addr - sizeof_context_frame\<rparr>) k;
       let k = upd_mem (init_context_frame (getCS k) (p_esp (the_pcb IdlePcb k)) (sym_idleproc (syms k))) k;
       let k = set_pcb IdlePcb (\<lambda>u. u\<lparr>p_pid := 0, p_blocked_id := 0, p_cpu_time := 0,
         p_blocked_status := BLOCKED_STATUS_NONE, p_state := PROC_STATE_READY\<rparr>) k;
       Some (0, k)
     }
   }"

definition get_idleproc :: pcb_ptr where
  "get_idleproc = IdlePcb"

section \<open>Clean-up\<close>

definition cleanup_pcb :: "pcb_ptr \<Rightarrow> kernel \<Rightarrow> kernel option" where
  "cleanup_pcb p k = do {
     ASSERT (p \<noteq> NullPcb);
     (_, k) \<leftarrow> on_procs_ret (remove_pcb_from_ready_queue p) k;
     (_, k) \<leftarrow> on_procs_ret (remove_pcb_from_blocked_queue p) k;
     (_, k) \<leftarrow> on_procs_ret (remove_pcb_from_sleep_queue p) k;
     k \<leftarrow> on_procs (unblock_pcb_waiting_for_pid (p_pid (the_pcb p k))) k;
     let k = upd_pt (add_pcb_to_stopped_queue p) k;
     (_, k) \<leftarrow> on_heap (kfree (p_stack_start (the_pcb p k))) k;
     (_, k) \<leftarrow> on_heap (kfree (p_signal_table (the_pcb p k))) k;
     Some k
   }"

section \<open>The status report\<close>

text \<open>Offsets in \<^verbatim>\<open>processStatuses\<close>: entries at 0, then three arrays of 32 words.\<close>

definition ps_pid :: "addr \<Rightarrow> nat \<Rightarrow> addr" where "ps_pid ps i = ps + 4 + of_nat (4 * i)"
definition ps_status :: "addr \<Rightarrow> nat \<Rightarrow> addr" where "ps_status ps i = ps + 132 + of_nat (4 * i)"
definition ps_cpuTime :: "addr \<Rightarrow> nat \<Rightarrow> addr" where "ps_cpuTime ps i = ps + 260 + of_nat (4 * i)"
definition sizeof_processStatuses :: u32 where "sizeof_processStatuses = 388"

definition fill_slot :: "u32 \<Rightarrow> addr \<Rightarrow> procs \<Rightarrow> nat \<Rightarrow> nat \<times> memory \<Rightarrow> nat \<times> memory" where
  "fill_slot pid ps s i = (\<lambda>(currentSlot, m).
     let u = pcbs s (PcbSlot i) in
     if p_state u \<noteq> PROC_STATE_STOPPED then
       let currentSlot = currentSlot + 1;
           m = store32 m (ps_pid ps currentSlot) (p_pid u);
           m = store32 m (ps_status ps currentSlot)
             (if pid = p_pid u then state_num PROC_STATE_RUNNING
              else state_num (p_state u) + blocked_num (p_blocked_status u));
           m = store32 m (ps_cpuTime ps currentSlot) (p_cpu_time u * MS_PER_CLOCK_TICK)
       in (currentSlot, m)
     else (currentSlot, m))"

definition fill_processStatus :: "pcb_ptr \<Rightarrow> addr \<Rightarrow> kernel \<Rightarrow> i32 \<times> kernel" where
  "fill_processStatus p ps k =
     (let idle = the_pcb get_idleproc k;
          m = store32 (kmem k) (ps_pid ps 0) (p_pid idle);
          m = store32 m (ps_status ps 0) (state_num (p_state idle));
          m = store32 m (ps_cpuTime ps 0) (p_cpu_time idle * MS_PER_CLOCK_TICK);
          (currentSlot, m) = fold (fill_slot (p_pid (the_pcb p k)) ps (pt k)) [0..<PCB_TABLE_SIZE] (0, m)
      in (of_nat currentSlot, upd_mem (\<lambda>_. m) k))"

end
