(* ===== verification/Sleep_Queue.thy ===== *)
theory Sleep_Queue
  imports Pcb_Table
begin

text \<open>
  What the sleep queue of \<^verbatim>\<open>c/sleep.c\<close> promises. Its list of deltas stands for wake times:
  a new sleeper is placed so that it wakes after its own number of ticks and nobody else's wake
  time moves (\<open>sleep_queues\<close>); a tick brings every wake time one tick closer, or none when the head had
  nothing left, and makes ready, in order, exactly the processes whose time has come (\<open>tick_queues\<close>).
\<close>

unbundle bit_operations_syntax


section \<open>Delta lists\<close>

fun delta_insert :: "'a \<Rightarrow> int \<Rightarrow> ('a \<times> int) list \<Rightarrow> ('a \<times> int) list" where
  "delta_insert e r [] = [(e, r)]"
| "delta_insert e r ((c, d) # xs) =
     (if d < r then (c, d) # delta_insert e (r - d) xs else (e, r) # (c, d - r) # xs)"

fun wake_times :: "int \<Rightarrow> ('a \<times> int) list \<Rightarrow> ('a \<times> int) list" where
  "wake_times t [] = []"
| "wake_times t ((c, d) # xs) = (c, t + d) # wake_times (t + d) xs"

lemma delta_insert_fst: "set (map fst (delta_insert e r xs)) = insert e (set (map fst xs))"
  by (induction e r xs rule: delta_insert.induct) auto

lemma delta_insert_nonneg:
  "\<forall>x\<in>set xs. 0 \<le> snd x \<Longrightarrow> 0 \<le> r \<Longrightarrow> \<forall>x\<in>set (delta_insert e r xs). 0 \<le> snd x"
  by (induction e r xs rule: delta_insert.induct) auto

lemma wake_times_fst: "fst ` set (wake_times t ys) = fst ` set ys"
  by (induction t ys rule: wake_times.induct) auto

lemma wake_times_others:
  assumes "e \<notin> fst ` set ys"
  shows "filter (\<lambda>x. fst x \<noteq> e) (wake_times t ys) = wake_times t ys"
proof (rule filter_True, rule ballI)
  fix x assume "x \<in> set (wake_times t ys)"
  then have "fst x \<in> fst ` set ys" using wake_times_fst [of t ys] by blast
  with assms show "fst x \<noteq> e" by metis
qed

text \<open>Inserting gives the entry its own wake time and changes nobody else's.\<close>

lemma wake_times_insert:
  assumes "e \<notin> fst ` set xs"
  shows "filter (\<lambda>x. fst x \<noteq> e) (wake_times t (delta_insert e r xs)) = wake_times t xs"
    "(e, t + r) \<in> set (wake_times t (delta_insert e r xs))"
proof -
  have "filter (\<lambda>x. fst x \<noteq> e) (wake_times t (delta_insert e r xs)) = wake_times t xs \<and>
    (e, t + r) \<in> set (wake_times t (delta_insert e r xs))"
    using assms
  proof (induction e r xs arbitrary: t rule: delta_insert.induct)
    case (2 e r c d xs)
    then have ne: "c \<noteq> e" "e \<notin> fst ` set xs" by auto
    show ?case
    proof (cases "d < r")
      case True
      from 2(1) [OF True ne(2), of "t + d"] True ne(1) show ?thesis by simp
    next
      case False
      with ne wake_times_others [OF ne(2)] show ?thesis by simp
    qed
  qed simp
  then show "filter (\<lambda>x. fst x \<noteq> e) (wake_times t (delta_insert e r xs)) = wake_times t xs"
    "(e, t + r) \<in> set (wake_times t (delta_insert e r xs))" by blast+
qed

lemma wake_times_sorted:
  "\<forall>x\<in>set xs. 0 \<le> snd x \<Longrightarrow> sorted_wrt (\<lambda>x y. snd x \<le> snd y) (wake_times t xs) \<and>
     (\<forall>x\<in>set (wake_times t xs). t \<le> snd x)"
  by (induction t xs rule: wake_times.induct) fastforce+

lemma wake_times_shift: "wake_times (t + k) xs = map (\<lambda>(p, w). (p, w + k)) (wake_times t xs)"
  by (induction t xs rule: wake_times.induct) (auto simp: ac_simps) 

text \<open>The deltas of the sleepers in a process table.\<close>

definition deltas :: "procs \<Rightarrow> pcb_ptr list \<Rightarrow> (pcb_ptr \<times> int) list" where
  "deltas s xs = map (\<lambda>p. (p, sint (p_ret (pcbs s p)))) xs"

lemma deltas_simps [simp]:
  "deltas s [] = []" "deltas s (x # xs) = (x, sint (p_ret (pcbs s x))) # deltas s xs"
  "deltas s (xs @ ys) = deltas s xs @ deltas s ys" "map fst (deltas s xs) = xs" "fst ` set (deltas s xs) = set xs"
  by (auto simp: deltas_def comp_def image_image)

lemma deltas_cong: "(\<And>x. x \<in> set xs \<Longrightarrow> p_ret (pcbs s' x) = p_ret (pcbs s x)) \<Longrightarrow> deltas s' xs = deltas s xs"
  by (simp add: deltas_def)

lemma sint_diff_nonneg:
  fixes a b :: i32
  assumes "0 \<le> sint b" "sint b \<le> sint a"
  shows "sint (a - b) = sint a - sint b"
proof -
  have "sint a < 2 ^ 31" using sint_less [of a] by simp
  then have "signed_take_bit 31 (sint a - sint b) = sint a - sint b"
    using assms by (intro signed_take_bit_int_eq_self) simp_all
  moreover have "sint (a - b) = signed_take_bit 31 (sint a - sint b)" by (simp add: sint_word_diff)
  ultimately show ?thesis by simp
qed

section \<open>Sleeping\<close>

text \<open>The walk: the entry's time less the deltas passed; it stops before the first delta not smaller.\<close>

lemma sleep_find_chain:
  assumes "chain (pcbs s) c (xs @ ys) NullPcb" "e \<notin> set (xs @ ys)"
    and "\<forall>d\<in>set (deltas s (xs @ ys)). 0 \<le> snd d"
    and "delta_insert e (sint (p_ret (pcbs s e))) (deltas s (xs @ ys)) =
      deltas s xs @ (e, r) # (case ys of [] \<Rightarrow> [] | y # zs \<Rightarrow> (y, sint (p_ret (pcbs s y)) - r) # deltas s zs)"
    and "ys = [] \<or> \<not> sint (p_ret (pcbs s (hd ys))) < r"
  shows "\<exists>v. sint v = r \<and> sleep_find e s p c = Some (upd_pcb e (\<lambda>u. u\<lparr>p_ret := v\<rparr>) s,
     (if xs = [] then p else last xs), (case ys of [] \<Rightarrow> NullPcb | y # _ \<Rightarrow> y))"
  using assms
proof (induction xs arbitrary: s c p)
  case Nil
  then have c: "c = (case ys of [] \<Rightarrow> NullPcb | y # _ \<Rightarrow> y)" by (auto dest: chain_head)
  have r: "sint (p_ret (pcbs s e)) = r" using Nil.prems(4,5) by (cases ys) (auto split: if_splits)
  have "upd_pcb e (\<lambda>u. u\<lparr>p_ret := p_ret (pcbs s e)\<rparr>) s = s" by (simp add: upd_pcb_def)
  with c r Nil.prems(5) show ?case
    by (intro exI [of _ "p_ret (pcbs s e)"]) (subst sleep_find.simps, cases ys, auto)
next
  case (Cons x xs)
  let ?a = "p_ret (pcbs s e)" let ?b = "p_ret (pcbs s x)"
  have ne: "x \<noteq> e" "e \<notin> set (xs @ ys)" and x: "c = x" "x \<noteq> NullPcb" using Cons.prems by auto
  have lt: "sint ?b < sint ?a"
  proof (rule ccontr)
    assume "\<not> sint ?b < sint ?a"
    with Cons.prems(4) ne show False by simp
  qed
  have b0: "0 \<le> sint ?b" using Cons.prems(3) by simp
  let ?s = "upd_pcb e (\<lambda>u. u\<lparr>p_ret := ?a - ?b\<rparr>) s"
  have ret: "p_ret (pcbs ?s z) = (if z = e then ?a - ?b else p_ret (pcbs s z))" for z by simp
  have sa: "sint (?a - ?b) = sint ?a - sint ?b" using lt b0 by (intro sint_diff_nonneg) simp_all
  have dl: "deltas ?s zs = deltas s zs" if "set zs \<subseteq> set (xs @ ys)" for zs
    using ne(2) that by (intro deltas_cong) auto
  have ch: "chain (pcbs ?s) (p_next (pcbs s x)) (xs @ ys) NullPcb"
    using Cons.prems(1) chain_cong [of "xs @ ys" "pcbs ?s" "pcbs s"] by simp
  have st: "sleep_find e s p c = sleep_find e ?s x (p_next (pcbs s x))"
    using x lt ne(1) by (subst sleep_find.simps) (simp add: upd_pcb_def)
  have "\<exists>v. sint v = r \<and> sleep_find e ?s x (p_next (pcbs s x)) = Some (upd_pcb e (\<lambda>u. u\<lparr>p_ret := v\<rparr>) ?s,
     (if xs = [] then x else last xs), (case ys of [] \<Rightarrow> NullPcb | y # _ \<Rightarrow> y))"
  proof (rule Cons.IH [OF ch ne(2)])
    show "\<forall>d\<in>set (deltas ?s (xs @ ys)). 0 \<le> snd d" using Cons.prems(3) dl by simp
    show "ys = [] \<or> \<not> sint (p_ret (pcbs ?s (hd ys))) < r"
      using Cons.prems(5) ne(2) by (cases ys) auto
    have "(case ys of [] \<Rightarrow> [] | y # zs \<Rightarrow> (y, sint (p_ret (pcbs ?s y)) - r) # deltas ?s zs) =
      (case ys of [] \<Rightarrow> [] | y # zs \<Rightarrow> (y, sint (p_ret (pcbs s y)) - r) # deltas s zs)"
      using ne(2) dl by (cases ys) auto
    with Cons.prems(4) lt dl sa show "delta_insert e (sint (p_ret (pcbs ?s e))) (deltas ?s (xs @ ys)) =
      deltas ?s xs @ (e, r) # (case ys of [] \<Rightarrow> [] | y # zs \<Rightarrow> (y, sint (p_ret (pcbs ?s y)) - r) # deltas ?s zs)"
      by simp
  qed
  moreover have "upd_pcb e (\<lambda>u. u\<lparr>p_ret := v\<rparr>) ?s = upd_pcb e (\<lambda>u. u\<lparr>p_ret := v\<rparr>) s" for v
    by (simp add: upd_pcb_def)
  ultimately show ?case using st by auto
qed

lemma delta_insert_split:
  assumes "0 \<le> r" "\<forall>d\<in>set (deltas s zs). 0 \<le> snd d"
  shows "\<exists>us vs r'. zs = us @ vs \<and> 0 \<le> r' \<and> (vs = [] \<or> \<not> sint (p_ret (pcbs s (hd vs))) < r') \<and>
    delta_insert e r (deltas s zs) =
      deltas s us @ (e, r') # (case vs of [] \<Rightarrow> [] | y # ws \<Rightarrow> (y, sint (p_ret (pcbs s y)) - r') # deltas s ws)"
  using assms
proof (induction zs arbitrary: r)
  case Nil
  then show ?case by (intro exI [of _ "[]"] exI [of _ r]) simp
next
  case (Cons z zs)
  let ?d = "sint (p_ret (pcbs s z))"
  show ?case
  proof (cases "?d < r")
    case True
    with Cons.prems have "0 \<le> r - ?d" by simp
    moreover have "\<forall>d\<in>set (deltas s zs). 0 \<le> snd d" using Cons.prems by simp
    ultimately obtain us vs r' where
      "zs = us @ vs" "0 \<le> r'" "vs = [] \<or> \<not> sint (p_ret (pcbs s (hd vs))) < r'"
      "delta_insert e (r - ?d) (deltas s zs) =
        deltas s us @ (e, r') # (case vs of [] \<Rightarrow> [] | y # ws \<Rightarrow> (y, sint (p_ret (pcbs s y)) - r') # deltas s ws)"
      using Cons.IH by blast
    with True show ?thesis by (intro exI [of _ "z # us"] exI [of _ vs] exI [of _ r']) simp
  next
    case False
    with Cons.prems show ?thesis by (intro exI [of _ "[]"] exI [of _ "z # zs"] exI [of _ r]) simp
  qed
qed

definition asleep :: "pcb \<Rightarrow> pcb" where
  "asleep u = u\<lparr>p_state := PROC_STATE_BLOCKED, p_blocked_status := BLOCKED_STATUS_SLEEP\<rparr>"

text \<open>Two process tables that differ at most in links and return values.\<close>

definition same_but_ret :: "procs \<Rightarrow> procs \<Rightarrow> bool" where
  "same_but_ret s s' \<longleftrightarrow>
     (\<forall>p. (pcbs s' p)\<lparr>p_next := NullPcb, p_ret := 0\<rparr> = (pcbs s p)\<lparr>p_next := NullPcb, p_ret := 0\<rparr>)"

lemma insert_before_queues:
  assumes rep: "queues_repr s L" and L: "L q = us @ y # zs" and e: "e \<noteq> NullPcb" "\<And>r. e \<notin> set (L r)"
    and s': "pcbs s' = (if us = [] then pcbs s else
        (pcbs s)(last us := (pcbs s (last us))\<lparr>p_next := e\<rparr>))(e := (pcbs s e)\<lparr>p_next := y\<rparr>)"
      "queues s' = (queues s)(q := (queues s q)\<lparr>q_head := (if us = [] then e else q_head (queues s q)),
         q_size := q_size (queues s q) + 1\<rparr>)"
  shows "queues_repr s' (L(q := us @ e # y # zs))"
proof (rule queues_repr_change [OF rep])
  have r: "queue_repr s q (us @ y # zs)" using rep L by (metis queues_repr_def)
  then have c: "chain (pcbs s) (q_head (queues s q)) (us @ y # zs) NullPcb" "distinct (us @ y # zs)"
    "q_size (queues s q) = of_nat (length (us @ y # zs))" "q_tail (queues s q) = last (us @ y # zs)"
    by (simp_all add: queue_repr_def)
  have ne: "e \<notin> set us" "e \<noteq> y" "e \<notin> set zs" using e(2) [of q] L by auto
  have tl: "last (y # zs) \<noteq> e" "last (us @ y # zs) = last (e # y # zs)" by (use ne in auto)
  show "queue_repr s' q (us @ e # y # zs)"
  proof (cases us rule: rev_cases)
    case Nil
    with c ne e(1) s' show ?thesis by (auto simp: queue_repr_def)
  next
    case (snoc ws w)
    with c ne e(1) s' show ?thesis by (auto simp: queue_repr_def chain_append)
  qed
  have l: "last us \<notin> set (L r)" if "us \<noteq> []" "r \<noteq> q" for r
    using rep L that last_in_set [OF that(1)] by (fastforce simp: queues_repr_def)
  show "queues s' r = queues s r" if "r \<noteq> q" for r using that s'(2) by simp
  show "p_next (pcbs s' x) = p_next (pcbs s x)" if "r \<noteq> q" "x \<in> set (L r)" for r x
    using that s'(1) l [OF _ that(1)] e(2) by auto
  show "set (us @ e # y # zs) \<inter> set (L r) = {}" if "r \<noteq> q" for r
    using rep L that e(2) by (fastforce simp: queues_repr_def)
  show "p_next (pcbs s' p) = NullPcb"
    if "p \<notin> set (us @ e # y # zs)" "\<forall>r. r \<noteq> q \<longrightarrow> p \<notin> set (L r)" "p \<noteq> NullPcb" for p
  proof -
    have "p \<notin> set (L r)" for r using that L by (cases "r = q") auto
    then have "p_next (pcbs s p) = NullPcb" using rep that(3) by (simp add: queues_repr_def)
    moreover have "us \<noteq> [] \<Longrightarrow> p \<noteq> last us" using that(1) last_in_set [of us] by auto
    ultimately show ?thesis using that(1) s'(1) by auto
  qed
qed

lemma sleep_queues:
  assumes rep: "queues_repr s L" and e: "e \<noteq> NullPcb" "\<And>r. e \<notin> set (L r)"
    and nonneg: "0 \<le> sint (p_ret (pcbs s e))" "\<forall>d\<in>set (deltas s (L SleepQueue)). 0 \<le> snd d"
  defines "D \<equiv> delta_insert e (sint (p_ret (pcbs s e))) (deltas s (L SleepQueue))"
  shows "\<exists>s'. add_pcb_to_sleep_queue e s = Some s' \<and> queues_repr s' (L(SleepQueue := map fst D)) \<and>
    deltas s' (map fst D) = D \<and> same_but_ret (upd_pcb e asleep s) s' \<and>
    (\<forall>p. p \<notin> set (map fst D) \<longrightarrow> p_ret (pcbs s' p) = p_ret (pcbs s p))"
proof -
  let ?s1 = "upd_pcb e asleep s"
  from delta_insert_split [OF nonneg, of e, folded D_def] obtain us vs r where
    zs: "L SleepQueue = us @ vs" "0 \<le> r" "vs = [] \<or> \<not> sint (p_ret (pcbs s (hd vs))) < r"
    and D: "D = deltas s us @ (e, r) # (case vs of [] \<Rightarrow> [] | y # ws \<Rightarrow> (y, sint (p_ret (pcbs s y)) - r) # deltas s ws)"
    by blast
  have ret: "p_ret (pcbs ?s1 z) = p_ret (pcbs s z)" for z by (simp add: asleep_def)
  have dl: "deltas ?s1 zs = deltas s zs" for zs by (rule deltas_cong) (rule ret)
  have rep1: "queues_repr ?s1 L" using rep by (simp add: queues_repr_upd asleep_def)
  then have ch: "chain (pcbs ?s1) (q_head (queues ?s1 SleepQueue)) (us @ vs) NullPcb" and di: "distinct (us @ vs)"
    using zs(1) by (metis queues_repr_def queue_repr_def)+
  have ne: "e \<notin> set (us @ vs)" using e(2) [of SleepQueue] zs(1) by simp
  have "\<exists>v. sint v = r \<and> sleep_find e ?s1 NullPcb (q_head (queues ?s1 SleepQueue)) =
     Some (upd_pcb e (\<lambda>u. u\<lparr>p_ret := v\<rparr>) ?s1, (if us = [] then NullPcb else last us), (case vs of [] \<Rightarrow> NullPcb | y # _ \<Rightarrow> y))"
    by (rule sleep_find_chain [OF ch ne]) (use nonneg zs D in \<open>simp_all only: dl ret D_def\<close>)
  then obtain v where v: "sint v = r" "sleep_find e ?s1 NullPcb (q_head (queues ?s1 SleepQueue)) =
     Some (upd_pcb e (\<lambda>u. u\<lparr>p_ret := v\<rparr>) ?s1, (if us = [] then NullPcb else last us), (case vs of [] \<Rightarrow> NullPcb | y # _ \<Rightarrow> y))"
    by blast
  let ?s2 = "upd_pcb e (\<lambda>u. u\<lparr>p_ret := v\<rparr>) ?s1"
  have rep2: "queues_repr ?s2 L" using rep1 by (simp add: queues_repr_upd)
  have nx: "p_next (pcbs s e) = NullPcb" using rep e by (simp add: queues_repr_def)
  have s1: "upd_pcb e (\<lambda>u. u\<lparr>p_blocked_status := BLOCKED_STATUS_SLEEP\<rparr>) (upd_pcb e (\<lambda>u. u\<lparr>p_state := PROC_STATE_BLOCKED\<rparr>) s) = ?s1"
    by (simp add: upd_pcb_def asleep_def)
  show ?thesis
  proof (cases vs)
    case Nil
    note O = offer_queues [OF rep2 e, of SleepQueue]
    let ?s3 = "pcb_offer SleepQueue e ?s2"
    have run: "add_pcb_to_sleep_queue e s = Some ?s3"
      using nx v(2) Nil by (simp add: add_pcb_to_sleep_queue_def s1 del: upd_simps)
    have DD: "map fst D = L SleepQueue @ [e]" using D zs(1) Nil by simp
    have r3: "p_ret (pcbs ?s3 z) = (if z = e then v else p_ret (pcbs s z))" for z
      using same_but_next_fields(5) [OF O(2), of z] ret by simp
    have "deltas ?s3 us = deltas s us" using ne r3 by (intro deltas_cong) auto
    then have "deltas ?s3 (map fst D) = D" using D Nil r3 v(1) zs(1) DD by simp
    moreover have "queues_repr ?s3 (L(SleepQueue := map fst D))" using O(1) DD by simp
    moreover have "same_but_ret ?s1 ?s3"
      unfolding same_but_ret_def
    proof
      fix p
      have "(pcbs ?s3 p)\<lparr>p_next := NullPcb\<rparr> = (pcbs ?s2 p)\<lparr>p_next := NullPcb\<rparr>"
        using O(2) by (simp add: same_but_next_def)
      from arg_cong [OF this, of "\<lambda>u. u\<lparr>p_ret := 0\<rparr>"]
      show "(pcbs ?s3 p)\<lparr>p_next := NullPcb, p_ret := 0\<rparr> = (pcbs ?s1 p)\<lparr>p_next := NullPcb, p_ret := 0\<rparr>" by auto
    qed
    ultimately show ?thesis using run r3 DD by auto
  next
    case (Cons y ws)
    have yr: "sint (p_ret (pcbs s y) - v) = sint (p_ret (pcbs s y)) - r"
      using v(1) zs(2,3) Cons by (subst sint_diff_nonneg) simp_all
    have yne: "y \<noteq> e" "e \<notin> set us" "e \<notin> set ws" "y \<notin> set us" "y \<notin> set ws" "y \<noteq> NullPcb"
      using ne di Cons ch by (auto simp: chain_append)
    let ?s3 = "upd_pcb y (\<lambda>u. u\<lparr>p_ret := p_ret u - v\<rparr>) ?s2"
    have rep3: "queues_repr ?s3 L" using rep2 by (simp add: queues_repr_upd)
    let ?s4 = "let s = upd_pcb e (\<lambda>u. u\<lparr>p_next := y\<rparr>) ?s3;
       s = upd_queue SleepQueue (\<lambda>u. u\<lparr>q_size := q_size u + 1\<rparr>) s
       in if us = [] then upd_queue SleepQueue (\<lambda>u. u\<lparr>q_head := e\<rparr>) s
          else upd_pcb (last us) (\<lambda>u. u\<lparr>p_next := e\<rparr>) s"
    have lu: "us \<noteq> [] \<Longrightarrow> last us \<noteq> NullPcb" "us \<noteq> [] \<Longrightarrow> last us \<noteq> e" "us \<noteq> [] \<Longrightarrow> last us \<noteq> y"
      using chain_nonnull [OF ch] yne by (metis Un_iff last_in_set set_append)+
    have run: "add_pcb_to_sleep_queue e s = Some ?s4"
      using nx v(2) Cons yne(1,6) lu(1)
      by (simp add: add_pcb_to_sleep_queue_def s1 Let_def del: upd_simps) (simp add: upd_pcb_def)
    have DD: "map fst D = us @ e # y # ws" using D Cons by simp
    have rep4: "queues_repr ?s4 (L(SleepQueue := us @ e # y # ws))"
      by (rule insert_before_queues [OF rep3 _ e])
        (use zs(1) Cons lu in \<open>auto simp: Let_def fun_upd_twist\<close>)
    have r4: "p_ret (pcbs ?s4 z) = (if z = e then v else if z = y then p_ret (pcbs s y) - v else p_ret (pcbs s z))" for z
      using yne(1) lu by (auto simp: Let_def asleep_def)
    have "deltas ?s4 us = deltas s us" "deltas ?s4 ws = deltas s ws"
      using yne r4 by (auto intro!: deltas_cong)
    then have "deltas ?s4 (map fst D) = D" using D DD Cons r4 v(1) yr yne(1) by simp
    moreover have "same_but_ret ?s1 ?s4"
      using lu yne by (auto simp: same_but_ret_def Let_def)
    ultimately show ?thesis using run r4 DD rep4 by auto
  qed
qed

section \<open>The clock tick\<close>

definition readied :: "pcb \<Rightarrow> pcb" where
  "readied u = u\<lparr>p_state := PROC_STATE_READY, p_blocked_status := BLOCKED_STATUS_NONE\<rparr>"

lemma wake_queues:
  assumes rep: "queues_repr s L" and h: "h \<in> set (L SleepQueue)"
  shows "\<exists>s'. wake h s = Some s' \<and>
    queues_repr s' (L(SleepQueue := remove1 h (L SleepQueue), ReadyQueue := L ReadyQueue @ [h])) \<and>
    same_but_next (upd_pcb h readied s) s'"
proof -
  from remove_queues [OF rep, of SleepQueue h] obtain s1 b where
    s1: "pcb_remove SleepQueue h s = Some (b, s1)" "same_but_next s s1"
    and r1: "queues_repr s1 (L(SleepQueue := remove1 h (L SleepQueue)))" by blast
  have nn: "h \<noteq> NullPcb" using queues_repr_nonnull [OF rep] h by metis
  have nin: "h \<notin> set ((L(SleepQueue := remove1 h (L SleepQueue))) q)" for q
    using queues_repr_distinct [OF rep, of SleepQueue] queues_repr_disjoint [OF rep h]
    by (cases "q = SleepQueue") auto
  from add_ready_queues [OF r1 nn nin] obtain s2 where
    s2: "add_pcb_to_ready_queue h s1 = Some s2"
      "same_but_next (upd_pcb h (\<lambda>u. u\<lparr>p_state := PROC_STATE_READY, p_blocked_status := BLOCKED_STATUS_NONE\<rparr>) s1) s2"
    and r2: "queues_repr s2 (L(SleepQueue := remove1 h (L SleepQueue),
      ReadyQueue := (L(SleepQueue := remove1 h (L SleepQueue))) ReadyQueue @ [h]))" by blast
  have f: "(\<lambda>u. u\<lparr>p_state := PROC_STATE_READY, p_blocked_status := BLOCKED_STATUS_NONE\<rparr>) = readied"
    by (simp add: readied_def fun_eq_iff)
  have "same_but_next (upd_pcb h readied s) s2"
    by (rule same_but_next_trans [OF same_but_next_upd [OF s1(2)] s2(2) [unfolded f]]) (simp add: readied_def)
  moreover have "queues_repr s2 (L(SleepQueue := remove1 h (L SleepQueue), ReadyQueue := L ReadyQueue @ [h]))"
    by (rule queues_repr_ext [OF r2]) simp
  moreover have "wake h s = Some s2"
    using s1(1) s2(1) by (simp add: wake_def remove_pcb_from_sleep_queue_def)
  ultimately show ?thesis by blast
qed

definition ready_all :: "pcb_ptr set \<Rightarrow> procs \<Rightarrow> procs" where
  "ready_all A s = s\<lparr>pcbs := (\<lambda>p. if p \<in> A then readied (pcbs s p) else pcbs s p)\<rparr>"

lemma peek_sleep: "queues_repr s L \<Longrightarrow>
  peek_pcb_from_sleep_queue s = (case L SleepQueue of [] \<Rightarrow> NullPcb | x # _ \<Rightarrow> x)"
  unfolding peek_pcb_from_sleep_queue_def pcb_peek_def
  by (rule chain_head [of "pcbs s"]) (simp add: queues_repr_def queue_repr_def)

lemma tick_loop_queues:
  assumes "queues_repr s L" "L SleepQueue = ws @ rs" "\<forall>w\<in>set ws. sint (p_ret (pcbs s w)) \<le> 0"
    "rs = [] \<or> 0 < sint (p_ret (pcbs s (hd rs)))"
  shows "\<exists>s'. tick_loop (case L SleepQueue of [] \<Rightarrow> NullPcb | x # _ \<Rightarrow> x) s = Some s' \<and>
    queues_repr s' (L(SleepQueue := rs, ReadyQueue := L ReadyQueue @ ws)) \<and>
    same_but_next (ready_all (set ws) s) s'"
  using assms
proof (induction ws arbitrary: s L)
  case Nil
  have "tick_loop (case L SleepQueue of [] \<Rightarrow> NullPcb | x # _ \<Rightarrow> x) s = Some s"
    using Nil by (cases rs) (subst tick_loop.simps, auto)+
  moreover have "queues_repr s (L(SleepQueue := rs, ReadyQueue := L ReadyQueue @ []))"
    by (rule queues_repr_ext [OF Nil.prems(1)]) (use Nil.prems(2) in simp)
  moreover have "same_but_next (ready_all (set []) s) s" by (simp add: ready_all_def)
  ultimately show ?case by blast
next
  case (Cons w ws)
  have w: "w \<in> set (L SleepQueue)" "remove1 w (L SleepQueue) = ws @ rs" using Cons.prems(2) by simp_all
  have nn: "w \<noteq> NullPcb" using queues_repr_nonnull [OF Cons.prems(1)] w(1) by metis
  have d: "w \<notin> set ws" "w \<notin> set rs" using queues_repr_distinct [OF Cons.prems(1), of SleepQueue] Cons.prems(2) by simp_all
  from wake_queues [OF Cons.prems(1) w(1)] obtain s1 where
    s1: "wake w s = Some s1" "same_but_next (upd_pcb w readied s) s1"
    and r1: "queues_repr s1 (L(SleepQueue := remove1 w (L SleepQueue), ReadyQueue := L ReadyQueue @ [w]))" by blast
  let ?L = "L(SleepQueue := remove1 w (L SleepQueue), ReadyQueue := L ReadyQueue @ [w])"
  have ret: "p_ret (pcbs s1 p) = p_ret (pcbs s p)" for p
    using same_but_next_fields(5) [OF s1(2), of p] by (simp add: readied_def)
  have "\<exists>s'. tick_loop (case ?L SleepQueue of [] \<Rightarrow> NullPcb | x # _ \<Rightarrow> x) s1 = Some s' \<and>
    queues_repr s' (?L(SleepQueue := rs, ReadyQueue := ?L ReadyQueue @ ws)) \<and>
    same_but_next (ready_all (set ws) s1) s'"
    by (rule Cons.IH [OF r1]) (use Cons.prems w ret in simp_all)
  then obtain s' where s': "tick_loop (case ?L SleepQueue of [] \<Rightarrow> NullPcb | x # _ \<Rightarrow> x) s1 = Some s'"
    "same_but_next (ready_all (set ws) s1) s'"
    and r': "queues_repr s' (?L(SleepQueue := rs, ReadyQueue := ?L ReadyQueue @ ws))" by blast
  have "tick_loop (case L SleepQueue of [] \<Rightarrow> NullPcb | x # _ \<Rightarrow> x) s =
      tick_loop (peek_pcb_from_sleep_queue s1) s1"
    using Cons.prems(2,3) s1(1) nn by (subst tick_loop.simps) simp
  also have "\<dots> = Some s'" using peek_sleep [OF r1] s'(1) by simp
  finally have run: "tick_loop (case L SleepQueue of [] \<Rightarrow> NullPcb | x # _ \<Rightarrow> x) s = Some s'" .
  have q: "queues_repr s' (L(SleepQueue := rs, ReadyQueue := L ReadyQueue @ w # ws))"
    by (rule queues_repr_ext [OF r']) simp
  have "same_but_next (ready_all (set (w # ws)) s) (ready_all (set ws) s1)"
  proof (rule same_but_nextI)
    fix p
    have rn: "(readied u)\<lparr>p_next := n\<rparr> = readied (u\<lparr>p_next := n\<rparr>)" for u n by (simp add: readied_def)
    have "(pcbs s1 p)\<lparr>p_next := NullPcb\<rparr> = (pcbs (upd_pcb w readied s) p)\<lparr>p_next := NullPcb\<rparr>"
      using s1(2) by (simp add: same_but_next_def)
    then show "(pcbs (ready_all (set ws) s1) p)\<lparr>p_next := NullPcb\<rparr> =
      (pcbs (ready_all (set (w # ws)) s) p)\<lparr>p_next := NullPcb\<rparr>"
      using d(1) by (cases "p = w") (auto simp: ready_all_def rn)
  qed
  with run q same_but_next_trans [OF _ s'(2)] show ?case by blast
qed

text \<open>On non-negative deltas, due now is the same as a wake time that has come.\<close>

lemma sorted_split:
  assumes "sorted_wrt (\<lambda>x y. snd x \<le> snd y) ys"
  shows "filter (\<lambda>x. snd x \<le> (b :: int)) ys = takeWhile (\<lambda>x. snd x \<le> b) ys"
    "filter (\<lambda>x. b < snd x) ys = dropWhile (\<lambda>x. snd x \<le> b) ys"
proof -
  have "filter (\<lambda>x. snd x \<le> b) ys = takeWhile (\<lambda>x. snd x \<le> b) ys \<and>
    filter (\<lambda>x. b < snd x) ys = dropWhile (\<lambda>x. snd x \<le> b) ys"
    using assms
  proof (induction ys)
    case (Cons y ys)
    show ?case
    proof (cases "snd y \<le> b")
      case True
      with Cons show ?thesis by simp
    next
      case False
      then have "\<forall>x\<in>set ys. b < snd x" using Cons.prems by fastforce
      then have "filter (\<lambda>x. snd x \<le> b) ys = []" "filter (\<lambda>x. b < snd x) ys = ys"
        by (auto simp: filter_empty_conv filter_id_conv)
      with False show ?thesis by simp
    qed
  qed simp
  then show "filter (\<lambda>x. snd x \<le> b) ys = takeWhile (\<lambda>x. snd x \<le> b) ys"
    "filter (\<lambda>x. b < snd x) ys = dropWhile (\<lambda>x. snd x \<le> b) ys" by blast+
qed

lemma due_split:
  assumes "\<forall>d\<in>set xs. 0 \<le> snd d"
  shows "map fst (takeWhile (\<lambda>x. snd x \<le> t) (wake_times t xs)) = map fst (takeWhile (\<lambda>x. snd x \<le> 0) xs)"
    "dropWhile (\<lambda>x. snd x \<le> t) (wake_times t xs) = wake_times t (dropWhile (\<lambda>x. snd x \<le> 0) xs)"
  using assms by (induction t xs rule: wake_times.induct) auto

text \<open>
  A tick takes one from the head of the queue. When the head had nothing left (a sleep of 0 milliseconds, or a process behind one
  that was woken early) it goes below 0 and is woken, and the tick is lost for the sleepers behind it.
\<close>

lemma tick_queues:
  assumes rep: "queues_repr s L" and L: "L SleepQueue = h # xs"
    and nonneg: "\<forall>d\<in>set (deltas s (h # xs)). 0 \<le> snd d"
  defines "W \<equiv> wake_times 0 (deltas s (h # xs))" and "e \<equiv> min 1 (sint (p_ret (pcbs s h)))"
  shows "\<exists>s'. tick s = Some s' \<and>
    queues_repr s' (L(SleepQueue := map fst (filter (\<lambda>x. e < snd x) W),
      ReadyQueue := L ReadyQueue @ map fst (filter (\<lambda>x. snd x \<le> e) W))) \<and>
    wake_times 0 (deltas s' (map fst (filter (\<lambda>x. e < snd x) W))) =
      map (\<lambda>(p, w). (p, w - e)) (filter (\<lambda>x. e < snd x) W) \<and>
    (\<forall>x\<in>set (filter (\<lambda>x. snd x \<le> e) W). p_state (pcbs s' (fst x)) = PROC_STATE_READY)"
proof -
  let ?s1 = "upd_pcb h (\<lambda>u. u\<lparr>p_ret := p_ret u - 1\<rparr>) s"
  let ?D = "deltas ?s1 (h # xs)" and ?d = "sint (p_ret (pcbs s h))"
  let ?E = "(h, ?d - e) # deltas s xs"
  have hx: "h \<notin> set xs" using queues_repr_distinct [OF rep, of SleepQueue] L by simp
  have d0: "0 \<le> ?d" using nonneg by simp
  have h1: "sint (p_ret (pcbs s h) - 1) = ?d - 1"
  proof (cases "?d = 0")
    case True
    then have "p_ret (pcbs s h) = 0" using signed_word_eqI [of "p_ret (pcbs s h)" 0] by simp
    then show ?thesis by simp
  next
    case False
    then show ?thesis using d0 sint_diff_nonneg [of 1 "p_ret (pcbs s h)"] by simp
  qed
  have D: "?D = (h, ?d - 1) # deltas s xs"
    using hx h1 by (simp, intro deltas_cong) auto
  have nn: "\<forall>d\<in>set ?E. 0 \<le> snd d" using nonneg by (simp add: e_def)
  have same: "map fst (takeWhile (\<lambda>x. snd x \<le> 0) ?D) = map fst (takeWhile (\<lambda>x. snd x \<le> 0) ?E)"
    "dropWhile (\<lambda>x. snd x \<le> 0) ?D = dropWhile (\<lambda>x. snd x \<le> 0) ?E"
    unfolding D using d0 by (simp_all add: e_def min_def)
  have W: "W = map (\<lambda>(p, w). (p, w + e)) (wake_times 0 ?E)"
    unfolding W_def wake_times_shift [symmetric] by (simp add: ac_simps)
  let ?V = "wake_times 0 ?E" and ?ws = "map fst (takeWhile (\<lambda>x. snd x \<le> 0) ?D)"
    and ?rs = "map fst (dropWhile (\<lambda>x. snd x \<le> 0) ?D)"
  have so: "sorted_wrt (\<lambda>x y. snd x \<le> snd y) ?V" using wake_times_sorted [OF nn] by blast
  have f1: "filter (\<lambda>x. snd x \<le> e) W = map (\<lambda>(p, w). (p, w + e)) (filter (\<lambda>x. snd x \<le> 0) ?V)"
    unfolding W filter_map by (simp add: comp_def case_prod_unfold)
  have f2: "filter (\<lambda>x. e < snd x) W = map (\<lambda>(p, w). (p, w + e)) (filter (\<lambda>x. 0 < snd x) ?V)"
    unfolding W filter_map by (simp add: comp_def case_prod_unfold)
  have m: "map fst (map (\<lambda>(p, w). (p, w + e)) xs) = map fst xs" for xs :: "(pcb_ptr \<times> int) list"
    by (simp add: comp_def case_prod_unfold)
  have ws: "map fst (filter (\<lambda>x. snd x \<le> e) W) = ?ws"
    unfolding f1 m sorted_split [OF so] same(1) by (rule due_split [OF nn])
  have drop: "filter (\<lambda>x. 0 < snd x) ?V = wake_times 0 (dropWhile (\<lambda>x. snd x \<le> 0) ?D)"
    unfolding sorted_split [OF so] same(2) by (rule due_split [OF nn])
  have wf: "map fst (wake_times k ys) = map fst ys" for k and ys :: "(pcb_ptr \<times> int) list"
    by (induction k ys rule: wake_times.induct) auto
  have rs: "map fst (filter (\<lambda>x. e < snd x) W) = ?rs"
    unfolding f2 m drop wf ..
  have L': "L SleepQueue = ?ws @ ?rs"
    unfolding map_append [symmetric] takeWhile_dropWhile_id by (simp add: L)
  have rep1: "queues_repr ?s1 L" using rep by (simp add: queues_repr_upd)
  have D': "deltas ?s1 ?rs = dropWhile (\<lambda>x. snd x \<le> 0) ?D"
    unfolding deltas_def dropWhile_map by (simp add: comp_def)
  have w0: "\<forall>w\<in>set ?ws. sint (p_ret (pcbs ?s1 w)) \<le> 0"
    unfolding deltas_def takeWhile_map by (auto simp: comp_def simp del: upd_simps dest: set_takeWhileD)
  have r0: "?rs = [] \<or> 0 < sint (p_ret (pcbs ?s1 (hd ?rs)))"
  proof (cases "dropWhile (\<lambda>x. snd x \<le> 0) ?D")
    case (Cons y ys)
    have "\<not> snd y \<le> 0" using iffD1 [OF dropWhile_eq_Cons_conv Cons] by blast
    moreover have e: "deltas ?s1 (fst y # map fst ys) = y # ys" using D' unfolding Cons list.map .
    have "sint (p_ret (pcbs ?s1 (fst y))) = snd y"
      using arg_cong [OF e, of "snd \<circ> hd"] unfolding deltas_def by simp
    ultimately show ?thesis unfolding Cons by simp
  next
    case Nil
    then show ?thesis unfolding Nil by simp
  qed
  from tick_loop_queues [OF rep1 L' w0 r0] obtain s' where
    s': "tick_loop (case L SleepQueue of [] \<Rightarrow> NullPcb | x # _ \<Rightarrow> x) ?s1 = Some s'"
      "same_but_next (ready_all (set ?ws) ?s1) s'"
    and q: "queues_repr s' (L(SleepQueue := ?rs, ReadyQueue := L ReadyQueue @ ?ws))" by blast
  have run: "tick s = Some s'"
    using s'(1) peek_sleep [OF rep] queues_repr_nonnull [OF rep, of SleepQueue] L
    by (auto simp: tick_def Let_def simp del: upd_simps)
  have ret: "p_ret (pcbs s' p) = p_ret (pcbs ?s1 p)" for p
    using same_but_next_fields(5) [OF s'(2), of p] by (simp add: ready_all_def readied_def)
  have "deltas s' ?rs = deltas ?s1 ?rs" by (rule deltas_cong) (rule ret)
  then have "wake_times 0 (deltas s' ?rs) = map (\<lambda>(p, w). (p, w - e)) (filter (\<lambda>x. e < snd x) W)"
    unfolding f2 drop D' by (simp add: comp_def case_prod_unfold)
  moreover have "p_state (pcbs s' p) = PROC_STATE_READY" if "p \<in> set ?ws" for p
    using same_but_next_fields(2) [OF s'(2), of p] that by (simp add: ready_all_def readied_def)
  moreover have "fst ` set (filter (\<lambda>x. snd x \<le> e) W) = set ?ws" using ws by (metis set_map)
  ultimately show ?thesis using run q unfolding ws rs by blast
qed

end
