(* ===== verification/Table_Properties.thy ===== *)
theory Table_Properties
  imports Processes Sleep_Queue
begin

text \<open>
  The properties of the PCB queues, the process table and the sleep queue, with a concrete
  table for their instances. The queue contract is the locale \<open>fifo\<close>, interpreted on the
  queue operations.
\<close>

unbundle bit_operations_syntax

section \<open>The table after start-up\<close>

definition fresh_pcb :: "nat \<Rightarrow> pcb \<Rightarrow> pcb" where
  "fresh_pcb i u = u\<lparr>p_pid := of_nat (i + 1), p_blocked_id := 0, p_cpu_time := 0,
     p_blocked_status := BLOCKED_STATUS_NONE, p_state := PROC_STATE_STOPPED\<rparr>"

text \<open>The first \<open>n\<close> slots initialised; the queues with those slots stopped and nothing else.\<close>

definition fresh_slots :: "nat \<Rightarrow> procs \<Rightarrow> procs" where
  "fresh_slots n s = s\<lparr>pcbs := (\<lambda>p. case p of
     PcbSlot i \<Rightarrow> if i < n then fresh_pcb i (pcbs s p) else pcbs s p | _ \<Rightarrow> pcbs s p)\<rparr>"

definition all_stopped :: "nat \<Rightarrow> queue_id \<Rightarrow> pcb_ptr list" where
  "all_stopped n q = (if q = StoppedQueue then map PcbSlot [0..<n] else [])"

lemma fresh_slots_0: "fresh_slots 0 s = s"
  by (rule procs.equality) (auto simp: fresh_slots_def fun_eq_iff split: pcb_ptr.split)

lemma fresh_slots_Suc: "fresh_slots (Suc n) s = upd_pcb (PcbSlot n) (fresh_pcb n) (fresh_slots n s)"
  by (auto simp: fresh_slots_def upd_pcb_def fun_eq_iff fresh_pcb_def less_Suc_eq split: pcb_ptr.split)

lemma init_slots:
  assumes "queues_repr s (all_stopped 0)"
  shows "queues_repr (fold init_pcb_slot [0..<n] s) (all_stopped n) \<and>
    same_but_next (fresh_slots n s) (fold init_pcb_slot [0..<n] s)"
proof (induction n)
  case 0
  with assms show ?case by (simp add: fresh_slots_0)
next
  case (Suc n)
  let ?t = "fold init_pcb_slot [0..<n] s"
  have t: "init_pcb_slot n ?t = pcb_offer StoppedQueue (PcbSlot n) (upd_pcb (PcbSlot n) (fresh_pcb n) ?t)"
    by (simp add: init_pcb_slot_def fresh_pcb_def [abs_def])
  have r: "queues_repr (upd_pcb (PcbSlot n) (fresh_pcb n) ?t) (all_stopped n)"
    using Suc by (subst queues_repr_upd) (simp_all add: fresh_pcb_def)
  have "PcbSlot n \<notin> set (all_stopped n q)" for q by (auto simp: all_stopped_def)
  note O = offer_queues [OF r pcb_ptr.distinct(2) this, of StoppedQueue, folded t]
  have "queues_repr (init_pcb_slot n ?t) (all_stopped (Suc n))"
    by (rule queues_repr_ext [OF O(1)]) (simp add: all_stopped_def)
  moreover have "same_but_next (fresh_slots (Suc n) s) (upd_pcb (PcbSlot n) (fresh_pcb n) ?t)"
    unfolding fresh_slots_Suc using Suc by (intro same_but_next_upd) (auto simp: fresh_pcb_def)
  ultimately show ?case using same_but_next_trans [OF _ O(2)] by simp
qed

section \<open>A concrete process table\<close>

text \<open>
  Slot 0 is ready; slots 1, 2, 3 are blocked (sending to 9, receiving from anyone, waiting for
  9); slots 4 and 5 sleep for 2 and 5 ticks; slot 6 is stopped; slot 7 is running.
\<close>

definition demo_pcb :: "nat \<Rightarrow> pcb" where
  "demo_pcb i = \<lparr>p_pid = of_nat (i + 1),
     p_state = (if i = 0 then PROC_STATE_READY else if i \<in> {1, 2, 3, 4, 5} then PROC_STATE_BLOCKED
       else if i = 7 then PROC_STATE_RUNNING else PROC_STATE_STOPPED),
     p_blocked_id = (if i = 1 \<or> i = 3 then 9 else 0),
     p_blocked_status = (if i = 1 then BLOCKED_STATUS_SEND else if i = 2 then BLOCKED_STATUS_RECEIVE
       else if i = 3 then BLOCKED_STATUS_WAITING else if i = 4 \<or> i = 5 then BLOCKED_STATUS_SLEEP
       else BLOCKED_STATUS_NONE),
     p_next = (if i \<in> {1, 2, 4} then PcbSlot (i + 1) else NullPcb),
     p_stack_start = 0, p_esp = 0, p_ret = (if i = 4 then 2 else if i = 5 then 3 else 0),
     p_cpu_time = 0, p_args = 0, p_signal_table = 0, p_signals_enabled = 0, p_signals_pending = 0,
     p_fd_table = (\<lambda>_. None)\<rparr>"

definition demo_lists :: "queue_id \<Rightarrow> pcb_ptr list" where
  "demo_lists q = (case q of StoppedQueue \<Rightarrow> [PcbSlot 6] | ReadyQueue \<Rightarrow> [PcbSlot 0]
     | BlockedQueue \<Rightarrow> [PcbSlot 1, PcbSlot 2, PcbSlot 3] | SleepQueue \<Rightarrow> [PcbSlot 4, PcbSlot 5])"

definition demo_procs :: procs where
  "demo_procs = \<lparr>pcbs = (\<lambda>p. case p of PcbSlot i \<Rightarrow> demo_pcb i | _ \<Rightarrow> demo_pcb 8),
     queues = (\<lambda>q. \<lparr>q_head = hd (demo_lists q), q_tail = last (demo_lists q),
       q_size = of_nat (length (demo_lists q))\<rparr>)\<rparr>"

lemma demo_lists_simps [simp]:
  "demo_lists StoppedQueue = [PcbSlot 6]" "demo_lists ReadyQueue = [PcbSlot 0]"
  "demo_lists BlockedQueue = [PcbSlot 1, PcbSlot 2, PcbSlot 3]" "demo_lists SleepQueue = [PcbSlot 4, PcbSlot 5]"
  by (simp_all add: demo_lists_def)

lemma demo_procs_simps [simp]: "pcbs demo_procs (PcbSlot i) = demo_pcb i"
  by (simp add: demo_procs_def)

lemma demo_repr: "queues_repr demo_procs demo_lists"
proof -
  have "queue_repr demo_procs q (demo_lists q)" for q
    by (cases q) (simp_all add: queue_repr_def demo_procs_def demo_pcb_def)
  moreover have "set (demo_lists q) \<inter> set (demo_lists r) = {}" if "q \<noteq> r" for q r
    using that by (cases q; cases r) simp_all
  moreover have "p_next (pcbs demo_procs p) = NullPcb" if "\<forall>q. p \<notin> set (demo_lists q)" for p
    using that [rule_format, of BlockedQueue] that [rule_format, of SleepQueue]
    by (auto simp: demo_procs_def demo_pcb_def split: pcb_ptr.split)
  ultimately show ?thesis by (simp add: queues_repr_def)
qed

lemma demo_running: "PcbSlot 7 \<notin> set (demo_lists q)"
  by (cases q) simp_all

lemma demo_deltas: "deltas demo_procs [PcbSlot 4, PcbSlot 5] = [(PcbSlot 4, 2), (PcbSlot 5, 3)]"
  by (simp add: demo_pcb_def)

section \<open>Queues are first in, first out\<close>

fun drain :: "('s \<Rightarrow> 'e \<times> 's) \<Rightarrow> nat \<Rightarrow> 's \<Rightarrow> 'e list \<times> 's" where
  "drain f 0 s = ([], s)"
| "drain f (Suc n) s = (let (x, s) = f s; (ys, s) = drain f n s in (x # ys, s))"

locale fifo =
  fixes enq :: "'e \<Rightarrow> 's \<Rightarrow> 's"
    and deq :: "'s \<Rightarrow> 'e \<times> 's"
    and rep :: "'s \<Rightarrow> 'e list \<Rightarrow> bool"
    and valid :: "'e \<Rightarrow> bool"
  assumes enq_law: "rep s xs \<Longrightarrow> valid e \<Longrightarrow> e \<notin> set xs \<Longrightarrow> rep (enq e s) (xs @ [e])"
    and deq_law: "rep s (x # xs) \<Longrightarrow> \<exists>s'. deq s = (x, s') \<and> rep s' xs"
begin

lemma enq_all:
  "rep s xs \<Longrightarrow> \<forall>e\<in>set es. valid e \<Longrightarrow> distinct es \<Longrightarrow> set xs \<inter> set es = {} \<Longrightarrow>
   rep (fold enq es s) (xs @ es)"
proof (induction es arbitrary: s xs)
  case (Cons e es)
  from Cons.prems have "rep (enq e s) (xs @ [e])" by (intro enq_law) auto
  with Cons.prems Cons.IH [of "enq e s" "xs @ [e]"] show ?case by simp
qed simp

lemma drain_all: "rep s xs \<Longrightarrow> \<exists>s'. drain deq (length xs) s = (xs, s') \<and> rep s' []"
proof (induction xs arbitrary: s)
  case (Cons x xs)
  from deq_law [OF Cons.prems] obtain s' where s': "deq s = (x, s')" "rep s' xs" by blast
  with Cons.IH [OF s'(2)] show ?case by auto
qed simp

lemma in_order:
  assumes "rep s xs" "\<forall>e\<in>set es. valid e" "distinct es" "set xs \<inter> set es = {}"
  shows "\<exists>s'. drain deq (length xs + length es) (fold enq es s) = (xs @ es, s') \<and> rep s' []"
  using drain_all [OF enq_all [OF assms]] by simp

end

interpretation pcbq: fifo "pcb_offer q" "pcb_poll q" "\<lambda>s xs. queue_repr s q xs" "\<lambda>e. e \<noteq> NullPcb" for q
proof
  show "queue_repr (pcb_offer q e s) q (xs @ [e])" if "queue_repr s q xs" "e \<noteq> NullPcb" "e \<notin> set xs" for s xs e
    using that by (rule pcb_offer_repr(1))
  show "\<exists>s'. pcb_poll q s = (x, s') \<and> queue_repr s' q xs" if "queue_repr s q (x # xs)" for s x xs
  proof -
    obtain y s' where res: "pcb_poll q s = (y, s')" by fastforce
    from pcb_poll_Cons(1,2) [OF that res] res show ?thesis by simp
  qed
qed

section \<open>Properties\<close>

text \<open>The PCB queues are first in, first out: after PCBs have been offered to a queue,
  polling it returns first what it held and then the new PCBs, each in order, and leaves it
  empty.\<close>

theorem pcb_queue_fifo:
  assumes "queue_repr s q xs" "\<forall>e\<in>set es. e \<noteq> NullPcb" "distinct es" "set xs \<inter> set es = {}"
  shows "\<exists>s'. drain (pcb_poll q) (length xs + length es) (fold (pcb_offer q) es s) = (xs @ es, s') \<and>
    queue_repr s' q []"
  by (rule pcbq.in_order [OF assms])

theorem pcb_queue_fifo_witness:
  "\<exists>s'. drain (pcb_poll ReadyQueue) 3 (fold (pcb_offer ReadyQueue) [PcbSlot 7, PcbSlot 9] demo_procs) =
     ([PcbSlot 0, PcbSlot 7, PcbSlot 9], s')"
proof -
  have "queue_repr demo_procs ReadyQueue [PcbSlot 0]"
    using demo_repr demo_lists_simps(2) unfolding queues_repr_def by metis
  from pcb_queue_fifo [OF this, of "[PcbSlot 7, PcbSlot 9]"] show ?thesis
    by (auto simp: numeral_3_eq_3 simp del: drain.simps)
qed

text \<open>\<^verbatim>\<open>pcb_remove\<close> returns whether the PCB is in the queue, takes it out, and keeps the
  order of the others, the other queues, and every field of every PCB but the links.\<close>

theorem pcb_remove_correct:
  assumes "queues_repr s L"
  shows "\<exists>s'. pcb_remove q e s = Some (e \<in> set (L q), s') \<and> queues_repr s' (L(q := remove1 e (L q))) \<and>
    same_but_next s s'"
  by (rule remove_queues [OF assms])

theorem pcb_remove_correct_witness:
  "\<exists>s'. pcb_remove BlockedQueue (PcbSlot 2) demo_procs = Some (True, s') \<and>
     queues_repr s' (demo_lists(BlockedQueue := [PcbSlot 1, PcbSlot 3]))"
  using pcb_remove_correct [OF demo_repr, of BlockedQueue "PcbSlot 2"] by auto

lemma ceil_tenth: "(n + 9) div 10 = n div 10 + (if n mod 10 = 0 then 0 else 1)" for n :: nat
proof -
  define q r where "q = n div 10" and "r = n mod 10"
  then have n: "n = 10 * q + r" "r < 10" by simp_all
  have "(10 * q + (r + 9)) div 10 = q + (if r = 0 then 0 else 1)"
    using n(2) by (intro div_nat_eqI) auto
  then show ?thesis using n by (simp add: add.assoc)
qed

lemma sleep_ticks:
  "sint (ms div MS_PER_CLOCK_TICK + (if ms mod MS_PER_CLOCK_TICK \<noteq> 0 then 1 else 0) :: u32) =
    int ((unat ms + 9) div 10)"
proof -
  have b: "unat ms < 2 ^ 32" using unsigned_less [of ms] by simp
  have d: "unat (ms div 10) = unat ms div 10" "unat (ms mod 10) = unat ms mod 10"
    by (simp_all add: unat_div unat_mod)
  have z: "ms mod 10 = 0 \<longleftrightarrow> unat ms mod 10 = 0" using d(2) by (metis unat_eq_zero)
  let ?w = "ms div 10 + (if ms mod 10 \<noteq> 0 then 1 else 0)"
  have u: "unat ?w = (unat ms + 9) div 10"
  proof (cases "unat ms mod 10 = 0")
    case True
    then have "(unat ms + 9) div 10 = unat ms div 10" by (simp add: ceil_tenth)
    with True z d show ?thesis by simp
  next
    case False
    then have e: "(unat ms + 9) div 10 = unat ms div 10 + 1" by (simp add: ceil_tenth)
    have "unat (ms div 10 + 1) = unat ms div 10 + 1"
      using d(1) b by (simp add: unat_word_ariths)
    with False z e show ?thesis by simp
  qed
  have "(unat ms + 9) div 10 < 2 ^ 31" using b by simp
  then have "sint ?w = int (unat ?w)" unfolding u [symmetric] by (rule sint_unat)
  then show ?thesis unfolding u MS_PER_CLOCK_TICK_def .
qed

text \<open>C18. \<^verbatim>\<open>sleep\<close> puts a process on the sleep queue so that it wakes after its milliseconds
  in clock ticks, rounded up, and no other sleeper's wake time changes; the process is blocked
  and asleep, and nothing but links and remaining times changes elsewhere.\<close>

theorem sleep_correct:
  assumes "queues_repr s L" "p \<noteq> NullPcb" "\<forall>q. p \<notin> set (L q)"
    and "\<forall>d\<in>set (deltas s (L SleepQueue)). 0 \<le> snd d"
  shows "\<exists>s' us. sleep p ms s = Some s' \<and> queues_repr s' (L(SleepQueue := us)) \<and>
    set us = insert p (set (L SleepQueue)) \<and>
    filter (\<lambda>x. fst x \<noteq> p) (wake_times 0 (deltas s' us)) = wake_times 0 (deltas s (L SleepQueue)) \<and>
    (p, int ((unat ms + 9) div 10)) \<in> set (wake_times 0 (deltas s' us)) \<and>
    (\<forall>d\<in>set (deltas s' us). 0 \<le> snd d) \<and> same_but_ret (upd_pcb p asleep s) s'"
proof -
  let ?n = "ms div MS_PER_CLOCK_TICK + (if ms mod MS_PER_CLOCK_TICK \<noteq> 0 then 1 else 0)"
  let ?t = "upd_pcb p (\<lambda>u. u\<lparr>p_ret := ?n\<rparr>) s"
  have r: "queues_repr ?t L" using assms(1) by (simp add: queues_repr_upd)
  have e: "p \<notin> set (L q)" for q using assms(3) by blast
  have dl: "deltas ?t (L SleepQueue) = deltas s (L SleepQueue)" using e by (intro deltas_cong) auto
  have n: "sint (p_ret (pcbs ?t p)) = int ((unat ms + 9) div 10)" by (simp add: sleep_ticks)
  let ?D = "delta_insert p (int ((unat ms + 9) div 10)) (deltas s (L SleepQueue))"
  have "0 \<le> sint (p_ret (pcbs ?t p))" unfolding n by simp
  from sleep_queues [OF r assms(2) e this, unfolded dl n, OF assms(4)] obtain s' where
    s': "add_pcb_to_sleep_queue p ?t = Some s'" "queues_repr s' (L(SleepQueue := map fst ?D))"
      "deltas s' (map fst ?D) = ?D" "same_but_ret (upd_pcb p asleep ?t) s'" by blast
  have "same_but_ret (upd_pcb p asleep s) s'"
    using s'(4) by (auto simp: same_but_ret_def asleep_def)
  moreover have "p \<notin> fst ` set (deltas s (L SleepQueue))" using e by simp
  note W = wake_times_insert [OF this, of 0 "int ((unat ms + 9) div 10)"]
  moreover have "set (map fst ?D) = insert p (set (L SleepQueue))" unfolding delta_insert_fst by simp
  moreover have "\<forall>d\<in>set ?D. 0 \<le> snd d" by (rule delta_insert_nonneg [OF assms(4)]) simp
  ultimately show ?thesis using s'(1-3) unfolding sleep_def
    by (intro exI [of _ s'] exI [of _ "map fst ?D"]) simp
qed

theorem sleep_correct_witness:
  "\<exists>s' us. sleep (PcbSlot 7) 25 demo_procs = Some s' \<and> queues_repr s' (demo_lists(SleepQueue := us)) \<and>
     (PcbSlot 7, 3) \<in> set (wake_times 0 (deltas s' us))"
proof -
  have "\<forall>q. PcbSlot 7 \<notin> set (demo_lists q)" using demo_running by blast
  moreover have "\<forall>d\<in>set (deltas demo_procs (demo_lists SleepQueue)). 0 \<le> snd d"
    by (simp only: demo_lists_simps demo_deltas) simp
  ultimately show ?thesis using sleep_correct [OF demo_repr, of "PcbSlot 7" 25] by auto
qed

text \<open>C17. A clock tick, whatever the remaining ticks of the sleepers, which the kernel keeps non-negative. When the
  head of the sleep queue has at least one tick left (\<open>e\<close> is 1), every sleeper's wake time comes one tick closer, and exactly the
  sleepers whose time has come move, in order of wake time, to the end of the ready queue. When the head
  has none left (\<open>e\<close> is 0: a sleep of 0 milliseconds, or a sleeper that was behind one woken early), exactly the sleepers with
  nothing left move, and the tick is lost for the others, whose wake times stay.\<close>

theorem tick_correct:
  assumes "queues_repr s L" "L SleepQueue = h # xs" "\<forall>d\<in>set (deltas s (h # xs)). 0 \<le> snd d"
  shows "let e = min 1 (sint (p_ret (pcbs s h))); W = wake_times 0 (deltas s (h # xs));
      late = filter (\<lambda>x. e < snd x) W; due = filter (\<lambda>x. snd x \<le> e) W in
    \<exists>s'. tick s = Some s' \<and>
      queues_repr s' (L(SleepQueue := map fst late, ReadyQueue := L ReadyQueue @ map fst due)) \<and>
      wake_times 0 (deltas s' (map fst late)) = map (\<lambda>(p, w). (p, w - e)) late \<and>
      (\<forall>x\<in>set due. p_state (pcbs s' (fst x)) = PROC_STATE_READY)"
  unfolding Let_def by (rule tick_queues [OF assms])

theorem tick_correct_witness:
  "\<exists>s'. tick demo_procs = Some s' \<and>
     wake_times 0 (deltas s' [PcbSlot 4, PcbSlot 5]) = [(PcbSlot 4, 1), (PcbSlot 5, 4)]"
proof -
  have "wake_times 0 (deltas demo_procs [PcbSlot 4, PcbSlot 5]) = [(PcbSlot 4, 2), (PcbSlot 5, 5)]"
    by (simp only: demo_deltas) simp
  then show ?thesis
    using tick_correct [OF demo_repr demo_lists_simps(4)] unfolding demo_deltas
    by (auto simp: demo_pcb_def Let_def)
qed

text \<open>Waking a process before its time, as a signal does, makes the sleepers behind it wake
  too early: its remaining ticks are dropped with it instead of being added to its successor.\<close>

theorem wake_shortens_later_sleeps:
  assumes "queues_repr s L" "L SleepQueue = xs @ p # ys" "p \<notin> set xs"
  shows "\<exists>s'. wake p s = Some s' \<and> queues_repr s' (L(SleepQueue := xs @ ys, ReadyQueue := L ReadyQueue @ [p])) \<and>
    (let t = sum_list (map snd (deltas s xs)) in
     wake_times 0 (deltas s' (xs @ ys)) = wake_times 0 (deltas s xs) @ wake_times t (deltas s ys) \<and>
     wake_times 0 (deltas s (xs @ p # ys)) = wake_times 0 (deltas s xs) @
       (p, t + sint (p_ret (pcbs s p))) # wake_times (t + sint (p_ret (pcbs s p))) (deltas s ys))"
proof -
  have app: "wake_times k (as @ bs) = wake_times k as @ wake_times (k + sum_list (map snd as)) bs"
    for k and as bs :: "(pcb_ptr \<times> int) list"
    by (induction k as rule: wake_times.induct) (simp_all add: ac_simps)
  have "p \<in> set (L SleepQueue)" using assms(2) by simp
  from wake_queues [OF assms(1) this] obtain s' where
    s': "wake p s = Some s'" "same_but_next (upd_pcb p readied s) s'"
    and q: "queues_repr s' (L(SleepQueue := remove1 p (L SleepQueue), ReadyQueue := L ReadyQueue @ [p]))" by blast
  have rm: "remove1 p (L SleepQueue) = xs @ ys" using assms(2,3) by (simp add: remove1_append)
  have "p_ret (pcbs s' x) = p_ret (pcbs s x)" for x
    using same_but_next_fields(5) [OF s'(2), of x] by (simp add: readied_def)
  then have "deltas s' zs = deltas s zs" for zs by (simp add: deltas_def)
  with s'(1) q show ?thesis unfolding rm by (auto simp: app Let_def)
qed

theorem wake_shortens_later_sleeps_witness:
  "\<exists>s'. wake (PcbSlot 4) demo_procs = Some s' \<and> wake_times 0 (deltas s' [PcbSlot 5]) = [(PcbSlot 5, 3)] \<and>
     wake_times 0 (deltas demo_procs [PcbSlot 4, PcbSlot 5]) = [(PcbSlot 4, 2), (PcbSlot 5, 5)]"
  using wake_shortens_later_sleeps [OF demo_repr, of "[]" "PcbSlot 4" "[PcbSlot 5]"]
  by (auto simp: demo_pcb_def Let_def)

text \<open>When a process ends, exactly the blocked processes whose blocking pid is its pid become
  ready, in the order in which they blocked, with the blocking cleared; the others stay blocked
  in order.\<close>

theorem unblock_correct:
  assumes "queues_repr s L" "length (L BlockedQueue) < 2 ^ 31"
    and "\<forall>x\<in>set (L BlockedQueue). p_state (pcbs s x) = PROC_STATE_BLOCKED"
  shows "\<exists>s'. unblock_pcb_waiting_for_pid pid s = Some s' \<and>
    queues_repr s' (L(BlockedQueue := filter (\<lambda>p. \<not> waiting_for s pid p) (L BlockedQueue),
      ReadyQueue := L ReadyQueue @ filter (waiting_for s pid) (L BlockedQueue))) \<and>
    same_but_next (unblock_all s pid (set (L BlockedQueue))) s'"
  by (rule unblock_queues [OF assms])

theorem unblock_correct_witness:
  "\<exists>s'. unblock_pcb_waiting_for_pid 9 demo_procs = Some s' \<and>
     queues_repr s' (demo_lists(BlockedQueue := [PcbSlot 2], ReadyQueue := [PcbSlot 0, PcbSlot 1, PcbSlot 3]))"
  using unblock_correct [OF demo_repr, of 9] by (auto simp: waiting_for_def demo_pcb_def)

text \<open>\<^verbatim>\<open>peek_next_sender\<close> finds the process that has been blocked in a send for longest, or
  none, and leaves the queues as they were.\<close>

theorem peek_next_sender_correct:
  assumes "queues_repr s L" "length (L BlockedQueue) < 2 ^ 31"
  shows "\<exists>s'. peek_next_sender s =
      (case find (\<lambda>p. p_blocked_status (pcbs s p) = BLOCKED_STATUS_SEND) (L BlockedQueue) of
         None \<Rightarrow> NullPcb | Some p \<Rightarrow> p, s') \<and> queues_repr s' L \<and> same_but_next s s'"
proof -
  obtain e s' where e: "peek_next_sender s = (e, s')" by fastforce
  from peek_queues [OF assms _ e [unfolded peek_next_sender_def]] e show ?thesis by simp
qed

theorem peek_next_sender_correct_witness:
  "\<exists>s'. peek_next_sender demo_procs = (PcbSlot 1, s') \<and> queues_repr s' demo_lists"
  using peek_next_sender_correct [OF demo_repr] by (auto simp: demo_pcb_def)

text \<open>The scheduler takes the process that has been ready for longest, makes it running and
  counts a tick for it; when none is ready it stores into the PCB at the null pointer.\<close>

theorem get_next_pcb_correct:
  assumes "queues_repr s L"
  shows "case L ReadyQueue of
      [] \<Rightarrow> fst (get_next_pcb s) = NullPcb \<and> queues_repr (snd (get_next_pcb s)) L \<and>
        p_state (pcbs (snd (get_next_pcb s)) NullPcb) = PROC_STATE_RUNNING \<and>
        p_cpu_time (pcbs (snd (get_next_pcb s)) NullPcb) = p_cpu_time (pcbs s NullPcb) + 1
    | p # ps \<Rightarrow> \<exists>s'. get_next_pcb s = (p, s') \<and> queues_repr s' (L(ReadyQueue := ps)) \<and>
        same_but_next (upd_pcb p (\<lambda>u. u\<lparr>p_state := PROC_STATE_RUNNING, p_cpu_time := p_cpu_time u + 1\<rparr>) s) s'"
proof -
  obtain y t where y: "pcb_poll ReadyQueue s = (y, t)" by fastforce
  let ?f = "\<lambda>u. u\<lparr>p_state := PROC_STATE_RUNNING, p_cpu_time := p_cpu_time u + 1\<rparr>"
  have g: "get_next_pcb s = (y, upd_pcb y ?f t)" using y by (simp add: get_next_pcb_def upd_pcb_def)
  have r: "queues_repr (upd_pcb y ?f t) M = queues_repr t M" for M by (simp add: queues_repr_upd)
  from poll_queues [OF assms y] show ?thesis
  proof
    assume "L ReadyQueue = [] \<and> y = NullPcb \<and> t = s"
    with g r assms show ?thesis by simp
  next
    assume "\<exists>xs. L ReadyQueue = y # xs \<and> y \<noteq> NullPcb \<and> queues_repr t (L(ReadyQueue := xs)) \<and> same_but_next s t"
    then obtain xs where xs: "L ReadyQueue = y # xs" "queues_repr t (L(ReadyQueue := xs))" "same_but_next s t" by blast
    have "same_but_next (upd_pcb y ?f s) (upd_pcb y ?f t)" by (rule same_but_next_upd [OF xs(3)]) simp
    with xs g r show ?thesis by simp
  qed
qed

theorem get_next_pcb_correct_witness:
  "\<exists>s'. get_next_pcb demo_procs = (PcbSlot 0, s') \<and> queues_repr s' (demo_lists(ReadyQueue := []))"
  using get_next_pcb_correct [OF demo_repr] by auto

section \<open>Process ids\<close>

text \<open>The pids a slot can have: 1 to 32768, the slot's number in the low five bits of pid - 1.\<close>

definition pid_of_slot :: "nat \<Rightarrow> u32 \<Rightarrow> bool" where
  "pid_of_slot i pid \<longleftrightarrow> 1 \<le> unat pid \<and> unat pid \<le> 32768 \<and> (unat pid - 1) mod 32 = i"

definition pids_ok :: "procs \<Rightarrow> bool" where
  "pids_ok s \<longleftrightarrow> (\<forall>i<PCB_TABLE_SIZE. pid_of_slot i (p_pid (pcbs s (PcbSlot i))))"

lemma pid_reuse_unat:
  assumes "1 \<le> unat pid" "unat pid \<le> 32768"
  shows "unat ((pid + of_nat PCB_TABLE_SIZE - 1) mod PID_MAX + 1 :: u32) = (unat pid + 31) mod 32768 + 1"
proof -
  have a: "unat (pid + 31) = unat pid + 31" using assms by (simp add: unat_word_ariths)
  have m: "unat ((pid + 31) mod 32768) = (unat pid + 31) mod 32768" by (simp add: unat_mod a)
  have "(unat pid + 31) mod 32768 < 32768" by simp
  then have "unat ((pid + 31) mod 32768 + 1) = (unat pid + 31) mod 32768 + 1"
    by (subst unat_word_ariths(1)) (simp only: m, simp)
  moreover have "pid + of_nat PCB_TABLE_SIZE - 1 = pid + 31" by (simp add: PCB_TABLE_SIZE_def)
  ultimately show ?thesis by (simp only: PID_MAX_def)
qed

lemma pid_of_slot_reuse:
  assumes "pid_of_slot i pid"
  shows "pid_of_slot i ((pid + of_nat PCB_TABLE_SIZE - 1) mod PID_MAX + 1)"
proof -
  define n where "n = unat pid - 1"
  have n: "unat pid = n + 1" "n < 32768" "n mod 32 = i" using assms by (auto simp: pid_of_slot_def n_def)
  have u: "unat ((pid + of_nat PCB_TABLE_SIZE - 1) mod PID_MAX + 1 :: u32) = (n + 32) mod 32768 + 1"
    using pid_reuse_unat [of pid] n(1,2) by (simp add: ac_simps)
  have "(n + 32) mod 32768 mod 32 = (n + 32) mod 32" by (rule mod_mod_cancel) simp
  then have "(n + 32) mod 32768 mod 32 = i" using n(3) by simp
  then show ?thesis unfolding pid_of_slot_def u by (simp add: Suc_le_eq)
qed

lemma pid_to_pcb_eq:
  assumes "1 \<le> unat pid"
  shows "pid_to_pcb pid s = (let p = PcbSlot ((unat pid - 1) mod 32) in
    if p_state (pcbs s p) \<noteq> PROC_STATE_STOPPED then p else NullPcb)"
proof -
  have "1 \<le> pid" using assms by (simp add: word_le_nat_alt)
  moreover have "unat ((pid - 1) mod of_nat PCB_TABLE_SIZE) = (unat pid - 1) mod 32"
    using calculation by (simp add: PCB_TABLE_SIZE_def unat_mod unat_sub)
  ultimately show ?thesis by (simp add: pid_to_pcb_def Let_def)
qed

lemma pcb_offer_pid [simp]: "p_pid (pcbs (pcb_offer q e s) x) = p_pid (pcbs s x)"
  by (simp add: pcb_offer_def Let_def)

lemma stopped_pid: "p_pid (pcbs (add_pcb_to_stopped_queue p s) x) =
   (if x = p then (p_pid (pcbs s p) + of_nat PCB_TABLE_SIZE - 1) mod PID_MAX + 1 else p_pid (pcbs s x))"
  by (simp add: add_pcb_to_stopped_queue_def Let_def)

text \<open>C25. Process ids: different slots have different pids, \<^verbatim>\<open>pid_to_pcb\<close> finds the slot of a
  live process from its pid, and stopping a process gives its slot a new pid and changes no
  other; this remains true for ever, since the new pid is again one of the slot's.\<close>

theorem pid_lookup_correct:
  assumes "pids_ok s" "i < PCB_TABLE_SIZE"
  shows "pid_to_pcb (p_pid (pcbs s (PcbSlot i))) s =
      (if p_state (pcbs s (PcbSlot i)) \<noteq> PROC_STATE_STOPPED then PcbSlot i else NullPcb) \<and>
    (\<forall>j<PCB_TABLE_SIZE. p_pid (pcbs s (PcbSlot j)) = p_pid (pcbs s (PcbSlot i)) \<longrightarrow> j = i) \<and>
    pids_ok (add_pcb_to_stopped_queue (PcbSlot i) s) \<and>
    p_pid (pcbs (add_pcb_to_stopped_queue (PcbSlot i) s) (PcbSlot i)) \<noteq> p_pid (pcbs s (PcbSlot i))"
proof (intro conjI allI impI)
  let ?pid = "p_pid (pcbs s (PcbSlot i))"
  have p: "pid_of_slot i ?pid" using assms by (simp add: pids_ok_def)
  then show "pid_to_pcb ?pid s = (if p_state (pcbs s (PcbSlot i)) \<noteq> PROC_STATE_STOPPED then PcbSlot i else NullPcb)"
    using pid_to_pcb_eq [of ?pid s] by (simp add: pid_of_slot_def Let_def)
  show "j = i" if "j < PCB_TABLE_SIZE" "p_pid (pcbs s (PcbSlot j)) = ?pid" for j
  proof -
    have "pid_of_slot j ?pid" using assms(1) that by (auto simp: pids_ok_def)
    with p show ?thesis by (simp add: pid_of_slot_def)
  qed
  show "pids_ok (add_pcb_to_stopped_queue (PcbSlot i) s)"
    using assms(1) pid_of_slot_reuse [OF p] by (simp add: pids_ok_def stopped_pid)
  show "p_pid (pcbs (add_pcb_to_stopped_queue (PcbSlot i) s) (PcbSlot i)) \<noteq> ?pid"
  proof
    assume eq: "p_pid (pcbs (add_pcb_to_stopped_queue (PcbSlot i) s) (PcbSlot i)) = ?pid"
    have b: "1 \<le> unat ?pid" "unat ?pid \<le> 32768" using p by (simp_all add: pid_of_slot_def)
    have "unat ?pid = (unat ?pid + 31) mod 32768 + 1"
      using arg_cong [OF eq, of unat] unfolding stopped_pid by (simp only: pid_reuse_unat [OF b] simp_thms if_True)
    moreover have "(n + 31) mod 32768 + 1 \<noteq> n" if "1 \<le> n" "n \<le> 32768" for n :: nat
      using that by (cases "n + 31 < 32768") (auto simp: mod_if)
    ultimately show False using b by metis
  qed
qed

lemma start_pids: "pids_ok (fresh_slots 32 s)"
proof -
  have "pid_of_slot i (of_nat (i + 1))" if "i < 32" for i
    using that by (simp add: pid_of_slot_def unat_of_nat del: of_nat_Suc of_nat_add)
  then show ?thesis by (simp add: pids_ok_def fresh_slots_def fresh_pcb_def PCB_TABLE_SIZE_def)
qed

theorem pid_lookup_correct_witness:
  "pids_ok (add_pcb_to_stopped_queue (PcbSlot 3) (fresh_slots 32 demo_procs)) \<and>
     p_pid (pcbs (add_pcb_to_stopped_queue (PcbSlot 3) (fresh_slots 32 demo_procs)) (PcbSlot 3)) \<noteq> 4"
  using pid_lookup_correct [OF start_pids, of 3 demo_procs]
  by (simp add: PCB_TABLE_SIZE_def fresh_slots_def fresh_pcb_def)

text \<open>A pid that a slot no longer has, or does not have yet, still finds the process that now
  lives in the slot: only the slot's number is compared.\<close>

theorem pid_to_pcb_accepts_stale:
  assumes "pids_ok s" "i < PCB_TABLE_SIZE" "p_state (pcbs s (PcbSlot i)) \<noteq> PROC_STATE_STOPPED"
    and "pid_of_slot i pid"
  shows "pid_to_pcb pid s = PcbSlot i"
  using pid_to_pcb_eq [of pid s] assms(3,4) by (simp add: pid_of_slot_def Let_def)

theorem pid_to_pcb_accepts_stale_witness:
  "pid_to_pcb 36 (upd_pcb (PcbSlot 3) (\<lambda>u. u\<lparr>p_state := PROC_STATE_READY\<rparr>) (fresh_slots 32 demo_procs)) = PcbSlot 3 \<and>
     p_pid (pcbs (fresh_slots 32 demo_procs) (PcbSlot 3)) = 4"
proof -
  let ?s = "upd_pcb (PcbSlot 3) (\<lambda>u. u\<lparr>p_state := PROC_STATE_READY\<rparr>) (fresh_slots 32 demo_procs)"
  have "pids_ok ?s" using start_pids [of demo_procs] by (auto simp: pids_ok_def)
  from pid_to_pcb_accepts_stale [OF this, of 3 36] show ?thesis
    by (simp add: PCB_TABLE_SIZE_def pid_of_slot_def fresh_slots_def fresh_pcb_def)
qed

end
