(* ===== verification/Signals.thy ===== *)
theory Signals
  imports Processes
begin

text \<open>
  Signals, \<^verbatim>\<open>c/signal.c\<close>: marking a signal for a process, which unblocks it when it is
  blocked, and delivering the highest pending one by pushing a trampoline frame on its stack.
\<close>

unbundle bit_operations_syntax

definition SYSPID_DNE :: i32 where "SYSPID_DNE = -1"
definition INVALID_SIGNAL :: i32 where "INVALID_SIGNAL = -1"
definition SYSKILL_SIG_INVALID :: i32 where "SYSKILL_SIG_INVALID = -561"
definition BLOCKED_PROC_SIGNALED :: i32 where "BLOCKED_PROC_SIGNALED = -99"

text \<open>
  The frame that \<^verbatim>\<open>signal\<close> pushes below the stack pointer: the return value, the old stack
  pointer, the handler, a return address that is never used, and the trampoline's context.
\<close>

definition push_signal_frame :: "u32 \<Rightarrow> addr \<Rightarrow> addr \<Rightarrow> i32 \<Rightarrow> addr \<Rightarrow> memory \<Rightarrow> addr \<times> memory" where
  "push_signal_frame cs sigtramp esp ret handler m =
     (let stack_ptr = esp - 4;
          m = store32 m stack_ptr ret;
          stack_ptr = stack_ptr - 4;
          m = store32 m stack_ptr esp;
          stack_ptr = stack_ptr - 4;
          m = store32 m stack_ptr handler;
          stack_ptr = stack_ptr - 4;
          m = store32 m stack_ptr 0xBADA555;
          new_esp = stack_ptr - sizeof_context_frame
      in (new_esp, init_context_frame cs new_esp sigtramp m))"

text \<open>
  The handler is read from the signal table after the first two words have been pushed, so a
  table that overlapped the stack would be read modified.
\<close>

definition signal :: "u32 \<Rightarrow> i32 \<Rightarrow> kernel \<Rightarrow> i32 \<times> kernel" where
  "signal pid signalNumber k =
     (let p = pid_to_pcb pid (pt k) in
      if p = NullPcb then (SYSPID_DNE, k)
      else if sint signalNumber < 0 \<or> sint SIGNAL_TABLE_SIZE \<le> sint signalNumber then (INVALID_SIGNAL, k)
      else
        let k = set_pcb p (\<lambda>u. u\<lparr>p_signals_enabled := SET_BIT (p_signals_enabled u) (unat signalNumber)\<rparr>) k;
            u = the_pcb p k;
            m = store32 (kmem k) (p_esp u - 4) (p_ret u);
            m = store32 m (p_esp u - 8) (p_esp u);
            handler = load32 m (p_signal_table u + 4 * signalNumber);
            (new_esp, m) = push_signal_frame (getCS k) (sym_sigtramp (syms k)) (p_esp u) (p_ret u) handler (kmem k);
            k = set_pcb p (\<lambda>u. u\<lparr>p_esp := new_esp\<rparr>) k
        in (0, upd_mem (\<lambda>_. m) k))"

definition set_pcb_signal :: "pcb_ptr \<Rightarrow> i32 \<Rightarrow> kernel \<Rightarrow> (i32 \<times> kernel) option" where
  "set_pcb_signal p signalNumber k = do {
     ASSERT (p \<noteq> NullPcb);
     if sint signalNumber < 0 \<or> sint SIGNAL_TABLE_SIZE \<le> sint signalNumber then Some (SYSKILL_SIG_INVALID, k)
     else if load32 (kmem k) (p_signal_table (the_pcb p k) + 4 * signalNumber) \<noteq> 0 then do {
       let k = set_pcb p (\<lambda>u. u\<lparr>p_signals_pending := SET_BIT (p_signals_pending u) (unat signalNumber)\<rparr>) k;
       k \<leftarrow> (if p_state (the_pcb p k) = PROC_STATE_BLOCKED then
               (case p_blocked_status (the_pcb p k) of
                  BLOCKED_STATUS_SLEEP \<Rightarrow> on_procs (wake p) k
                | BLOCKED_STATUS_RECEIVE \<Rightarrow> do {
                    let k = set_pcb p (\<lambda>u. u\<lparr>p_ret := BLOCKED_PROC_SIGNALED\<rparr>) k;
                    (_, k) \<leftarrow> on_procs_ret (remove_pcb_from_blocked_queue p) k;
                    on_procs (add_pcb_to_ready_queue p) k }
                | BLOCKED_STATUS_SEND \<Rightarrow> do {
                    let k = set_pcb p (\<lambda>u. u\<lparr>p_ret := BLOCKED_PROC_SIGNALED\<rparr>) k;
                    (_, k) \<leftarrow> on_procs_ret (remove_pcb_from_blocked_queue p) k;
                    on_procs (add_pcb_to_ready_queue p) k }
                | BLOCKED_STATUS_WAITING \<Rightarrow> do {
                    (_, k) \<leftarrow> on_procs_ret (remove_pcb_from_blocked_queue p) k;
                    on_procs (add_pcb_to_ready_queue p) k }
                | _ \<Rightarrow> None)
             else Some k);
       Some (0, k)
     } else Some (0, k)
   }"

text \<open>
  The scan for the highest set bit, from bit 31 downward. Below bit 0 the shift count is
  negative; the processor takes it modulo 32, so the scan of a zero word never ends.
\<close>

partial_function (option) highest_bit :: "u32 \<Rightarrow> i32 \<Rightarrow> i32 option" where
  "highest_bit flags n =
     (if CHECK_BIT flags (unat (n AND 31)) = 0 then highest_bit flags (n - 1) else Some n)"

definition deliver_highest_priority_signal :: "pcb_ptr \<Rightarrow> kernel \<Rightarrow> kernel option" where
  "deliver_highest_priority_signal p k = do {
     ASSERT (p_signals_pending (the_pcb p k) \<noteq> 0);
     highest_sig_found \<leftarrow> highest_bit (p_signals_pending (the_pcb p k)) (SIGNAL_TABLE_SIZE - 1);
     if p_signals_enabled (the_pcb p k) < p_signals_pending (the_pcb p k) then do {
       let k = set_pcb p (\<lambda>u. u\<lparr>p_signals_pending := CLEAR_BIT (p_signals_pending u) (unat highest_sig_found)\<rparr>) k;
       Some (snd (signal (p_pid (the_pcb p k)) highest_sig_found k))
     } else Some k
   }"

end
