(* ===== verification/Hardware.thy ===== *)
theory Hardware
  imports Kernel_State "HOL-Library.Signed_Division"
begin

text \<open>
  The interrupt controllers, the timer, the interrupt and segment tables
  (\<^verbatim>\<open>c/i386.c\<close>, \<^verbatim>\<open>c/evec.c\<close>). Port writes are recorded in order; what the controllers do
  with them is hardware.
\<close>

unbundle bit_operations_syntax

section \<open>Interrupt controllers and timer\<close>

definition ICU1 :: u32 where "ICU1 = 0x20"
definition ICU2 :: u32 where "ICU2 = 0xA0"
definition TIMER_IRQ :: u32 where "TIMER_IRQ = 0"
definition TIMER_1_PORT :: u32 where "TIMER_1_PORT = 0x040"
definition TIMER_MODE :: u32 where "TIMER_MODE = TIMER_1_PORT + 3"
definition TIMER_FREQ :: int where "TIMER_FREQ = 1193182"
definition KEYBOARD_IRQ :: u32 where "KEYBOARD_IRQ = 1"

lemmas icu_defs = ICU1_def ICU2_def TIMER_IRQ_def TIMER_1_PORT_def TIMER_MODE_def KEYBOARD_IRQ_def

definition init8259 :: "kernel \<Rightarrow> kernel" where
  "init8259 k =
     (let k = outb ICU1 0x11 k;
          k = outb (ICU1 + 1) 0x20 k;
          k = outb (ICU1 + 1) 0x4 k;
          k = outb (ICU1 + 1) 0x1 k;
          k = outb ICU1 0xb k;
          k = outb ICU2 0x11 k;
          k = outb (ICU2 + 1) 0x28 k;
          k = outb (ICU2 + 1) 0x2 k;
          k = outb (ICU2 + 1) 0xb k;
          k = outb ICU2 0xb k
      in emit Disable k)"

definition enable_irq :: "u32 \<Rightarrow> i32 \<Rightarrow> kernel \<Rightarrow> kernel" where
  "enable_irq irq disable k =
     (let (port, irq) = (if irq < 8 then (ICU1 + 1, irq) else (ICU2 + 1, irq - 8));
          (val, k) = inb port k;
          bitmask = push_bit (unat (irq AND 31)) (1 :: u32);
          val = (if disable \<noteq> 0 then ucast (ucast val OR bitmask) else ucast (ucast val AND NOT bitmask))
      in outb port val k)"

text \<open>\<^verbatim>\<open>TIMER_DIV\<close> is a signed division; dividing by zero is a trap, after which the kernel halts.\<close>

definition TIMER_DIV :: "i32 \<Rightarrow> i32" where
  "TIMER_DIV x = word_of_int ((TIMER_FREQ + sint x sdiv 2) sdiv sint x)"

definition initPIT :: "i32 \<Rightarrow> kernel \<Rightarrow> kernel option" where
  "initPIT divisor k =
     (if divisor = 0 then None
      else
        let k = outb TIMER_MODE (0x00 OR 0x04 OR 0x30) k;
            k = outb TIMER_1_PORT (ucast (TIMER_DIV divisor AND 0xff)) k;
            k = outb TIMER_1_PORT (ucast (signed_drop_bit 8 (TIMER_DIV divisor))) k
        in Some (enable_irq TIMER_IRQ 0 k))"

definition setKbdInt :: "i32 \<Rightarrow> kernel \<Rightarrow> kernel" where
  "setKbdInt enable k = enable_irq KEYBOARD_IRQ (if enable \<noteq> 0 then 0 else 1) k"

definition end_of_intr :: "kernel \<Rightarrow> kernel" where
  "end_of_intr k = outb ICU2 0x20 (outb ICU1 0x20 k)"

section \<open>Interrupt table\<close>

definition NID :: nat where "NID = 48"
definition IGDT_TRAPG :: "5 word" where "IGDT_TRAPG = 15"

definition set_evec :: "u32 \<Rightarrow> addr \<Rightarrow> kernel \<Rightarrow> kernel" where
  "set_evec xnum handler k = k\<lparr>idt := (idt k)(unat xnum := (idt k (unat xnum))
     \<lparr>igd_loffset := ucast handler, igd_segsel := 0x8, igd_mbz := 0, igd_type := IGDT_TRAPG,
      igd_dpl := 0, igd_present := 1, igd_hoffset := ucast (drop_bit 16 handler)\<rparr>)\<rparr>"

definition zero_idt_entry :: idt_entry where
  "zero_idt_entry = \<lparr>igd_loffset = 0, igd_segsel = 0, igd_mbz = 0, igd_type = 0, igd_dpl = 0,
     igd_present = 0, igd_hoffset = 0\<rparr>"

definition initevec :: "kernel \<Rightarrow> kernel" where
  "initevec k =
     (let k = k\<lparr>idt := (\<lambda>i. if i < 256 then zero_idt_entry else idt k i)\<rparr>;
          k = fold (\<lambda>i k. set_evec (of_nat i) (sym_defevec (syms k) i) k) [0..<NID] k;
          k = emit Lidt k
      in init8259 k)"

text \<open>The handler that an entry of the table leads to.\<close>

definition evec_handler :: "idt_entry \<Rightarrow> addr" where
  "evec_handler e = ucast (igd_loffset e) OR push_bit 16 (ucast (igd_hoffset e))"

section \<open>Segment table\<close>

definition NBPG :: i32 where "NBPG = 4096"
definition sizmem :: i32 where "sizmem = 1024"

text \<open>The table that \<^verbatim>\<open>gdt_copy\<close> is initialised with: null, kernel code, data and stack, and boot code.\<close>

definition null_segment :: seg_desc where
  "null_segment = \<lparr>sd_lolimit = 0, sd_lobase = 0, sd_midbase = 0, sd_perm = 0, sd_iscode = 0, sd_isapp = 0, sd_dpl = 0,
     sd_present = 0, sd_hilimit = 0, sd_avl = 0, sd_mbz = 0, sd_32b = 0, sd_gran = 0, sd_hibase = 0\<rparr>"

definition code_segment :: seg_desc where
  "code_segment = \<lparr>sd_lolimit = 0xffff, sd_lobase = 0, sd_midbase = 0, sd_perm = 6, sd_iscode = 1, sd_isapp = 1, sd_dpl = 0,
     sd_present = 1, sd_hilimit = 0xf, sd_avl = 0, sd_mbz = 0, sd_32b = 1, sd_gran = 1, sd_hibase = 0\<rparr>"

definition data_segment :: seg_desc where
  "data_segment = \<lparr>sd_lolimit = 0xffff, sd_lobase = 0, sd_midbase = 0, sd_perm = 2, sd_iscode = 0, sd_isapp = 1, sd_dpl = 0,
     sd_present = 1, sd_hilimit = 0xf, sd_avl = 0, sd_mbz = 0, sd_32b = 1, sd_gran = 1, sd_hibase = 0\<rparr>"

definition gdt_copy_init :: "nat \<Rightarrow> seg_desc" where
  "gdt_copy_init i = (if i = 1 \<or> i = 4 then code_segment else if i = 2 \<or> i = 3 then data_segment else null_segment)"

definition set_limit :: "nat \<Rightarrow> u32 \<Rightarrow> kernel \<Rightarrow> kernel" where
  "set_limit i np k = k\<lparr>gdt_copy := (gdt_copy k)(i := (gdt_copy k i)
     \<lparr>sd_lolimit := ucast np, sd_hilimit := ucast (drop_bit 16 np)\<rparr>)\<rparr>"

definition setsegs :: "kernel \<Rightarrow> kernel" where
  "setsegs k =
     (let npages = sizmem;
          k = k\<lparr>heap := (heap k)\<lparr>maxaddr := npages * NBPG - 1\<rparr>\<rparr>;
          np = word_of_int (sint (sym_etext (syms k) + NBPG - 1) sdiv sint NBPG);
          k = set_limit 1 np k;
          k = set_limit 2 npages k;
          k = set_limit 3 npages k;
          k = set_limit 4 npages k;
          k = k\<lparr>gdt := (\<lambda>i. if i < 8 then gdt_copy k i else gdt k i)\<rparr>;
          k = k\<lparr>initsp := npages * NBPG - 4\<rparr>;
          k = k\<lparr>initsp := sym_end (syms k) + KERNEL_STACK - 4\<rparr>
      in k\<lparr>heap := (heap k)\<lparr>freemem := sym_end (syms k) + KERNEL_STACK\<rparr>\<rparr>)"

section \<open>Lemmas\<close>

text \<open>The segments that start-up loads: from address 0, the code as long as the kernel's text in pages, the data 4 megabytes.\<close>

definition segment_base :: "seg_desc \<Rightarrow> addr" where
  "segment_base d = ucast (sd_lobase d) OR push_bit 16 (ucast (sd_midbase d)) OR push_bit 24 (ucast (sd_hibase d))"

definition segment_limit :: "seg_desc \<Rightarrow> u32" where
  "segment_limit d = ucast (sd_lolimit d) OR push_bit 16 (ucast (sd_hilimit d))"

lemma setsegs_segments:
  assumes "gdt_copy k = gdt_copy_init"
  shows "i < 8 \<Longrightarrow> segment_base (gdt (setsegs k) i) = 0"
    "i = 2 \<or> i = 3 \<Longrightarrow> segment_limit (gdt (setsegs k) i) = 1024 \<and> sd_iscode (gdt (setsegs k) i) = 0"
    "i \<in> {1, 2, 3, 4} \<Longrightarrow> sd_present (gdt (setsegs k) i) = 1 \<and> sd_dpl (gdt (setsegs k) i) = 0 \<and> sd_gran (gdt (setsegs k) i) = 1"
  using assms
  by (auto simp: setsegs_def set_limit_def segment_base_def segment_limit_def gdt_copy_init_def code_segment_def data_segment_def
    null_segment_def sizmem_def Let_def)

lemma enable_irq_frame [simp]:
  "heap (enable_irq i d k) = heap k" "pt (enable_irq i d k) = pt k" "kbd (enable_irq i d k) = kbd k"
  "kmem (enable_irq i d k) = kmem k" "process (enable_irq i d k) = process k"
  "dev_table (enable_irq i d k) = dev_table k"
  by (simp_all add: enable_irq_def inb_def outb_def emit_def kmem_def Let_def)

lemma setKbdInt_frame [simp]:
  "heap (setKbdInt d k) = heap k" "pt (setKbdInt d k) = pt k" "kbd (setKbdInt d k) = kbd k"
  "kmem (setKbdInt d k) = kmem k" "process (setKbdInt d k) = process k"
  "dev_table (setKbdInt d k) = dev_table k"
  by (simp_all add: setKbdInt_def)

lemma end_of_intr_frame [simp]:
  "heap (end_of_intr k) = heap k" "pt (end_of_intr k) = pt k" "kbd (end_of_intr k) = kbd k"
  "kmem (end_of_intr k) = kmem k" "process (end_of_intr k) = process k"
  "dev_table (end_of_intr k) = dev_table k"
  by (simp_all add: end_of_intr_def outb_def emit_def kmem_def)

lemma evec_handler_set:
  "evec_handler (idt (set_evec n h k) (unat n)) = h"
proof -
  have "(ucast (ucast h :: 16 word) :: u32) OR push_bit 16 (ucast (ucast (drop_bit 16 h) :: 16 word)) = h"
    by (rule bit_word_eqI) (auto simp: bit_simps not_less)
  then show ?thesis by (simp add: evec_handler_def set_evec_def)
qed

lemma set_evec_other: "i \<noteq> unat n \<Longrightarrow> idt (set_evec n h k) i = idt k i"
  by (simp add: set_evec_def)

end
