(* ===== verification/Ctsw.thy ===== *)
theory Ctsw
  imports Signals Hardware
begin

text \<open>
  The context switcher, \<^verbatim>\<open>c/ctsw.c\<close>, in two halves. The first delivers a pending signal and
  enters the process through its context frame; the second begins where an interrupt has
  pushed the process's registers on its own stack. Between the halves runs the process, whose
  effect is a \<open>trap\<close>: the kind of interrupt, the stack pointer it left, and what it made of the
  memory that it was entered with (any function, so what the first half stored is still there unless the process
  changed it). The kernel stack that the assembly saves its own registers on is not modelled.
\<close>

unbundle bit_operations_syntax

datatype trap_kind = TrapSyscall | TrapTimer | TrapKeyboard

record trap =
  trap_kind :: trap_kind
  trap_esp :: addr
  trap_mem :: "memory \<Rightarrow> memory"

definition SYSCALL_INT_NUM :: u32 where "SYSCALL_INT_NUM = 255"
definition TIMER_INT_NUM :: u32 where "TIMER_INT_NUM = 32"
definition KEYBOARD_INT_NUM :: u32 where "KEYBOARD_INT_NUM = 33"
definition TIMER_INT :: u32 where "TIMER_INT = 18"
definition KEYBOARD_INT :: u32 where "KEYBOARD_INT = 19"

definition contextinit :: "kernel \<Rightarrow> kernel" where
  "contextinit k =
     (let k = set_evec SYSCALL_INT_NUM (sym_syscall_entry (syms k)) k;
          k = set_evec TIMER_INT_NUM (sym_timer_entry (syms k)) k
      in set_evec KEYBOARD_INT_NUM (sym_keyboard_entry (syms k)) k)"

definition contextswitch_enter :: "pcb_ptr \<Rightarrow> kernel \<Rightarrow> kernel option" where
  "contextswitch_enter proc k = do {
     ASSERT (proc \<noteq> NullPcb);
     k \<leftarrow> (if p_signals_pending (the_pcb proc k) \<noteq> 0 then deliver_highest_priority_signal proc k else Some k);
     let cf = p_esp (the_pcb proc k);
     Some (upd_mem (\<lambda>m. store32 m (cf + cf_eax) (p_ret (the_pcb proc k))) k)
   }"

definition contextswitch_exit :: "pcb_ptr \<Rightarrow> trap \<Rightarrow> kernel \<Rightarrow> u32 \<times> kernel" where
  "contextswitch_exit proc t k =
     (let k = upd_mem (trap_mem t) k;
          rc = load32 (kmem k) (trap_esp t + cf_eax);
          args = load32 (kmem k) (trap_esp t + cf_edx);
          k = set_pcb proc (\<lambda>u. u\<lparr>p_esp := trap_esp t\<rparr>) k;
          cf = p_esp (the_pcb proc k);
          k = set_pcb proc (\<lambda>u. u\<lparr>p_ret := load32 (kmem k) (cf + cf_eax)\<rparr>) k
      in case trap_kind t of
           TrapSyscall \<Rightarrow> (rc, set_pcb proc (\<lambda>u. u\<lparr>p_ret := rc, p_args := args\<rparr>) k)
         | TrapTimer \<Rightarrow> (TIMER_INT, k)
         | TrapKeyboard \<Rightarrow> (KEYBOARD_INT, k))"

section \<open>The calling side, c/syscall.c\<close>

text \<open>
  A syscall stores its request in eax and the address of its argument list in edx, then
  interrupts; the processor pushes eflags, cs and eip, the entry point the eight registers.
  What the kernel finds is this frame, at the process's stack pointer less 44.
\<close>

record regs =
  r_edi :: u32
  r_esi :: u32
  r_ebp :: u32
  r_esp :: addr
  r_ebx :: u32
  r_ecx :: u32
  r_eip :: addr
  r_cs :: u32
  r_eflags :: u32

definition push_frame :: "u32 \<Rightarrow> addr \<Rightarrow> regs \<Rightarrow> memory \<Rightarrow> memory" where
  "push_frame req args r m =
     (let m = store32 m (r_esp r - 4) (r_eflags r);
          m = store32 m (r_esp r - 8) (r_cs r);
          m = store32 m (r_esp r - 12) (r_eip r);
          m = store32 m (r_esp r - 16) req;
          m = store32 m (r_esp r - 20) (r_ecx r);
          m = store32 m (r_esp r - 24) args;
          m = store32 m (r_esp r - 28) (r_ebx r);
          m = store32 m (r_esp r - 32) (r_esp r - 12);
          m = store32 m (r_esp r - 36) (r_ebp r);
          m = store32 m (r_esp r - 40) (r_esi r)
      in store32 m (r_esp r - 44) (r_edi r))"

text \<open>\<open>f\<close> is what the process has done to the memory before the call.\<close>

definition syscall_trap :: "u32 \<Rightarrow> addr \<Rightarrow> regs \<Rightarrow> (memory \<Rightarrow> memory) \<Rightarrow> trap" where
  "syscall_trap req args r f =
     \<lparr>trap_kind = TrapSyscall, trap_esp = r_esp r - 44, trap_mem = (\<lambda>m. push_frame req args r (f m))\<rparr>"

text \<open>
  What \<^verbatim>\<open>popa\<close> and \<^verbatim>\<open>iret\<close> load from a context frame when the process is entered again. The
  saved stack pointer of the frame is skipped; the process's own is the end of the frame.
\<close>

definition resume_regs :: "memory \<Rightarrow> addr \<Rightarrow> regs" where
  "resume_regs m esp =
     \<lparr>r_edi = load32 m esp, r_esi = load32 m (esp + 4), r_ebp = load32 m (esp + 8), r_esp = esp + 44,
      r_ebx = load32 m (esp + 16), r_ecx = load32 m (esp + 24), r_eip = load32 m (esp + 32),
      r_cs = load32 m (esp + 36), r_eflags = load32 m (esp + 40)\<rparr>"

definition resume_eax :: "memory \<Rightarrow> addr \<Rightarrow> u32" where
  "resume_eax m esp = load32 m (esp + 28)"

end
