(* ===== verification/Messaging.thy ===== *)
theory Messaging
  imports Processes
begin

text \<open>
  Messages between processes, \<^verbatim>\<open>c/msg.c\<close>. A message is copied from one process's buffer to
  the other's, the arguments of the blocked side being read from its saved argument list;
  a side that finds no partner is put on the blocked queue.
\<close>

unbundle bit_operations_syntax

definition BLOCKERR :: i32 where "BLOCKERR = -5"

text \<open>The branch of \<^verbatim>\<open>send\<close> that blocks the sender on a destination's pid.\<close>

definition block_sender :: "pcb_ptr \<Rightarrow> u32 \<Rightarrow> kernel \<Rightarrow> (i32 \<times> kernel) option" where
  "block_sender curr_proc pid k = do {
     let k = set_pcb curr_proc (\<lambda>u. u\<lparr>p_blocked_status := BLOCKED_STATUS_SEND\<rparr>) k;
     let k = set_pcb curr_proc (\<lambda>u. u\<lparr>p_blocked_id := pid\<rparr>) k;
     k \<leftarrow> on_procs (add_pcb_to_blocked_queue curr_proc) k;
     Some (BLOCKERR, k)
   }"

definition block_receiver :: "pcb_ptr \<Rightarrow> u32 \<Rightarrow> kernel \<Rightarrow> (i32 \<times> kernel) option" where
  "block_receiver curr_proc pid k = do {
     let k = set_pcb curr_proc (\<lambda>u. u\<lparr>p_blocked_status := BLOCKED_STATUS_RECEIVE\<rparr>) k;
     let k = set_pcb curr_proc (\<lambda>u. u\<lparr>p_blocked_id := pid\<rparr>) k;
     k \<leftarrow> on_procs (add_pcb_to_blocked_queue curr_proc) k;
     Some (BLOCKERR, k)
   }"

text \<open>After the copy, the blocked partner becomes ready with the length as its result.\<close>

definition release_partner :: "pcb_ptr \<Rightarrow> i32 \<Rightarrow> kernel \<Rightarrow> (i32 \<times> kernel) option" where
  "release_partner p len k = do {
     k \<leftarrow> on_procs (add_pcb_to_ready_queue p) k;
     let k = set_pcb p (\<lambda>u. u\<lparr>p_blocked_id := 0\<rparr>) k;
     let k = set_pcb p (\<lambda>u. u\<lparr>p_ret := len\<rparr>) k;
     Some (len, k)
   }"

definition min_len :: "i32 \<Rightarrow> i32 \<Rightarrow> i32" where
  "min_len buffer_len other_len = (if sint other_len < sint buffer_len then other_len else buffer_len)"

definition send :: "pcb_ptr \<Rightarrow> pcb_ptr \<Rightarrow> addr \<Rightarrow> i32 \<Rightarrow> kernel \<Rightarrow> (i32 \<times> kernel) option" where
  "send curr_proc dest_proc buffer buffer_len k = do {
     let (any_receiver, s) = peek_any_receiver (pt k);
     let k = k\<lparr>pt := s\<rparr>;
     (exists, k) \<leftarrow> (if dest_proc \<noteq> NullPcb then on_procs_ret (remove_pcb_from_blocked_queue dest_proc) k
                     else Some (False, k));
     if exists \<or> any_receiver \<noteq> NullPcb then do {
       let dest_proc = (if \<not> exists then any_receiver else dest_proc);
       if p_pid (the_pcb dest_proc k) \<noteq> 0 \<and> p_blocked_id (the_pcb dest_proc k) \<noteq> p_pid (the_pcb curr_proc k)
       then do {
         k \<leftarrow> on_procs (add_pcb_to_blocked_queue dest_proc) k;
         block_sender curr_proc (p_pid (the_pcb dest_proc k)) k
       } else do {
         let args = p_args (the_pcb dest_proc k);
         let dest_buffer = va_arg (kmem k) args 1;
         let dest_buffer_len = va_arg (kmem k) args 2;
         let min_buffer_len = min_len buffer_len dest_buffer_len;
         let k = upd_mem (blkcopy dest_buffer buffer min_buffer_len) k;
         release_partner dest_proc min_buffer_len k
       }
     } else block_sender curr_proc (p_pid (the_pcb dest_proc k)) k
   }"

definition recv :: "pcb_ptr \<Rightarrow> pcb_ptr \<Rightarrow> addr \<Rightarrow> i32 \<Rightarrow> kernel \<Rightarrow> (i32 \<times> kernel) option" where
  "recv from_proc curr_proc buffer buffer_len k = do {
     let exists = from_proc \<noteq> NullPcb;
     let (from_proc, k) = (if exists then (from_proc, k)
       else let (p, s) = peek_next_sender (pt k) in (p, k\<lparr>pt := s\<rparr>));
     (removed, k) \<leftarrow> (if from_proc \<noteq> NullPcb then on_procs_ret (remove_pcb_from_blocked_queue from_proc) k
                      else Some (False, k));
     if removed then do {
       let args = p_args (the_pcb from_proc k);
       let from_buffer = va_arg (kmem k) args 1;
       let from_buffer_len = va_arg (kmem k) args 2;
       if exists \<and> p_blocked_id (the_pcb from_proc k) \<noteq> p_pid (the_pcb curr_proc k) then do {
         k \<leftarrow> on_procs (add_pcb_to_blocked_queue from_proc) k;
         block_receiver curr_proc (p_pid (the_pcb from_proc k)) k
       } else do {
         let min_buffer_len = min_len buffer_len from_buffer_len;
         let k = upd_mem (blkcopy buffer from_buffer min_buffer_len) k;
         release_partner from_proc min_buffer_len k
       }
     } else block_receiver curr_proc (if exists then p_pid (the_pcb from_proc k) else 0) k
   }"

end
