(* ===== verification/Keyboard.thy ===== *)
theory Keyboard
  imports Hardware
begin

text \<open>
  The keyboard device, \<^verbatim>\<open>c/kbd.c\<close>. The upper half opens, closes and reads; a read copies
  what is buffered and blocks the caller when that is not enough. The lower half turns
  scancodes into characters, hands each one to every waiting reader or buffers it, and
  unblocks a reader whose buffer is full, whose line has ended, or at the end of file.
\<close>

unbundle bit_operations_syntax

section \<open>Constants and tables\<close>

definition KBD_DEFAULT_EOF :: u8 where "KBD_DEFAULT_EOF = 0x04"
definition KEYBOARD_PORT_DATA_READ :: u32 where "KEYBOARD_PORT_DATA_READ = 0x60"
definition KEYBOARD_PORT_CONTROL :: u32 where "KEYBOARD_PORT_CONTROL = 0x64"
definition KEYBOARD_IOCTL_ENABLE_ECHO :: u32 where "KEYBOARD_IOCTL_ENABLE_ECHO = 56"
definition KEYBOARD_IOCTL_DISABLE_ECHO :: u32 where "KEYBOARD_IOCTL_DISABLE_ECHO = 55"
definition KEYBOARD_IOCTL_SET_EOF :: u32 where "KEYBOARD_IOCTL_SET_EOF = 53"
definition KEYBOARD_STATE_SHIFT_BIT :: nat where "KEYBOARD_STATE_SHIFT_BIT = 0"
definition KEYBOARD_STATE_CTRL_BIT :: nat where "KEYBOARD_STATE_CTRL_BIT = 1"
definition KEYBOARD_STATE_CAPLOCK_BIT :: nat where "KEYBOARD_STATE_CAPLOCK_BIT = 2"
definition KEYBOARD_BUFFER_SIZE :: i32 where "KEYBOARD_BUFFER_SIZE = 4 + 1"
definition KBD_TASK_LIST_SIZE :: nat where "KBD_TASK_LIST_SIZE = PCB_TABLE_SIZE"
definition KBD_BLOCKERR :: i32 where "KBD_BLOCKERR = -5"

lemmas kbd_bit_defs = KEYBOARD_STATE_SHIFT_BIT_def KEYBOARD_STATE_CTRL_BIT_def KEYBOARD_STATE_CAPLOCK_BIT_def

definition kbd_lower :: "u8 list" where
  "kbd_lower = [
     0x00, 0x1b, 0x31, 0x32, 0x33, 0x34, 0x35, 0x36, 0x37, 0x38, 0x39, 0x30,
     0x2d, 0x3d, 0x08, 0x09, 0x71, 0x77, 0x65, 0x72, 0x74, 0x79, 0x75, 0x69,
     0x6f, 0x70, 0x5b, 0x5d, 0x0a, 0x00, 0x61, 0x73, 0x64, 0x66, 0x67, 0x68,
     0x6a, 0x6b, 0x6c, 0x3b, 0x27, 0x60, 0x00, 0x5c, 0x7a, 0x78, 0x63, 0x76,
     0x62, 0x6e, 0x6d, 0x2c, 0x2e, 0x2f, 0x00, 0x2a, 0x00, 0x20, 0x00, 0x00,
     0x00, 0x00, 0x00, 0x00, 0x00, 0x00, 0x00, 0x00, 0x00, 0x00, 0x00, 0x00,
     0x00, 0x00, 0x2d, 0x00, 0x00, 0x00, 0x2b, 0x00, 0x00, 0x00, 0x00, 0x00]"

definition kbd_upper :: "u8 list" where
  "kbd_upper = [
     0x00, 0x1b, 0x21, 0x40, 0x23, 0x24, 0x25, 0x5e, 0x26, 0x2a, 0x28, 0x29,
     0x5f, 0x2b, 0x08, 0x09, 0x51, 0x57, 0x45, 0x52, 0x54, 0x59, 0x55, 0x49,
     0x4f, 0x50, 0x7b, 0x7d, 0x0a, 0x00, 0x41, 0x53, 0x44, 0x46, 0x47, 0x48,
     0x4a, 0x4b, 0x4c, 0x3a, 0x22, 0x7e, 0x00, 0x7c, 0x5a, 0x58, 0x43, 0x56,
     0x42, 0x4e, 0x4d, 0x3c, 0x3e, 0x3f, 0x00, 0x00, 0x00, 0x20, 0x00, 0x00,
     0x00, 0x00, 0x00, 0x00, 0x00, 0x00, 0x00, 0x00, 0x00, 0x00, 0x00, 0x37,
     0x38, 0x39, 0x2d, 0x34, 0x35, 0x36, 0x2b, 0x31, 0x32, 0x33, 0x30, 0x2e]"

definition kbd_ctrl :: "u8 list" where
  "kbd_ctrl = [
     0x00, 0x1b, 0x00, 0x00, 0x00, 0x00, 0x00, 0x1e, 0x00, 0x00, 0x00, 0x00,
     0x1f, 0x00, 0x7f, 0x00, 0x11, 0x17, 0x05, 0x12, 0x14, 0x19, 0x15, 0x09,
     0x0f, 0x10, 0x1b, 0x1d, 0x0a, 0x00, 0x01, 0x13, 0x04, 0x06, 0x07, 0x08,
     0x0a, 0x0b, 0x0c, 0x00, 0x00, 0x00, 0x00, 0x1c, 0x1a, 0x18, 0x03, 0x16,
     0x02, 0x0e, 0x0d, 0x00, 0x00, 0x00, 0x00, 0x10, 0x00, 0x20, 0x00, 0x00,
     0x00, 0x00, 0x00, 0x00, 0x00, 0x00, 0x00, 0x00, 0x00, 0x00, 0x00, 0x00,
     0x00, 0x00, 0x00, 0x00, 0x00, 0x00, 0x00, 0x00, 0x00, 0x00, 0x00, 0x00]"


section \<open>Scancodes\<close>

definition scancode_char :: "u32 \<Rightarrow> u32 \<Rightarrow> u8" where
  "scancode_char flags data =
     (if data < 0x54 then
        if CHECK_BIT flags KEYBOARD_STATE_CTRL_BIT \<noteq> 0 then kbd_ctrl ! unat data
        else if CHECK_BIT flags KEYBOARD_STATE_SHIFT_BIT XOR CHECK_BIT flags KEYBOARD_STATE_CAPLOCK_BIT \<noteq> 0
        then kbd_upper ! unat data
        else kbd_lower ! unat data
      else 0)"

definition scancode_flags :: "u32 \<Rightarrow> u32 \<Rightarrow> u32" where
  "scancode_flags flags data =
     (if data = 0x2A \<or> data = 0x36 then SET_BIT flags KEYBOARD_STATE_SHIFT_BIT
      else if data = 0xAA \<or> data = 0xB6 then CLEAR_BIT flags KEYBOARD_STATE_SHIFT_BIT
      else if data = 0x1D then SET_BIT flags KEYBOARD_STATE_CTRL_BIT
      else if data = 0x9D then
        CLEAR_BIT flags KEYBOARD_STATE_CTRL_BIT AND NOT (of_nat KEYBOARD_STATE_CTRL_BIT)
      else if data = 0x3A then TOGGLE_BIT flags KEYBOARD_STATE_CAPLOCK_BIT
      else flags)"

definition keyboard_process_scancode :: "u32 \<Rightarrow> kernel \<Rightarrow> u8 \<times> kernel" where
  "keyboard_process_scancode data k =
     (let c = scancode_char (keyboard_keystate_flag (kbd k)) data in
      (c, if c = 0 then upd_kbd (\<lambda>b. b\<lparr>keyboard_keystate_flag := scancode_flags (keyboard_keystate_flag b) data\<rparr>) k
          else k))"

section \<open>Waiting readers\<close>

definition the_task :: "nat \<Rightarrow> kernel \<Rightarrow> kbd_task" where
  "the_task i k = kbd_task_list (kbd k) i"

definition set_task :: "nat \<Rightarrow> (kbd_task \<Rightarrow> kbd_task) \<Rightarrow> kernel \<Rightarrow> kernel" where
  "set_task i f k = upd_kbd (\<lambda>b. b\<lparr>kbd_task_list := (kbd_task_list b)(i := f (kbd_task_list b i))\<rparr>) k"

definition task_index :: "pcb_ptr \<Rightarrow> kernel \<Rightarrow> nat" where
  "task_index p k = unat (p_pid (the_pcb p k) mod of_nat KBD_TASK_LIST_SIZE)"

fun for_tasks :: "(nat \<Rightarrow> kernel \<Rightarrow> kernel option) \<Rightarrow> nat list \<Rightarrow> kernel \<Rightarrow> kernel option" where
  "for_tasks f [] k = Some k"
| "for_tasks f (i # js) k = do { k \<leftarrow> f i k; for_tasks f js k }"

definition keyboard_unblock_proc :: "nat \<Rightarrow> kernel \<Rightarrow> kernel option" where
  "keyboard_unblock_proc i k = do {
     let k = upd_kbd (\<lambda>b. b\<lparr>kbd_task_refcount := kbd_task_refcount b - 1\<rparr>) k;
     let k = set_task i (\<lambda>t. t\<lparr>t_waiting_on_read := 0\<rparr>) k;
     let p = t_pcb (the_task i k);
     let k = set_pcb p (\<lambda>u. u\<lparr>p_ret := t_buff_count (the_task i k)\<rparr>) k;
     if p_state (the_pcb p k) = PROC_STATE_BLOCKED then do {
       k \<leftarrow> on_procs (add_pcb_to_ready_queue p) k;
       Some (set_pcb p (\<lambda>u. u\<lparr>p_blocked_status := BLOCKED_STATUS_NONE\<rparr>) k)
     } else Some k
   }"

definition keyboard_handle_eof :: "kernel \<Rightarrow> kernel option" where
  "keyboard_handle_eof k = do {
     let k = setKbdInt 0 k;
     let k = upd_kbd (\<lambda>b. b\<lparr>kbd_done := 1\<rparr>) k;
     for_tasks (\<lambda>i k. if t_waiting_on_read (the_task i k) \<noteq> 0 then keyboard_unblock_proc i k else Some k)
       [0..<KBD_TASK_LIST_SIZE] k
   }"

text \<open>
  Echoing prints through \<^verbatim>\<open>kprintf\<close>. The call is recorded in the state's output, in order; its stores to the display memory,
  which \<^verbatim>\<open>Console\<close> models, are not made in the byte memory here.
\<close>

definition echo_char :: "u8 \<Rightarrow> kernel \<Rightarrow> kernel" where
  "echo_char c k =
     (if keyboard_echo_flag (kbd k) \<noteq> 0 \<and> c \<noteq> keyboard_eof (kbd k) then emit (PrintChar c) k else k)"

definition give_char :: "u8 \<Rightarrow> nat \<Rightarrow> kernel \<Rightarrow> kernel option" where
  "give_char c i k =
     (if t_waiting_on_read (the_task i k) \<noteq> 0 then
        let k = upd_mem (\<lambda>m. m(t_buff (the_task i k) + t_buff_count (the_task i k) := c)) k;
            k = set_task i (\<lambda>t. t\<lparr>t_buff_count := t_buff_count t + 1\<rparr>) k;
            k = echo_char c k
        in if t_buff_count (the_task i k) = t_bufflen (the_task i k) \<or> c = 10
           then keyboard_unblock_proc i k else Some k
      else Some k)"

definition keyboard_process_char :: "u8 \<Rightarrow> kernel \<Rightarrow> kernel option" where
  "keyboard_process_char c k =
     (if c = keyboard_eof (kbd k) then keyboard_handle_eof k
      else for_tasks (give_char c) [0..<KBD_TASK_LIST_SIZE] k)"

text \<open>The buffer's indices are 0 to 4, so the remainder is that of non-negative numbers.\<close>

partial_function (option) keyboard_flush_buffer :: "kernel \<Rightarrow> kernel option" where
  "keyboard_flush_buffer k =
     (if 0 < sint (kbd_task_refcount (kbd k)) \<and> keyboard_buffer_tail (kbd k) \<noteq> keyboard_buffer_head (kbd k)
      then do {
        let c = keyboard_buffer (kbd k) (unat (keyboard_buffer_tail (kbd k)));
        k \<leftarrow> keyboard_process_char c k;
        let k = upd_kbd (\<lambda>b. b\<lparr>keyboard_buffer_tail := (keyboard_buffer_tail b + 1) mod KEYBOARD_BUFFER_SIZE\<rparr>) k;
        keyboard_flush_buffer k
      } else Some k)"

section \<open>The interrupt\<close>

definition keyboard_isr :: "kernel \<Rightarrow> kernel option" where
  "keyboard_isr k = do {
     let (status, k) = inb KEYBOARD_PORT_CONTROL k;
     let (d, k) = inb KEYBOARD_PORT_DATA_READ k;
     let data = 0x0FF AND ucast d;
     if 1 AND status \<noteq> 0 then do {
       let (c, k) = keyboard_process_scancode data k;
       if c \<noteq> 0 then
         if 0 < sint (kbd_task_refcount (kbd k)) then keyboard_process_char c k
         else if (keyboard_buffer_head (kbd k) + 1) mod KEYBOARD_BUFFER_SIZE \<noteq> keyboard_buffer_tail (kbd k) then
           let k = upd_kbd (\<lambda>b. b\<lparr>keyboard_buffer := (keyboard_buffer b)(unat (keyboard_buffer_head b) := c)\<rparr>) k;
               k = upd_kbd (\<lambda>b. b\<lparr>keyboard_buffer_head := (keyboard_buffer_head b + 1) mod KEYBOARD_BUFFER_SIZE\<rparr>) k
           in Some (echo_char c k)
         else Some k
       else Some k
     } else Some k
   }"

section \<open>The device's operations\<close>

definition kbd_init :: "kernel \<Rightarrow> i32 \<times> kernel" where
  "kbd_init k =
     (let k = upd_kbd (\<lambda>b. b\<lparr>kbd_refcount := 0, kbd_done := 0, keyboard_buffer_head := 0,
            keyboard_buffer_tail := 0, kbd_task_refcount := 0,
            kbd_task_list := (\<lambda>i. if i < KBD_TASK_LIST_SIZE then (kbd_task_list b i)\<lparr>t_waiting_on_read := 0\<rparr>
               else kbd_task_list b i)\<rparr>) k;
          (_, k) = inb KEYBOARD_PORT_DATA_READ k;
          (_, k) = inb KEYBOARD_PORT_CONTROL k
      in (0, k))"

definition kbd_open :: "pcb_ptr \<Rightarrow> addr \<Rightarrow> kernel \<Rightarrow> (i32 \<times> kernel) option" where
  "kbd_open p blk k =
     (let echo_flag = load32 (kmem k) blk in
      if 0 < sint (kbd_refcount (kbd k)) then
        if kbd_current_type (kbd k) \<noteq> echo_flag then Some (SYSERR, k)
        else Some (0, upd_kbd (\<lambda>b. b\<lparr>kbd_refcount := kbd_refcount b + 1\<rparr>) k)
      else do {
        let k = upd_kbd (\<lambda>b. b\<lparr>kbd_current_type := echo_flag, kbd_done := 0, keyboard_buffer_head := 0,
          keyboard_buffer_tail := 0, keyboard_keystate_flag := 0, keyboard_eof := KBD_DEFAULT_EOF,
          keyboard_echo_flag := ucast echo_flag, kbd_refcount := 1\<rparr>) k;
        ASSERT (t_waiting_on_read (the_task (task_index p k) k) = 0);
        Some (0, setKbdInt 1 k)
      })"

definition kbd_close :: "pcb_ptr \<Rightarrow> addr \<Rightarrow> kernel \<Rightarrow> i32 \<times> kernel" where
  "kbd_close p blk k =
     (if sint (kbd_refcount (kbd k)) \<le> 0 then (SYSERR, k)
      else
        let k = upd_kbd (\<lambda>b. b\<lparr>kbd_refcount := kbd_refcount b - 1\<rparr>) k;
            k = (if kbd_refcount (kbd k) = 0 then setKbdInt 0 k else k);
            i = task_index p k;
            k = (if t_waiting_on_read (the_task i k) \<noteq> 0
                 then upd_kbd (\<lambda>b. b\<lparr>kbd_task_refcount := kbd_task_refcount b - 1\<rparr>) k else k)
        in (0, set_task i (\<lambda>t. t\<lparr>t_waiting_on_read := 0\<rparr>) k))"

definition kbd_read :: "pcb_ptr \<Rightarrow> addr \<Rightarrow> addr \<Rightarrow> i32 \<Rightarrow> kernel \<Rightarrow> (i32 \<times> kernel) option" where
  "kbd_read p blk buff bufflen k = do {
     let i = task_index p k;
     let k = upd_kbd (\<lambda>b. b\<lparr>kbd_task_refcount := kbd_task_refcount b + 1\<rparr>) k;
     let k = set_task i (\<lambda>t. t\<lparr>t_pcb := p, t_buff := buff, t_buff_count := 0, t_bufflen := bufflen,
       t_waiting_on_read := 1\<rparr>) k;
     k \<leftarrow> keyboard_flush_buffer k;
     Some (
       if t_buff_count (the_task i k) = bufflen then (bufflen, k)
       else if kbd_done (kbd k) \<noteq> 0 then (t_buff_count (the_task i k), k)
       else (KBD_BLOCKERR, k))
   }"

definition kbd_write :: "pcb_ptr \<Rightarrow> addr \<Rightarrow> addr \<Rightarrow> i32 \<Rightarrow> kernel \<Rightarrow> i32 \<times> kernel" where
  "kbd_write p blk buff bufflen k = (- 1, k)"

definition kbd_ioctl_set_eof :: "addr \<Rightarrow> kernel \<Rightarrow> i32 \<times> kernel" where
  "kbd_ioctl_set_eof args k =
     (if args = 0 then (SYSERR, k)
      else (0, upd_kbd (\<lambda>b. b\<lparr>keyboard_eof := ucast (va_arg (kmem k) args 0)\<rparr>) k))"

definition kbd_ioctl :: "pcb_ptr \<Rightarrow> addr \<Rightarrow> u32 \<Rightarrow> addr \<Rightarrow> kernel \<Rightarrow> i32 \<times> kernel" where
  "kbd_ioctl p blk command args k =
     (if command = KEYBOARD_IOCTL_SET_EOF then kbd_ioctl_set_eof args k
      else if command = KEYBOARD_IOCTL_ENABLE_ECHO then (0, upd_kbd (\<lambda>b. b\<lparr>keyboard_echo_flag := 1\<rparr>) k)
      else if command = KEYBOARD_IOCTL_DISABLE_ECHO then (0, upd_kbd (\<lambda>b. b\<lparr>keyboard_echo_flag := 0\<rparr>) k)
      else (SYSERR, k))"

definition kbd_iint :: i32 where "kbd_iint = - 1"
definition kbd_oint :: i32 where "kbd_oint = - 1"

definition kbd_devsw_init :: "nat \<Rightarrow> i32 \<Rightarrow> kernel \<Rightarrow> kernel option" where
  "kbd_devsw_init i echo k = do {
     let k = k\<lparr>dev_table := (dev_table k)(i := (dev_table k i)
       \<lparr>dvname := ''keyboard'', dvdriver := KbdDriver, dvminor := echo\<rparr>)\<rparr>;
     (blk, k) \<leftarrow> on_heap (kmalloc 4) k;
     let k = k\<lparr>dev_table := (dev_table k)(i := (dev_table k i)\<lparr>dvioblk := blk\<rparr>)\<rparr>;
     ASSERT (dvioblk (dev_table k i) \<noteq> 0);
     Some (upd_mem (\<lambda>m. store32 m (dvioblk (dev_table k i)) echo) k)
   }"

end
