(* ===== verification/Devices.thy ===== *)
theory Devices
  imports Keyboard
begin

text \<open>
  The device independent calls, \<^verbatim>\<open>c/di_calls.c\<close>: they check the descriptor and go through the
  device table to the driver's handler. A call through an entry that was never initialised
  (a jump to address 0) does not return in this model.
\<close>

unbundle bit_operations_syntax

definition NUM_DEVICES :: nat where "NUM_DEVICES = 2"
definition DEV_ID_KEYBOARD_NO_ECHO :: nat where "DEV_ID_KEYBOARD_NO_ECHO = 0"
definition DEV_ID_KEYBOARD :: nat where "DEV_ID_KEYBOARD = 1"

section \<open>The handlers of a table entry\<close>

definition dvinit :: "driver \<Rightarrow> kernel \<Rightarrow> (i32 \<times> kernel) option" where
  "dvinit d k = (case d of KbdDriver \<Rightarrow> Some (kbd_init k) | NoDriver \<Rightarrow> None)"

definition dvopen :: "driver \<Rightarrow> pcb_ptr \<Rightarrow> addr \<Rightarrow> kernel \<Rightarrow> (i32 \<times> kernel) option" where
  "dvopen d p blk k = (case d of KbdDriver \<Rightarrow> kbd_open p blk k | NoDriver \<Rightarrow> None)"

definition dvclose :: "driver \<Rightarrow> pcb_ptr \<Rightarrow> addr \<Rightarrow> kernel \<Rightarrow> (i32 \<times> kernel) option" where
  "dvclose d p blk k = (case d of KbdDriver \<Rightarrow> Some (kbd_close p blk k) | NoDriver \<Rightarrow> None)"

definition dvread :: "driver \<Rightarrow> pcb_ptr \<Rightarrow> addr \<Rightarrow> addr \<Rightarrow> i32 \<Rightarrow> kernel \<Rightarrow> (i32 \<times> kernel) option" where
  "dvread d p blk buff bufflen k = (case d of KbdDriver \<Rightarrow> kbd_read p blk buff bufflen k | NoDriver \<Rightarrow> None)"

definition dvwrite :: "driver \<Rightarrow> pcb_ptr \<Rightarrow> addr \<Rightarrow> addr \<Rightarrow> i32 \<Rightarrow> kernel \<Rightarrow> (i32 \<times> kernel) option" where
  "dvwrite d p blk buff bufflen k =
     (case d of KbdDriver \<Rightarrow> Some (kbd_write p blk buff bufflen k) | NoDriver \<Rightarrow> None)"

definition dvioctl :: "driver \<Rightarrow> pcb_ptr \<Rightarrow> addr \<Rightarrow> u32 \<Rightarrow> addr \<Rightarrow> kernel \<Rightarrow> (i32 \<times> kernel) option" where
  "dvioctl d p blk command args k =
     (case d of KbdDriver \<Rightarrow> Some (kbd_ioctl p blk command args k) | NoDriver \<Rightarrow> None)"

section \<open>The calls\<close>

definition di_init_devtable :: "kernel \<Rightarrow> kernel option" where
  "di_init_devtable k = do {
     k \<leftarrow> kbd_devsw_init DEV_ID_KEYBOARD_NO_ECHO 0 k;
     k \<leftarrow> kbd_devsw_init DEV_ID_KEYBOARD 1 k;
     for_tasks (\<lambda>i k. map_option snd (dvinit (dvdriver (dev_table k i)) k)) [0..<NUM_DEVICES] k
   }"

definition valid_fd :: "pcb_ptr \<Rightarrow> i32 \<Rightarrow> kernel \<Rightarrow> bool" where
  "valid_fd p fd k \<longleftrightarrow>
     \<not> (sint fd < 0 \<or> int PCB_MAX_FDS \<le> sint fd \<or> p_fd_table (the_pcb p k) (unat fd) = None)"

text \<open>The first free slot, or \<^verbatim>\<open>PCB_MAX_FDS\<close>.\<close>

fun first_free :: "(nat \<Rightarrow> nat option) \<Rightarrow> nat \<Rightarrow> nat \<Rightarrow> nat" where
  "first_free tab fd 0 = fd"
| "first_free tab fd (Suc n) = (if tab fd = None then fd else first_free tab (fd + 1) n)"

definition di_open :: "pcb_ptr \<Rightarrow> i32 \<Rightarrow> kernel \<Rightarrow> (i32 \<times> kernel) option" where
  "di_open p device_no k = do {
     ASSERT (p \<noteq> NullPcb);
     if sint device_no < 0 \<or> int NUM_DEVICES \<le> sint device_no then Some (SYSERR, k)
     else do {
       let fd = first_free (p_fd_table (the_pcb p k)) 0 PCB_MAX_FDS;
       if PCB_MAX_FDS \<le> fd then Some (SYSERR, k)
       else do {
         let dev = unat device_no;
         (result, k) \<leftarrow> dvopen (dvdriver (dev_table k dev)) p (dvioblk (dev_table k dev)) k;
         if result \<noteq> 0 then Some (SYSERR, k)
         else Some (of_nat fd, set_pcb p (\<lambda>u. u\<lparr>p_fd_table := (p_fd_table u)(fd := Some dev)\<rparr>) k)
       }
     }
   }"

text \<open>The device that an open descriptor stands for.\<close>

definition fd_entry :: "pcb_ptr \<Rightarrow> i32 \<Rightarrow> kernel \<Rightarrow> devsw" where
  "fd_entry p fd k = dev_table k (the (p_fd_table (the_pcb p k) (unat fd)))"

definition di_close :: "pcb_ptr \<Rightarrow> i32 \<Rightarrow> kernel \<Rightarrow> (i32 \<times> kernel) option" where
  "di_close p fd k = do {
     ASSERT (p \<noteq> NullPcb);
     if \<not> valid_fd p fd k then Some (SYSERR, k)
     else do {
       let e = fd_entry p fd k;
       (result, k) \<leftarrow> dvclose (dvdriver e) p (dvioblk e) k;
       if result \<noteq> 0 then Some (SYSERR, k)
       else Some (0, set_pcb p (\<lambda>u. u\<lparr>p_fd_table := (p_fd_table u)(unat fd := None)\<rparr>) k)
     }
   }"

definition di_write :: "pcb_ptr \<Rightarrow> i32 \<Rightarrow> addr \<Rightarrow> i32 \<Rightarrow> kernel \<Rightarrow> (i32 \<times> kernel) option" where
  "di_write p fd buff bufflen k = do {
     ASSERT (p \<noteq> NullPcb);
     if \<not> valid_fd p fd k then Some (SYSERR, k)
     else do {
       let e = fd_entry p fd k;
       dvwrite (dvdriver e) p (dvioblk e) buff bufflen k
     }
   }"

definition di_read :: "pcb_ptr \<Rightarrow> i32 \<Rightarrow> addr \<Rightarrow> i32 \<Rightarrow> kernel \<Rightarrow> (i32 \<times> kernel) option" where
  "di_read p fd buff bufflen k = do {
     ASSERT (p \<noteq> NullPcb);
     if \<not> valid_fd p fd k then Some (SYSERR, k)
     else do {
       let e = fd_entry p fd k;
       dvread (dvdriver e) p (dvioblk e) buff bufflen k
     }
   }"

definition di_ioctl :: "pcb_ptr \<Rightarrow> i32 \<Rightarrow> u32 \<Rightarrow> addr \<Rightarrow> kernel \<Rightarrow> (i32 \<times> kernel) option" where
  "di_ioctl p fd command command_args k = do {
     ASSERT (p \<noteq> NullPcb);
     if \<not> valid_fd p fd k then Some (SYSERR, k)
     else do {
       let e = fd_entry p fd k;
       dvioctl (dvdriver e) p (dvioblk e) command command_args k
     }
   }"

end
