(* ===== verification/Dispatcher.thy ===== *)
theory Dispatcher
  imports Ctsw Messaging Devices
begin

text \<open>
  The dispatcher, \<^verbatim>\<open>c/disp.c\<close>: one handler per request, and the loop that enters the current
  process, takes its request and chooses the process to run next. The result of a handler
  that returns one is stored in the process that made the request, also when the handler has
  changed the current process (the compiler loads the pointer before the call).
\<close>

unbundle bit_operations_syntax

section \<open>Request numbers and results\<close>

definition SYSCALL_CREATE :: u32 where "SYSCALL_CREATE = 0"
definition SYSCALL_YIELD :: u32 where "SYSCALL_YIELD = 1"
definition SYSCALL_STOP :: u32 where "SYSCALL_STOP = 2"
definition SYSCALL_GETPID :: u32 where "SYSCALL_GETPID = 3"
definition SYSCALL_PUTS :: u32 where "SYSCALL_PUTS = 4"
definition SYSCALL_KILL :: u32 where "SYSCALL_KILL = 5"
definition SYSCALL_RECV :: u32 where "SYSCALL_RECV = 6"
definition SYSCALL_SEND :: u32 where "SYSCALL_SEND = 7"
definition SYSCALL_SLEEP :: u32 where "SYSCALL_SLEEP = 8"
definition SYSCALL_CPUTIMES :: u32 where "SYSCALL_CPUTIMES = 9"
definition SYSCALL_SIGHANDLER :: u32 where "SYSCALL_SIGHANDLER = 10"
definition SYSCALL_SIGRETURN :: u32 where "SYSCALL_SIGRETURN = 11"
definition SYSCALL_WAIT :: u32 where "SYSCALL_WAIT = 12"
definition SYSCALL_OPEN :: u32 where "SYSCALL_OPEN = 13"
definition SYSCALL_CLOSE :: u32 where "SYSCALL_CLOSE = 14"
definition SYSCALL_WRITE :: u32 where "SYSCALL_WRITE = 15"
definition SYSCALL_READ :: u32 where "SYSCALL_READ = 16"
definition SYSCALL_IOCTL :: u32 where "SYSCALL_IOCTL = 17"

lemmas request_defs = SYSCALL_CREATE_def SYSCALL_YIELD_def SYSCALL_STOP_def SYSCALL_GETPID_def
  SYSCALL_PUTS_def SYSCALL_KILL_def SYSCALL_RECV_def SYSCALL_SEND_def SYSCALL_SLEEP_def
  SYSCALL_CPUTIMES_def SYSCALL_SIGHANDLER_def SYSCALL_SIGRETURN_def SYSCALL_WAIT_def SYSCALL_OPEN_def
  SYSCALL_CLOSE_def SYSCALL_WRITE_def SYSCALL_READ_def SYSCALL_IOCTL_def TIMER_INT_def KEYBOARD_INT_def

definition SYSPID_SELF :: i32 where "SYSPID_SELF = -2"
definition SYSERR_OTHER :: i32 where "SYSERR_OTHER = -3"
definition SYSHANDLER_NEWHANDLER_INVALID :: i32 where "SYSHANDLER_NEWHANDLER_INVALID = -2"
definition SYSHANDLER_OLDHANDLER_INVALID :: i32 where "SYSHANDLER_OLDHANDLER_INVALID = -3"
definition SYSKILL_TARGET_DNE :: i32 where "SYSKILL_TARGET_DNE = -512"

section \<open>The current process\<close>

definition cur_pcb :: "kernel \<Rightarrow> pcb" where
  "cur_pcb k = the_pcb (process k) k"

definition set_cur :: "(pcb \<Rightarrow> pcb) \<Rightarrow> kernel \<Rightarrow> kernel" where
  "set_cur f k = set_pcb (process k) f k"

definition cur_ret :: "i32 \<Rightarrow> kernel \<Rightarrow> kernel" where
  "cur_ret r k = set_cur (\<lambda>u. u\<lparr>p_ret := r\<rparr>) k"

definition arg :: "kernel \<Rightarrow> nat \<Rightarrow> u32" where
  "arg k i = va_arg (kmem k) (p_args (cur_pcb k)) i"

definition run_next :: "kernel \<Rightarrow> kernel" where
  "run_next k = (let (p, s) = get_next_pcb (pt k) in k\<lparr>pt := s, process := p\<rparr>)"

section \<open>Handlers\<close>

definition handle_syscall_create :: "kernel \<Rightarrow> (i32 \<times> kernel) option" where
  "handle_syscall_create k = do {
     let fp = arg k 0;
     let sz = arg k 1;
     ptr_check \<leftarrow> verify_sysptr fp 4 (heap k);
     if ptr_check \<noteq> OK then Some (ptr_check, k) else create fp sz k
   }"

text \<open>
  \<^verbatim>\<open>sysputs\<close> prints with the process's string as the format. The call is recorded in the state's output; its stores to the display
  memory, which \<^verbatim>\<open>Console\<close> models, are not made in the byte memory here.
\<close>

definition handle_syscall_puts :: "kernel \<Rightarrow> kernel" where
  "handle_syscall_puts k = cur_ret 0 (emit (PrintFormat (arg k 0)) k)"

definition handle_syscall_kill :: "kernel \<Rightarrow> (i32 \<times> kernel) option" where
  "handle_syscall_kill k =
     (let pid = arg k 0;
          signalNumber = arg k 1;
          proc_to_signal = pid_to_pcb pid (pt k)
      in if proc_to_signal = NullPcb then Some (SYSKILL_TARGET_DNE, k)
         else set_pcb_signal proc_to_signal signalNumber k)"

definition handle_syscall_wait :: "kernel \<Rightarrow> kernel option" where
  "handle_syscall_wait k =
     (let pid = arg k 0 in
      if pid_to_pcb pid (pt k) = NullPcb \<or> pid = 0 then Some (cur_ret SYSPID_DNE k)
      else do {
        let k = set_cur (\<lambda>u. u\<lparr>p_blocked_status := BLOCKED_STATUS_WAITING\<rparr>) k;
        let k = set_cur (\<lambda>u. u\<lparr>p_blocked_id := pid\<rparr>) k;
        k \<leftarrow> on_procs (add_pcb_to_blocked_queue (process k)) k;
        Some (run_next (cur_ret 0 k))
      })"

definition handle_syscall_send :: "kernel \<Rightarrow> (i32 \<times> kernel) option" where
  "handle_syscall_send k =
     (let dest_pid = arg k 0;
          buffer = arg k 1;
          buffer_len = arg k 2;
          dest_proc = pid_to_pcb dest_pid (pt k)
      in if dest_proc = NullPcb then Some (SYSPID_DNE, k)
         else if dest_pid = p_pid (cur_pcb k) then Some (SYSPID_SELF, k)
         else if sint buffer_len \<le> 0 then Some (SYSERR_OTHER, k)
         else do {
           check \<leftarrow> verify_sysptr buffer buffer_len (heap k);
           if check \<noteq> OK then Some (SYSERR_OTHER, k)
           else do {
             (ret, k) \<leftarrow> send (process k) dest_proc buffer buffer_len k;
             if ret = BLOCKERR then Some (SYSPID_DNE, run_next k) else Some (ret, k)
           }
         })"

definition handle_syscall_recv :: "kernel \<Rightarrow> (i32 \<times> kernel) option" where
  "handle_syscall_recv k = do {
     let from_pid = arg k 0;
     let buffer = arg k 1;
     let buffer_len = arg k 2;
     check \<leftarrow> verify_sysptr from_pid 4 (heap k);
     if check \<noteq> OK then Some (SYSERR_OTHER, k)
     else do {
       let pid = load32 (kmem k) from_pid;
       let from_proc = pid_to_pcb pid (pt k);
       if pid \<noteq> 0 \<and> from_proc = NullPcb then Some (SYSPID_DNE, k)
       else if pid = p_pid (cur_pcb k) then Some (SYSPID_SELF, k)
       else if sint buffer_len \<le> 0 then Some (SYSERR_OTHER, k)
       else do {
         check \<leftarrow> verify_sysptr buffer buffer_len (heap k);
         if check \<noteq> OK then Some (SYSERR_OTHER, k)
         else do {
           (ret, k) \<leftarrow> recv from_proc (process k) buffer buffer_len k;
           if ret = BLOCKERR then Some (SYSPID_DNE, run_next k) else Some (ret, k)
         }
       }
     }
   }"

definition handle_syscall_sleep :: "kernel \<Rightarrow> kernel option" where
  "handle_syscall_sleep k =
     (let milliseconds = arg k 0;
          k = (if milliseconds = 0 then cur_ret 0 k else k)
      in on_procs (sleep (process k) milliseconds) k)"

definition handle_syscall_cputimes :: "kernel \<Rightarrow> i32 \<times> kernel" where
  "handle_syscall_cputimes k =
     (let ps = arg k 0 in
      if HOLESTART \<le> ps \<and> ps \<le> HOLEEND then (- 1, k)
      else if maxaddr (heap k) < ps + sizeof_processStatuses then (- 2, k)
      else fill_processStatus (process k) ps k)"

definition handle_syscall_sighandler :: "kernel \<Rightarrow> (i32 \<times> kernel) option" where
  "handle_syscall_sighandler k =
     (let signalNumber = arg k 0;
          new_handler = arg k 1;
          old_handler = arg k 2
      in if sint signalNumber < 0 \<or> sint SIGNAL_TABLE_SIZE \<le> sint signalNumber \<or> signalNumber = KILL_SIGNAL_NUM
         then Some (INVALID_SIGNAL, k)
         else do {
           new_ok \<leftarrow> (if new_handler \<noteq> 0 then verify_sysptr new_handler 4 (heap k) else Some OK);
           if new_ok \<noteq> OK then Some (SYSHANDLER_NEWHANDLER_INVALID, k)
           else do {
             old_ok \<leftarrow> verify_sysptr old_handler 4 (heap k);
             if old_ok \<noteq> OK then Some (SYSHANDLER_OLDHANDLER_INVALID, k)
             else
               let entry = p_signal_table (cur_pcb k) + 4 * signalNumber;
                   k = upd_mem (\<lambda>m. store32 m old_handler (load32 m entry)) k;
                   k = upd_mem (\<lambda>m. store32 m entry new_handler) k
               in Some (0, k)
           }
         })"

definition handle_syscall_sigreturn :: "kernel \<Rightarrow> kernel option" where
  "handle_syscall_sigreturn k = do {
     let old_sp = arg k 0;
     check \<leftarrow> verify_sysptr old_sp 4 (heap k);
     if check \<noteq> OK then do {
       k \<leftarrow> cleanup_pcb (process k) k;
       Some (run_next k)
     } else do {
       let k = cur_ret (load32 (kmem k) (old_sp - 4)) k;
       let k = set_cur (\<lambda>u. u\<lparr>p_esp := old_sp\<rparr>) k;
       highest_sig_found \<leftarrow> highest_bit (p_signals_enabled (cur_pcb k)) (SIGNAL_TABLE_SIZE - 1);
       Some (set_cur (\<lambda>u. u\<lparr>p_signals_enabled := CLEAR_BIT (p_signals_enabled u) (unat highest_sig_found)\<rparr>) k)
     }
   }"

definition handle_syscall_open :: "kernel \<Rightarrow> kernel option" where
  "handle_syscall_open k = do {
     (r, k) \<leftarrow> di_open (process k) (arg k 0) k;
     Some (cur_ret r k)
   }"

definition handle_syscall_close :: "kernel \<Rightarrow> kernel option" where
  "handle_syscall_close k = do {
     (r, k) \<leftarrow> di_close (process k) (arg k 0) k;
     Some (cur_ret r k)
   }"

definition handle_syscall_read :: "kernel \<Rightarrow> kernel option" where
  "handle_syscall_read k = do {
     let fd = arg k 0;
     let buff = arg k 1;
     let bufflen = arg k 2;
     check \<leftarrow> verify_sysptr buff bufflen (heap k);
     if check \<noteq> OK then Some (cur_ret SYSERR k)
     else do {
       (r, k) \<leftarrow> di_read (process k) fd buff bufflen k;
       let k = cur_ret r k;
       Some (
         if p_ret (cur_pcb k) = BLOCKERR then
           let k = set_cur (\<lambda>u. u\<lparr>p_state := PROC_STATE_BLOCKED\<rparr>) k;
               k = set_cur (\<lambda>u. u\<lparr>p_blocked_status := BLOCKED_STATUS_DEVICE\<rparr>) k
           in run_next k
         else k)
     }
   }"

definition handle_syscall_write :: "kernel \<Rightarrow> kernel option" where
  "handle_syscall_write k = do {
     let fd = arg k 0;
     let buff = arg k 1;
     let bufflen = arg k 2;
     check \<leftarrow> verify_sysptr buff bufflen (heap k);
     if check \<noteq> OK then Some (cur_ret SYSERR k)
     else do {
       (r, k) \<leftarrow> di_write (process k) fd buff bufflen k;
       Some (cur_ret r k)
     }
   }"

definition handle_syscall_ioctl :: "kernel \<Rightarrow> kernel option" where
  "handle_syscall_ioctl k = do {
     (r, k) \<leftarrow> di_ioctl (process k) (arg k 0) (arg k 1) (arg k 2) k;
     Some (cur_ret r k)
   }"

section \<open>The loop\<close>

definition ret_to :: "pcb_ptr \<Rightarrow> (i32 \<times> kernel) option \<Rightarrow> kernel option" where
  "ret_to p res = map_option (\<lambda>(r, k). set_pcb p (\<lambda>u. u\<lparr>p_ret := r\<rparr>) k) res"

definition handle_request :: "u32 \<Rightarrow> kernel \<Rightarrow> kernel option" where
  "handle_request request k =
     (if request = SYSCALL_CREATE then ret_to (process k) (handle_syscall_create k)
      else if request = SYSCALL_YIELD then map_option run_next (on_procs (add_pcb_to_ready_queue (process k)) k)
      else if request = SYSCALL_STOP then map_option run_next (cleanup_pcb (process k) k)
      else if request = SYSCALL_GETPID then Some (cur_ret (p_pid (cur_pcb k)) k)
      else if request = SYSCALL_KILL then ret_to (process k) (handle_syscall_kill k)
      else if request = SYSCALL_PUTS then Some (handle_syscall_puts k)
      else if request = SYSCALL_SEND then ret_to (process k) (handle_syscall_send k)
      else if request = SYSCALL_RECV then ret_to (process k) (handle_syscall_recv k)
      else if request = SYSCALL_SLEEP then map_option run_next (handle_syscall_sleep k)
      else if request = SYSCALL_CPUTIMES then ret_to (process k) (Some (handle_syscall_cputimes k))
      else if request = SYSCALL_SIGHANDLER then ret_to (process k) (handle_syscall_sighandler k)
      else if request = SYSCALL_SIGRETURN then handle_syscall_sigreturn k
      else if request = SYSCALL_WAIT then handle_syscall_wait k
      else if request = SYSCALL_OPEN then handle_syscall_open k
      else if request = SYSCALL_CLOSE then handle_syscall_close k
      else if request = SYSCALL_WRITE then handle_syscall_write k
      else if request = SYSCALL_READ then handle_syscall_read k
      else if request = SYSCALL_IOCTL then handle_syscall_ioctl k
      else if request = TIMER_INT then do {
        k \<leftarrow> on_procs tick k;
        let k = set_cur (\<lambda>u. u\<lparr>p_cpu_time := p_cpu_time u + 1\<rparr>) k;
        k \<leftarrow> (if p_pid (cur_pcb k) \<noteq> 0 then on_procs (add_pcb_to_ready_queue (process k)) k else Some k);
        Some (end_of_intr (run_next k))
      }
      else if request = KEYBOARD_INT then map_option end_of_intr (keyboard_isr k)
      else None)"

definition pick_idle :: "kernel \<Rightarrow> kernel" where
  "pick_idle k = (if process k = NullPcb then k\<lparr>process := get_idleproc\<rparr> else k)"

text \<open>One round of the loop: enter the current process, then serve the trap it ends in.\<close>

definition dispatch_round :: "trap \<Rightarrow> kernel \<Rightarrow> kernel option" where
  "dispatch_round t k = do {
     let k = pick_idle k;
     k \<leftarrow> contextswitch_enter (process k) k;
     let (request, k) = contextswitch_exit (process k) t k;
     handle_request request k
   }"

fun dispatch_loop :: "trap list \<Rightarrow> kernel \<Rightarrow> kernel option" where
  "dispatch_loop [] k = Some k"
| "dispatch_loop (t # ts) k = do { k \<leftarrow> dispatch_round t k; dispatch_loop ts k }"

definition dispatch :: "trap list \<Rightarrow> kernel \<Rightarrow> kernel option" where
  "dispatch ts k = dispatch_loop ts (run_next k)"

section \<open>Start-up, c/init.c\<close>

definition dispinit :: "kernel \<Rightarrow> kernel option" where
  "dispinit k = initpcb k"

definition rootinit :: "kernel \<Rightarrow> kernel option" where
  "rootinit k = do {
     let k = emit (PrintLog ''Launching root process...'') k;
     (_, k) \<leftarrow> create (sym_root (syms k)) DEFAULT_STACK_SIZE k;
     Some k
   }"

definition initproc :: "trap list \<Rightarrow> kernel \<Rightarrow> kernel option" where
  "initproc ts k = do {
     let k = emit (PrintLog ''CPSC 415, 2017W1 32 Bit Xeros -1.0.0 - even before beta'') k;
     let k = k\<lparr>heap := kmeminit (heap k)\<rparr>;
     let k = emit (PrintLog ''Memory manager initialized!'') k;
     k \<leftarrow> di_init_devtable k;
     let k = emit (PrintLog ''Devices initialized!'') k;
     let k = contextinit k;
     let k = emit (PrintLog ''Context switcher initialized!'') k;
     k \<leftarrow> dispinit k;
     let k = emit (PrintLog ''Dispatcher initialized!'') k;
     (_, k) \<leftarrow> idleinit k;
     k \<leftarrow> rootinit k;
     k \<leftarrow> initPIT 100 k;
     let k = emit (PrintLog ''System initialization complete! Entering dispatcher...'') k;
     dispatch ts k
   }"

end
