(* ===== verification/Syscalls.thy ===== *)
theory Syscalls
  imports Dispatcher
begin

text \<open>
  The calls a process makes, \<^verbatim>\<open>c/syscall.c\<close>: each is a request number with the words of its
  argument list, which lie consecutively on the process's stack.
\<close>

unbundle bit_operations_syntax

type_synonym sys_call = "u32 \<times> u32 list"

definition syscreate :: "addr \<Rightarrow> i32 \<Rightarrow> sys_call" where
  "syscreate func stack = (SYSCALL_CREATE, [func, stack])"

definition sysyield :: sys_call where
  "sysyield = (SYSCALL_YIELD, [])"

definition sysstop :: sys_call where
  "sysstop = (SYSCALL_STOP, [])"

definition sysgetpid :: sys_call where
  "sysgetpid = (SYSCALL_GETPID, [])"

definition sysputs :: "addr \<Rightarrow> sys_call" where
  "sysputs str = (SYSCALL_PUTS, [str])"

definition syskill :: "u32 \<Rightarrow> i32 \<Rightarrow> sys_call" where
  "syskill pid signalNumber = (SYSCALL_KILL, [pid, signalNumber])"

definition syssend :: "u32 \<Rightarrow> addr \<Rightarrow> i32 \<Rightarrow> sys_call" where
  "syssend dest_pid buffer buffer_len = (SYSCALL_SEND, [dest_pid, buffer, buffer_len])"

definition sysrecv :: "addr \<Rightarrow> addr \<Rightarrow> i32 \<Rightarrow> sys_call" where
  "sysrecv from_pid buffer buffer_len = (SYSCALL_RECV, [from_pid, buffer, buffer_len])"

definition syssleep :: "u32 \<Rightarrow> sys_call" where
  "syssleep milliseconds = (SYSCALL_SLEEP, [milliseconds])"

definition sysgetcputimes :: "addr \<Rightarrow> sys_call" where
  "sysgetcputimes ps = (SYSCALL_CPUTIMES, [ps])"

definition syswait :: "u32 \<Rightarrow> sys_call" where
  "syswait pid = (SYSCALL_WAIT, [pid])"

definition syssighandler :: "i32 \<Rightarrow> addr \<Rightarrow> addr \<Rightarrow> sys_call" where
  "syssighandler sig newHandler oldHandler = (SYSCALL_SIGHANDLER, [sig, newHandler, oldHandler])"

definition syssigreturn :: "addr \<Rightarrow> sys_call" where
  "syssigreturn old_sp = (SYSCALL_SIGRETURN, [old_sp])"

definition sysopen :: "i32 \<Rightarrow> sys_call" where
  "sysopen device_no = (SYSCALL_OPEN, [device_no])"

definition sysclose :: "i32 \<Rightarrow> sys_call" where
  "sysclose fd = (SYSCALL_CLOSE, [fd])"

definition syswrite :: "i32 \<Rightarrow> addr \<Rightarrow> i32 \<Rightarrow> sys_call" where
  "syswrite fd buff bufflen = (SYSCALL_WRITE, [fd, buff, bufflen])"

definition sysread :: "i32 \<Rightarrow> addr \<Rightarrow> i32 \<Rightarrow> sys_call" where
  "sysread fd buff bufflen = (SYSCALL_READ, [fd, buff, bufflen])"

text \<open>The variable arguments of \<^verbatim>\<open>sysioctl\<close> are passed by the address of their list.\<close>

definition sysioctl :: "i32 \<Rightarrow> u32 \<Rightarrow> addr \<Rightarrow> sys_call" where
  "sysioctl fd command args = (SYSCALL_IOCTL, [fd, command, args])"

text \<open>A call with its arguments stored at \<open>args\<close> on the stack of a process with registers \<open>r\<close>.\<close>

fun store_args :: "addr \<Rightarrow> u32 list \<Rightarrow> memory \<Rightarrow> memory" where
  "store_args p [] m = m"
| "store_args p (a # as) m = store_args (p + 4) as (store32 m p a)"

definition sys_enter :: "sys_call \<Rightarrow> addr \<Rightarrow> regs \<Rightarrow> (memory \<Rightarrow> memory) \<Rightarrow> trap" where
  "sys_enter c args r f = syscall_trap (fst c) args r (\<lambda>m. store_args args (snd c) (f m))"

section \<open>What the kernel finds\<close>

lemma store_args_other:
  assumes "\<forall>i<length as. far (p + of_nat (4 * i)) 4 b 4"
  shows "load32 (store_args p as m) b = load32 m b"
  using assms
proof (induction p as m rule: store_args.induct)
  case (2 p a as m)
  have "far (p + 4 + of_nat (4 * i)) 4 b 4" if "i < length as" for i
    using "2.prems" [rule_format, of "Suc i"] that by (simp add: ac_simps)
  with "2.IH" "2.prems" [rule_format, of 0] show ?case by (simp add: load32_store32_far)
qed simp

lemma store_args_nth:
  assumes "i < length as" "length as \<le> 2 ^ 20"
  shows "load32 (store_args p as m) (p + of_nat (4 * i)) = as ! i"
  using assms
proof (induction as arbitrary: p m i)
  case (Cons a as)
  show ?case
  proof (cases i)
    case 0
    have "far (p + 4 + of_nat (4 * j)) 4 p 4" if "j < length as" for j
    proof -
      have "unat (4 + of_nat (4 * j) :: addr) = 4 + 4 * j"
        using that Cons.prems(2) by (simp add: unat_word_ariths unat_of_nat)
      moreover have "unat (0 - (4 + of_nat (4 * j) :: addr)) = 2 ^ 32 - (4 + 4 * j)"
        unfolding unat_sub_if' calculation by simp
      ultimately show ?thesis using that Cons.prems(2) by (simp add: far_def)
    qed
    then show ?thesis using 0 by (simp add: store_args_other)
  next
    case (Suc j)
    with Cons.IH [of j "p + 4" "store32 m p a"] Cons.prems show ?thesis by (simp add: ac_simps)
  qed
qed simp

end
