(* ===== verification/Kernel_Properties.thy ===== *)
theory Kernel_Properties
  imports Mem_Properties Table_Properties Syscalls
begin

text \<open>
  Properties of the context switch, the system calls and the dispatcher, with a concrete kernel
  for their instances: how a request and its arguments reach the kernel and how the result returns.
\<close>

unbundle bit_operations_syntax

section \<open>A concrete kernel\<close>

definition demo_kernel :: kernel where
  "demo_kernel = \<lparr>heap = kmeminit boot_state, pt = demo_procs,
     kbd = \<lparr>kbd_task_list = (\<lambda>_. \<lparr>t_pcb = NullPcb, t_buff = 0, t_bufflen = 0, t_buff_count = 0, t_waiting_on_read = 0\<rparr>),
       kbd_task_refcount = 0, kbd_refcount = 0, kbd_current_type = 0, kbd_done = 0, keyboard_keystate_flag = 0,
       keyboard_buffer = (\<lambda>_. 0), keyboard_buffer_head = 0, keyboard_buffer_tail = 0, keyboard_eof = 4,
       keyboard_echo_flag = 0\<rparr>,
     dev_table = (\<lambda>i. \<lparr>dvname = ''keyboard'', dvdriver = KbdDriver, dvminor = of_nat i, dvioblk = 0x20000\<rparr>),
     process = PcbSlot 7, idt = (\<lambda>_. zero_idt_entry),
     gdt_copy = (\<lambda>_. undefined), gdt = (\<lambda>_. undefined), initsp = 0, inputs = (\<lambda>_. 0), n_inputs = 0, io = [],
     syms = \<lparr>sym_sysstop = 0x1000, sym_sigtramp = 0x1100, sym_idleproc = 0x1200, sym_root = 0x1300,
       sym_syscall_entry = 0x1400, sym_timer_entry = 0x1500, sym_keyboard_entry = 0x1600, sym_etext = 0x8000,
       sym_end = 0xC000, sym_defevec = (\<lambda>i. of_nat i), sym_cs = 8\<rparr>\<rparr>"

lemma demo_kernel_simps [simp]:
  "pt demo_kernel = demo_procs" "process demo_kernel = PcbSlot 7" "heap demo_kernel = kmeminit boot_state"
  "the_pcb (PcbSlot i) demo_kernel = demo_pcb i"
  by (simp_all add: demo_kernel_def the_pcb_def)

definition demo_regs :: regs where
  "demo_regs = \<lparr>r_edi = 1, r_esi = 2, r_ebp = 0x30100, r_esp = 0x30000, r_ebx = 3, r_ecx = 4,
     r_eip = 0x2000, r_cs = 8, r_eflags = 0x3200\<rparr>"

section \<open>System calls\<close>

text \<open>The frame of a system call, read back.\<close>

lemma syscall_frame:
  "load32 (push_frame req args r m) (r_esp r - 44 + cf_eax) = req"
  "load32 (push_frame req args r m) (r_esp r - 44 + cf_edx) = args"
  "resume_regs (push_frame req args r m) (r_esp r - 44) = r"
  "resume_eax (push_frame req args r m) (r_esp r - 44) = req"
  by (simp_all add: push_frame_def Let_def resume_regs_def resume_eax_def cf_defs load32_store32_far far_def)

lemma syscall_frame_bytes:
  assumes "44 \<le> unat (x - (r_esp r - 44))"
  shows "push_frame req args r m x = m x"
proof -
  note B = store32_beyond [OF assms]
  show ?thesis
    using B [of 0] B [of 4] B [of 8] B [of 12] B [of 16] B [of 20] B [of 24] B [of 28] B [of 32] B [of 36] B [of 40]
    by (simp add: push_frame_def Let_def)
qed

lemma store_args_bytes:
  assumes "\<forall>i<length as. 4 \<le> unat (x - (p + of_nat (4 * i)))"
  shows "store_args p as m x = m x"
  using assms
proof (induction p as m rule: store_args.induct)
  case (2 p a as m)
  have "4 \<le> unat (x - (p + 4 + of_nat (4 * i)))" if "i < length as" for i
    using "2.prems" [rule_format, of "Suc i"] that by (simp add: ac_simps)
  with "2.IH" "2.prems" [rule_format, of 0] show ?case by (simp add: store32_far)
qed simp

text \<open>C21. A system call reaches the dispatcher: after a process has trapped with a request and
  its arguments, \<^verbatim>\<open>contextswitch\<close> returns the request, the argument list of the PCB holds the
  arguments in order, and the process's registers are those it trapped with, kept in the frame
  at its stack pointer.\<close>

theorem syscall_reaches_kernel:
  assumes "\<forall>i<length (snd c). far (r_esp r - 44) 44 (args + of_nat (4 * i)) 4" "length (snd c) \<le> 4"
  shows "let (req, k') = contextswitch_exit (process k) (sys_enter c args r m) k in
    req = fst c \<and> (\<forall>i<length (snd c). arg k' i = snd c ! i) \<and>
    p_esp (cur_pcb k') = r_esp r - 44 \<and> resume_regs (kmem k') (p_esp (cur_pcb k')) = r"
proof -
  let ?m = "store_args args (snd c) (m (kmem k))"
  have "load32 (push_frame (fst c) args r ?m) (args + of_nat (4 * i)) = snd c ! i"
    if "i < length (snd c)" for i
  proof -
    have "load32 (push_frame (fst c) args r ?m) (args + of_nat (4 * i)) = load32 ?m (args + of_nat (4 * i))"
      using assms(1) that by (intro far_load32 [of "r_esp r - 44" 44]) (auto intro: syscall_frame_bytes)
    with store_args_nth [OF that, of args "m (kmem k)"] assms(2) show ?thesis by simp
  qed
  moreover note syscall_frame [of "fst c" args r ?m]
  ultimately show ?thesis
    by (simp add: contextswitch_exit_def sys_enter_def syscall_trap_def Let_def arg_def cur_pcb_def va_arg_def)
qed

theorem syscall_reaches_kernel_witness:
  "let (req, k') = contextswitch_exit (PcbSlot 7) (sys_enter (syssend 2 0x31000 8) 0x30008 demo_regs (\<lambda>m. m)) demo_kernel
   in req = SYSCALL_SEND \<and> arg k' 1 = 0x31000"
proof -
  have "\<forall>i<length (snd (syssend 2 0x31000 8)). far (r_esp demo_regs - 44) 44 (0x30008 + of_nat (4 * i)) 4"
    by (simp add: syssend_def far_def demo_regs_def All_less_Suc numeral_3_eq_3)
  from syscall_reaches_kernel [OF this, of demo_kernel "\<lambda>m. m"] show ?thesis
    by (auto simp: syssend_def All_less_Suc numeral_3_eq_3 Let_def split: prod.splits)
qed

text \<open>A process gets the result that the kernel left in its PCB: when it is entered again
  with no signal pending, eax holds the result and every other register is what it was.\<close>

theorem result_reaches_process:
  assumes "p \<noteq> NullPcb" "p_signals_pending (the_pcb p k) = 0"
  shows "\<exists>k'. contextswitch_enter p k = Some k' \<and> the_pcb p k' = the_pcb p k \<and>
    resume_eax (kmem k') (p_esp (the_pcb p k)) = p_ret (the_pcb p k) \<and>
    resume_regs (kmem k') (p_esp (the_pcb p k)) = resume_regs (kmem k) (p_esp (the_pcb p k)) \<and>
    (\<forall>x. 4 \<le> unat (x - (p_esp (the_pcb p k) + 28)) \<longrightarrow> kmem k' x = kmem k x)"
  using assms
  by (simp add: contextswitch_enter_def Let_def resume_eax_def resume_regs_def cf_defs load32_store32_far
      far_def store32_far)

theorem result_reaches_process_witness:
  "\<exists>k'. contextswitch_enter (PcbSlot 7) demo_kernel = Some k' \<and> resume_eax (kmem k') 0 = 0"
  using result_reaches_process [of "PcbSlot 7" demo_kernel] by (auto simp: demo_pcb_def)

lemma enter_process: "contextswitch_enter p k = Some k' \<Longrightarrow> p_signals_pending (the_pcb p k) = 0 \<Longrightarrow> process k' = process k"
  by (cases "p = NullPcb") (auto simp: contextswitch_enter_def Let_def)

text \<open>C22. \<^verbatim>\<open>sysgetpid\<close> from end to end: the round of the dispatcher that serves it leaves the
  process current, and entering it again delivers its pid in eax with every other register
  unchanged.\<close>

theorem sysgetpid_returns_pid:
  assumes "process k \<noteq> NullPcb" "p_signals_pending (the_pcb (process k) k) = 0"
  shows "\<exists>k1 k2. dispatch_round (sys_enter sysgetpid args r m) k = Some k1 \<and> process k1 = process k \<and>
    contextswitch_enter (process k1) k1 = Some k2 \<and>
    resume_eax (kmem k2) (p_esp (cur_pcb k1)) = p_pid (cur_pcb k) \<and>
    resume_regs (kmem k2) (p_esp (cur_pcb k1)) = r"
proof -
  let ?p = "process k" and ?t = "sys_enter sysgetpid args r m"
  from result_reaches_process [OF assms] obtain k0 where
    k0: "contextswitch_enter ?p k = Some k0" "the_pcb ?p k0 = the_pcb ?p k" by blast
  have pk0: "process k0 = ?p" by (rule enter_process [OF k0(1) assms(2)])
  obtain q k1 where e: "contextswitch_exit ?p ?t k0 = (q, k1)" by fastforce
  have q: "q = SYSCALL_GETPID" and k1: "p_esp (the_pcb ?p k1) = r_esp r - 44"
    "resume_regs (kmem k1) (r_esp r - 44) = r" "process k1 = ?p"
    "p_signals_pending (the_pcb ?p k1) = 0" "p_pid (the_pcb ?p k1) = p_pid (the_pcb ?p k)"
    using e pk0 k0(2) assms(2) syscall_frame [of "fst sysgetpid" args r "store_args args [] (m (kmem k0))"]
    by (auto simp: contextswitch_exit_def Let_def sys_enter_def sysgetpid_def syscall_trap_def)
  let ?k = "cur_ret (p_pid (cur_pcb k1)) k1"
  have "handle_request q k1 = Some ?k" by (simp add: q handle_request_def request_defs)
  then have round: "dispatch_round ?t k = Some ?k"
    using assms(1) k0(1) e pk0 by (simp add: dispatch_round_def pick_idle_def)
  have pk: "process ?k = ?p" "the_pcb ?p ?k = (the_pcb ?p k1)\<lparr>p_ret := p_pid (the_pcb ?p k)\<rparr>" "kmem ?k = kmem k1"
    using k1 by (simp_all add: cur_ret_def set_cur_def cur_pcb_def)
  have "p_signals_pending (the_pcb ?p ?k) = 0" unfolding pk by (simp add: k1)
  from result_reaches_process [OF assms(1) this] obtain k2 where
    "contextswitch_enter ?p ?k = Some k2" "resume_eax (kmem k2) (p_esp (the_pcb ?p ?k)) = p_ret (the_pcb ?p ?k)"
    "resume_regs (kmem k2) (p_esp (the_pcb ?p ?k)) = resume_regs (kmem ?k) (p_esp (the_pcb ?p ?k))" by blast
  with round pk k1 show ?thesis by (intro exI [of _ ?k] exI [of _ k2]) (simp add: cur_pcb_def)
qed

theorem sysgetpid_returns_pid_witness:
  "\<exists>k1 k2. dispatch_round (sys_enter sysgetpid 0 demo_regs (\<lambda>m. m)) demo_kernel = Some k1 \<and>
     contextswitch_enter (PcbSlot 7) k1 = Some k2 \<and> resume_eax (kmem k2) (p_esp (cur_pcb k1)) = 8"
  using sysgetpid_returns_pid [of demo_kernel 0 demo_regs "\<lambda>m. m"]
  by (auto simp: demo_pcb_def cur_pcb_def)

section \<open>Scheduling\<close>

lemma yield_step:
  assumes rep: "queues_repr (pt k) L" and p: "process k \<noteq> NullPcb" "\<forall>q. process k \<notin> set (L q)"
  shows "\<exists>k'. handle_request SYSCALL_YIELD k = Some k' \<and>
    process k' = hd (L ReadyQueue @ [process k]) \<and>
    queues_repr (pt k') (L(ReadyQueue := tl (L ReadyQueue @ [process k]))) \<and>
    p_state (pcbs (pt k') (process k')) = PROC_STATE_RUNNING"
proof -
  let ?L = "L(ReadyQueue := L ReadyQueue @ [process k])"
  from add_ready_queues [OF rep p(1)] p(2) obtain s1 where
    s1: "add_pcb_to_ready_queue (process k) (pt k) = Some s1" "queues_repr s1 ?L" by blast
  obtain x xs where x: "?L ReadyQueue = x # xs" by (cases "L ReadyQueue") auto
  from get_next_pcb_correct [OF s1(2)] obtain s2 where
    s2: "get_next_pcb s1 = (x, s2)" "queues_repr s2 (?L(ReadyQueue := xs))"
      "same_but_next (upd_pcb x (\<lambda>u. u\<lparr>p_state := PROC_STATE_RUNNING, p_cpu_time := p_cpu_time u + 1\<rparr>) s1) s2"
    unfolding x by (simp split: list.splits) blast
  have "hd (L ReadyQueue @ [process k]) = x" "tl (L ReadyQueue @ [process k]) = xs" using x by simp_all
  moreover have "p_state (pcbs s2 x) = PROC_STATE_RUNNING" using same_but_next_fields(2) [OF s2(3), of x] by simp
  moreover have "queues_repr s2 (L(ReadyQueue := xs))" using s2(2) by simp
  ultimately show ?thesis using s1(1) s2(1)
    by (simp add: handle_request_def request_defs on_procs_def run_next_def)
qed

text \<open>A request number that no case of the dispatcher has stops the kernel: any process can
  halt it with one system call.\<close>

theorem unknown_request_halts:
  assumes "19 < request"
  shows "handle_request request k = None"
proof -
  have "request \<noteq> n" if "n \<le> 19" for n using assms that by auto
  then show ?thesis by (simp add: handle_request_def request_defs)
qed

theorem unknown_request_halts_witness: "handle_request 20 demo_kernel = None"
  by (rule unknown_request_halts) simp

end
