(* ===== verification/Message_Properties.thy ===== *)
theory Message_Properties
  imports Kernel_Properties
begin

text \<open>
  Properties of messages: what \<^verbatim>\<open>send\<close> and \<^verbatim>\<open>recv\<close> do to the queues, the partner and the
  memory when they find a partner and when they do not, that the two orders of a rendezvous
  agree, and three defects of the code.
\<close>

unbundle bit_operations_syntax

section \<open>The ends of send and receive\<close>

definition released :: "i32 \<Rightarrow> pcb \<Rightarrow> pcb" where
  "released len u = u\<lparr>p_state := PROC_STATE_READY, p_blocked_status := BLOCKED_STATUS_NONE, p_blocked_id := 0, p_ret := len\<rparr>"

definition blocked_on :: "blocked_status \<Rightarrow> u32 \<Rightarrow> pcb \<Rightarrow> pcb" where
  "blocked_on st pid u = u\<lparr>p_state := PROC_STATE_BLOCKED, p_blocked_status := st, p_blocked_id := pid\<rparr>"

lemma same_but_next_upd2:
  assumes "same_but_next (upd_pcb p f s) s'" "\<And>u n. g (u\<lparr>p_next := n\<rparr>) = (g u)\<lparr>p_next := n\<rparr>"
  shows "same_but_next (upd_pcb p (\<lambda>u. g (f u)) s) (upd_pcb p g s')"
proof -
  have "upd_pcb p g (upd_pcb p f s) = upd_pcb p (\<lambda>u. g (f u)) s" by (simp add: upd_pcb_def)
  with same_but_next_upd [OF assms, of p] show ?thesis by simp
qed

lemma release_partner_correct:
  assumes "queues_repr (pt k) L" "p \<noteq> NullPcb" "\<And>q. p \<notin> set (L q)"
  shows "\<exists>k'. release_partner p len k = Some (len, k') \<and> queues_repr (pt k') (L(ReadyQueue := L ReadyQueue @ [p])) \<and>
    same_but_next (upd_pcb p (released len) (pt k)) (pt k') \<and> kmem k' = kmem k"
proof -
  from add_ready_queues [OF assms] obtain s where s: "add_pcb_to_ready_queue p (pt k) = Some s"
    "queues_repr s (L(ReadyQueue := L ReadyQueue @ [p]))"
    "same_but_next (upd_pcb p (\<lambda>u. u\<lparr>p_state := PROC_STATE_READY, p_blocked_status := BLOCKED_STATUS_NONE\<rparr>) (pt k)) s" by blast
  let ?g = "\<lambda>u. u\<lparr>p_blocked_id := 0, p_ret := len\<rparr>"
  have "same_but_next (upd_pcb p (released len) (pt k)) (upd_pcb p ?g s)"
    using same_but_next_upd2 [OF s(3), of ?g] by (simp add: released_def [abs_def])
  moreover have "upd_pcb p (\<lambda>u. u\<lparr>p_ret := len\<rparr>) (upd_pcb p (\<lambda>u. u\<lparr>p_blocked_id := 0\<rparr>) s) = upd_pcb p ?g s"
    by (simp add: upd_pcb_def)
  ultimately show ?thesis using s(1,2)
    by (intro exI [of _ "k\<lparr>pt := upd_pcb p ?g s\<rparr>"])
      (simp add: release_partner_def on_procs_def set_pcb_def upd_pt_def queues_repr_upd kmem_def)
qed

lemma block_correct:
  assumes "queues_repr (pt k) L" "p \<noteq> NullPcb" "\<And>q. p \<notin> set (L q)"
  shows "\<exists>k'. (do {
      let k = set_pcb p (\<lambda>u. u\<lparr>p_blocked_status := st\<rparr>) k;
      let k = set_pcb p (\<lambda>u. u\<lparr>p_blocked_id := pid\<rparr>) k;
      k \<leftarrow> on_procs (add_pcb_to_blocked_queue p) k;
      Some (BLOCKERR, k) }) = Some (BLOCKERR, k') \<and>
    queues_repr (pt k') (L(BlockedQueue := L BlockedQueue @ [p])) \<and>
    same_but_next (upd_pcb p (blocked_on st pid) (pt k)) (pt k') \<and> kmem k' = kmem k"
proof -
  let ?s = "upd_pcb p (\<lambda>u. u\<lparr>p_blocked_status := st, p_blocked_id := pid\<rparr>) (pt k)"
  have e: "upd_pcb p (\<lambda>u. u\<lparr>p_blocked_id := pid\<rparr>) (upd_pcb p (\<lambda>u. u\<lparr>p_blocked_status := st\<rparr>) (pt k)) = ?s"
    by (simp add: upd_pcb_def)
  have "queues_repr ?s L" using assms(1) by (simp add: queues_repr_upd)
  from add_blocked_queues [OF this assms(2,3)] obtain s where s: "add_pcb_to_blocked_queue p ?s = Some s"
    "queues_repr s (L(BlockedQueue := L BlockedQueue @ [p]))"
    "same_but_next (upd_pcb p (\<lambda>u. u\<lparr>p_state := PROC_STATE_BLOCKED\<rparr>) ?s) s" by blast
  moreover have "u\<lparr>p_blocked_status := st, p_blocked_id := pid, p_state := PROC_STATE_BLOCKED\<rparr> = blocked_on st pid u" for u
    by (rule pcb.equality) (simp_all add: blocked_on_def)
  then have "upd_pcb p (\<lambda>u. u\<lparr>p_state := PROC_STATE_BLOCKED\<rparr>) ?s = upd_pcb p (blocked_on st pid) (pt k)"
    by (simp add: upd_pcb_def)
  ultimately show ?thesis
    by (intro exI [of _ "k\<lparr>pt := s\<rparr>"]) (simp add: on_procs_def set_pcb_def upd_pt_def e kmem_def)
qed

lemmas block_sender_correct = block_correct [where st = BLOCKED_STATUS_SEND, folded block_sender_def]
lemmas block_receiver_correct = block_correct [where st = BLOCKED_STATUS_RECEIVE, folded block_receiver_def]

section \<open>Both outcomes of both operations\<close>

lemma in_one_queue:
  assumes "queues_repr s L" "d \<in> set (L q)"
  shows "d \<notin> set ((L(q := remove1 d (L q))) r)"
  using queues_repr_distinct [OF assms(1), of q] queues_repr_disjoint [OF assms] by (cases "r = q") auto

lemma send_delivers:
  assumes "queues_repr (pt k) L" "length (L BlockedQueue) < 2 ^ 31" "d \<in> set (L BlockedQueue)"
    and "p_blocked_id (the_pcb d k) = p_pid (the_pcb c k)"
    and "l = min_len n (va_arg (kmem k) (p_args (the_pcb d k)) 2)" "to = va_arg (kmem k) (p_args (the_pcb d k)) 1"
    and "0 \<le> sint l" "sint buffer + sint l \<le> 2 ^ 31" "sint to + sint l \<le> 2 ^ 31"
  shows "\<exists>k'. send c d buffer n k = Some (l, k') \<and> kmem k' = copied (kmem k) buffer to (unat l) \<and>
    queues_repr (pt k') (L(BlockedQueue := remove1 d (L BlockedQueue), ReadyQueue := L ReadyQueue @ [d])) \<and>
    same_but_next (upd_pcb d (released l) (pt k)) (pt k')"
proof -
  have nn: "d \<noteq> NullPcb" using queues_repr_nonnull [OF assms(1)] assms(3) by metis
  obtain e s1 where e: "peek_any_receiver (pt k) = (e, s1)" by fastforce
  from peek_queues [OF assms(1,2) _ e [unfolded peek_any_receiver_def]]
  have s1: "queues_repr s1 L" "same_but_next (pt k) s1" by simp_all
  from remove_queues [OF s1(1), of BlockedQueue d] assms(3) obtain s2 where
    s2: "pcb_remove BlockedQueue d s1 = Some (True, s2)" "queues_repr s2 (L(BlockedQueue := remove1 d (L BlockedQueue)))"
      "same_but_next s1 s2" by auto
  note same = same_but_next_trans [OF s1(2) s2(3)]
  note F = same_but_next_fields [OF same]
  let ?k = "upd_mem (blkcopy to buffer l) (k\<lparr>pt := s2\<rparr>)"
  have "queues_repr (pt ?k) (L(BlockedQueue := remove1 d (L BlockedQueue)))" using s2(2) by simp
  from release_partner_correct [OF this nn in_one_queue [OF assms(1,3)], of l] obtain k' where
    k': "release_partner d l ?k = Some (l, k')" "queues_repr (pt k') (L(BlockedQueue := remove1 d (L BlockedQueue),
        ReadyQueue := (L(BlockedQueue := remove1 d (L BlockedQueue))) ReadyQueue @ [d]))"
      "same_but_next (upd_pcb d (released l) (pt ?k)) (pt k')" "kmem k' = kmem ?k"
    by blast
  have "send c d buffer n k = release_partner d l ?k"
    using nn assms(4-6) s2(1) F(1,3,9)
    by (simp add: send_def e on_procs_ret_def remove_pcb_from_blocked_queue_def the_pcb_def Let_def kmem_def)
  moreover have "kmem k' = copied (kmem k) buffer to (unat l)"
    using k'(4) blkcopy_copied [OF assms(7-9)] by (simp add: kmem_def upd_mem_def)
  moreover have "same_but_next (upd_pcb d (released l) (pt k)) (pt k')"
    using same_but_next_upd [OF same, of "released l" d] k'(3) by (auto simp: released_def intro: same_but_next_trans)
  ultimately show ?thesis using k'(1,2) by auto
qed

lemma send_blocks:
  assumes "queues_repr (pt k) L" "length (L BlockedQueue) < 2 ^ 31" "d \<noteq> NullPcb" "d \<notin> set (L BlockedQueue)"
    and "\<forall>x\<in>set (L BlockedQueue). p_blocked_id (the_pcb x k) \<noteq> 0" "c \<noteq> NullPcb" "\<And>q. c \<notin> set (L q)"
  shows "\<exists>k'. send c d buffer n k = Some (BLOCKERR, k') \<and> kmem k' = kmem k \<and>
    queues_repr (pt k') (L(BlockedQueue := L BlockedQueue @ [c])) \<and>
    same_but_next (upd_pcb c (blocked_on BLOCKED_STATUS_SEND (p_pid (the_pcb d k))) (pt k)) (pt k')"
proof -
  obtain e s1 where e: "peek_any_receiver (pt k) = (e, s1)" by fastforce
  from peek_queues [OF assms(1,2) _ e [unfolded peek_any_receiver_def]]
  have s1: "queues_repr s1 L" "same_but_next (pt k) s1"
    "e = (case find (\<lambda>p. p_blocked_id (pcbs (pt k) p) = 0) (L BlockedQueue) of None \<Rightarrow> NullPcb | Some p \<Rightarrow> p)" by simp_all
  moreover have "find (\<lambda>p. p_blocked_id (pcbs (pt k) p) = 0) (L BlockedQueue) = None"
    using assms(5) by (simp add: find_None_iff the_pcb_def)
  ultimately have en: "e = NullPcb" by simp
  from remove_queues [OF s1(1), of BlockedQueue d] assms(4) obtain s2 where
    s2: "pcb_remove BlockedQueue d s1 = Some (False, s2)" "queues_repr s2 L" "same_but_next s1 s2"
    by (auto simp: remove1_idem)
  note same = same_but_next_trans [OF s1(2) s2(3)]
  note F = same_but_next_fields [OF same]
  have "queues_repr (pt (k\<lparr>pt := s2\<rparr>)) L" using s2(2) by simp
  from block_sender_correct [OF this assms(6,7), of "p_pid (the_pcb d k)"] obtain k' where
    k': "block_sender c (p_pid (the_pcb d k)) (k\<lparr>pt := s2\<rparr>) = Some (BLOCKERR, k')"
      "queues_repr (pt k') (L(BlockedQueue := L BlockedQueue @ [c]))"
      "same_but_next (upd_pcb c (blocked_on BLOCKED_STATUS_SEND (p_pid (the_pcb d k))) s2) (pt k')" "kmem k' = kmem k"
    by (auto simp: kmem_def)
  have "send c d buffer n k = block_sender c (p_pid (the_pcb d k)) (k\<lparr>pt := s2\<rparr>)"
    using assms(3) s2(1) F(1)
    by (simp add: send_def e en on_procs_ret_def remove_pcb_from_blocked_queue_def the_pcb_def Let_def)
  moreover have "same_but_next (upd_pcb c (blocked_on BLOCKED_STATUS_SEND (p_pid (the_pcb d k))) (pt k)) (pt k')"
    using same_but_next_upd [OF same, of "blocked_on BLOCKED_STATUS_SEND (p_pid (the_pcb d k))" c] k'(3)
    by (auto simp: blocked_on_def intro: same_but_next_trans)
  ultimately show ?thesis using k'(1,2,4) by auto
qed

text \<open>A receive names its sender, or takes the process that has been sending for longest.\<close>

lemma recv_takes:
  assumes "queues_repr (pt k) L" "length (L BlockedQueue) < 2 ^ 31" "f \<in> set (L BlockedQueue)"
    and "from = f \<and> p_blocked_id (the_pcb f k) = p_pid (the_pcb c k) \<or> from = NullPcb \<and>
      find (\<lambda>p. p_blocked_status (the_pcb p k) = BLOCKED_STATUS_SEND) (L BlockedQueue) = Some f"
    and "l = min_len n (va_arg (kmem k) (p_args (the_pcb f k)) 2)" "src = va_arg (kmem k) (p_args (the_pcb f k)) 1"
    and "0 \<le> sint l" "sint src + sint l \<le> 2 ^ 31" "sint buffer + sint l \<le> 2 ^ 31"
  shows "\<exists>k'. recv from c buffer n k = Some (l, k') \<and> kmem k' = copied (kmem k) src buffer (unat l) \<and>
    queues_repr (pt k') (L(BlockedQueue := remove1 f (L BlockedQueue), ReadyQueue := L ReadyQueue @ [f])) \<and>
    same_but_next (upd_pcb f (released l) (pt k)) (pt k')"
proof -
  have nn: "f \<noteq> NullPcb" using queues_repr_nonnull [OF assms(1)] assms(3) by metis
  obtain s1 where s1: "queues_repr s1 L" "same_but_next (pt k) s1"
    "(if from \<noteq> NullPcb then (from, k) else let (p, s) = peek_next_sender (pt k) in (p, k\<lparr>pt := s\<rparr>)) = (f, k\<lparr>pt := s1\<rparr>)"
  proof (cases "from = NullPcb")
    case True
    obtain e s1 where e: "peek_next_sender (pt k) = (e, s1)" by fastforce
    from peek_queues [OF assms(1,2) _ e [unfolded peek_next_sender_def]]
    have s1: "queues_repr s1 L" "same_but_next (pt k) s1"
      "e = (case find (\<lambda>p. p_blocked_status (pcbs (pt k) p) = BLOCKED_STATUS_SEND) (L BlockedQueue) of None \<Rightarrow> NullPcb | Some p \<Rightarrow> p)"
      by simp_all
    moreover have "e = f" using s1(3) assms(4) True nn by (simp add: the_pcb_def)
    ultimately show ?thesis using that [of s1] True e by simp
  next
    case False
    then show ?thesis using that [of "pt k"] assms(1,4) by auto
  qed
  from remove_queues [OF s1(1), of BlockedQueue f] assms(3) obtain s2 where
    s2: "pcb_remove BlockedQueue f s1 = Some (True, s2)" "queues_repr s2 (L(BlockedQueue := remove1 f (L BlockedQueue)))"
      "same_but_next s1 s2" by auto
  note same = same_but_next_trans [OF s1(2) s2(3)]
  note F = same_but_next_fields [OF same]
  let ?k = "upd_mem (blkcopy buffer src l) (k\<lparr>pt := s2\<rparr>)"
  have "queues_repr (pt ?k) (L(BlockedQueue := remove1 f (L BlockedQueue)))" using s2(2) by simp
  from release_partner_correct [OF this nn in_one_queue [OF assms(1,3)], of l] obtain k' where
    k': "release_partner f l ?k = Some (l, k')" "queues_repr (pt k') (L(BlockedQueue := remove1 f (L BlockedQueue),
        ReadyQueue := (L(BlockedQueue := remove1 f (L BlockedQueue))) ReadyQueue @ [f]))"
      "same_but_next (upd_pcb f (released l) (pt ?k)) (pt k')" "kmem k' = kmem ?k"
    by blast
  have "recv from c buffer n k = release_partner f l ?k"
    unfolding recv_def Let_def [of "from \<noteq> NullPcb"] s1(3)
    using nn assms(4-6) s2(1) F(1,3,9)
    by (auto simp: on_procs_ret_def remove_pcb_from_blocked_queue_def the_pcb_def Let_def kmem_def)
  moreover have "kmem k' = copied (kmem k) src buffer (unat l)"
    using k'(4) blkcopy_copied [OF assms(7-9)] by (simp add: kmem_def upd_mem_def)
  moreover have "same_but_next (upd_pcb f (released l) (pt k)) (pt k')"
    using same_but_next_upd [OF same, of "released l" f] k'(3) by (auto simp: released_def intro: same_but_next_trans)
  ultimately show ?thesis using k'(1,2) by auto
qed

lemma recv_blocks:
  assumes "queues_repr (pt k) L" "from \<noteq> NullPcb" "from \<notin> set (L BlockedQueue)" "c \<noteq> NullPcb" "\<And>q. c \<notin> set (L q)"
  shows "\<exists>k'. recv from c buffer n k = Some (BLOCKERR, k') \<and> kmem k' = kmem k \<and>
    queues_repr (pt k') (L(BlockedQueue := L BlockedQueue @ [c])) \<and>
    same_but_next (upd_pcb c (blocked_on BLOCKED_STATUS_RECEIVE (p_pid (the_pcb from k))) (pt k)) (pt k')"
proof -
  from remove_queues [OF assms(1), of BlockedQueue "from"] assms(3) obtain s2 where
    s2: "pcb_remove BlockedQueue from (pt k) = Some (False, s2)" "queues_repr s2 L" "same_but_next (pt k) s2"
    by (auto simp: remove1_idem)
  note F = same_but_next_fields [OF s2(3)]
  have "queues_repr (pt (k\<lparr>pt := s2\<rparr>)) L" using s2(2) by simp
  from block_receiver_correct [OF this assms(4,5), of "p_pid (the_pcb from k)"] obtain k' where
    k': "block_receiver c (p_pid (the_pcb from k)) (k\<lparr>pt := s2\<rparr>) = Some (BLOCKERR, k')"
      "queues_repr (pt k') (L(BlockedQueue := L BlockedQueue @ [c]))"
      "same_but_next (upd_pcb c (blocked_on BLOCKED_STATUS_RECEIVE (p_pid (the_pcb from k))) s2) (pt k')" "kmem k' = kmem k"
    by (auto simp: kmem_def)
  have "recv from c buffer n k = block_receiver c (p_pid (the_pcb from k)) (k\<lparr>pt := s2\<rparr>)"
    using assms(2) s2(1) F(1)
    by (simp add: recv_def on_procs_ret_def remove_pcb_from_blocked_queue_def the_pcb_def Let_def)
  moreover have "same_but_next (upd_pcb c (blocked_on BLOCKED_STATUS_RECEIVE (p_pid (the_pcb from k))) (pt k)) (pt k')"
    using same_but_next_upd [OF s2(3), of "blocked_on BLOCKED_STATUS_RECEIVE (p_pid (the_pcb from k))" c] k'(3)
    by (auto simp: blocked_on_def intro: same_but_next_trans)
  ultimately show ?thesis using k'(1,2,4) by auto
qed

section \<open>Rendezvous\<close>

lemma min_len_comm: "min_len a b = min_len b a"
proof -
  have "sint a = sint b \<Longrightarrow> a = b" by (rule signed_word_eqI) simp
  then show ?thesis by (auto simp: min_len_def not_less)
qed

text \<open>C11. As long as no process waits to receive from anyone, a message between two processes does not depend on who comes first: no
  blocked process has the blocking pid 0 (with one, a send puts it into the blocked queue twice), neither of the two is in a queue, fewer than
  2^31 - 1 processes are blocked, their argument lists hold the buffers and lengths they call with, and the smaller length is not negative
  and lets neither buffer cross the boundary of 2 GB, the end of the positive signed addresses. The first to
  come is blocked; the second copies the shorter of the two lengths from the sender's buffer
  to the receiver's, returns that length and makes the first ready with the same result.\<close>

theorem message_order_irrelevant:
  assumes "queues_repr (pt k) L" "length (L BlockedQueue) + 1 < 2 ^ 31"
    and "\<forall>x\<in>set (L BlockedQueue). p_blocked_id (the_pcb x k) \<noteq> 0"
    and "S \<noteq> R" "S \<noteq> NullPcb" "R \<noteq> NullPcb" "\<forall>q. S \<notin> set (L q) \<and> R \<notin> set (L q)"
    and "va_arg (kmem k) (p_args (the_pcb S k)) 1 = sb" "va_arg (kmem k) (p_args (the_pcb S k)) 2 = sn"
    and "va_arg (kmem k) (p_args (the_pcb R k)) 1 = rb" "va_arg (kmem k) (p_args (the_pcb R k)) 2 = rn"
    and "l = min_len sn rn" "0 \<le> sint l" "sint sb + sint l \<le> 2 ^ 31" "sint rb + sint l \<le> 2 ^ 31"
    and "M = (\<lambda>x. if unat (x - rb) < unat l then kmem k (sb + (x - rb)) else kmem k x)"
  shows "(\<exists>k1 k2. send S R sb sn k = Some (BLOCKERR, k1) \<and> recv S R rb rn k1 = Some (l, k2) \<and>
      kmem k2 = M \<and> p_ret (the_pcb S k2) = l \<and> queues_repr (pt k2) (L(ReadyQueue := L ReadyQueue @ [S]))) \<and>
    (\<exists>k1 k2. recv S R rb rn k = Some (BLOCKERR, k1) \<and> send S R sb sn k1 = Some (l, k2) \<and>
      kmem k2 = M \<and> p_ret (the_pcb R k2) = l \<and> queues_repr (pt k2) (L(ReadyQueue := L ReadyQueue @ [R])))"
proof (intro conjI)
  have M: "M = copied (kmem k) sb rb (unat l)" by (simp add: assms(16) copied_def)
  have restore: "queues_repr s ((L(BlockedQueue := L BlockedQueue @ [p]))(BlockedQueue := remove1 p ((L(BlockedQueue := L BlockedQueue @ [p])) BlockedQueue),
      ReadyQueue := (L(BlockedQueue := L BlockedQueue @ [p])) ReadyQueue @ [p])) \<Longrightarrow> queues_repr s (L(ReadyQueue := L ReadyQueue @ [p]))"
    if "p \<notin> set (L BlockedQueue)" for s p
    by (erule queues_repr_ext) (use that in \<open>auto simp: remove1_append remove1_idem\<close>)
  have "length (L BlockedQueue) < 2 ^ 31" using assms(2) by simp
  from send_blocks [OF assms(1) this assms(6) _ assms(3,5), of sb sn] assms(7) obtain k1 where
    k1: "send S R sb sn k = Some (BLOCKERR, k1)" "kmem k1 = kmem k" "queues_repr (pt k1) (L(BlockedQueue := L BlockedQueue @ [S]))"
      "same_but_next (upd_pcb S (blocked_on BLOCKED_STATUS_SEND (p_pid (the_pcb R k))) (pt k)) (pt k1)" by blast
  note F = same_but_next_fields [OF k1(4)]
  have a: "p_args (the_pcb S k1) = p_args (the_pcb S k)" "p_blocked_id (the_pcb S k1) = p_pid (the_pcb R k1)"
    using F(9) [of S] F(3) [of S] F(1) [of R] assms(4) by (simp_all add: the_pcb_def blocked_on_def)
  have "\<exists>k2. recv S R rb rn k1 = Some (l, k2) \<and> kmem k2 = copied (kmem k1) sb rb (unat l) \<and>
      queues_repr (pt k2) ((L(BlockedQueue := L BlockedQueue @ [S]))(BlockedQueue := remove1 S ((L(BlockedQueue := L BlockedQueue @ [S])) BlockedQueue),
        ReadyQueue := (L(BlockedQueue := L BlockedQueue @ [S])) ReadyQueue @ [S])) \<and> same_but_next (upd_pcb S (released l) (pt k1)) (pt k2)"
    by (rule recv_takes [OF k1(3)]) (use assms a k1(2) min_len_comm in simp_all)
  then show "\<exists>k1 k2. send S R sb sn k = Some (BLOCKERR, k1) \<and> recv S R rb rn k1 = Some (l, k2) \<and>
      kmem k2 = M \<and> p_ret (the_pcb S k2) = l \<and> queues_repr (pt k2) (L(ReadyQueue := L ReadyQueue @ [S]))"
    using k1(1,2) M restore assms(7) same_but_next_fields(5) [of _ _ S] by (fastforce simp: the_pcb_def released_def)
  from recv_blocks [OF assms(1,5) _ assms(6), of rb rn] assms(7) obtain k1 where
    k1: "recv S R rb rn k = Some (BLOCKERR, k1)" "kmem k1 = kmem k" "queues_repr (pt k1) (L(BlockedQueue := L BlockedQueue @ [R]))"
      "same_but_next (upd_pcb R (blocked_on BLOCKED_STATUS_RECEIVE (p_pid (the_pcb S k))) (pt k)) (pt k1)" by blast
  note F = same_but_next_fields [OF k1(4)]
  have a: "p_args (the_pcb R k1) = p_args (the_pcb R k)" "p_blocked_id (the_pcb R k1) = p_pid (the_pcb S k1)"
    using F(9) [of R] F(3) [of R] F(1) [of S] assms(4) by (simp_all add: the_pcb_def blocked_on_def)
  have "\<exists>k2. send S R sb sn k1 = Some (l, k2) \<and> kmem k2 = copied (kmem k1) sb rb (unat l) \<and>
      queues_repr (pt k2) ((L(BlockedQueue := L BlockedQueue @ [R]))(BlockedQueue := remove1 R ((L(BlockedQueue := L BlockedQueue @ [R])) BlockedQueue),
        ReadyQueue := (L(BlockedQueue := L BlockedQueue @ [R])) ReadyQueue @ [R])) \<and> same_but_next (upd_pcb R (released l) (pt k1)) (pt k2)"
    by (rule send_delivers [OF k1(3)]) (use assms a k1(2) in simp_all)
  then show "\<exists>k1 k2. recv S R rb rn k = Some (BLOCKERR, k1) \<and> send S R sb sn k1 = Some (l, k2) \<and>
      kmem k2 = M \<and> p_ret (the_pcb R k2) = l \<and> queues_repr (pt k2) (L(ReadyQueue := L ReadyQueue @ [R]))"
    using k1(1,2) M restore assms(7) same_but_next_fields(5) [of _ _ R] by (fastforce simp: the_pcb_def released_def)
qed

text \<open>Slots 7 and 8 of the concrete kernel with the arguments of a send and of a receive.\<close>

definition msg_kernel :: kernel where
  "msg_kernel = upd_mem (\<lambda>m. store32 (store32 (store32 (store32 m 0x31004 0x40000) 0x31008 8) 0x32004 0x50000) 0x32008 4)
     (set_pcb (PcbSlot 2) (\<lambda>u. u\<lparr>p_blocked_id := 1\<rparr>) (set_pcb (PcbSlot 1) (\<lambda>u. u\<lparr>p_args := 0x32000\<rparr>)
       (set_pcb (PcbSlot 7) (\<lambda>u. u\<lparr>p_args := 0x31000\<rparr>) (set_pcb (PcbSlot 8) (\<lambda>u. u\<lparr>p_args := 0x32000\<rparr>) demo_kernel))))"

lemma msg_repr: "queues_repr (pt msg_kernel) demo_lists"
  using demo_repr by (simp add: msg_kernel_def queues_repr_upd)

lemma msg_args:
  "va_arg (kmem msg_kernel) 0x31000 (Suc 0) = 0x40000" "va_arg (kmem msg_kernel) 0x31000 2 = 8"
  "va_arg (kmem msg_kernel) 0x32000 (Suc 0) = 0x50000" "va_arg (kmem msg_kernel) 0x32000 2 = 4"
  by (simp_all add: msg_kernel_def va_arg_def load32_store32_far far_def)

lemma msg_pcb:
  "the_pcb (PcbSlot i) msg_kernel = (if i = 1 \<or> i = 8 then (demo_pcb i)\<lparr>p_args := 0x32000\<rparr>
     else if i = 2 then (demo_pcb 2)\<lparr>p_blocked_id := 1\<rparr> else if i = 7 then (demo_pcb 7)\<lparr>p_args := 0x31000\<rparr> else demo_pcb i)"
  by (simp add: msg_kernel_def)

lemma demo_outside: "PcbSlot 8 \<notin> set (demo_lists q)"
  by (cases q) simp_all

theorem message_order_irrelevant_witness:
  "\<exists>k1 k2. send (PcbSlot 7) (PcbSlot 8) 0x40000 8 msg_kernel = Some (BLOCKERR, k1) \<and>
     recv (PcbSlot 7) (PcbSlot 8) 0x50000 4 k1 = Some (4, k2)"
  using message_order_irrelevant [OF msg_repr, of "PcbSlot 7" "PcbSlot 8" "0x40000" 8 "0x50000" 4 4, OF _ _ _ _ _ _ _ _ _ _ _ _ _ _ refl]
  by (auto simp: msg_args msg_pcb demo_pcb_def demo_outside demo_running min_len_def)

text \<open>A receive from anyone takes the message of the process that has been blocked in a send
  for longest, whoever that process is sending to: the destination of the send is not compared.\<close>

theorem recv_any_takes_first_sender:
  assumes "queues_repr (pt k) L" "length (L BlockedQueue) < 2 ^ 31"
    and "find (\<lambda>p. p_blocked_status (the_pcb p k) = BLOCKED_STATUS_SEND) (L BlockedQueue) = Some f"
    and "l = min_len n (va_arg (kmem k) (p_args (the_pcb f k)) 2)" "src = va_arg (kmem k) (p_args (the_pcb f k)) 1"
    and "0 \<le> sint l" "sint src + sint l \<le> 2 ^ 31" "sint buffer + sint l \<le> 2 ^ 31"
  shows "\<exists>k'. recv NullPcb c buffer n k = Some (l, k') \<and> p_ret (the_pcb f k') = l \<and>
    kmem k' = (\<lambda>x. if unat (x - buffer) < unat l then kmem k (src + (x - buffer)) else kmem k x) \<and>
    queues_repr (pt k') (L(BlockedQueue := remove1 f (L BlockedQueue), ReadyQueue := L ReadyQueue @ [f]))"
proof -
  have "f \<in> set (L BlockedQueue)" using assms(3) by (auto simp: find_Some_iff)
  from recv_takes [OF assms(1,2) this _ assms(4-8), of NullPcb c] assms(3) obtain k' where
    k': "recv NullPcb c buffer n k = Some (l, k')" "kmem k' = copied (kmem k) src buffer (unat l)"
    "queues_repr (pt k') (L(BlockedQueue := remove1 f (L BlockedQueue), ReadyQueue := L ReadyQueue @ [f]))"
    "same_but_next (upd_pcb f (released l) (pt k)) (pt k')" by auto
  moreover have "p_ret (the_pcb f k') = l"
    using same_but_next_fields(5) [OF k'(4), of f] by (simp add: the_pcb_def released_def)
  ultimately show ?thesis by (auto simp: copied_def)
qed

theorem recv_any_takes_first_sender_witness:
  "p_blocked_id (the_pcb (PcbSlot 1) msg_kernel) = 9 \<and> p_pid (the_pcb (PcbSlot 7) msg_kernel) = 8 \<and>
   (\<exists>k'. recv NullPcb (PcbSlot 7) 0x60000 16 msg_kernel = Some (4, k'))"
proof -
  have "find (\<lambda>p. p_blocked_status (the_pcb p msg_kernel) = BLOCKED_STATUS_SEND) (demo_lists BlockedQueue) = Some (PcbSlot 1)"
    by (simp add: msg_pcb demo_pcb_def)
  from recv_any_takes_first_sender [OF msg_repr _ this, of 4 16 "0x50000" "0x60000"] show ?thesis
    by (auto simp: msg_args msg_pcb demo_pcb_def min_len_def)
qed

section \<open>Two defects\<close>



text \<open>Two processes that send to each other do not wait for each other: the second send takes
  the first process, which is itself blocked in a send, for a receiver, overwrites the message
  it was sending and ends its send with success.\<close>

theorem mutual_send_overwrites:
  assumes "queues_repr (pt k) L" "length (L BlockedQueue) < 2 ^ 31" "d \<in> set (L BlockedQueue)"
    and "p_blocked_status (the_pcb d k) = BLOCKED_STATUS_SEND" "p_blocked_id (the_pcb d k) = p_pid (the_pcb c k)"
    and "l = min_len n (va_arg (kmem k) (p_args (the_pcb d k)) 2)" "msg = va_arg (kmem k) (p_args (the_pcb d k)) 1"
    and "0 \<le> sint l" "sint buffer + sint l \<le> 2 ^ 31" "sint msg + sint l \<le> 2 ^ 31"
  shows "\<exists>k'. send c d buffer n k = Some (l, k') \<and> p_ret (the_pcb d k') = l \<and> p_state (the_pcb d k') = PROC_STATE_READY \<and>
    kmem k' = (\<lambda>x. if unat (x - msg) < unat l then kmem k (buffer + (x - msg)) else kmem k x)"
proof -
  from send_delivers [OF assms(1-3,5-10)] obtain k' where
    k': "send c d buffer n k = Some (l, k')" "kmem k' = copied (kmem k) buffer msg (unat l)"
    "same_but_next (upd_pcb d (released l) (pt k)) (pt k')" by auto
  moreover have "p_ret (the_pcb d k') = l" "p_state (the_pcb d k') = PROC_STATE_READY"
    using same_but_next_fields(2,5) [OF k'(3), of d] by (simp_all add: the_pcb_def released_def)
  ultimately show ?thesis by (auto simp: copied_def)
qed

theorem mutual_send_overwrites_witness:
  "\<exists>k'. send (PcbSlot 8) (PcbSlot 1) 0x60000 16 msg_kernel = Some (4, k') \<and> p_ret (the_pcb (PcbSlot 1) k') = 4"
  using mutual_send_overwrites [OF msg_repr, of "PcbSlot 1" "PcbSlot 8" 4 16 "0x50000" "0x60000"]
  by (auto simp: msg_args msg_pcb demo_pcb_def min_len_def)



end
