(* ===== verification/Scheduling.thy ===== *)
theory Scheduling
  imports Message_Properties
begin

text \<open>
  The scheduling invariant of the process table: every slot is in the queue that its state says
  (\<open>home\<close>) and in no other, and the slots that are running are known. Each queue operation of
  \<^verbatim>\<open>c/pcb.c\<close> and \<^verbatim>\<open>c/sleep.c\<close> keeps it.
\<close>

unbundle bit_operations_syntax

section \<open>Where a process belongs\<close>

definition is_slot :: "pcb_ptr \<Rightarrow> bool" where
  "is_slot p \<longleftrightarrow> p \<in> PcbSlot ` {..<PCB_TABLE_SIZE}"

text \<open>
  The queue of a PCB is a function of its state: none for the running process and for one that
  is blocked in a device read.
\<close>

definition home :: "pcb \<Rightarrow> queue_id option" where
  "home u = (case p_state u of
     PROC_STATE_STOPPED \<Rightarrow> Some StoppedQueue
   | PROC_STATE_READY \<Rightarrow> Some ReadyQueue
   | PROC_STATE_RUNNING \<Rightarrow> None
   | PROC_STATE_BLOCKED \<Rightarrow> (if p_blocked_status u = BLOCKED_STATUS_SLEEP then Some SleepQueue
       else if p_blocked_status u = BLOCKED_STATUS_DEVICE then None else Some BlockedQueue))"

definition placed :: "procs \<Rightarrow> (queue_id \<Rightarrow> pcb_ptr list) \<Rightarrow> bool" where
  "placed s L \<longleftrightarrow> queues_repr s L \<and> (\<forall>p q. p \<in> set (L q) \<longleftrightarrow> is_slot p \<and> home (pcbs s p) = Some q) \<and>
     (\<forall>p\<in>set (L SleepQueue). 0 \<le> sint (p_ret (pcbs s p)))"

definition runs :: "procs \<Rightarrow> pcb_ptr set" where
  "runs s = {p. is_slot p \<and> p_state (pcbs s p) = PROC_STATE_RUNNING}"

text \<open>A process blocked in a device read is parked: no queue holds it, only the driver's task list.\<close>

definition parks :: "pcb \<Rightarrow> bool" where
  "parks u \<longleftrightarrow> p_state u = PROC_STATE_BLOCKED \<and> p_blocked_status u = BLOCKED_STATUS_DEVICE"

definition parked :: "procs \<Rightarrow> pcb_ptr set" where
  "parked s = {p. is_slot p \<and> parks (pcbs s p)}"

text \<open>The invariant of the process table, with the sets of slots that are parked and running.\<close>

definition sched :: "pcb_ptr set \<Rightarrow> pcb_ptr set \<Rightarrow> procs \<Rightarrow> bool" where
  "sched D R s \<longleftrightarrow> (\<exists>L. placed s L) \<and> pids_ok s \<and> p_pid (pcbs s IdlePcb) = 0 \<and> runs s = R \<and> parked s = D"

lemma sched_parked: "sched D R s \<Longrightarrow> p \<in> D \<longleftrightarrow> is_slot p \<and> parks (pcbs s p)"
  by (auto simp: sched_def parked_def)

lemma home_parks: "home u = Some q \<Longrightarrow> \<not> parks u" "p_state u = PROC_STATE_RUNNING \<Longrightarrow> \<not> parks u"
  by (auto simp: home_def parks_def)

lemma is_slot_simps [simp]: "\<not> is_slot NullPcb" "\<not> is_slot IdlePcb" "is_slot (PcbSlot i) \<longleftrightarrow> i < PCB_TABLE_SIZE"
  by (auto simp: is_slot_def)

lemma sched_step:
  assumes "placed s L" "pids_ok s'" "p_pid (pcbs s' IdlePcb) = 0" "queues_repr s' L'"
    and same: "\<And>x. x \<notin> A \<Longrightarrow> p_state (pcbs s' x) = p_state (pcbs s x) \<and> p_blocked_status (pcbs s' x) = p_blocked_status (pcbs s x)"
    and stay: "\<And>x q. x \<notin> A \<Longrightarrow> x \<in> set (L' q) \<longleftrightarrow> x \<in> set (L q)"
    and move: "\<And>x q. x \<in> A \<Longrightarrow> x \<in> set (L' q) \<longleftrightarrow> is_slot x \<and> home (pcbs s' x) = Some q"
    and ret: "\<And>x. x \<in> set (L' SleepQueue) \<Longrightarrow> 0 \<le> sint (p_ret (pcbs s' x))"
    and R: "\<And>x. is_slot x \<Longrightarrow> x \<in> R \<longleftrightarrow> p_state (pcbs s' x) = PROC_STATE_RUNNING" "\<And>x. x \<in> R \<Longrightarrow> is_slot x"
    and D: "\<And>x. is_slot x \<Longrightarrow> x \<in> D \<longleftrightarrow> parks (pcbs s' x)" "\<And>x. x \<in> D \<Longrightarrow> is_slot x"
  shows "sched D R s'"
proof -
  have "x \<in> set (L' q) \<longleftrightarrow> is_slot x \<and> home (pcbs s' x) = Some q" for x q
  proof (cases "x \<in> A")
    case False
    with same [OF False] have "home (pcbs s' x) = home (pcbs s x)" by (simp add: home_def)
    with stay [OF False] assms(1) show ?thesis by (simp add: placed_def)
  qed (rule move)
  then have "placed s' L'" using assms(4) ret by (simp add: placed_def)
  moreover have "runs s' = R" using R by (auto simp: runs_def)
  moreover have "parked s' = D" using D by (auto simp: parked_def)
  ultimately show ?thesis using assms(2,3) by (auto simp: sched_def)
qed

text \<open>The same with the fields compared through \<open>same_but_next\<close> and a change of one PCB.\<close>

lemma pids_ok_same: "(\<And>x. p_pid (pcbs s' x) = p_pid (pcbs s x)) \<Longrightarrow> pids_ok s' = pids_ok s"
  by (simp add: pids_ok_def)

lemma sched_repark:
  assumes "sched D R s" "placed s L" "queues_repr s' L'" "same_but_next (upd_pcb p f s) s'" "\<And>u. p_pid (f u) = p_pid u"
    and "\<And>x q. x \<noteq> p \<Longrightarrow> x \<in> set (L' q) \<longleftrightarrow> x \<in> set (L q)"
    and "\<And>q. p \<in> set (L' q) \<longleftrightarrow> is_slot p \<and> home (f (pcbs s p)) = Some q"
    and "is_slot p \<Longrightarrow> home (f (pcbs s p)) = Some SleepQueue \<Longrightarrow> 0 \<le> sint (p_ret (f (pcbs s p)))"
    and "R' = (if is_slot p \<and> p_state (f (pcbs s p)) = PROC_STATE_RUNNING then insert p R else R - {p})"
    and "D' = (if is_slot p \<and> parks (f (pcbs s p)) then insert p D else D - {p})"
  shows "sched D' R' s'"
proof (rule sched_step [OF assms(2) _ _ assms(3), where A = "{p}"])
  note F = same_but_next_fields [OF assms(4)]
  have s: "pids_ok s" "p_pid (pcbs s IdlePcb) = 0" "runs s = R" using assms(1) by (simp_all add: sched_def)
  have pid: "p_pid (pcbs s' x) = p_pid (pcbs s x)" for x using F(1) [of x] assms(5) by simp
  from s(1) show "pids_ok s'" using pids_ok_same [of s' s] pid by simp
  show "p_pid (pcbs s' IdlePcb) = 0" using pid s(2) by simp
  have fp: "p_state (pcbs s' p) = p_state (f (pcbs s p))" "p_blocked_status (pcbs s' p) = p_blocked_status (f (pcbs s p))"
    "p_ret (pcbs s' p) = p_ret (f (pcbs s p))" using F(2,4,5) [of p] by simp_all
  then have hp: "home (pcbs s' p) = home (f (pcbs s p))" by (simp add: home_def)
  show "p_state (pcbs s' x) = p_state (pcbs s x) \<and> p_blocked_status (pcbs s' x) = p_blocked_status (pcbs s x)" if "x \<notin> {p}" for x
    using F(2,4) [of x] that by simp
  show "x \<in> set (L' q) \<longleftrightarrow> x \<in> set (L q)" if "x \<notin> {p}" for x q using assms(6) that by simp
  show "x \<in> set (L' q) \<longleftrightarrow> is_slot x \<and> home (pcbs s' x) = Some q" if "x \<in> {p}" for x q
    using assms(7) that hp by simp
  show "0 \<le> sint (p_ret (pcbs s' x))" if "x \<in> set (L' SleepQueue)" for x
  proof (cases "x = p")
    case True
    with that assms(7,8) fp(3) show ?thesis by auto
  next
    case False
    with that assms(2,6) F(5) [of x] show ?thesis by (simp add: placed_def)
  qed
  show "x \<in> R' \<longleftrightarrow> p_state (pcbs s' x) = PROC_STATE_RUNNING" if "is_slot x" for x
    using that F(2) [of x] s(3) assms(9) fp(1) by (cases "x = p") (auto simp: runs_def)
  show "is_slot x" if "x \<in> R'" for x using that s(3) assms(9) by (auto simp: runs_def split: if_splits)
  show "x \<in> D' \<longleftrightarrow> parks (pcbs s' x)" if "is_slot x" for x
    using that F(2,4) [of x] sched_parked [OF assms(1), of x] assms(10) fp(1,2) by (cases "x = p") (auto simp: parks_def)
  show "is_slot x" if "x \<in> D'" for x using that sched_parked [OF assms(1), of x] assms(10) by (auto split: if_splits)
qed

lemma sched_move:
  assumes "sched D R s" "placed s L" "queues_repr s' L'" "same_but_next (upd_pcb p f s) s'" "\<And>u. p_pid (f u) = p_pid u"
    and "\<And>x q. x \<noteq> p \<Longrightarrow> x \<in> set (L' q) \<longleftrightarrow> x \<in> set (L q)"
    and "\<And>q. p \<in> set (L' q) \<longleftrightarrow> is_slot p \<and> home (f (pcbs s p)) = Some q"
    and "is_slot p \<Longrightarrow> home (f (pcbs s p)) = Some SleepQueue \<Longrightarrow> 0 \<le> sint (p_ret (f (pcbs s p)))"
    and "R' = (if is_slot p \<and> p_state (f (pcbs s p)) = PROC_STATE_RUNNING then insert p R else R - {p})"
    and "is_slot p \<Longrightarrow> parks (f (pcbs s p)) = parks (pcbs s p)"
  shows "sched D R' s'"
proof (rule sched_repark [OF assms(1-9)])
  show "D = (if is_slot p \<and> parks (f (pcbs s p)) then insert p D else D - {p})"
    using assms(10) sched_parked [OF assms(1), of p] by auto
qed

lemma sched_placed: "sched D R s \<Longrightarrow> \<exists>L. placed s L"
  by (simp add: sched_def)

lemma placed_repr: "placed s L \<Longrightarrow> queues_repr s L"
  by (simp add: placed_def)

lemma placed_in: "placed s L \<Longrightarrow> p \<in> set (L q) \<longleftrightarrow> is_slot p \<and> home (pcbs s p) = Some q"
  by (simp add: placed_def)

lemma sched_running:
  assumes "sched D R s" "placed s L" "p \<in> R"
  shows "is_slot p" "p_state (pcbs s p) = PROC_STATE_RUNNING" "home (pcbs s p) = None" "p \<notin> set (L q)" "p \<noteq> NullPcb"
proof -
  show p: "is_slot p" "p_state (pcbs s p) = PROC_STATE_RUNNING" using assms(1,3) by (auto simp: sched_def runs_def)
  then show h: "home (pcbs s p) = None" by (simp add: home_def)
  then show "p \<notin> set (L q)" using placed_in [OF assms(2)] by simp
  show "p \<noteq> NullPcb" using p(1) by auto
qed

lemma placed_length: "placed s L \<Longrightarrow> length (L q) \<le> 32"
proof -
  assume p: "placed s L"
  have "length (L q) = card (set (L q))"
    using queues_repr_distinct [OF placed_repr [OF p]] by (simp add: distinct_card)
  also have "\<dots> \<le> card (PcbSlot ` {..<PCB_TABLE_SIZE})"
    using placed_in [OF p] by (intro card_mono) (auto simp: is_slot_def)
  also have "\<dots> \<le> 32" using card_image_le [of "{..<PCB_TABLE_SIZE}" PcbSlot] by (simp add: PCB_TABLE_SIZE_def)
  finally show ?thesis .
qed

section \<open>The operations keep it\<close>

text \<open>A change of fields that moves no PCB.\<close>

lemma sched_upd:
  assumes "sched D R s" "\<And>u. p_next (f u) = p_next u" "\<And>u. p_pid (f u) = p_pid u" "\<And>u. p_state (f u) = p_state u"
    and "p \<in> R \<or> \<not> is_slot p \<or> (p_blocked_status (f (pcbs s p)) = p_blocked_status (pcbs s p) \<and>
      (home (pcbs s p) = Some SleepQueue \<longrightarrow> p_ret (f (pcbs s p)) = p_ret (pcbs s p)))"
  shows "sched D R (upd_pcb p f s)"
proof -
  from sched_placed [OF assms(1)] obtain L where L: "placed s L" by blast
  note run = sched_running [OF assms(1) L, of p]
  have h: "is_slot p \<Longrightarrow> home (f (pcbs s p)) = home (pcbs s p)"
    using run assms(4,5) by (auto simp: home_def)
  show ?thesis
  proof (rule sched_move [OF assms(1) L _ same_but_next_refl assms(3)])
    show "queues_repr (upd_pcb p f s) L" using placed_repr [OF L] assms(2) by (simp add: queues_repr_upd)
    show "p \<in> set (L q) \<longleftrightarrow> is_slot p \<and> home (f (pcbs s p)) = Some q" for q using placed_in [OF L, of p q] h by auto
    show "0 \<le> sint (p_ret (f (pcbs s p)))" if "is_slot p" "home (f (pcbs s p)) = Some SleepQueue"
      using that h run assms(5) placed_in [OF L, of p SleepQueue] L by (auto simp: placed_def)
    show "is_slot p \<Longrightarrow> parks (f (pcbs s p)) = parks (pcbs s p)" using run(2) assms(4,5) by (auto simp: parks_def)
  qed (use assms in \<open>auto simp: sched_def runs_def\<close>)
qed

lemma sched_ready:
  assumes "sched D R s" "p \<in> R"
  shows "\<exists>s'. add_pcb_to_ready_queue p s = Some s' \<and> sched D (R - {p}) s'"
proof -
  from sched_placed [OF assms(1)] obtain L where L: "placed s L" by blast
  note run = sched_running [OF assms(1) L assms(2)]
  from add_ready_queues [OF placed_repr [OF L] run(5,4)] obtain s' where
    s': "add_pcb_to_ready_queue p s = Some s'" "queues_repr s' (L(ReadyQueue := L ReadyQueue @ [p]))"
    "same_but_next (upd_pcb p (\<lambda>u. u\<lparr>p_state := PROC_STATE_READY, p_blocked_status := BLOCKED_STATUS_NONE\<rparr>) s) s'" by blast
  have "sched D (R - {p}) s'"
    by (rule sched_move [OF assms(1) L s'(2,3)]) (use run in \<open>auto simp: home_def parks_def\<close>)
  with s'(1) show ?thesis by blast
qed

lemma sched_block:
  assumes "sched D R s" "p \<in> R" "p_blocked_status (pcbs s p) \<notin> {BLOCKED_STATUS_SLEEP, BLOCKED_STATUS_DEVICE}"
  shows "\<exists>s'. add_pcb_to_blocked_queue p s = Some s' \<and> sched D (R - {p}) s' \<and> home (pcbs s' p) = Some BlockedQueue"
proof -
  from sched_placed [OF assms(1)] obtain L where L: "placed s L" by blast
  note run = sched_running [OF assms(1) L assms(2)]
  from add_blocked_queues [OF placed_repr [OF L] run(5,4)] obtain s' where
    s': "add_pcb_to_blocked_queue p s = Some s'" "queues_repr s' (L(BlockedQueue := L BlockedQueue @ [p]))"
    "same_but_next (upd_pcb p (\<lambda>u. u\<lparr>p_state := PROC_STATE_BLOCKED\<rparr>) s) s'" by blast
  have "sched D (R - {p}) s'"
    by (rule sched_move [OF assms(1) L s'(2,3)]) (use run assms(3) in \<open>auto simp: home_def parks_def\<close>)
  moreover have "home (pcbs s' p) = Some BlockedQueue"
    using same_but_next_fields(2,4) [OF s'(3), of p] assms(3) by (simp add: home_def)
  ultimately show ?thesis using s'(1) by blast
qed

text \<open>A parked process is made ready by the driver.\<close>

lemma sched_unpark:
  assumes "sched D R s" "p \<in> D"
  shows "\<exists>s'. add_pcb_to_ready_queue p s = Some s' \<and> sched (D - {p}) R s' \<and> p_state (pcbs s' p) = PROC_STATE_READY \<and>
    p_blocked_status (pcbs s' p) = BLOCKED_STATUS_NONE"
proof -
  from sched_placed [OF assms(1)] obtain L where L: "placed s L" by blast
  have p: "is_slot p" "parks (pcbs s p)" using sched_parked [OF assms(1), of p] assms(2) by auto
  then have h: "home (pcbs s p) = None" "p \<noteq> NullPcb" by (auto simp: home_def parks_def)
  then have nin: "\<And>q. p \<notin> set (L q)" using placed_in [OF L, of p] by simp
  from add_ready_queues [OF placed_repr [OF L] h(2) nin] obtain s' where
    s': "add_pcb_to_ready_queue p s = Some s'" "queues_repr s' (L(ReadyQueue := L ReadyQueue @ [p]))"
    "same_but_next (upd_pcb p (\<lambda>u. u\<lparr>p_state := PROC_STATE_READY, p_blocked_status := BLOCKED_STATUS_NONE\<rparr>) s) s'" by blast
  have "p \<notin> R" using assms(1) p(2) by (auto simp: sched_def runs_def parks_def)
  then have "sched (D - {p}) R s'"
    by (intro sched_repark [OF assms(1) L s'(2,3)]) (use p nin in \<open>auto simp: home_def parks_def\<close>)
  with s'(1) same_but_next_fields(2,4) [OF s'(3), of p] show ?thesis by auto
qed

text \<open>The running process is parked.\<close>

lemma sched_park:
  assumes "sched D R s" "p \<in> R" "\<And>u. p_next (f u) = p_next u" "\<And>u. p_pid (f u) = p_pid u" "parks (f (pcbs s p))"
  shows "sched (insert p D) (R - {p}) (upd_pcb p f s)"
proof -
  from sched_placed [OF assms(1)] obtain L where L: "placed s L" by blast
  note run = sched_running [OF assms(1) L assms(2)]
  have h: "home (f (pcbs s p)) = None" "p_state (f (pcbs s p)) \<noteq> PROC_STATE_RUNNING"
    using assms(5) by (auto simp: home_def parks_def)
  have "queues_repr (upd_pcb p f s) L" using placed_repr [OF L] assms(3) by (simp add: queues_repr_upd)
  then show ?thesis
    by (rule sched_repark [OF assms(1) L _ same_but_next_refl assms(4)]) (use run h assms(5) in auto)
qed

text \<open>Taking a PCB out of the queue it is in, and putting it into another or back.\<close>

lemma sched_take_ready:
  assumes "sched D R s" "home (pcbs s p) = Some q" "is_slot p"
  shows "\<exists>s1 s2. pcb_remove q p s = Some (True, s1) \<and> same_but_next s s1 \<and> add_pcb_to_ready_queue p s1 = Some s2 \<and> sched D R s2"
proof -
  from sched_placed [OF assms(1)] obtain L where L: "placed s L" by blast
  have p: "p \<in> set (L q)" "p \<noteq> NullPcb" "p \<notin> R" using placed_in [OF L] assms sched_running(3) [OF assms(1) L, of p] by auto
  from remove_queues [OF placed_repr [OF L], of q p] p(1) obtain s1 where
    s1: "pcb_remove q p s = Some (True, s1)" "queues_repr s1 (L(q := remove1 p (L q)))" "same_but_next s s1" by auto
  from add_ready_queues [OF s1(2) p(2) in_one_queue [OF placed_repr [OF L] p(1)]] obtain s2 where
    s2: "add_pcb_to_ready_queue p s1 = Some s2"
      "queues_repr s2 (L(q := remove1 p (L q), ReadyQueue := (L(q := remove1 p (L q))) ReadyQueue @ [p]))"
      "same_but_next (upd_pcb p (\<lambda>u. u\<lparr>p_state := PROC_STATE_READY, p_blocked_status := BLOCKED_STATUS_NONE\<rparr>) s1) s2" by blast
  have b: "same_but_next (upd_pcb p (\<lambda>u. u\<lparr>p_state := PROC_STATE_READY, p_blocked_status := BLOCKED_STATUS_NONE\<rparr>) s) s2"
    using same_but_next_upd [OF s1(3), of "\<lambda>u. u\<lparr>p_state := PROC_STATE_READY, p_blocked_status := BLOCKED_STATUS_NONE\<rparr>" p] s2(3)
    by (auto intro: same_but_next_trans)
  have d: "distinct (L q)" by (rule queues_repr_distinct [OF placed_repr [OF L]])
  have "sched D R s2"
  proof (rule sched_move [OF assms(1) L s2(2) b])
    show "p \<in> set ((L(q := remove1 p (L q), ReadyQueue := (L(q := remove1 p (L q))) ReadyQueue @ [p])) r) \<longleftrightarrow>
        is_slot p \<and> home ((pcbs s p)\<lparr>p_state := PROC_STATE_READY, p_blocked_status := BLOCKED_STATUS_NONE\<rparr>) = Some r" for r
      using in_one_queue [OF placed_repr [OF L] p(1), of r] assms(3) by (auto simp: home_def split: if_splits)
  qed (use p(3) d home_parks(1) [OF assms(2)] in \<open>auto simp: home_def parks_def\<close>)
  with s1 s2 show ?thesis by blast
qed

lemma sched_take_block:
  assumes "sched D R s" "home (pcbs s p) = Some BlockedQueue" "is_slot p"
  shows "\<exists>s1 s2. pcb_remove BlockedQueue p s = Some (True, s1) \<and> same_but_next s s1 \<and> add_pcb_to_blocked_queue p s1 = Some s2 \<and>
    sched D R s2 \<and> (\<forall>x. p_state (pcbs s2 x) = p_state (pcbs s x) \<and> p_blocked_status (pcbs s2 x) = p_blocked_status (pcbs s x))"
proof -
  from sched_placed [OF assms(1)] obtain L where L: "placed s L" by blast
  have p: "p \<in> set (L BlockedQueue)" "p \<noteq> NullPcb" "p \<notin> R" "p_state (pcbs s p) = PROC_STATE_BLOCKED"
    using placed_in [OF L] assms sched_running(3) [OF assms(1) L, of p] by (auto simp: home_def split: proc_state.splits)
  from remove_queues [OF placed_repr [OF L], of BlockedQueue p] p(1) obtain s1 where
    s1: "pcb_remove BlockedQueue p s = Some (True, s1)" "queues_repr s1 (L(BlockedQueue := remove1 p (L BlockedQueue)))" "same_but_next s s1" by auto
  from add_blocked_queues [OF s1(2) p(2) in_one_queue [OF placed_repr [OF L] p(1)]] obtain s2 where
    s2: "add_pcb_to_blocked_queue p s1 = Some s2"
      "queues_repr s2 (L(BlockedQueue := remove1 p (L BlockedQueue), BlockedQueue := (L(BlockedQueue := remove1 p (L BlockedQueue))) BlockedQueue @ [p]))"
      "same_but_next (upd_pcb p (\<lambda>u. u\<lparr>p_state := PROC_STATE_BLOCKED\<rparr>) s1) s2" by blast
  have b: "same_but_next (upd_pcb p (\<lambda>u. u\<lparr>p_state := PROC_STATE_BLOCKED\<rparr>) s) s2"
    using same_but_next_upd [OF s1(3), of "\<lambda>u. u\<lparr>p_state := PROC_STATE_BLOCKED\<rparr>" p] s2(3) by (auto intro: same_but_next_trans)
  have d: "distinct (L BlockedQueue)" by (rule queues_repr_distinct [OF placed_repr [OF L]])
  have "sched D R s2"
  proof (rule sched_move [OF assms(1) L s2(2) b])
    show "p \<in> set ((L(BlockedQueue := remove1 p (L BlockedQueue), BlockedQueue := (L(BlockedQueue := remove1 p (L BlockedQueue))) BlockedQueue @ [p])) r) \<longleftrightarrow>
        is_slot p \<and> home ((pcbs s p)\<lparr>p_state := PROC_STATE_BLOCKED\<rparr>) = Some r" for r
      using in_one_queue [OF placed_repr [OF L] p(1), of r] assms(2,3) p(4) by (auto simp: home_def split: if_splits)
  qed (use p(3,4) d assms(2) in \<open>auto simp: home_def parks_def split: proc_state.splits if_splits\<close>)
  with s1 s2 show ?thesis using same_but_next_fields(2,4) [OF b] p(4) by (intro exI [of _ s1] exI [of _ s2]) auto
qed

lemma sched_not_in:
  assumes "sched D R s" "home (pcbs s p) \<noteq> Some q \<or> \<not> is_slot p"
  shows "\<exists>s'. pcb_remove q p s = Some (False, s') \<and> sched D R s' \<and> same_but_next s s'"
proof -
  from sched_placed [OF assms(1)] obtain L where L: "placed s L" by blast
  then have p: "p \<notin> set (L q)" using placed_in [OF L] assms(2) by auto
  have "queue_repr s q (L q)" using placed_repr [OF L] by (simp add: queues_repr_def)
  with pcb_remove_absent [OF this p] assms(1) show ?thesis by auto
qed

text \<open>The next process to run.\<close>

lemma sched_next:
  assumes "sched D {} s"
  shows "\<exists>p s'. get_next_pcb s = (p, s') \<and> (p = NullPcb \<and> sched D {} s' \<or> is_slot p \<and> sched D {p} s') \<and>
    (\<forall>x. is_slot x \<longrightarrow> x \<noteq> p \<longrightarrow> home (pcbs s' x) = home (pcbs s x))"
proof -
  from sched_placed [OF assms] obtain L where L: "placed s L" by blast
  let ?f = "\<lambda>u. u\<lparr>p_state := PROC_STATE_RUNNING, p_cpu_time := p_cpu_time u + 1\<rparr>"
  obtain y t where y: "pcb_poll ReadyQueue s = (y, t)" by fastforce
  have g: "get_next_pcb s = (y, upd_pcb y ?f t)" using y by (simp add: get_next_pcb_def upd_pcb_def)
  from poll_queues [OF placed_repr [OF L] y] show ?thesis
  proof (elim disjE exE conjE)
    assume y0: "y = NullPcb" "t = s"
    have "queues_repr (upd_pcb NullPcb ?f s) L" using placed_repr [OF L] by (simp add: queues_repr_upd)
    then have "sched D {} (upd_pcb NullPcb ?f s)"
      by (rule sched_move [OF assms L _ same_but_next_refl])
        (use queues_repr_nonnull [OF placed_repr [OF L]] in auto)
    moreover have "home (pcbs (upd_pcb NullPcb ?f s) x) = home (pcbs s x)" if "is_slot x" for x using that by auto
    ultimately show ?thesis using g y0 by auto
  next
    fix xs assume xs: "L ReadyQueue = y # xs" "y \<noteq> NullPcb" "queues_repr t (L(ReadyQueue := xs))" "same_but_next s t"
    have y1: "is_slot y" "home (pcbs s y) = Some ReadyQueue" using placed_in [OF L, of y ReadyQueue] xs(1) by auto
    have d: "y \<notin> set xs" using queues_repr_distinct [OF placed_repr [OF L], of ReadyQueue] xs(1) by auto
    have yn: "y \<notin> set (L q)" if "q \<noteq> ReadyQueue" for q using placed_in [OF L, of y q] y1 that by auto
    have "queues_repr (upd_pcb y ?f t) (L(ReadyQueue := xs))" using xs(3) by (simp add: queues_repr_upd)
    moreover have "same_but_next (upd_pcb y ?f s) (upd_pcb y ?f t)" using xs(4) by (rule same_but_next_upd) simp
    ultimately have "sched D {y} (upd_pcb y ?f t)"
      by (rule sched_move [OF assms L]) (use xs(1) y1 d yn home_parks(1) [OF y1(2)] in \<open>auto simp: home_def parks_def\<close>)
    moreover have "home (pcbs (upd_pcb y ?f t) x) = home (pcbs s x)" if "x \<noteq> y" for x
      using that same_but_next_fields(2,4) [OF xs(4), of x] by (simp add: home_def)
    ultimately show ?thesis using g y1(1) by auto
  qed
qed

text \<open>Changes of several PCBs, and of remaining times.\<close>

lemma sched_many:
  assumes "sched D R s" "placed s L" "queues_repr s' L'"
    and pid: "\<And>x. p_pid (pcbs s' x) = p_pid (pcbs s x)"
    and same: "\<And>x. x \<notin> A \<Longrightarrow> p_state (pcbs s' x) = p_state (pcbs s x) \<and> p_blocked_status (pcbs s' x) = p_blocked_status (pcbs s x)"
    and stay: "\<And>x q. x \<notin> A \<Longrightarrow> x \<in> set (L' q) \<longleftrightarrow> x \<in> set (L q)"
    and move: "\<And>x. x \<in> A \<Longrightarrow> is_slot x \<and> x \<notin> R \<and> p_state (pcbs s' x) = PROC_STATE_READY \<and> (\<forall>q. x \<in> set (L' q) \<longleftrightarrow> q = ReadyQueue)"
    and ret: "\<And>x. x \<in> set (L' SleepQueue) \<Longrightarrow> 0 \<le> sint (p_ret (pcbs s' x))"
    and queued: "\<And>x. x \<in> A \<Longrightarrow> home (pcbs s x) \<noteq> None"
  shows "sched D R s'"
proof (rule sched_step [OF assms(2) _ _ assms(3) same stay _ ret])
  have s: "pids_ok s" "p_pid (pcbs s IdlePcb) = 0" "runs s = R" using assms(1) by (simp_all add: sched_def)
  show "pids_ok s'" using s(1) pids_ok_same [of s' s] pid by simp
  show "p_pid (pcbs s' IdlePcb) = 0" using pid s(2) by simp
  show "x \<in> set (L' q) \<longleftrightarrow> is_slot x \<and> home (pcbs s' x) = Some q" if "x \<in> A" for x q
    using move [OF that] by (auto simp: home_def)
  show "x \<in> R \<longleftrightarrow> p_state (pcbs s' x) = PROC_STATE_RUNNING" if "is_slot x" for x
    using that move [of x] same [of x] s(3) by (cases "x \<in> A") (auto simp: runs_def)
  show "is_slot x" if "x \<in> R" for x using that s(3) by (auto simp: runs_def)
  show "x \<in> D \<longleftrightarrow> parks (pcbs s' x)" if "is_slot x" for x
  proof (cases "x \<in> A")
    case True
    then have "\<not> parks (pcbs s' x)" using move [OF True] by (simp add: parks_def)
    moreover obtain q where "home (pcbs s x) = Some q" using queued [OF True] by blast
    then have "x \<notin> D" using home_parks(1) sched_parked [OF assms(1), of x] by blast
    ultimately show ?thesis by simp
  next
    case False
    with same [OF False] sched_parked [OF assms(1), of x] that show ?thesis by (simp add: parks_def)
  qed
  show "is_slot x" if "x \<in> D" for x using that sched_parked [OF assms(1), of x] by simp
qed

lemma sched_sleep:
  assumes "sched D R s" "p \<in> R"
  shows "\<exists>s'. sleep p ms s = Some s' \<and> sched D (R - {p}) s'"
proof -
  from sched_placed [OF assms(1)] obtain L where L: "placed s L" by blast
  note run = sched_running [OF assms(1) L assms(2)]
  have nn: "\<forall>d\<in>set (deltas s (L SleepQueue)). 0 \<le> snd d" using L by (auto simp: placed_def deltas_def)
  from sleep_correct [OF placed_repr [OF L] run(5) _ nn, of ms] run(4) obtain s' us where
    s': "sleep p ms s = Some s'" "queues_repr s' (L(SleepQueue := us))" "set us = insert p (set (L SleepQueue))"
    "\<forall>d\<in>set (deltas s' us). 0 \<le> snd d" "same_but_ret (upd_pcb p asleep s) s'" by blast
  have eq: "(pcbs s' x)\<lparr>p_next := NullPcb, p_ret := 0\<rparr> = (pcbs (upd_pcb p asleep s) x)\<lparr>p_next := NullPcb, p_ret := 0\<rparr>" for x
    using s'(5) by (simp add: same_but_ret_def)
  have F: "p_pid (pcbs s' x) = p_pid (pcbs s x)" "p_state (pcbs s' x) = (if x = p then PROC_STATE_BLOCKED else p_state (pcbs s x))"
    "p_blocked_status (pcbs s' x) = (if x = p then BLOCKED_STATUS_SLEEP else p_blocked_status (pcbs s x))" for x
    using arg_cong [OF eq [of x], of p_pid] arg_cong [OF eq [of x], of p_state] arg_cong [OF eq [of x], of p_blocked_status]
    by (auto simp: asleep_def)
  have s: "pids_ok s" "p_pid (pcbs s IdlePcb) = 0" "runs s = R" using assms(1) by (simp_all add: sched_def)
  have "sched D (R - {p}) s'"
  proof (rule sched_step [OF L _ _ s'(2), where A = "{p}"])
    show "pids_ok s'" using s(1) pids_ok_same [of s' s] F(1) by simp
    show "0 \<le> sint (p_ret (pcbs s' x))" if "x \<in> set ((L(SleepQueue := us)) SleepQueue)" for x
      using that s'(4) by (auto simp: deltas_def)
    show "x \<in> R - {p} \<longleftrightarrow> p_state (pcbs s' x) = PROC_STATE_RUNNING" if "is_slot x" for x
      using that F(2) [of x] s(3) by (auto simp: runs_def)
    show "is_slot x" if "x \<in> R - {p}" for x using that s(3) by (auto simp: runs_def)
    show "x \<in> D \<longleftrightarrow> parks (pcbs s' x)" if "is_slot x" for x
      using that F [of x] run sched_parked [OF assms(1), of x] by (auto simp: parks_def)
    show "is_slot x" if "x \<in> D" for x using that sched_parked [OF assms(1), of x] by simp
  qed (use F s(2) s'(3) run in \<open>auto simp: home_def\<close>)
  with s'(1) show ?thesis by blast
qed

lemma sched_unblock:
  assumes "sched D R s"
  shows "\<exists>s'. unblock_pcb_waiting_for_pid pid s = Some s' \<and> sched D R s' \<and> (\<forall>x. p_pid (pcbs s' x) = p_pid (pcbs s x))"
proof -
  from sched_placed [OF assms] obtain L where L: "placed s L" by blast
  have len: "length (L BlockedQueue) < 2 ^ 31" using placed_length [OF L, of BlockedQueue] by simp
  have st: "p_state (pcbs s x) = PROC_STATE_BLOCKED" if "x \<in> set (L BlockedQueue)" for x
    using placed_in [OF L, of x BlockedQueue] that by (auto simp: home_def split: proc_state.splits)
  from unblock_queues [OF placed_repr [OF L] len] st obtain s' where
    s': "unblock_pcb_waiting_for_pid pid s = Some s'"
    "queues_repr s' (L(BlockedQueue := filter (\<lambda>p. \<not> waiting_for s pid p) (L BlockedQueue),
      ReadyQueue := L ReadyQueue @ filter (waiting_for s pid) (L BlockedQueue)))"
    "same_but_next (unblock_all s pid (set (L BlockedQueue))) s'" by blast
  let ?A = "{x \<in> set (L BlockedQueue). waiting_for s pid x}"
  note F = same_but_next_fields [OF s'(3)]
  have pid: "p_pid (pcbs s' x) = p_pid (pcbs s x)" for x using F(1) [of x] by (simp add: unblock_all_def unblocked_def)
  have "sched D R s'"
  proof (rule sched_many [OF assms L s'(2) pid, where A = ?A])
    show "is_slot x \<and> x \<notin> R \<and> p_state (pcbs s' x) = PROC_STATE_READY \<and> (\<forall>q. x \<in> set ((L(BlockedQueue := filter (\<lambda>p. \<not> waiting_for s pid p) (L BlockedQueue),
      ReadyQueue := L ReadyQueue @ filter (waiting_for s pid) (L BlockedQueue))) q) \<longleftrightarrow> q = ReadyQueue)" if "x \<in> ?A" for x
    proof (intro conjI allI)
      show "is_slot x" using that placed_in [OF L, of x BlockedQueue] by auto
      show "x \<notin> R" using that sched_running(4) [OF assms L, of x BlockedQueue] by auto
      show "p_state (pcbs s' x) = PROC_STATE_READY" using that F(2) [of x] by (simp add: unblock_all_def unblocked_def)
      show "x \<in> set ((L(BlockedQueue := filter (\<lambda>p. \<not> waiting_for s pid p) (L BlockedQueue),
        ReadyQueue := L ReadyQueue @ filter (waiting_for s pid) (L BlockedQueue))) q) \<longleftrightarrow> q = ReadyQueue" for q
        using that queues_repr_disjoint [OF placed_repr [OF L], of x BlockedQueue q] by auto
    qed
    show "0 \<le> sint (p_ret (pcbs s' x))" if "x \<in> set ((L(BlockedQueue := filter (\<lambda>p. \<not> waiting_for s pid p) (L BlockedQueue),
      ReadyQueue := L ReadyQueue @ filter (waiting_for s pid) (L BlockedQueue))) SleepQueue)" for x
      using that L queues_repr_disjoint [OF placed_repr [OF L], of x SleepQueue BlockedQueue] F(5) [of x]
      by (auto simp: placed_def unblock_all_def)
    show "home (pcbs s x) \<noteq> None" if "x \<in> ?A" for x using that placed_in [OF L, of x BlockedQueue] by auto
  qed (use F(2,4) in \<open>auto simp: unblock_all_def\<close>)
  with s'(1) pid show ?thesis by blast
qed

lemma sched_stop:
  assumes "sched D R s" "p \<in> R"
  shows "sched D (R - {p}) (add_pcb_to_stopped_queue p s)"
proof -
  from sched_placed [OF assms(1)] obtain L where L: "placed s L" by blast
  note run = sched_running [OF assms(1) L assms(2)]
  from add_stopped_queues [OF placed_repr [OF L] run(5,4)] have
    q: "queues_repr (add_pcb_to_stopped_queue p s) (L(StoppedQueue := L StoppedQueue @ [p]))"
    and sb: "same_but_next (upd_pcb p stopped_pcb s) (add_pcb_to_stopped_queue p s)" by blast+
  note F = same_but_next_fields [OF sb]
  have s: "pids_ok s" "p_pid (pcbs s IdlePcb) = 0" "runs s = R" using assms(1) by (simp_all add: sched_def)
  obtain i where i: "p = PcbSlot i" "i < PCB_TABLE_SIZE" using run(1) by (auto simp: is_slot_def)
  show ?thesis
  proof (rule sched_step [OF L _ _ q, where A = "{p}"])
    show "pids_ok (add_pcb_to_stopped_queue p s)"
      using s(1) i pid_of_slot_reuse by (auto simp: pids_ok_def stopped_pid)
    show "p_pid (pcbs (add_pcb_to_stopped_queue p s) IdlePcb) = 0" using s(2) i by (simp add: stopped_pid)
    show "0 \<le> sint (p_ret (pcbs (add_pcb_to_stopped_queue p s) x))" if "x \<in> set ((L(StoppedQueue := L StoppedQueue @ [p])) SleepQueue)" for x
      using that L F(5) [of x] run(4) by (auto simp: placed_def)
    show "x \<in> R - {p} \<longleftrightarrow> p_state (pcbs (add_pcb_to_stopped_queue p s) x) = PROC_STATE_RUNNING" if "is_slot x" for x
      using that F(2) [of x] s(3) by (auto simp: runs_def stopped_pcb_def)
    show "is_slot x" if "x \<in> R - {p}" for x using that s(3) by (auto simp: runs_def)
    show "x \<in> D \<longleftrightarrow> parks (pcbs (add_pcb_to_stopped_queue p s) x)" if "is_slot x" for x
      using that F(2,4) [of x] run(2) sched_parked [OF assms(1), of x] by (cases "x = p") (auto simp: parks_def stopped_pcb_def)
    show "is_slot x" if "x \<in> D" for x using that sched_parked [OF assms(1), of x] by simp
  qed (use F(2,4) run in \<open>auto simp: home_def stopped_pcb_def\<close>)
qed

lemma sched_start:
  assumes "sched D R s" "get_free_pcb s = (p, s1)"
  shows "p = NullPcb \<and> s1 = s \<or> is_slot p \<and> (\<forall>t. queues_repr t = queues_repr s1 \<longrightarrow>
    (\<forall>x. p_pid (pcbs t x) = p_pid (pcbs s1 x) \<and> (x \<noteq> p \<longrightarrow> pcbs t x = pcbs s1 x)) \<longrightarrow>
    (\<exists>s2. add_pcb_to_ready_queue p t = Some s2 \<and> sched D R s2))"
proof -
  from sched_placed [OF assms(1)] obtain L where L: "placed s L" by blast
  from poll_queues [OF placed_repr [OF L] assms(2) [unfolded get_free_pcb_def]] show ?thesis
  proof (elim disjE exE conjE)
    fix xs assume xs: "L StoppedQueue = p # xs" "p \<noteq> NullPcb" "queues_repr s1 (L(StoppedQueue := xs))" "same_but_next s s1"
    have p1: "is_slot p" "home (pcbs s p) = Some StoppedQueue" using placed_in [OF L, of p StoppedQueue] xs(1) by auto
    have pR: "p \<notin> R" using sched_running(3) [OF assms(1) L, of p] p1(2) by auto
    have d: "p \<notin> set xs" using queues_repr_distinct [OF placed_repr [OF L], of StoppedQueue] xs(1) by auto
    have pn: "p \<notin> set (L q)" if "q \<noteq> StoppedQueue" for q using placed_in [OF L, of p q] p1 that by auto
    have nin: "p \<notin> set ((L(StoppedQueue := xs)) q)" for q using d pn by auto
    show ?thesis
    proof (intro disjI2 conjI allI impI p1(1))
      fix t assume t: "queues_repr t = queues_repr s1" "\<forall>x. p_pid (pcbs t x) = p_pid (pcbs s1 x) \<and> (x \<noteq> p \<longrightarrow> pcbs t x = pcbs s1 x)"
      have "queues_repr t (L(StoppedQueue := xs))" using xs(3) t(1) by simp
      from add_ready_queues [OF this xs(2) nin] obtain s2 where
        s2: "add_pcb_to_ready_queue p t = Some s2"
        "queues_repr s2 (L(StoppedQueue := xs, ReadyQueue := (L(StoppedQueue := xs)) ReadyQueue @ [p]))"
        "same_but_next (upd_pcb p (\<lambda>u. u\<lparr>p_state := PROC_STATE_READY, p_blocked_status := BLOCKED_STATUS_NONE\<rparr>) t) s2" by blast
      note F = same_but_next_fields [OF s2(3)] and G = same_but_next_fields [OF xs(4)]
      have "sched D R s2"
      proof (rule sched_many [OF assms(1) L s2(2), where A = "{p}"])
        show "p_pid (pcbs s2 x) = p_pid (pcbs s x)" for x using F(1) [of x] G(1) [of x] t(2) by (cases "x = p") simp_all
        show "0 \<le> sint (p_ret (pcbs s2 x))" if "x \<in> set ((L(StoppedQueue := xs, ReadyQueue := (L(StoppedQueue := xs)) ReadyQueue @ [p])) SleepQueue)" for x
          using that L F(5) [of x] G(5) [of x] t(2) pn [of SleepQueue] by (auto simp: placed_def)
      qed (use F(2,4) G(2,4) t(2) xs(1) p1 pR pn d in \<open>auto split: if_splits\<close>)
      with s2(1) show "\<exists>s2. add_pcb_to_ready_queue p t = Some s2 \<and> sched D R s2" by blast
    qed
  qed simp
qed

lemma sched_tick:
  assumes "sched D R s"
  shows "\<exists>s'. tick s = Some s' \<and> sched D R s'"
proof -
  from sched_placed [OF assms] obtain L where L: "placed s L" by blast
  note rep = placed_repr [OF L]
  show ?thesis
  proof (cases "L SleepQueue")
    case Nil
    then have "peek_pcb_from_sleep_queue s = NullPcb" using peek_sleep [OF rep] by simp
    with assms show ?thesis by (simp add: tick_def)
  next
    case (Cons h xs)
    let ?s1 = "upd_pcb h (\<lambda>u. u\<lparr>p_ret := p_ret u - 1\<rparr>) s"
    let ?due = "\<lambda>p. sint (p_ret (pcbs ?s1 p)) \<le> 0"
    define ws rs where "ws = takeWhile ?due (h # xs)" and "rs = dropWhile ?due (h # xs)"
    have split: "L SleepQueue = ws @ rs" by (simp add: Cons ws_def rs_def)
    have r1: "queues_repr ?s1 L" using rep by (simp add: queues_repr_upd)
    have "\<forall>w\<in>set ws. sint (p_ret (pcbs ?s1 w)) \<le> 0" by (auto simp: ws_def dest: set_takeWhileD)
    moreover have "rs = [] \<or> 0 < sint (p_ret (pcbs ?s1 (hd rs)))"
      using hd_dropWhile [of ?due "h # xs"] unfolding rs_def by fastforce
    ultimately obtain s' where s': "tick_loop h ?s1 = Some s'"
      "queues_repr s' (L(SleepQueue := rs, ReadyQueue := L ReadyQueue @ ws))" "same_but_next (ready_all (set ws) ?s1) s'"
      using tick_loop_queues [OF r1 split] by (auto simp: Cons)
    have "h \<noteq> NullPcb" using queues_repr_nonnull [OF rep, of SleepQueue] Cons by auto
    then have t: "tick s = Some s'" using peek_sleep [OF rep] s'(1) by (simp add: tick_def Cons Let_def)
    note F = same_but_next_fields [OF s'(3)]
    have d: "set ws \<inter> set rs = {}" "distinct (ws @ rs)" using queues_repr_distinct [OF rep, of SleepQueue] split by auto
    have sl: "x \<in> set ws \<union> set rs \<longleftrightarrow> is_slot x \<and> home (pcbs s x) = Some SleepQueue" for x
      using placed_in [OF L, of x SleepQueue] split by auto
    have "sched D R s'"
    proof (rule sched_many [OF assms L s'(2), where A = "set ws"])
      show "p_pid (pcbs s' x) = p_pid (pcbs s x)" for x using F(1) [of x] by (auto simp: ready_all_def readied_def)
      show "is_slot x \<and> x \<notin> R \<and> p_state (pcbs s' x) = PROC_STATE_READY \<and>
          (\<forall>q. x \<in> set ((L(SleepQueue := rs, ReadyQueue := L ReadyQueue @ ws)) q) \<longleftrightarrow> q = ReadyQueue)" if "x \<in> set ws" for x
        using that sl [of x] sched_running(3) [OF assms L, of x] F(2) [of x] d(1) placed_in [OF L, of x]
        by (auto simp: ready_all_def readied_def)
      show "0 \<le> sint (p_ret (pcbs s' x))" if x: "x \<in> set ((L(SleepQueue := rs, ReadyQueue := L ReadyQueue @ ws)) SleepQueue)" for x
      proof -
        from x have xr: "x \<in> set rs" "x \<notin> set ws" using d(1) by auto
        then have e: "p_ret (pcbs s' x) = p_ret (pcbs ?s1 x)" using F(5) [of x] by (simp add: ready_all_def)
        show ?thesis
        proof (cases "x = h")
          case True
          with xr(2) have "0 < sint (p_ret (pcbs ?s1 x))" by (auto simp: ws_def split: if_splits)
          with e show ?thesis by simp
        next
          case False
          with e xr(1) L split show ?thesis by (simp add: placed_def)
        qed
      qed
      show "home (pcbs s x) \<noteq> None" if "x \<in> set ws" for x using that sl [of x] by auto
    qed (use F(2,4) split in \<open>auto simp: ready_all_def\<close>)
    with t show ?thesis by blast
  qed
qed

lemma sched_peek:
  assumes "sched D R s" "\<And>u n. P (u\<lparr>p_next := n\<rparr>) = P u"
    and "peek_loop (nat (sint (pcb_size BlockedQueue s))) P NullPcb s = (e, s')"
  shows "sched D R s'" "same_but_next s s'" "e = NullPcb \<or> is_slot e \<and> home (pcbs s e) = Some BlockedQueue \<and> P (pcbs s e)"
    "e = NullPcb \<Longrightarrow> is_slot x \<Longrightarrow> home (pcbs s x) = Some BlockedQueue \<Longrightarrow> \<not> P (pcbs s x)"
proof -
  from sched_placed [OF assms(1)] obtain L where L: "placed s L" by blast
  have len: "length (L BlockedQueue) < 2 ^ 31" using placed_length [OF L, of BlockedQueue] by simp
  note Q = peek_queues [OF placed_repr [OF L] len assms(2,3)]
  show sb: "same_but_next s s'" by (rule Q(2))
  note F = same_but_next_fields [OF sb]
  show "sched D R s'"
  proof (rule sched_many [OF assms(1) L Q(1), where A = "{}"])
    show "0 \<le> sint (p_ret (pcbs s' x))" if "x \<in> set (L SleepQueue)" for x using that L F(5) [of x] by (simp add: placed_def)
  qed (use F(1,2,4) in auto)
  show "e = NullPcb \<or> is_slot e \<and> home (pcbs s e) = Some BlockedQueue \<and> P (pcbs s e)"
  proof (cases "find (\<lambda>p. P (pcbs s p)) (L BlockedQueue)")
    case (Some f)
    then have "f \<in> set (L BlockedQueue)" "P (pcbs s f)" by (auto simp: find_Some_iff)
    with Q(3) Some placed_in [OF L, of e BlockedQueue] show ?thesis by simp
  qed (use Q(3) in simp)
  show "\<not> P (pcbs s x)" if "e = NullPcb" "is_slot x" "home (pcbs s x) = Some BlockedQueue"
  proof -
    have x: "x \<in> set (L BlockedQueue)" using placed_in [OF L] that by simp
    have nn: "NullPcb \<notin> set (L BlockedQueue)" by (rule queues_repr_nonnull [OF placed_repr [OF L]])
    have "find (\<lambda>p. P (pcbs s p)) (L BlockedQueue) = None"
      using Q(3) that(1) nn by (auto split: option.splits simp: find_Some_iff dest: nth_mem)
    with x show ?thesis by (auto simp: find_None_iff)
  qed
qed

end
