(* ===== verification/Requests.thy ===== *)
theory Requests
  imports Scheduling
begin

text \<open>
  The scheduling invariant of the kernel, kept by the handlers of \<^verbatim>\<open>c/disp.c\<close>, by messages,
  signals, creation and clean-up, and by the context switch. Which processes are parked in a device read is a
  parameter here; \<open>Reader_Scheduling\<close> ties it to the keyboard's task list.
\<close>

unbundle bit_operations_syntax

section \<open>The kernel\<close>

definition sched_at :: "pcb_ptr set \<Rightarrow> kernel \<Rightarrow> bool" where
  "sched_at D k \<longleftrightarrow> (process k = NullPcb \<or> process k = IdlePcb \<or> is_slot (process k)) \<and>
     sched D (if is_slot (process k) then {process k} else {}) (pt k)"

text \<open>The invariant, whichever processes are parked.\<close>

definition sched_ok :: "kernel \<Rightarrow> bool" where
  "sched_ok k \<longleftrightarrow> sched_at (parked (pt k)) k"

lemma sched_at_parked: "sched_at D k \<Longrightarrow> parked (pt k) = D"
  by (auto simp: sched_at_def sched_def)

lemma sched_ok_at: "sched_at D k \<Longrightarrow> sched_ok k"
  using sched_at_parked by (auto simp: sched_ok_def)

lemma ASSERT_bind: "(ASSERT b \<bind> f = Some x) = (b \<and> f () = Some x)"
  by (cases b) simp_all

lemma on_heap_frame: "on_heap f k = Some (x, k') \<Longrightarrow> pt k' = pt k \<and> process k' = process k"
  by (auto simp: on_heap_def)

lemma run_next_ok: "sched D {} (pt k) \<Longrightarrow> sched_at D (run_next k)"
  using sched_next [of D "pt k"] by (auto simp: run_next_def sched_at_def split: prod.split)

lemma run_next_home:
  assumes "sched D {} (pt k)" "is_slot p" "home (the_pcb p k) \<noteq> Some SleepQueue"
  shows "home (the_pcb p (run_next k)) \<noteq> Some SleepQueue"
proof -
  from sched_next [OF assms(1)] obtain y s' where s': "get_next_pcb (pt k) = (y, s')"
    "y = NullPcb \<and> sched D {} s' \<or> is_slot y \<and> sched D {y} s'" "\<forall>x. is_slot x \<longrightarrow> x \<noteq> y \<longrightarrow> home (pcbs s' x) = home (pcbs (pt k) x)" by blast
  have "home (pcbs s' p) \<noteq> Some SleepQueue"
  proof (cases "p = y")
    case True
    with s'(2) assms(2) have "sched D {p} s'" by auto
    with sched_placed [OF this] sched_running(3) show ?thesis by fastforce
  qed (use s'(3) assms(2,3) in \<open>auto simp: the_pcb_def\<close>)
  with s'(1) show ?thesis by (simp add: run_next_def the_pcb_def)
qed

lemma ret_ok:
  assumes "sched D R (pt k)" "p \<in> R \<or> \<not> is_slot p \<or> home (the_pcb p k) \<noteq> Some SleepQueue"
  shows "sched D R (pt (set_pcb p (\<lambda>u. u\<lparr>p_ret := r\<rparr>) k))"
  using assms by (auto intro!: sched_upd simp: the_pcb_def)

definition born :: "addr \<Rightarrow> i32 \<Rightarrow> addr \<Rightarrow> pcb \<Rightarrow> pcb" where
  "born stack_start stack table u = u\<lparr>p_stack_start := stack_start, p_signal_table := table, p_signals_enabled := 0,
     p_esp := stack_start + stack - 4 - sizeof_context_frame\<rparr>"

lemma init_process_frame:
  "pt (init_process p a st b fp k) = upd_pcb p (born a st b) (pt k)" "process (init_process p a st b fp k) = process k"
proof -
  have "(pcbs (pt k) p)\<lparr>p_stack_start := a, p_signal_table := b, p_signals_enabled := 0, p_esp := e\<rparr> =
      ((pcbs (pt k) p)\<lparr>p_stack_start := a, p_signal_table := b, p_signals_enabled := 0\<rparr>)\<lparr>p_esp := e\<rparr>" for e by simp
  show "pt (init_process p a st b fp k) = upd_pcb p (born a st b) (pt k)"
    by (simp add: init_process_def Let_def) (simp add: upd_pcb_def born_def)
qed (simp add: init_process_def Let_def)

lemma create_ok:
  assumes "create fp st k = Some (r, k')" "sched D R (pt k)"
  shows "sched D R (pt k') \<and> process k' = process k"
proof (cases "fp = 0")
  case False
  define n where "n = (if sint st < sint DEFAULT_STACK_SIZE then DEFAULT_STACK_SIZE else st)"
  from assms(1) False obtain a k1 where k1: "on_heap (kmalloc n) k = Some (a, k1)"
    by (auto simp: create_def Let_def n_def bind_eq_Some_conv)
  note f1 = on_heap_frame [OF k1]
  show ?thesis
  proof (cases "a = 0")
    case True
    with assms False k1 f1 show ?thesis by (auto simp: create_def n_def [symmetric])
  next
    case a: False
    with assms(1) False k1 obtain b k2 where k2: "on_heap (kmalloc (SIGNAL_TABLE_SIZE * 4)) k1 = Some (b, k2)"
      by (auto simp: create_def n_def [symmetric] bind_eq_Some_conv)
    note f2 = on_heap_frame [OF k2]
    show ?thesis
    proof (cases "b = 0")
      case True
      with assms a False k1 k2 f1 f2 show ?thesis by (auto simp: create_def n_def [symmetric])
    next
      case b: False
      obtain p s1 where p: "get_free_pcb (pt k) = (p, s1)" by fastforce
      let ?k3 = "(upd_mem (memset b 0 4) k2)\<lparr>pt := s1\<rparr>"
      have c: "create fp st k = (if p = NullPcb then do {
                let k = emit (PrintLog ''Unable to find an available PCB!'') ?k3;
                (_, k) \<leftarrow> on_heap (kfree a) k;
                (_, k) \<leftarrow> on_heap (kfree b) k;
                Some (CREATE_FAILURE, k)
              } else do {
                let k = init_process p a n b fp ?k3;
                k \<leftarrow> on_procs (add_pcb_to_ready_queue p) k;
                Some (p_pid (the_pcb p k), k)
              })"
        using False a b k1 k2 p f1 f2 by (simp add: create_def n_def [symmetric] Let_def)
      from sched_start [OF assms(2) p] show ?thesis
      proof (elim disjE conjE)
        assume "p = NullPcb" "s1 = pt k"
        with trans [OF sym [OF c] assms(1)] assms(2) f1 f2 show ?thesis by (auto simp: bind_eq_Some_conv upd_mem_def dest!: on_heap_frame)
      next
        assume s: "is_slot p" "\<forall>t. queues_repr t = queues_repr s1 \<longrightarrow>
          (\<forall>x. p_pid (pcbs t x) = p_pid (pcbs s1 x) \<and> (x \<noteq> p \<longrightarrow> pcbs t x = pcbs s1 x)) \<longrightarrow>
          (\<exists>s2. add_pcb_to_ready_queue p t = Some s2 \<and> sched D R s2)"
        have "queues_repr (upd_pcb p (born a n b) s1) = queues_repr s1"
          by (rule ext) (simp add: queues_repr_upd born_def)
        moreover have "\<forall>x. p_pid (pcbs (upd_pcb p (born a n b) s1) x) = p_pid (pcbs s1 x) \<and>
            (x \<noteq> p \<longrightarrow> pcbs (upd_pcb p (born a n b) s1) x = pcbs s1 x)" by (simp add: born_def)
        ultimately obtain s2 where "add_pcb_to_ready_queue p (upd_pcb p (born a n b) s1) = Some s2" "sched D R s2"
          using s(2) by blast
        moreover have "p \<noteq> NullPcb" using s(1) by auto
        ultimately show ?thesis using trans [OF sym [OF c] assms(1)] f1 f2
          by (auto simp: on_procs_def init_process_frame upd_mem_def Let_def)
      qed
    qed
  qed
qed (use assms in \<open>auto simp: create_def\<close>)

lemma signal_ok:
  assumes "set_pcb_signal p n k = Some (r, k')" "sched D R (pt k)" "is_slot p"
  shows "sched D R (pt k') \<and> process k' = process k"
proof -
  let ?f = "\<lambda>u. u\<lparr>p_signals_pending := SET_BIT (p_signals_pending u) (unat n)\<rparr>"
  have k1: "sched D R (upd_pcb p ?f (pt k))" using assms(2) by (auto intro!: sched_upd)
  have pn: "p \<noteq> NullPcb" using assms(3) by auto
  have ready: "\<exists>s1 s2. pcb_remove q p s = Some (True, s1) \<and> add_pcb_to_ready_queue p s1 = Some s2 \<and> sched D R s2"
    if "sched D R s" "home (pcbs s p) = Some q" for s q
    using sched_take_ready [OF that assms(3)] by blast
  show ?thesis
  proof (cases "sint n < 0 \<or> sint SIGNAL_TABLE_SIZE \<le> sint n \<or> load32 (kmem k) (p_signal_table (the_pcb p k) + 4 * n) = 0
      \<or> p_state (the_pcb p k) \<noteq> PROC_STATE_BLOCKED")
    case True
    with assms(1,2) k1 pn show ?thesis by (auto simp: set_pcb_signal_def split: if_splits)
  next
    case False
    then have st: "p_state (pcbs (pt k) p) = PROC_STATE_BLOCKED" by (simp add: the_pcb_def)
    let ?g = "\<lambda>u. u\<lparr>p_ret := BLOCKED_PROC_SIGNALED\<rparr>"
    have g: "sched D R (upd_pcb p ?g (upd_pcb p ?f (pt k)))" if "home (pcbs (pt k) p) \<noteq> Some SleepQueue"
      by (rule sched_upd [OF k1]) (use that st in \<open>auto simp: home_def\<close>)
    consider "p_blocked_status (pcbs (pt k) p) = BLOCKED_STATUS_SLEEP"
      | "p_blocked_status (pcbs (pt k) p) \<in> {BLOCKED_STATUS_SEND, BLOCKED_STATUS_RECEIVE}"
      | "p_blocked_status (pcbs (pt k) p) = BLOCKED_STATUS_WAITING"
      | "p_blocked_status (pcbs (pt k) p) \<in> {BLOCKED_STATUS_NONE, BLOCKED_STATUS_DEVICE}"
      by (cases "p_blocked_status (pcbs (pt k) p)") auto
    then show ?thesis
    proof cases
      case 1
      with ready [OF k1, of SleepQueue] st assms(1) False pn show ?thesis
        by (auto simp: set_pcb_signal_def home_def the_pcb_def on_procs_def wake_def remove_pcb_from_sleep_queue_def)
    next
      case 2
      with ready [OF g, of BlockedQueue] st assms(1) False pn show ?thesis
        by (auto simp: set_pcb_signal_def home_def the_pcb_def on_procs_def on_procs_ret_def remove_pcb_from_blocked_queue_def)
    next
      case 3
      with ready [OF k1, of BlockedQueue] st assms(1) False pn show ?thesis
        by (auto simp: set_pcb_signal_def home_def the_pcb_def on_procs_def on_procs_ret_def remove_pcb_from_blocked_queue_def)
    next
      case 4
      with st assms(1) False pn show ?thesis by (auto simp: set_pcb_signal_def the_pcb_def)
    qed
  qed
qed

lemma cleanup_ok:
  assumes "cleanup_pcb p k = Some k'" "sched D {p} (pt k)"
  shows "sched D {} (pt k') \<and> process k' = process k"
proof -
  from sched_placed [OF assms(2)] obtain L where L: "placed (pt k) L" by blast
  have p: "is_slot p" "p \<noteq> NullPcb" using sched_running [OF assms(2) L] by auto
  have none: "home (pcbs s p) \<noteq> Some q" if "sched D {p} s" for s q
    using sched_placed [OF that] sched_running(3) [OF that] by fastforce
  have rem: "\<exists>s'. pcb_remove q p s = Some (False, s') \<and> sched D {p} s'" if "sched D {p} s" for s q
    using sched_not_in [OF that, of p q] none [OF that, of q] by blast
  from rem [OF assms(2), of ReadyQueue] obtain s1 where s1: "pcb_remove ReadyQueue p (pt k) = Some (False, s1)" "sched D {p} s1" by blast
  from rem [OF s1(2), of BlockedQueue] obtain s2 where s2: "pcb_remove BlockedQueue p s1 = Some (False, s2)" "sched D {p} s2" by blast
  from rem [OF s2(2), of SleepQueue] obtain s3 where s3: "pcb_remove SleepQueue p s2 = Some (False, s3)" "sched D {p} s3" by blast
  from sched_unblock [OF s3(2), of "p_pid (pcbs s3 p)"] obtain s4 where
    s4: "unblock_pcb_waiting_for_pid (p_pid (pcbs s3 p)) s3 = Some s4" "sched D {p} s4" by blast
  from sched_stop [OF s4(2)] have s5: "sched D {} (add_pcb_to_stopped_queue p s4)" by simp
  have "pt k' = add_pcb_to_stopped_queue p s4 \<and> process k' = process k"
    using assms(1) p(2) s1(1) s2(1) s3(1) s4(1)
    by (auto simp: cleanup_pcb_def on_procs_ret_def on_procs_def remove_pcb_from_ready_queue_def
      remove_pcb_from_blocked_queue_def remove_pcb_from_sleep_queue_def the_pcb_def bind_eq_Some_conv upd_pt_def
      dest!: on_heap_frame)
  with s5 show ?thesis by simp
qed

section \<open>Messages\<close>

text \<open>
  What a message request needs: no blocked process has put the result that means blocking as the length into its argument
  list, and when a message is sent to a process that is not blocked, no process waits to receive from anyone.
\<close>

definition blocked :: "pcb_ptr \<Rightarrow> kernel \<Rightarrow> bool" where
  "blocked x k \<longleftrightarrow> is_slot x \<and> home (the_pcb x k) = Some BlockedQueue"

definition lengths_ok :: "kernel \<Rightarrow> bool" where
  "lengths_ok k \<longleftrightarrow> (\<forall>x. blocked x k \<longrightarrow> va_arg (kmem k) (p_args (the_pcb x k)) 2 \<noteq> BLOCKERR)"

definition finds_receiver :: "pcb_ptr \<Rightarrow> kernel \<Rightarrow> bool" where
  "finds_receiver d k \<longleftrightarrow> blocked d k \<or> (\<forall>x. blocked x k \<longrightarrow> p_blocked_id (the_pcb x k) \<noteq> 0)"

lemma min_len_pos: "a \<noteq> BLOCKERR \<Longrightarrow> b \<noteq> BLOCKERR \<Longrightarrow> min_len a b \<noteq> BLOCKERR"
  by (simp add: min_len_def)

lemma pos_length: "0 < sint n \<Longrightarrow> n \<noteq> BLOCKERR"
  by (auto simp: BLOCKERR_def)

lemma block_ok:
  assumes "(do {
      let k = set_pcb p (\<lambda>u. u\<lparr>p_blocked_status := st\<rparr>) k;
      let k = set_pcb p (\<lambda>u. u\<lparr>p_blocked_id := pid\<rparr>) k;
      k \<leftarrow> on_procs (add_pcb_to_blocked_queue p) k;
      Some (BLOCKERR, k) }) = Some (r, k')"
    "sched D {p} (pt k)" "st \<notin> {BLOCKED_STATUS_SLEEP, BLOCKED_STATUS_DEVICE}"
  shows "r = BLOCKERR \<and> sched D {} (pt k') \<and> home (the_pcb p k') = Some BlockedQueue \<and> process k' = process k"
proof -
  let ?s = "upd_pcb p (\<lambda>u. u\<lparr>p_blocked_id := pid\<rparr>) (upd_pcb p (\<lambda>u. u\<lparr>p_blocked_status := st\<rparr>) (pt k))"
  have "sched D {p} (upd_pcb p (\<lambda>u. u\<lparr>p_blocked_status := st\<rparr>) (pt k))"
    by (rule sched_upd [OF assms(2)]) simp_all
  then have "sched D {p} ?s" by (rule sched_upd) simp_all
  from sched_block [OF this] assms(3) obtain s' where
    "add_pcb_to_blocked_queue p ?s = Some s'" "sched D {} s'" "home (pcbs s' p) = Some BlockedQueue" by auto
  with assms(1) show ?thesis by (auto simp: the_pcb_def on_procs_def set_pcb_def upd_pt_def)
qed

lemmas block_sender_ok = block_ok [where st = BLOCKED_STATUS_SEND, folded block_sender_def, simplified]
lemmas block_receiver_ok = block_ok [where st = BLOCKED_STATUS_RECEIVE, folded block_receiver_def, simplified]

text \<open>The tail of both operations, on a partner taken from the blocked queue.\<close>

lemma partner_ok:
  assumes "sched D R s" "is_slot d" "home (pcbs s d) = Some BlockedQueue" "pcb_remove BlockedQueue d s = Some (b, s1)"
  shows "b" "release_partner d l (upd_mem g (k\<lparr>pt := s1\<rparr>)) = Some (r, k') \<Longrightarrow> r = l \<and> sched D R (pt k') \<and> process k' = process k"
    "on_procs (add_pcb_to_blocked_queue d) (k\<lparr>pt := s1\<rparr>) = Some k' \<Longrightarrow> sched D R (pt k') \<and> process k' = process k"
proof -
  from sched_take_ready [OF assms(1,3,2)] assms(4) obtain s2 where
    b: "b" and s2: "add_pcb_to_ready_queue d s1 = Some s2" "sched D R s2" by auto
  show b by (rule b)
  show "r = l \<and> sched D R (pt k') \<and> process k' = process k" if "release_partner d l (upd_mem g (k\<lparr>pt := s1\<rparr>)) = Some (r, k')"
  proof -
    have st: "p_state (pcbs s2 d) = PROC_STATE_READY"
      using s2(1) by (auto simp: add_pcb_to_ready_queue_def pcb_offer_def Let_def ASSERT_bind split: if_splits)
    have "sched D R (upd_pcb d (\<lambda>u. u\<lparr>p_blocked_id := 0\<rparr>) s2)" by (rule sched_upd [OF s2(2)]) simp_all
    then have "sched D R (upd_pcb d (\<lambda>u. u\<lparr>p_ret := l\<rparr>) (upd_pcb d (\<lambda>u. u\<lparr>p_blocked_id := 0\<rparr>) s2))"
      by (rule sched_upd) (use st in \<open>simp_all add: home_def\<close>)
    with that s2(1) show ?thesis by (auto simp: release_partner_def on_procs_def set_pcb_def upd_pt_def)
  qed
  show "sched D R (pt k') \<and> process k' = process k" if "on_procs (add_pcb_to_blocked_queue d) (k\<lparr>pt := s1\<rparr>) = Some k'"
    using sched_take_block [OF assms(1,3,2)] assms(4) that by (auto simp: on_procs_def)
qed

lemma send_ok:
  assumes "send p d buffer n k = Some (r, k')" "sched D {p} (pt k)" "lengths_ok k" "0 < sint n" "d = NullPcb \<or> is_slot d"
    "finds_receiver d k"
  shows "(if r = BLOCKERR then sched D {} (pt k') \<and> home (the_pcb p k') = Some BlockedQueue else sched D {p} (pt k')) \<and> process k' = process k"
proof -
  obtain e s1 where e: "peek_any_receiver (pt k) = (e, s1)" by fastforce
  have h: "home (pcbs s1 x) = home (pcbs (pt k) x)" if "same_but_next (pt k) s1" for x
    using same_but_next_fields(2,4) [OF that, of x] by (simp add: home_def)
  note P = sched_peek [OF assms(2) _ e [unfolded peek_any_receiver_def], simplified]
  have en: "blocked d k \<or> e = NullPcb" using P(3) assms(6) by (auto simp: finds_receiver_def blocked_def the_pcb_def)
  note F = same_but_next_fields [OF P(2)]
  let ?k = "k\<lparr>pt := s1\<rparr>"
  show ?thesis
  proof (cases "is_slot d \<and> home (the_pcb d ?k) = Some BlockedQueue")
    case True
    then have dn: "d \<noteq> NullPcb" by auto
    have hd: "home (pcbs s1 d) = Some BlockedQueue" using True by (simp add: the_pcb_def)
    from sched_take_ready [OF P(1) hd] True obtain s2 where s2: "pcb_remove BlockedQueue d s1 = Some (True, s2)" "same_but_next s1 s2" by blast
    note G = same_but_next_fields [OF s2(2)]
    note Q = partner_ok(2,3) [OF P(1) conjunct1 [OF True] hd s2(1)]
    have q: "va_arg (kmem k) (p_args (the_pcb d k)) 2 \<noteq> BLOCKERR"
      using assms(3) True h [OF P(2), of d] by (auto simp: lengths_ok_def blocked_def the_pcb_def)
    have u: "k\<lparr>pt := s2\<rparr> = ?k\<lparr>pt := s2\<rparr>" by simp
    show ?thesis
    proof (cases "p_pid (pcbs s2 d) \<noteq> 0 \<and> p_blocked_id (pcbs s2 d) \<noteq> p_pid (pcbs s2 p)")
      case True
      then obtain k2 where k2: "on_procs (add_pcb_to_blocked_queue d) (k\<lparr>pt := s2\<rparr>) = Some k2"
        "block_sender p (p_pid (the_pcb d k2)) k2 = Some (r, k')"
        using assms(1) dn s2(1) by (auto simp: send_def e on_procs_ret_def remove_pcb_from_blocked_queue_def the_pcb_def bind_eq_Some_conv Let_def)
      from Q(2) k2(1) have "sched D {p} (pt k2)" "process k2 = process k" by auto
      with block_sender_ok [OF k2(2)] show ?thesis by simp
    next
      case False
      define l where "l = min_len n (va_arg (kmem k) (p_args (pcbs s2 d)) 2)"
      have "release_partner d l (upd_mem (blkcopy (va_arg (kmem k) (p_args (pcbs s2 d)) 1) buffer l) (k\<lparr>pt := s2\<rparr>)) = Some (r, k')"
        using assms(1) dn s2(1) False unfolding l_def
        by (auto simp: send_def e on_procs_ret_def remove_pcb_from_blocked_queue_def the_pcb_def kmem_def Let_def split: if_splits)
      with Q(1) have "r = l" "sched D {p} (pt k')" "process k' = process k" by auto
      moreover have "l \<noteq> BLOCKERR" unfolding l_def
        by (rule min_len_pos [OF pos_length [OF assms(4)]]) (use q F(9) [of d] G(9) [of d] in \<open>simp add: the_pcb_def\<close>)
      ultimately show ?thesis by simp
    qed
  next
    case False
    then have en: "e = NullPcb" using en h [OF P(2), of d] by (auto simp: blocked_def the_pcb_def)
    show ?thesis
    proof (cases "d = NullPcb")
      case True
      then have "block_sender p (p_pid (the_pcb d ?k)) ?k = Some (r, k')" using assms(1) by (simp add: send_def e en Let_def)
      from block_sender_ok [OF this] P(1) show ?thesis by simp
    next
      case dn: False
      from sched_not_in [OF P(1), of d BlockedQueue] False obtain s2 where
        s2: "pcb_remove BlockedQueue d s1 = Some (False, s2)" "sched D {p} s2" by (auto simp: the_pcb_def)
      have "block_sender p (p_pid (the_pcb d (k\<lparr>pt := s2\<rparr>))) (k\<lparr>pt := s2\<rparr>) = Some (r, k')"
        using assms(1) dn s2(1) by (simp add: send_def e en on_procs_ret_def remove_pcb_from_blocked_queue_def Let_def)
      from block_sender_ok [OF this] s2(2) show ?thesis by simp
    qed
  qed
qed

lemma recv_ok:
  assumes "recv from p buffer n k = Some (r, k')" "sched D {p} (pt k)" "lengths_ok k" "0 < sint n" "from = NullPcb \<or> is_slot from"
  shows "(if r = BLOCKERR then sched D {} (pt k') \<and> home (the_pcb p k') = Some BlockedQueue else sched D {p} (pt k')) \<and> process k' = process k"
proof -
  obtain f s1 where f: "(if from \<noteq> NullPcb then (from, k) else let (p, s) = peek_next_sender (pt k) in (p, k\<lparr>pt := s\<rparr>)) = (f, k\<lparr>pt := s1\<rparr>)"
    and s1: "sched D {p} s1" "same_but_next (pt k) s1" "f = NullPcb \<or> is_slot f" "from \<noteq> NullPcb \<Longrightarrow> f = from"
  proof (cases "from = NullPcb")
    case True
    obtain e s1 where e: "peek_next_sender (pt k) = (e, s1)" by fastforce
    note P = sched_peek [OF assms(2) _ e [unfolded peek_next_sender_def], simplified]
    show ?thesis using that [of e s1] e True P(1-3) by auto
  next
    case False
    then show ?thesis using that [of "from" "pt k"] assms(2,5) by auto
  qed
  note F = same_but_next_fields [OF s1(2)]
  have h: "home (pcbs s1 x) = home (pcbs (pt k) x)" for x using F(2,4) [of x] by (simp add: home_def)
  let ?k = "k\<lparr>pt := s1\<rparr>"
  have recv: "recv from p buffer n k = do {
      (removed, k) \<leftarrow> (if f \<noteq> NullPcb then on_procs_ret (remove_pcb_from_blocked_queue f) ?k else Some (False, ?k));
      if removed then do {
        let args = p_args (the_pcb f k);
        let from_buffer = va_arg (kmem k) args 1;
        let from_buffer_len = va_arg (kmem k) args 2;
        if from \<noteq> NullPcb \<and> p_blocked_id (the_pcb f k) \<noteq> p_pid (the_pcb p k) then do {
          k \<leftarrow> on_procs (add_pcb_to_blocked_queue f) k;
          block_receiver p (p_pid (the_pcb f k)) k
        } else do {
          let min_buffer_len = min_len n from_buffer_len;
          let k = upd_mem (blkcopy buffer from_buffer min_buffer_len) k;
          release_partner f min_buffer_len k
        }
      } else block_receiver p (if from \<noteq> NullPcb then p_pid (the_pcb f k) else 0) k }"
    unfolding recv_def Let_def [of "from \<noteq> NullPcb"] f by (simp add: Let_def)
  show ?thesis
  proof (cases "is_slot f \<and> home (the_pcb f ?k) = Some BlockedQueue")
    case True
    then have dn: "f \<noteq> NullPcb" by auto
    have hf: "home (pcbs s1 f) = Some BlockedQueue" using True by (simp add: the_pcb_def)
    from sched_take_ready [OF s1(1) this] True obtain s2 where s2: "pcb_remove BlockedQueue f s1 = Some (True, s2)" "same_but_next s1 s2" by blast
    note G = same_but_next_fields [OF s2(2)]
    note Q = partner_ok(2,3) [OF s1(1) conjunct1 [OF True] hf s2(1)]
    have q: "va_arg (kmem k) (p_args (the_pcb f k)) 2 \<noteq> BLOCKERR"
      using assms(3) True h [of f] by (auto simp: lengths_ok_def blocked_def the_pcb_def)
    show ?thesis
    proof (cases "from \<noteq> NullPcb \<and> p_blocked_id (pcbs s2 f) \<noteq> p_pid (pcbs s2 p)")
      case True
      then obtain k2 where k2: "on_procs (add_pcb_to_blocked_queue f) (k\<lparr>pt := s2\<rparr>) = Some k2"
        "block_receiver p (p_pid (the_pcb f k2)) k2 = Some (r, k')"
        using assms(1) dn s2(1) by (auto simp: recv on_procs_ret_def remove_pcb_from_blocked_queue_def the_pcb_def bind_eq_Some_conv Let_def)
      from Q(2) k2(1) have "sched D {p} (pt k2)" "process k2 = process k" by auto
      with block_receiver_ok [OF k2(2)] show ?thesis by simp
    next
      case False
      define l where "l = min_len n (va_arg (kmem k) (p_args (pcbs s2 f)) 2)"
      have "release_partner f l (upd_mem (blkcopy buffer (va_arg (kmem k) (p_args (pcbs s2 f)) 1) l) (k\<lparr>pt := s2\<rparr>)) = Some (r, k')"
        using assms(1) dn s2(1) False unfolding l_def
        by (auto simp: recv on_procs_ret_def remove_pcb_from_blocked_queue_def the_pcb_def kmem_def Let_def split: if_splits)
      with Q(1) have "r = l" "sched D {p} (pt k')" "process k' = process k" by auto
      moreover have "l \<noteq> BLOCKERR" unfolding l_def
        by (rule min_len_pos [OF pos_length [OF assms(4)]]) (use q F(9) [of f] G(9) [of f] in \<open>simp add: the_pcb_def\<close>)
      ultimately show ?thesis by simp
    qed
  next
    case False
    obtain s2 where s2: "(if f \<noteq> NullPcb then on_procs_ret (remove_pcb_from_blocked_queue f) ?k else Some (False, ?k)) = Some (False, k\<lparr>pt := s2\<rparr>)"
      "sched D {p} s2"
    proof (cases "f = NullPcb")
      case True
      then show ?thesis using that [of s1] s1(1) by simp
    next
      case dn: False
      from sched_not_in [OF s1(1), of f BlockedQueue] False obtain s2 where
        "pcb_remove BlockedQueue f s1 = Some (False, s2)" "sched D {p} s2" by (auto simp: the_pcb_def)
      then show ?thesis using that [of s2] dn by (simp add: on_procs_ret_def remove_pcb_from_blocked_queue_def)
    qed
    have "block_receiver p (if from \<noteq> NullPcb then p_pid (the_pcb f (k\<lparr>pt := s2\<rparr>)) else 0) (k\<lparr>pt := s2\<rparr>) = Some (r, k')"
      using assms(1) by (simp add: recv s2(1))
    from block_receiver_ok [OF this] s2(2) show ?thesis by simp
  qed
qed

section \<open>Every request\<close>

lemma sched_ok_running: "sched D {process k} (pt k) \<Longrightarrow> sched_at D k"
  by (auto simp: sched_at_def sched_def runs_def)

lemma slot_lookup: "pid_to_pcb pid s = NullPcb \<or> is_slot (pid_to_pcb pid s)"
proof -
  have "unat ((pid - 1) mod of_nat PCB_TABLE_SIZE) < PCB_TABLE_SIZE"
    by (simp add: PCB_TABLE_SIZE_def unat_mod_distrib)
  then show ?thesis by (simp add: pid_to_pcb_def Let_def)
qed

lemma cur_upd_ok:
  assumes "sched D {process k} (pt k)" "\<And>u. p_next (f u) = p_next u" "\<And>u. p_pid (f u) = p_pid u" "\<And>u. p_state (f u) = p_state u"
  shows "sched D {process k} (pt (set_cur f k))"
  using sched_upd [OF assms] by (simp add: set_cur_def)

lemma cur_frame [simp]:
  "process (set_cur f k) = process k" "process (cur_ret r k) = process k" "kmem (set_cur f k) = kmem k" "kmem (cur_ret r k) = kmem k"
  by (simp_all add: set_cur_def cur_ret_def)

lemma cur_ret_ok: "sched D {process k} (pt k) \<Longrightarrow> sched D {process k} (pt (cur_ret r k))"
  unfolding cur_ret_def by (rule cur_upd_ok) simp_all

lemma ret_to_running:
  assumes "ret_to (process k) res = Some k'" "\<And>r k1. res = Some (r, k1) \<Longrightarrow> sched D {process k} (pt k1) \<and> process k1 = process k"
  shows "sched_at D k'"
proof -
  obtain r k1 where r: "res = Some (r, k1)" "k' = set_pcb (process k) (\<lambda>u. u\<lparr>p_ret := r\<rparr>) k1"
    using assms(1) by (auto simp: ret_to_def)
  with assms(2) [OF r(1)] ret_ok [of D "{process k}" k1 "process k" r] show ?thesis by (auto intro: sched_ok_running)
qed

text \<open>A process that was blocked, and so is not sleeping, gets its result stored after the next one was chosen.\<close>

lemma ret_to_blocked:
  assumes "sched D {} (pt k1)" "home (the_pcb p k1) \<noteq> Some SleepQueue" "is_slot p"
  shows "sched_at D (set_pcb p (\<lambda>u. u\<lparr>p_ret := r\<rparr>) (run_next k1))"
proof -
  have "sched_at D (run_next k1)" by (rule run_next_ok [OF assms(1)])
  moreover have "home (the_pcb p (run_next k1)) \<noteq> Some SleepQueue" by (rule run_next_home [OF assms(1,3,2)])
  ultimately show ?thesis unfolding sched_at_def by (auto intro!: sched_upd simp: the_pcb_def)
qed

lemma create_request_ok:
  assumes "ret_to (process k) (handle_syscall_create k) = Some k'" "sched D {process k} (pt k)"
  shows "sched_at D k'"
proof (rule ret_to_running [OF assms(1)])
  fix r k1 assume "handle_syscall_create k = Some (r, k1)"
  then show "sched D {process k} (pt k1) \<and> process k1 = process k"
    using assms(2) by (auto simp: handle_syscall_create_def Let_def bind_eq_Some_conv split: if_splits dest: create_ok)
qed

lemma kill_request_ok:
  assumes "ret_to (process k) (handle_syscall_kill k) = Some k'" "sched D {process k} (pt k)"
  shows "sched_at D k'"
proof (rule ret_to_running [OF assms(1)])
  fix r k1 assume "handle_syscall_kill k = Some (r, k1)"
  with slot_lookup [of "arg k 0" "pt k"] show "sched D {process k} (pt k1) \<and> process k1 = process k"
    using assms(2) signal_ok [of "pid_to_pcb (arg k 0) (pt k)" "arg k 1" k r k1]
    by (auto simp: handle_syscall_kill_def Let_def split: if_splits)
qed

lemma sighandler_request_ok:
  assumes "ret_to (process k) (handle_syscall_sighandler k) = Some k'" "sched D {process k} (pt k)"
  shows "sched_at D k'"
proof (rule ret_to_running [OF assms(1)])
  fix r k1 assume "handle_syscall_sighandler k = Some (r, k1)"
  then show "sched D {process k} (pt k1) \<and> process k1 = process k"
    using assms(2) by (auto simp: handle_syscall_sighandler_def Let_def bind_eq_Some_conv split: if_splits)
qed

lemma cputimes_request_ok:
  assumes "ret_to (process k) (Some (handle_syscall_cputimes k)) = Some k'" "sched D {process k} (pt k)"
  shows "sched_at D k'"
proof (rule ret_to_running [OF assms(1)])
  fix r k1 assume "Some (handle_syscall_cputimes k) = Some (r, k1)"
  then show "sched D {process k} (pt k1) \<and> process k1 = process k"
    using assms(2) by (auto simp: handle_syscall_cputimes_def fill_processStatus_def Let_def split: if_splits prod.splits)
qed

text \<open>The two message requests: the caller goes on, or waits and the next process runs.\<close>

lemma ret_to_either:
  assumes "ret_to p res = Some k'" "is_slot p" "\<And>r k1. res = Some (r, k1) \<Longrightarrow>
      sched D {p} (pt k1) \<and> process k1 = p \<or>
      (\<exists>k0. k1 = run_next k0 \<and> sched D {} (pt k0) \<and> home (the_pcb p k0) = Some BlockedQueue)"
  shows "sched_at D k'"
proof -
  obtain r k1 where r: "res = Some (r, k1)" "k' = set_pcb p (\<lambda>u. u\<lparr>p_ret := r\<rparr>) k1"
    using assms(1) by (auto simp: ret_to_def)
  from assms(3) [OF r(1)] show ?thesis
  proof (elim disjE exE conjE)
    assume "sched D {p} (pt k1)" "process k1 = p"
    with r(2) ret_ok [of D "{p}" k1 p r] show ?thesis by (auto intro: sched_ok_running)
  next
    fix k0 assume "k1 = run_next k0" "sched D {} (pt k0)" "home (the_pcb p k0) = Some BlockedQueue"
    with r(2) assms(2) show ?thesis by (auto intro: ret_to_blocked)
  qed
qed

lemma send_request_ok:
  assumes "ret_to (process k) (handle_syscall_send k) = Some k'" "sched D {process k} (pt k)" "is_slot (process k)" "lengths_ok k"
    "finds_receiver (pid_to_pcb (arg k 0) (pt k)) k"
  shows "sched_at D k'"
proof (rule ret_to_either [OF assms(1,3)])
  fix r k1 assume h: "handle_syscall_send k = Some (r, k1)"
  let ?d = "pid_to_pcb (arg k 0) (pt k)"
  show "sched D {process k} (pt k1) \<and> process k1 = process k \<or>
      (\<exists>k0. k1 = run_next k0 \<and> sched D {} (pt k0) \<and> home (the_pcb (process k) k0) = Some BlockedQueue)"
  proof (cases "k1 = k")
    case False
    with h obtain r0 k0 where s: "send (process k) ?d (arg k 1) (arg k 2) k = Some (r0, k0)" "0 < sint (arg k 2)"
      "k1 = (if r0 = BLOCKERR then run_next k0 else k0)"
      by (auto simp: handle_syscall_send_def Let_def bind_eq_Some_conv split: if_splits)
    from send_ok [OF s(1) assms(2,4) s(2) slot_lookup assms(5)] s(3) show ?thesis by (auto split: if_splits)
  qed (use assms(2) in simp)
qed

lemma recv_request_ok:
  assumes "ret_to (process k) (handle_syscall_recv k) = Some k'" "sched D {process k} (pt k)" "is_slot (process k)" "lengths_ok k"
  shows "sched_at D k'"
proof (rule ret_to_either [OF assms(1,3)])
  fix r k1 assume h: "handle_syscall_recv k = Some (r, k1)"
  let ?f = "pid_to_pcb (load32 (kmem k) (arg k 0)) (pt k)"
  show "sched D {process k} (pt k1) \<and> process k1 = process k \<or>
      (\<exists>k0. k1 = run_next k0 \<and> sched D {} (pt k0) \<and> home (the_pcb (process k) k0) = Some BlockedQueue)"
  proof (cases "k1 = k")
    case False
    with h obtain r0 k0 where s: "recv ?f (process k) (arg k 1) (arg k 2) k = Some (r0, k0)" "0 < sint (arg k 2)"
      "k1 = (if r0 = BLOCKERR then run_next k0 else k0)"
      by (auto simp: handle_syscall_recv_def Let_def bind_eq_Some_conv split: if_splits)
    from recv_ok [OF s(1) assms(2,4) s(2) slot_lookup] s(3) show ?thesis by (auto split: if_splits)
  qed (use assms(2) in simp)
qed

lemma wait_request_ok:
  assumes "handle_syscall_wait k = Some k'" "sched D {process k} (pt k)" "is_slot (process k)"
  shows "sched_at D k'"
proof (cases "pid_to_pcb (arg k 0) (pt k) = NullPcb \<or> arg k 0 = 0")
  case True
  with assms(1) cur_ret_ok [OF assms(2)] show ?thesis
    by (auto simp: handle_syscall_wait_def Let_def intro!: sched_ok_running)
next
  case False
  let ?s = "upd_pcb (process k) (\<lambda>u. u\<lparr>p_blocked_id := arg k 0\<rparr>)
    (upd_pcb (process k) (\<lambda>u. u\<lparr>p_blocked_status := BLOCKED_STATUS_WAITING\<rparr>) (pt k))"
  have "sched D {process k} (upd_pcb (process k) (\<lambda>u. u\<lparr>p_blocked_status := BLOCKED_STATUS_WAITING\<rparr>) (pt k))"
    by (rule sched_upd [OF assms(2)]) simp_all
  then have s1: "sched D {process k} ?s" by (rule sched_upd) simp_all
  from sched_block [OF s1] obtain s' where
    s': "add_pcb_to_blocked_queue (process k) ?s = Some s'" "sched D {} s'" "home (pcbs s' (process k)) = Some BlockedQueue" by auto
  let ?k = "k\<lparr>pt := s'\<rparr>"
  have "sched D {} (pt (cur_ret 0 ?k))" unfolding cur_ret_def set_cur_def
    by (rule ret_ok) (use s' in \<open>simp_all add: the_pcb_def\<close>)
  from run_next_ok [OF this] show ?thesis
    using assms(1) False s'(1) by (auto simp: handle_syscall_wait_def Let_def on_procs_def set_cur_def set_pcb_def upd_pt_def)
qed

lemma sleep_request_ok:
  assumes "map_option run_next (handle_syscall_sleep k) = Some k'" "sched D {process k} (pt k)"
  shows "sched_at D k'"
proof -
  define j where "j = (if arg k 0 = 0 then cur_ret 0 k else k)"
  have j: "process j = process k" "sched D {process k} (pt j)" using assms(2) cur_ret_ok [OF assms(2)] by (simp_all add: j_def)
  from sched_sleep [OF j(2), of "process k" "arg k 0"] obtain s' where
    s': "sleep (process k) (arg k 0) (pt j) = Some s'" "sched D {} s'" by auto
  have "k' = run_next (j\<lparr>pt := s'\<rparr>)"
    using assms(1) s'(1) by (simp add: handle_syscall_sleep_def Let_def on_procs_def j_def [symmetric] j(1))
  with run_next_ok [of D "j\<lparr>pt := s'\<rparr>"] s'(2) show ?thesis by simp
qed

lemma sigreturn_request_ok:
  assumes "handle_syscall_sigreturn k = Some k'" "sched D {process k} (pt k)"
  shows "sched_at D k'"
proof -
  obtain c where c: "verify_sysptr (arg k 0) 4 (heap k) = Some c"
    using assms(1) by (auto simp: handle_syscall_sigreturn_def Let_def bind_eq_Some_conv)
  show ?thesis
  proof (cases "c = OK")
    case False
    with assms(1) c obtain k1 where "cleanup_pcb (process k) k = Some k1" "k' = run_next k1"
      by (auto simp: handle_syscall_sigreturn_def Let_def bind_eq_Some_conv)
    with cleanup_ok [OF _ assms(2)] run_next_ok show ?thesis by blast
  next
    case True
    define k1 where "k1 = set_cur (\<lambda>u. u\<lparr>p_esp := arg k 0\<rparr>) (cur_ret (load32 (kmem k) (arg k 0 - 4)) k)"
    have "sched D {process (cur_ret (load32 (kmem k) (arg k 0 - 4)) k)} (pt k1)"
      unfolding k1_def by (rule cur_upd_ok) (use cur_ret_ok [OF assms(2)] in simp_all)
    then have s1: "sched D {process k1} (pt k1)" by (simp add: k1_def)
    obtain n where n: "highest_bit (p_signals_enabled (cur_pcb k1)) (SIGNAL_TABLE_SIZE - 1) = Some n"
      using assms(1) c True by (auto simp: handle_syscall_sigreturn_def Let_def bind_eq_Some_conv k1_def)
    then have "k' = set_cur (\<lambda>u. u\<lparr>p_signals_enabled := CLEAR_BIT (p_signals_enabled u) (unat n)\<rparr>) k1"
      using assms(1) c True by (simp add: handle_syscall_sigreturn_def Let_def k1_def)
    with cur_upd_ok [OF s1, of "\<lambda>u. u\<lparr>p_signals_enabled := CLEAR_BIT (p_signals_enabled u) (unat n)\<rparr>"] show ?thesis
      by (auto intro: sched_ok_running)
  qed
qed

text \<open>The device calls, all but a read, touch at most the caller's descriptors.\<close>

lemma cur_fd_ok:
  assumes "sched D {p} (pt k)"
  shows "sched D {p} (pt (set_pcb p (\<lambda>u. u\<lparr>p_fd_table := f u\<rparr>) k))"
  using assms by (auto intro!: sched_upd)

lemma kbd_calls_frame:
  "dvopen d p blk k = Some (r, k') \<Longrightarrow> pt k' = pt k \<and> process k' = process k"
  "dvclose d p blk k = Some (r, k') \<Longrightarrow> pt k' = pt k \<and> process k' = process k"
  "dvwrite d p blk b n k = Some (r, k') \<Longrightarrow> pt k' = pt k \<and> process k' = process k"
  "dvioctl d p blk c args k = Some (r, k') \<Longrightarrow> pt k' = pt k \<and> process k' = process k"
  by (auto simp: dvopen_def kbd_open_def dvclose_def kbd_close_def dvwrite_def kbd_write_def dvioctl_def kbd_ioctl_def
    kbd_ioctl_set_eof_def set_task_def Let_def ASSERT_bind split: driver.splits if_splits)

lemma call_ok:
  assumes "Option.bind res (\<lambda>(r, k1). Some (cur_ret r k1)) = Some k'"
    and "\<And>r k1. res = Some (r, k1) \<Longrightarrow> sched D {p} (pt k1) \<and> process k1 = p"
  shows "sched_at D k'"
proof -
  obtain r k1 where r: "res = Some (r, k1)" "k' = cur_ret r k1" using assms(1) by (auto simp: bind_eq_Some_conv)
  with assms(2) [OF r(1)] cur_ret_ok [of D k1 r] show ?thesis by (auto intro: sched_ok_running)
qed

lemma device_request_ok:
  assumes "handle_syscall_open k = Some k' \<or> handle_syscall_close k = Some k' \<or> handle_syscall_write k = Some k' \<or>
      handle_syscall_ioctl k = Some k'" "sched D {process k} (pt k)"
  shows "sched_at D k'"
proof -
  have di: "sched D {process k} (pt k1) \<and> process k1 = process k"
    if "di_open (process k) a k = Some (r, k1) \<or> di_close (process k) a k = Some (r, k1) \<or>
      di_write (process k) a b n k = Some (r, k1) \<or> di_ioctl (process k) a b n k = Some (r, k1)" for r k1 a b n
    using that assms(2)
    by (auto simp: di_open_def di_close_def di_write_def di_ioctl_def Let_def ASSERT_bind bind_eq_Some_conv
      simp del: the_pcb_set_pcb(6) split: if_splits dest!: kbd_calls_frame intro!: cur_fd_ok)
  from assms(1) consider "handle_syscall_open k = Some k'" | "handle_syscall_close k = Some k'"
    | "handle_syscall_write k = Some k'" | "handle_syscall_ioctl k = Some k'" by blast
  then show ?thesis
  proof cases
    case 3
    then obtain c where c: "verify_sysptr (arg k 1) (arg k 2) (heap k) = Some c"
      by (auto simp: handle_syscall_write_def Let_def bind_eq_Some_conv)
    show ?thesis
    proof (cases "c = OK")
      case True
      with 3 c have "Option.bind (di_write (process k) (arg k 0) (arg k 1) (arg k 2) k) (\<lambda>(r, k1). Some (cur_ret r k1)) = Some k'"
        by (simp add: handle_syscall_write_def Let_def)
      then show ?thesis by (rule call_ok) (rule di, blast)
    next
      case False
      with 3 c cur_ret_ok [OF assms(2)] show ?thesis
        by (auto simp: handle_syscall_write_def Let_def intro: sched_ok_running)
    qed
  next
    case 1
    show ?thesis by (rule call_ok [OF 1 [unfolded handle_syscall_open_def]]) (rule di, blast)
  next
    case 2
    show ?thesis by (rule call_ok [OF 2 [unfolded handle_syscall_close_def]]) (rule di, blast)
  next
    case 4
    show ?thesis by (rule call_ok [OF 4 [unfolded handle_syscall_ioctl_def]]) (rule di, blast)
  qed
qed

lemma sched_ok_end: "sched_at D (end_of_intr k) = sched_at D k"
  by (simp only: sched_at_def end_of_intr_frame)

lemma timer_request_ok:
  assumes "handle_request TIMER_INT k = Some k'" "sched_at D k"
  shows "sched_at D k'"
proof -
  let ?R = "if is_slot (process k) then {process k} else {}"
  have k: "process k = NullPcb \<or> process k = IdlePcb \<or> is_slot (process k)" "sched D ?R (pt k)"
    using assms(2) by (simp_all add: sched_at_def)
  from sched_tick [OF k(2)] obtain s1 where s1: "tick (pt k) = Some s1" "sched D ?R s1" by blast
  let ?s = "upd_pcb (process k) (\<lambda>u. u\<lparr>p_cpu_time := p_cpu_time u + 1\<rparr>) s1"
  have s: "sched D ?R ?s" by (rule sched_upd [OF s1(2)]) simp_all
  have h: "(if p_pid (pcbs ?s (process k)) \<noteq> 0 then add_pcb_to_ready_queue (process k) ?s else Some ?s) = Some s' \<Longrightarrow>
      k' = end_of_intr (run_next (k\<lparr>pt := s'\<rparr>))" for s'
    using assms(1) s1(1)
    by (auto simp: handle_request_def request_defs on_procs_def set_cur_def cur_pcb_def the_pcb_def set_pcb_def upd_pt_def split: if_splits)
  have "\<exists>s'. (if p_pid (pcbs ?s (process k)) \<noteq> 0 then add_pcb_to_ready_queue (process k) ?s else Some ?s) = Some s' \<and> sched D {} s'"
  proof (cases "is_slot (process k)")
    case True
    then have "p_pid (pcbs ?s (process k)) \<noteq> 0"
      using s by (auto simp: sched_def pids_ok_def pid_of_slot_def is_slot_def)
    with sched_ready [OF s, of "process k"] True show ?thesis by auto
  next
    case False
    show ?thesis
    proof (cases "p_pid (pcbs ?s (process k)) = 0")
      case True
      with s False show ?thesis by auto
    next
      case pid: False
      have "process k \<noteq> IdlePcb" using s pid by (auto simp: sched_def)
      with k(1) False have "process k = NullPcb" by auto
      with assms(1) s1(1) pid have False
        by (auto simp: handle_request_def request_defs on_procs_def set_cur_def cur_pcb_def the_pcb_def add_pcb_to_ready_queue_def split: if_splits)
      then show ?thesis ..
    qed
  qed
  then obtain s' where s': "k' = end_of_intr (run_next (k\<lparr>pt := s'\<rparr>))" "sched D {} s'" using h by blast
  with run_next_ok [of D "k\<lparr>pt := s'\<rparr>"] show ?thesis by (simp add: sched_ok_end)
qed

lemma if_eqE:
  assumes "(if c then x else y) = z" "c \<Longrightarrow> x = z \<Longrightarrow> R" "\<not> c \<Longrightarrow> y = z \<Longrightarrow> R"
  shows R
  using assms by (cases c) auto

definition message_ok :: "u32 \<Rightarrow> kernel \<Rightarrow> bool" where
  "message_ok req k \<longleftrightarrow> (req \<in> {SYSCALL_SEND, SYSCALL_RECV} \<longrightarrow> lengths_ok k) \<and>
     (req = SYSCALL_SEND \<longrightarrow> finds_receiver (pid_to_pcb (arg k 0) (pt k)) k)"

lemma request_sched:
  assumes "sched_at D k" "is_slot (process k) \<or> req = TIMER_INT" "req \<notin> {SYSCALL_READ, KEYBOARD_INT}"
    and "message_ok req k" "handle_request req k = Some k'"
  shows "sched_at D k'"
proof (cases "req = TIMER_INT")
  case True
  with assms(1,5) timer_request_ok show ?thesis by simp
next
  case False
  then have p: "is_slot (process k)" "process k \<noteq> NullPcb" using assms(2) by auto
  then have s: "sched D {process k} (pt k)" using assms(1) by (simp add: sched_at_def)
  have yield: "sched_at D k'" if "map_option run_next (on_procs (add_pcb_to_ready_queue (process k)) k) = Some k'"
  proof -
    from sched_ready [OF s, of "process k"] obtain s' where "add_pcb_to_ready_queue (process k) (pt k) = Some s'" "sched D {} s'" by auto
    with that run_next_ok [of D "k\<lparr>pt := s'\<rparr>"] show ?thesis by (auto simp: on_procs_def)
  qed
  have stop: "sched_at D k'" if "map_option run_next (cleanup_pcb (process k) k) = Some k'"
    using that cleanup_ok [OF _ s] run_next_ok by auto
  have ret: "sched_at D (cur_ret r k)" "sched_at D (cur_ret r (emit e k))" for r e
    using cur_ret_ok [of D k r] cur_ret_ok [of D "emit e k" r] s by (auto intro: sched_ok_running)
  have dev: "handle_syscall_open k = Some k' \<Longrightarrow> sched_at D k'" "handle_syscall_close k = Some k' \<Longrightarrow> sched_at D k'"
    "handle_syscall_write k = Some k' \<Longrightarrow> sched_at D k'" "handle_syscall_ioctl k = Some k' \<Longrightarrow> sched_at D k'"
    using device_request_ok [OF _ s] by blast+
  have msg: "sched_at D k'" if "ret_to (process k) (handle_syscall_send k) = Some k'" "req = SYSCALL_SEND"
    using send_request_ok [OF that(1) s p(1)] that(2) assms(4) by (simp add: message_ok_def)
  have msg': "sched_at D k'" if "ret_to (process k) (handle_syscall_recv k) = Some k'" "req = SYSCALL_RECV"
    using recv_request_ok [OF that(1) s p(1)] that(2) assms(4) by (simp add: message_ok_def)
  note ok = create_request_ok [OF _ s] kill_request_ok [OF _ s] sighandler_request_ok [OF _ s] cputimes_request_ok [OF _ s]
    wait_request_ok [OF _ s p(1)] sleep_request_ok [OF _ s] sigreturn_request_ok [OF _ s] dev yield stop
  show ?thesis using assms(5) unfolding handle_request_def handle_syscall_puts_def
    by - (elim if_eqE; ((erule ok) | (erule msg, assumption) | (erule msg', assumption) | (use assms(3) False ret in auto)))
qed

section \<open>Rounds of the dispatcher\<close>

text \<open>The first half of a round: a process is entered, and leaves with a request.\<close>

definition entered :: "trap \<Rightarrow> kernel \<Rightarrow> (u32 \<times> kernel) option" where
  "entered t k = map_option (contextswitch_exit (process (pick_idle k)) t) (contextswitch_enter (process (pick_idle k)) (pick_idle k))"

lemma entered_process:
  assumes "contextswitch_enter p k = Some k1" shows "process k1 = process k"
  using assms by (auto simp: contextswitch_enter_def deliver_highest_priority_signal_def signal_def Let_def ASSERT_bind bind_eq_Some_conv
    split: if_splits prod.splits)

lemma dispatch_round_entered: "dispatch_round t k = Option.bind (entered t k) (\<lambda>(req, k). handle_request req k)"
proof -
  have "Option.bind (contextswitch_enter (process (pick_idle k)) (pick_idle k))
      (\<lambda>k1. let (request, k) = contextswitch_exit (process k1) t k1 in handle_request request k) =
    Option.bind (contextswitch_enter (process (pick_idle k)) (pick_idle k))
      (\<lambda>k1. let (request, k) = contextswitch_exit (process (pick_idle k)) t k1 in handle_request request k)"
    using entered_process by (cases "contextswitch_enter (process (pick_idle k)) (pick_idle k)") fastforce+
  then show ?thesis by (cases "contextswitch_enter (process (pick_idle k)) (pick_idle k)") (simp_all add: dispatch_round_def entered_def Let_def)
qed

lemma signal_frame_ok:
  assumes "signal pid n k = (r, k')" "sched D R (pt k)"
  shows "sched D R (pt k') \<and> process k' = process k"
proof -
  let ?p = "pid_to_pcb pid (pt k)"
  have u: "sched D R (upd_pcb ?p (\<lambda>u. u\<lparr>p_signals_enabled := f u\<rparr>) s)" "sched D R (upd_pcb ?p (\<lambda>u. u\<lparr>p_esp := e\<rparr>) s)" if "sched D R s" for f e s
    using that by (auto intro!: sched_upd)
  show ?thesis using assms u by (auto simp: signal_def Let_def split: if_splits prod.splits)
qed

lemma entered_ok:
  assumes "sched_at D k" "entered t k = Some (req, k')"
  shows "sched_at D k' \<and> process k' = process (pick_idle k)"
proof -
  let ?p = "process (pick_idle k)"
  define R where "R = (if is_slot (process k) then {process k} else {})"
  have R: "R = (if is_slot ?p then {?p} else {})" by (auto simp: R_def pick_idle_def get_idleproc_def)
  have p: "?p = IdlePcb \<or> is_slot ?p" using assms(1) by (auto simp: sched_at_def pick_idle_def get_idleproc_def)
  have s: "sched D R (pt (pick_idle k))" using assms(1) by (auto simp: R_def sched_at_def pick_idle_def)
  have upd: "sched D R (upd_pcb ?p f s)" if "sched D R s" "\<And>u. p_next (f u) = p_next u" "\<And>u. p_pid (f u) = p_pid u" "\<And>u. p_state (f u) = p_state u" for f s
    by (rule sched_upd [OF that]) (auto simp: R)
  obtain k1 where k1: "contextswitch_enter ?p (pick_idle k) = Some k1" "contextswitch_exit ?p t k1 = (req, k')"
    using assms(2) by (auto simp: entered_def)
  have del: "sched D R (pt j)" if "deliver_highest_priority_signal ?p (pick_idle k) = Some j" for j
  proof -
    have "sched D R (pt (set_pcb ?p (\<lambda>u. u\<lparr>p_signals_pending := f u\<rparr>) (pick_idle k)))" for f using upd [OF s] by simp
    with that s show ?thesis
      by (auto simp: deliver_highest_priority_signal_def Let_def ASSERT_bind bind_eq_Some_conv signal_frame_ok [OF surjective_pairing]
        simp del: the_pcb_set_pcb(6) split: if_splits)
  qed
  have "sched D R (pt k1)" using k1(1) s del by (auto simp: contextswitch_enter_def Let_def ASSERT_bind bind_eq_Some_conv split: if_splits)
  then have "sched D R (pt k')" using k1(2) by (auto simp: contextswitch_exit_def Let_def intro!: upd split: trap_kind.splits)
  moreover have "process k' = ?p" using entered_process [OF k1(1)] k1(2) by (auto simp: contextswitch_exit_def Let_def split: trap_kind.splits)
  ultimately show ?thesis using R p by (auto simp: sched_at_def)
qed

end
