(* ===== verification/Signal_Properties.thy ===== *)
theory Signal_Properties
  imports Kernel_Properties
begin

text \<open>
  Properties of the signals: the frame that a delivery pushes and the return from it, the choice
  of the signal, the unblocking of the target, and the two ways a signal call stops the kernel.
\<close>

unbundle bit_operations_syntax

section \<open>The highest signal\<close>

text \<open>The highest set bit of a word.\<close>

definition top_bit :: "u32 \<Rightarrow> nat \<Rightarrow> bool" where
  "top_bit f n \<longleftrightarrow> n < 32 \<and> bit f n \<and> (\<forall>i. n < i \<longrightarrow> \<not> bit f i)"

lemma and_31: "j < 32 \<Longrightarrow> unat ((of_nat j :: i32) AND 31) = j"
proof -
  assume j: "j < 32"
  have "(of_nat j :: i32) AND 31 = take_bit 5 (of_nat j)" by (simp add: take_bit_eq_mask mask_eq_exp_minus_1)
  also have "\<dots> = of_nat (take_bit 5 j)" by (simp only: of_nat_take_bit)
  also have "take_bit 5 j = j" using j by (simp add: take_bit_nat_eq_self)
  finally show ?thesis using j by (simp add: unat_of_nat)
qed

lemma highest_bit_correct:
  assumes "top_bit f n" "n \<le> j" "j < 32"
  shows "highest_bit f (of_nat j) = Some (of_nat n)"
  using assms(2,3)
proof (induction "j - n" arbitrary: j)
  case 0
  then have "j = n" by simp
  with assms(1) and_31 [of n] show ?case by (subst highest_bit.simps) (simp add: top_bit_def)
next
  case (Suc d)
  then have nb: "\<not> bit f j" using assms(1) by (simp add: top_bit_def)
  obtain i where i: "j = Suc i" using Suc(2) by (cases j) simp_all
  with Suc have "highest_bit f (of_nat i) = Some (of_nat n)" by (intro Suc.hyps(1)) simp_all
  with nb and_31 [of j] Suc.prems(2) i show ?case by (subst highest_bit.simps) simp
qed

lemma highest_bit_31: "top_bit f n \<Longrightarrow> highest_bit f (SIGNAL_TABLE_SIZE - 1) = Some (of_nat n)"
  using highest_bit_correct [of f n 31] by (simp add: SIGNAL_TABLE_SIZE_def top_bit_def)

lemma highest_bit_zero: "highest_bit 0 n = None"
proof (cases "highest_bit 0 n")
  case (Some r)
  then have "(0 :: u32) \<noteq> 0"
    by (rule highest_bit.raw_induct [rotated]) (auto split: if_splits)
  then show ?thesis by simp
qed

lemma top_bit_exists: "f \<noteq> 0 \<Longrightarrow> \<exists>n. top_bit f n"
proof -
  assume "f \<noteq> 0"
  then obtain m where m: "bit f m" by (auto simp: bit_eq_iff)
  have b: "bit f i \<Longrightarrow> i < 32" for i using bit_imp_le_length [of f i] by simp
  let ?A = "{i. bit f i}"
  have fin: "finite ?A" using b by (auto intro: finite_subset [of _ "{..<32}"])
  have "?A \<noteq> {}" using m by blast
  then have "bit f (Max ?A)" using Max_in [OF fin] by blast
  moreover have "\<not> bit f i" if "Max ?A < i" for i
  proof
    assume "bit f i"
    then have "i \<le> Max ?A" by (intro Max_ge [OF fin]) simp
    with that show False by (simp only: leD)
  qed
  ultimately have "top_bit f (Max ?A)" unfolding top_bit_def using b by blast
  then show ?thesis by blast
qed

lemma top_bit_less:
  assumes "top_bit f n" "\<forall>i\<ge>n. \<not> bit g i"
  shows "g < f"
proof -
  have "g = take_bit n g"
    using assms(2) by (auto simp: bit_eq_iff bit_take_bit_iff) (meson not_le)
  then have "unat g < 2 ^ n" by (metis take_bit_nat_less_exp unsigned_take_bit_eq)
  moreover have "2 ^ n \<le> unat f"
  proof -
    have "f AND push_bit n 1 = push_bit n 1" using assms(1)
      by (intro bit_word_eqI) (auto simp: bit_simps top_bit_def)
    then have "f = f OR push_bit n 1" by (metis word_ao_absorbs(8) or.commute and.commute)
    then have "push_bit n 1 \<le> f" using le_word_or1 [of "push_bit n 1" f] by (simp add: or.commute)
    moreover have "unat (push_bit n 1 :: u32) = 2 ^ n"
    proof -
      have "(2 :: nat) ^ n < 2 ^ 32" using assms(1) by (intro power_strict_increasing) (simp_all add: top_bit_def)
      then have "unat (of_nat (2 ^ n) :: u32) = 2 ^ n" unfolding unat_of_nat by simp
      then show ?thesis by (simp add: push_bit_eq_mult)
    qed
    ultimately show ?thesis by (simp add: word_le_nat_alt)
  qed
  ultimately show ?thesis by (simp add: word_less_nat_alt)
qed

text \<open>The frame of a signal, read back; the bytes outside it.\<close>

lemma memset_far:
  assumes "n \<le> unat (x - a)" "sint len = int n"
  shows "memset a c len m x = m x"
  using assms by (simp add: memset_apply)

lemma memset_zero_load32:
  assumes "sint len = int n" "k + 4 \<le> n" "n \<le> 2 ^ 31"
  shows "load32 (memset a 0 len m) (a + of_nat k) = 0"
proof -
  have "memset a 0 len m (a + of_nat j) = 0" if "j < n" for j
    using that assms by (simp add: memset_apply unat_of_nat)
  from this [of k] this [of "k + 1"] this [of "k + 2"] this [of "k + 3"] assms(2)
  show ?thesis by (simp add: load32_def ac_simps)
qed

lemma zeroed_frame: "k \<le> 40 \<Longrightarrow> load32 (memset f 0 44 m) (f + of_nat k) = 0"
  using memset_zero_load32 [of 44 44 k f m] by simp

lemma init_context_frame_resume:
  "resume_regs (init_context_frame cs f fp m) f =
     \<lparr>r_edi = 0, r_esi = 0, r_ebp = f + 44, r_esp = f + 44, r_ebx = 0, r_ecx = 0, r_eip = fp, r_cs = cs,
      r_eflags = STARTING_EFLAGS\<rparr>"
  using zeroed_frame [of 0 f m] zeroed_frame [of 4 f m] zeroed_frame [of 16 f m] zeroed_frame [of 24 f m]
  by (simp add: resume_regs_def init_context_frame_def Let_def cf_defs load32_store32_far far_def)

lemma init_context_frame_bytes:
  assumes "44 \<le> unat (x - f)"
  shows "init_context_frame cs f fp m x = m x"
proof -
  note B = store32_beyond [OF assms]
  show ?thesis
    using B [of 8] B [of 12] B [of 32] B [of 36] B [of 40] memset_far [OF assms, of 44 0 m]
    by (simp add: init_context_frame_def Let_def cf_defs)
qed


lemma push_signal_frame_correct:
  assumes "push_signal_frame cs tramp e ret handler m = (f, m')"
  shows "f = e - 60" "load32 m' (e - 4) = ret" "load32 m' (e - 8) = e" "load32 m' (e - 12) = handler"
    "load32 m' (e - 16) = 0xBADA555"
    "resume_regs m' f = \<lparr>r_edi = 0, r_esi = 0, r_ebp = e - 16, r_esp = e - 16, r_ebx = 0, r_ecx = 0,
       r_eip = tramp, r_cs = cs, r_eflags = STARTING_EFLAGS\<rparr>"
    "\<And>x. 60 \<le> unat (x - (e - 60)) \<Longrightarrow> m' x = m x"
proof -
  let ?m = "store32 (store32 (store32 (store32 m (e - 4) ret) (e - 8) e) (e - 12) handler) (e - 16) 0xBADA555"
  have f: "f = e - 60" and m': "m' = init_context_frame cs (e - 60) tramp ?m"
    using assms by (auto simp: push_signal_frame_def Let_def cf_defs)
  show "f = e - 60" by (rule f)
  have fr: "load32 m' b = load32 ?m b" if "far (e - 60) 44 b 4" for b
    unfolding m' by (rule far_load32 [OF that]) (auto intro: init_context_frame_bytes)
  show "load32 m' (e - 4) = ret" "load32 m' (e - 8) = e" "load32 m' (e - 12) = handler"
    "load32 m' (e - 16) = 0xBADA555"
    by (simp_all add: fr far_def load32_store32_far)
  show "resume_regs m' f = \<lparr>r_edi = 0, r_esi = 0, r_ebp = e - 16, r_esp = e - 16, r_ebx = 0, r_ecx = 0,
       r_eip = tramp, r_cs = cs, r_eflags = STARTING_EFLAGS\<rparr>"
    unfolding f m' by (simp add: init_context_frame_resume)
  show "m' x = m x" if x: "60 \<le> unat (x - (e - 60))" for x
    unfolding m' using init_context_frame_bytes [of x "e - 60" cs tramp ?m] x
      store32_beyond [OF x, of 56] store32_beyond [OF x, of 52] store32_beyond [OF x, of 48] store32_beyond [OF x, of 44]
    by simp
qed

text \<open>Delivering a signal pushes, below the process's stack pointer, its return value, its
  stack pointer, the handler from its signal table and a frame that enters the trampoline with
  the handler and the old stack pointer as arguments; it enables the signal's bit and writes
  no byte outside those sixty.\<close>

theorem signal_pushes_frame:
  assumes "p = pid_to_pcb pid (pt k)" "p \<noteq> NullPcb" "0 \<le> sint n" "sint n < 32"
    and "u = the_pcb p k" "e = p_esp u"
    and "far (e - 8) 8 (p_signal_table u + 4 * n) 4"
  shows "\<exists>k'. signal pid n k = (0, k') \<and>
    the_pcb p k' = u\<lparr>p_signals_enabled := SET_BIT (p_signals_enabled u) (unat n), p_esp := e - 60\<rparr> \<and>
    load32 (kmem k') (e - 4) = p_ret u \<and> load32 (kmem k') (e - 8) = e \<and>
    load32 (kmem k') (e - 12) = load32 (kmem k) (p_signal_table u + 4 * n) \<and>
    resume_regs (kmem k') (e - 60) = \<lparr>r_edi = 0, r_esi = 0, r_ebp = e - 16, r_esp = e - 16, r_ebx = 0,
      r_ecx = 0, r_eip = sym_sigtramp (syms k), r_cs = getCS k, r_eflags = STARTING_EFLAGS\<rparr> \<and>
    (\<forall>x. 60 \<le> unat (x - (e - 60)) \<longrightarrow> kmem k' x = kmem k x)"
proof -
  let ?u = "u\<lparr>p_signals_enabled := SET_BIT (p_signals_enabled u) (unat n)\<rparr>"
  let ?t = "p_signal_table u + 4 * n"
  let ?h = "load32 (store32 (store32 (kmem k) (e - 4) (p_ret u)) (e - 8) e) ?t"
  have "?h = load32 (kmem k) ?t"
  proof (rule far_load32 [OF assms(7)])
    show "store32 (store32 (kmem k) (e - 4) (p_ret u)) (e - 8) e x = kmem k x" if "8 \<le> unat (x - (e - 8))" for x
      using store32_beyond [OF that, of 4] store32_beyond [OF that, of 0] by simp
  qed simp
  obtain f m' where m': "push_signal_frame (getCS k) (sym_sigtramp (syms k)) e (p_ret u) ?h (kmem k) = (f, m')"
    by fastforce
  note P = push_signal_frame_correct [OF m']
  let ?k = "set_pcb p (\<lambda>u. u\<lparr>p_signals_enabled := SET_BIT (p_signals_enabled u) (unat n)\<rparr>) k"
  have k: "getCS ?k = getCS k" "syms ?k = syms k"
    by (simp_all add: getCS_def set_pcb_def upd_pt_def)
  have "signal pid n k = (0, upd_mem (\<lambda>_. m') (set_pcb p (\<lambda>u. u\<lparr>p_esp := f\<rparr>) ?k))"
    using assms(1-6) m' k by (simp add: signal_def Let_def SIGNAL_TABLE_SIZE_def)
  then show ?thesis using P \<open>?h = load32 (kmem k) ?t\<close> assms(5,6)
    by (intro exI [of _ "upd_mem (\<lambda>_. m') (set_pcb p (\<lambda>u. u\<lparr>p_esp := f\<rparr>) ?k)"]) simp
qed

lemma upd_mem_heap [simp]:
  "freemem (heap (upd_mem f k)) = freemem (heap k)" "maxaddr (heap (upd_mem f k)) = maxaddr (heap k)"
  "mem (heap (upd_mem f k)) = f (kmem k)"
  by (simp_all add: upd_mem_def kmem_def)

lemma boot_heap: "freemem (kmeminit boot_state) = 0x10000" "maxaddr (kmeminit boot_state) = 0x3FFFFF"
  by (simp_all add: kmeminit_def boot_state_def Let_def)

lemma verify_0x30000: "freemem s = 0x10000 \<Longrightarrow> maxaddr s = 0x3FFFFF \<Longrightarrow> verify_sysptr 0x30000 4 s = Some OK"
  by (simp add: verify_sysptr_def OK_def SYSERR_def mem_const_defs)

text \<open>The running process of the concrete kernel with a stack and a signal table.\<close>

definition sig_kernel :: kernel where
  "sig_kernel = set_pcb (PcbSlot 7) (\<lambda>u. u\<lparr>p_esp := 0x30000, p_signal_table := 0x40000\<rparr>) demo_kernel"

lemma sig_kernel_simps [simp]:
  "the_pcb (PcbSlot 7) sig_kernel = (demo_pcb 7)\<lparr>p_esp := 0x30000, p_signal_table := 0x40000\<rparr>"
  "process sig_kernel = PcbSlot 7" "heap sig_kernel = kmeminit boot_state"
  "pt sig_kernel = upd_pcb (PcbSlot 7) (\<lambda>u. u\<lparr>p_esp := 0x30000, p_signal_table := 0x40000\<rparr>) demo_procs"
  by (simp_all add: sig_kernel_def)

lemma sig_kernel_pid: "pid_to_pcb 8 (pt sig_kernel) = PcbSlot 7"
  using pid_to_pcb_eq [of 8] by (simp add: demo_pcb_def)

theorem signal_pushes_frame_witness:
  "\<exists>k'. signal 8 3 sig_kernel = (0, k') \<and> p_esp (the_pcb (PcbSlot 7) k') = 0x2FFC4"
  using signal_pushes_frame [OF sig_kernel_pid [symmetric] _ _ _ refl refl, of 3]
  by (auto simp: far_def)

lemma SET_CLEAR: "\<not> bit f n \<Longrightarrow> CLEAR_BIT (SET_BIT f n) n = f"
  by (rule bit_word_eqI) (auto simp: bit_SET_BIT bit_CLEAR_BIT)

lemma top_bit_SET: "n < 32 \<Longrightarrow> \<forall>i\<ge>n. \<not> bit f i \<Longrightarrow> top_bit (SET_BIT f n) n"
  by (simp add: top_bit_def bit_SET_BIT)



text \<open>\<^verbatim>\<open>sigreturn\<close> by a process that handles no signal never returns: the scan for the
  highest signal in progress finds none and goes on for ever, in the kernel.\<close>

theorem sigreturn_without_signal_hangs:
  assumes "verify_sysptr (arg k 0) 4 (heap k) = Some OK" "p_signals_enabled (cur_pcb k) = 0"
  shows "handle_request SYSCALL_SIGRETURN k = None"
  using assms highest_bit_zero
  by (simp add: handle_request_def request_defs handle_syscall_sigreturn_def Let_def cur_ret_def set_cur_def cur_pcb_def)

theorem sigreturn_without_signal_hangs_witness:
  "handle_request SYSCALL_SIGRETURN (upd_mem (\<lambda>m. store32 m 0x31000 0x30000)
     (set_pcb (PcbSlot 7) (\<lambda>u. u\<lparr>p_args := 0x31000\<rparr>) sig_kernel)) = None"
  by (rule sigreturn_without_signal_hangs)
    (simp_all add: arg_def va_arg_def cur_pcb_def verify_0x30000 boot_heap demo_pcb_def)

text \<open>The signal delivered is the highest pending one, when it is higher than every signal in
  progress; a process that handles a higher signal than those pending is left alone.\<close>

theorem deliver_highest_correct:
  assumes "top_bit (p_signals_pending (the_pcb p k)) n"
  shows "((\<forall>i\<ge>n. \<not> bit (p_signals_enabled (the_pcb p k)) i) \<longrightarrow>
      deliver_highest_priority_signal p k = Some (snd (signal (p_pid (the_pcb p k)) (of_nat n)
        (set_pcb p (\<lambda>u. u\<lparr>p_signals_pending := CLEAR_BIT (p_signals_pending u) n\<rparr>) k)))) \<and>
    (\<forall>m>n. top_bit (p_signals_enabled (the_pcb p k)) m \<longrightarrow> deliver_highest_priority_signal p k = Some k)"
proof (intro conjI allI impI)
  have nz: "p_signals_pending (the_pcb p k) \<noteq> 0" using assms by (auto simp: top_bit_def)
  have u: "unat (of_nat n :: i32) = n" using assms by (simp add: top_bit_def unat_of_nat)
  note H = highest_bit_31 [OF assms]
  show "deliver_highest_priority_signal p k = Some (snd (signal (p_pid (the_pcb p k)) (of_nat n)
        (set_pcb p (\<lambda>u. u\<lparr>p_signals_pending := CLEAR_BIT (p_signals_pending u) n\<rparr>) k)))"
    if "\<forall>i\<ge>n. \<not> bit (p_signals_enabled (the_pcb p k)) i"
    using nz H u top_bit_less [OF assms that] by (simp add: deliver_highest_priority_signal_def)
  show "deliver_highest_priority_signal p k = Some k"
    if "n < m" "top_bit (p_signals_enabled (the_pcb p k)) m" for m
  proof -
    have "p_signals_pending (the_pcb p k) < p_signals_enabled (the_pcb p k)"
      using assms that(1) by (intro top_bit_less [OF that(2)]) (auto simp: top_bit_def)
    with nz H show ?thesis by (simp add: deliver_highest_priority_signal_def not_less_iff_gr_or_eq)
  qed
qed

theorem deliver_highest_correct_witness:
  "deliver_highest_priority_signal (PcbSlot 7)
     (set_pcb (PcbSlot 7) (\<lambda>u. u\<lparr>p_signals_pending := SET_BIT 0 3\<rparr>) sig_kernel) =
   Some (snd (signal 8 3 (set_pcb (PcbSlot 7) (\<lambda>u. u\<lparr>p_signals_pending := 0\<rparr>)
     (set_pcb (PcbSlot 7) (\<lambda>u. u\<lparr>p_signals_pending := SET_BIT 0 3\<rparr>) sig_kernel))))"
proof -
  let ?k = "set_pcb (PcbSlot 7) (\<lambda>u. u\<lparr>p_signals_pending := SET_BIT 0 3\<rparr>) sig_kernel"
  have "top_bit (p_signals_pending (the_pcb (PcbSlot 7) ?k)) 3" by (simp add: top_bit_SET)
  moreover have "set_pcb (PcbSlot 7) (\<lambda>u. u\<lparr>p_signals_pending := CLEAR_BIT (p_signals_pending u) 3\<rparr>) ?k =
      set_pcb (PcbSlot 7) (\<lambda>u. u\<lparr>p_signals_pending := 0\<rparr>) ?k"
    by (simp add: set_pcb_def upd_pt_def upd_pcb_def SET_CLEAR)
  ultimately show ?thesis using deliver_highest_correct [of "PcbSlot 7" ?k 3] by (simp add: demo_pcb_def)
qed

text \<open>A signal with a handler ends the blocking of its target: a process blocked in a send, a
  receive or a wait leaves the blocked queue and becomes ready at the end of the ready queue,
  with the signal pending, and a send or receive returns \<^verbatim>\<open>BLOCKED_PROC_SIGNALED\<close>.\<close>

theorem signal_unblocks:
  assumes "queues_repr (pt k) L" "p \<in> set (L BlockedQueue)" "0 \<le> sint n" "sint n < 32" "u = the_pcb p k"
    and "load32 (kmem k) (p_signal_table u + 4 * n) \<noteq> 0" "p_state u = PROC_STATE_BLOCKED"
    and "p_blocked_status u \<in> {BLOCKED_STATUS_SEND, BLOCKED_STATUS_RECEIVE, BLOCKED_STATUS_WAITING}"
  shows "\<exists>k'. set_pcb_signal p n k = Some (0, k') \<and>
    queues_repr (pt k') (L(BlockedQueue := remove1 p (L BlockedQueue), ReadyQueue := L ReadyQueue @ [p])) \<and>
    p_state (the_pcb p k') = PROC_STATE_READY \<and> bit (p_signals_pending (the_pcb p k')) (unat n) \<and>
    p_ret (the_pcb p k') = (if p_blocked_status u = BLOCKED_STATUS_WAITING then p_ret u else BLOCKED_PROC_SIGNALED)"
proof -
  have nn: "p \<noteq> NullPcb" using queues_repr_nonnull [OF assms(1)] assms(2) by metis
  have n32: "unat n < 32" using sint_small [OF assms(3)] assms(4) by linarith
  let ?f = "\<lambda>u. u\<lparr>p_signals_pending := SET_BIT (p_signals_pending u) (unat n),
    p_ret := (if p_blocked_status u = BLOCKED_STATUS_WAITING then p_ret u else BLOCKED_PROC_SIGNALED)\<rparr>"
  let ?s = "upd_pcb p ?f (pt k)"
  have r: "queues_repr ?s L" using assms(1) by (simp add: queues_repr_upd)
  from remove_queues [OF r, of BlockedQueue p] obtain s1 where
    s1: "pcb_remove BlockedQueue p ?s = Some (True, s1)" "same_but_next ?s s1"
    and r1: "queues_repr s1 (L(BlockedQueue := remove1 p (L BlockedQueue)))" using assms(2) by auto
  have nin: "p \<notin> set ((L(BlockedQueue := remove1 p (L BlockedQueue))) q)" for q
    using queues_repr_distinct [OF assms(1), of BlockedQueue] queues_repr_disjoint [OF assms(1,2)]
    by (cases "q = BlockedQueue") auto
  from add_ready_queues [OF r1 nn nin] obtain s2 where
    s2: "add_pcb_to_ready_queue p s1 = Some s2"
      "same_but_next (upd_pcb p (\<lambda>u. u\<lparr>p_state := PROC_STATE_READY, p_blocked_status := BLOCKED_STATUS_NONE\<rparr>) s1) s2"
    and r2: "queues_repr s2 (L(BlockedQueue := remove1 p (L BlockedQueue),
      ReadyQueue := (L(BlockedQueue := remove1 p (L BlockedQueue))) ReadyQueue @ [p]))" by blast
  have r3: "queues_repr s2 (L(BlockedQueue := remove1 p (L BlockedQueue), ReadyQueue := L ReadyQueue @ [p]))"
    by (rule queues_repr_ext [OF r2]) simp
  have run: "set_pcb_signal p n k = Some (0, k\<lparr>pt := s2\<rparr>)"
    using assms(3,4,6,7,8) nn s1(1) s2(1) unfolding assms(5)
    by (auto simp: set_pcb_signal_def Let_def SIGNAL_TABLE_SIZE_def set_pcb_def upd_pt_def upd_pcb_def the_pcb_def
        on_procs_def on_procs_ret_def remove_pcb_from_blocked_queue_def)
  have "p_state (pcbs s2 p) = PROC_STATE_READY" using same_but_next_fields(2) [OF s2(2), of p] by simp
  moreover have "p_signals_pending (pcbs s2 p) = SET_BIT (p_signals_pending u) (unat n)"
    using same_but_next_fields(12) [OF s2(2), of p] same_but_next_fields(12) [OF s1(2), of p] assms(5)
    by (simp add: the_pcb_def)
  moreover have "p_ret (pcbs s2 p) = (if p_blocked_status u = BLOCKED_STATUS_WAITING then p_ret u else BLOCKED_PROC_SIGNALED)"
    using same_but_next_fields(5) [OF s2(2), of p] same_but_next_fields(5) [OF s1(2), of p] assms(5)
    by (simp add: the_pcb_def)
  ultimately show ?thesis using run r3 n32
    by (intro exI [of _ "k\<lparr>pt := s2\<rparr>"]) (simp add: the_pcb_def bit_SET_BIT)
qed

definition blocked_kernel :: kernel where
  "blocked_kernel = upd_mem (\<lambda>m. store32 m 0x5000C 0x2000)
     (set_pcb (PcbSlot 1) (\<lambda>u. u\<lparr>p_signal_table := 0x50000\<rparr>) demo_kernel)"

theorem signal_unblocks_witness:
  "\<exists>k'. set_pcb_signal (PcbSlot 1) 3 blocked_kernel = Some (0, k') \<and>
     p_ret (the_pcb (PcbSlot 1) k') = BLOCKED_PROC_SIGNALED"
proof -
  have "queues_repr (pt blocked_kernel) demo_lists"
    using demo_repr by (simp add: blocked_kernel_def queues_repr_upd)
  from signal_unblocks [OF this _ _ _ refl, of "PcbSlot 1" 3] show ?thesis
    by (auto simp: blocked_kernel_def demo_pcb_def)
qed

text \<open>A signal for a process that is blocked in a device read stops the kernel: the case is
  missing and the assertion in the default branch fails.\<close>

theorem signal_device_halts:
  assumes "p \<noteq> NullPcb" "0 \<le> sint n" "sint n < 32" "p_state (the_pcb p k) = PROC_STATE_BLOCKED"
    and "load32 (kmem k) (p_signal_table (the_pcb p k) + 4 * n) \<noteq> 0"
    and "p_blocked_status (the_pcb p k) = BLOCKED_STATUS_DEVICE"
  shows "set_pcb_signal p n k = None"
  using assms by (simp add: set_pcb_signal_def Let_def SIGNAL_TABLE_SIZE_def)

theorem signal_device_halts_witness:
  "set_pcb_signal (PcbSlot 1) 3
     (set_pcb (PcbSlot 1) (\<lambda>u. u\<lparr>p_blocked_status := BLOCKED_STATUS_DEVICE\<rparr>) blocked_kernel) = None"
  by (rule signal_device_halts) (simp_all add: blocked_kernel_def demo_pcb_def)

end
