(* ===== verification/Startup.thy ===== *)
theory Startup
  imports Requests Signal_Properties
begin

text \<open>
  Start-up and creation: a process as \<^verbatim>\<open>create\<close> leaves it, the steps of \<^verbatim>\<open>initproc\<close> from power-on to
  the first process, and rounds that end in a timer interrupt.
\<close>

unbundle bit_operations_syntax

section \<open>Start-up\<close>

text \<open>A heap whose first free block has more than \<open>n\<close> bytes, and whose owned blocks are \<open>al\<close>.\<close>

definition spare :: "nat \<Rightarrow> mem_state \<Rightarrow> block set \<Rightarrow> bool" where
  "spare n s al \<longleftrightarrow> (\<exists>a t fl. heap_inv s ((a, t) # fl) al \<and> n < unat t)"

lemma spare_kmalloc:
  assumes "spare n s al" "0 < sz" "unat sz \<le> 2 ^ 32 - 64" "unat (chunk sz) \<le> n"
  shows "\<exists>a s'. kmalloc sz s = Some (data_start a, s') \<and> data_start a \<noteq> 0 \<and> block_ok (a, chunk sz) \<and>
    spare (n - unat (chunk sz)) s' (insert (a, chunk sz) al)"
proof -
  from assms(1) obtain a t fl where s: "heap_inv s ((a, t) # fl) al" "n < unat t" by (auto simp: spare_def)
  have lt: "chunk sz \<le> t" "chunk sz \<noteq> t" using s(2) assms(4) by (auto simp: word_le_nat_alt)
  then have al: "alloc_list (chunk sz) ((a, t) # fl) = Some (a, (a + chunk sz, t - chunk sz) # fl)" by simp
  from kmalloc_chunk [OF s(1) assms(2,3) al] obtain s' where
    s': "kmalloc sz s = Some (data_start a, s')" "heap_inv s' ((a + chunk sz, t - chunk sz) # fl) (insert (a, chunk sz) al)" by blast
  have ok: "block_ok (a, chunk sz)" using s'(2) by (simp add: heap_inv_def alloc_ok_def)
  have "unat (t - chunk sz) = unat t - unat (chunk sz)" using lt(1) by (simp add: unat_sub)
  then have "spare (n - unat (chunk sz)) s' (insert (a, chunk sz) al)" using s'(2) s(2) assms(4) unfolding spare_def by fastforce
  moreover have "data_start a \<noteq> 0"
  proof
    assume "data_start a = 0"
    then have "unat (a + 16) = 0" by (simp add: data_start_def sizeof_mem_header_def)
    moreover have "unat (a + 16) = unat a + 16" using ok by (simp add: block_ok_def unat_word_ariths)
    ultimately show False by simp
  qed
  ultimately show ?thesis using s'(1) ok by blast
qed

lemma spare_less: "spare n s al \<Longrightarrow> m \<le> n \<Longrightarrow> spare m s al"
  by (fastforce simp: spare_def)

lemma in_payload:
  assumes "block_ok (a, c)" "unat (x - (data_start a + of_nat i)) < n" "i + n + 16 \<le> unat c"
  shows "payload x (a, c)"
proof -
  define d where "d = x - (data_start a + of_nat i)"
  have b: "unat a + unat c + 32 \<le> 2 ^ 32" using assms(1) by (simp add: block_ok_def)
  have x: "x = a + 16 + of_nat i + d" by (simp add: d_def data_start_def sizeof_mem_header_def)
  have i: "unat (of_nat i :: addr) = i" using b assms(3) by (simp add: unat_of_nat)
  have d: "unat d < n" using assms(2) by (simp add: d_def)
  have "unat (a + 16) = unat a + 16" using b assms(3) by (simp add: unat_word_ariths)
  moreover have "unat (a + 16 + of_nat i) = unat (a + 16) + i" using b assms(3) i calculation by (subst unat_word_ariths) simp
  moreover have "unat x = unat (a + 16 + of_nat i) + unat d" unfolding x
    using b assms(3) d calculation by (subst unat_word_ariths) simp
  ultimately show ?thesis using assms(3) d by (simp add: payload_def)
qed

lemma store32_range: "store32 m p v x \<noteq> m x \<Longrightarrow> unat (x - p) < 4"
  using store32_beyond [of 4 x p 0 m v] by fastforce

lemma spare_write:
  assumes "spare n (heap k) al" "\<And>x. f (kmem k) x \<noteq> kmem k x \<Longrightarrow> \<exists>b\<in>al. payload x b"
  shows "spare n (heap (upd_mem f k)) al"
proof -
  from assms(1) obtain b t fl where s: "heap_inv (heap k) ((b, t) # fl) al" "n < unat t" by (auto simp: spare_def)
  have "heap_inv ((heap k)\<lparr>mem := f (kmem k)\<rparr>) ((b, t) # fl) al"
    by (rule heap_inv_write [OF s(1)]) (use assms(2) in \<open>auto simp: kmem_def\<close>)
  with s(2) show ?thesis by (auto simp: spare_def upd_mem_def kmem_def)
qed

lemma chunk_sizes: "unat (chunk 4) = 32" "unat (chunk 12) = 32" "unat (chunk 2048) = 2064" "unat (chunk 128) = 144" "unat (chunk 8192) = 8208"
  by (simp_all add: chunk_ok(1))

lemma on_heap_spare:
  assumes "spare n (heap k) al" "0 < sz" "unat sz \<le> 2 ^ 32 - 64" "unat (chunk sz) \<le> n"
  shows "\<exists>a s'. on_heap (kmalloc sz) k = Some (data_start a, k\<lparr>heap := s'\<rparr>) \<and> data_start a \<noteq> 0 \<and> block_ok (a, chunk sz) \<and>
    spare (n - unat (chunk sz)) s' (insert (a, chunk sz) al)"
  using spare_kmalloc [OF assms] by (auto simp: on_heap_def)

lemma spare_disj: "spare n s al \<Longrightarrow> b \<in> al \<Longrightarrow> c \<in> al \<Longrightarrow> b \<noteq> c \<Longrightarrow> disj b c"
  by (auto simp: spare_def heap_inv_def)

lemma payload_disj: "disj b c \<Longrightarrow> payload x b \<Longrightarrow> \<not> payload x c"
  by (auto simp: disj_def gap_def payload_def)

text \<open>What the memory of a new process holds.\<close>

lemma init_process_memory:
  assumes "block_ok (a, ca)" "block_ok (b, cb)" "disj (b, cb) (a, ca)" "unat st + 16 \<le> unat ca" "48 \<le> unat st" "144 \<le> unat cb"
    and k': "k' = init_process p (data_start a) st (data_start b) fp k"
  shows "p_esp (the_pcb p k') = data_start a + st - 48"
    "resume_regs (kmem k') (data_start a + st - 48) =
       \<lparr>r_edi = 0, r_esi = 0, r_ebp = data_start a + st - 4, r_esp = data_start a + st - 4, r_ebx = 0, r_ecx = 0, r_eip = fp,
        r_cs = getCS k, r_eflags = STARTING_EFLAGS\<rparr>"
    "load32 (kmem k') (data_start a + st - 4) = sym_sysstop (syms k)"
    "load32 (kmem k') (data_start b + 124) = sym_sysstop (syms k)"
    "\<And>x. kmem k' x \<noteq> kmem k x \<Longrightarrow> payload x (a, ca) \<or> payload x (b, cb)"
    "heap k' = (heap k)\<lparr>mem := kmem k'\<rparr>"
proof -
  let ?top = "data_start a + st - 4" and ?e = "data_start a + st - 48"
  let ?m1 = "store32 (kmem k) (data_start b + 124) (sym_sysstop (syms k))"
  let ?m2 = "store32 ?m1 ?top (sym_sysstop (syms k))"
  have e: "data_start a + st - 4 - sizeof_context_frame = ?e" by (simp add: cf_defs)
  have sy: "syms (set_pcb q f j) = syms j" "syms (upd_mem g j) = syms j" for q f g j by (simp_all add: set_pcb_def upd_pt_def upd_mem_def)
  have k31: "4 * KILL_SIGNAL_NUM = 124" by (simp add: KILL_SIGNAL_NUM_def)
  have m3: "kmem k' = init_context_frame (getCS k) ?e fp ?m2"
    by (simp add: k' init_process_def Let_def e k31 getCS_def sy)
  show "p_esp (the_pcb p k') = ?e" by (simp add: k' init_process_def Let_def e)
  show "resume_regs (kmem k') ?e = \<lparr>r_edi = 0, r_esi = 0, r_ebp = ?top, r_esp = ?top, r_ebx = 0, r_ecx = 0, r_eip = fp,
        r_cs = getCS k, r_eflags = STARTING_EFLAGS\<rparr>"
    unfolding m3 init_context_frame_resume by simp
  have "load32 (kmem k') ?top = load32 ?m2 ?top" unfolding m3
    by (rule far_load32 [where n = 44 and a = ?e]) (simp_all add: far_def init_context_frame_bytes)
  then show "load32 (kmem k') ?top = sym_sysstop (syms k)" by simp
  have ust: "(of_nat (unat st) :: addr) = st" by simp
  have ptop: "payload x (a, ca)" if "unat (x - ?top) < 4" for x
  proof (rule in_payload [OF assms(1), where i = "unat st - 4"])
    show "unat (x - (data_start a + of_nat (unat st - 4))) < 4" using that assms(5) by (simp add: of_nat_diff algebra_simps)
  qed (use assms(4,5) in simp)
  have pe: "payload x (a, ca)" if "unat (x - ?e) < 44" for x
  proof (rule in_payload [OF assms(1), where i = "unat st - 48"])
    show "unat (x - (data_start a + of_nat (unat st - 48))) < 44" using that assms(5) by (simp add: of_nat_diff algebra_simps)
  qed (use assms(4,5) in simp)
  have pt: "payload x (b, cb)" if "unat (x - (data_start b + 124)) < 4" for x
    by (rule in_payload [OF assms(2), where i = 124 and n = 4]) (use that assms(6) in simp_all)
  have stay: "kmem k' x = ?m1 x" if "\<not> payload x (a, ca)" for x
  proof -
    have "44 \<le> unat (x - ?e)" "4 \<le> unat (x - ?top)" using that pe ptop by (auto simp: not_less [symmetric])
    then show ?thesis unfolding m3 using store32_beyond [of 4 x ?top 0 ?m1] by (simp add: init_context_frame_bytes)
  qed
  have tb: "kmem k' (data_start b + 124 + of_nat j) = ?m1 (data_start b + 124 + of_nat j)" if "j < 4" for j
  proof (rule stay)
    have "payload (data_start b + 124 + of_nat j) (b, cb)" by (rule pt) (use that in \<open>simp add: unat_of_nat\<close>)
    then show "\<not> payload (data_start b + 124 + of_nat j) (a, ca)" by (rule payload_disj [OF assms(3)])
  qed
  have "load32 (kmem k') (data_start b + 124) = load32 ?m1 (data_start b + 124)"
    using tb [of 0] tb [of 1] tb [of 2] tb [of 3] by (intro load32_cong) simp_all
  then show "load32 (kmem k') (data_start b + 124) = sym_sysstop (syms k)" by simp
  show "payload x (a, ca) \<or> payload x (b, cb)" if "kmem k' x \<noteq> kmem k x" for x
    using that stay [of x] store32_range [of "kmem k" "data_start b + 124" _ x] pt by fastforce
  show "heap k' = (heap k)\<lparr>mem := kmem k'\<rparr>"
    by (simp add: k' init_process_def Let_def kmem_def upd_mem_def)
qed

lemma unat_nonneg:
  fixes w :: i32
  assumes "0 \<le> sint w" shows "unat w = nat (sint w)" "unat w < 2 ^ 31"
proof -
  have "of_nat (nat (sint w)) = (of_int (sint w) :: i32)" using assms by (rule of_nat_nat)
  then have w: "w = of_nat (nat (sint w))" by simp
  have "sint w < 2 ^ 31" using sint_less [of w] by simp
  then have n: "nat (sint w) < 2 ^ 31" using assms by (simp add: nat_less_iff)
  have "unat (of_nat (nat (sint w)) :: i32) = nat (sint w)" using n by (simp add: unat_of_nat)
  then show "unat w = nat (sint w)" using w by metis
  with n show "unat w < 2 ^ 31" by simp
qed

text \<open>C0. A process is created in the first stopped slot and made ready behind the others. Entering it
  starts its function with interrupts enabled on an otherwise empty frame; when the function
  returns it finds the address of \<^verbatim>\<open>sysstop\<close>, which is also its handler for signal 31.\<close>

lemma create_run:
  assumes "queues_repr (pt k) L" "L StoppedQueue = p # xs" "fp \<noteq> 0"
    and st: "st = (if sint sz < sint DEFAULT_STACK_SIZE then DEFAULT_STACK_SIZE else sz)"
    and "spare n (heap k) al" "unat (chunk st) + 144 \<le> n"
  shows "\<exists>k' al'. create fp sz k = Some (p_pid (the_pcb p k), k') \<and>
    queues_repr (pt k') (L(StoppedQueue := xs, ReadyQueue := L ReadyQueue @ [p])) \<and>
    p_state (the_pcb p k') = PROC_STATE_READY \<and> p_pid (the_pcb p k') = p_pid (the_pcb p k) \<and>
    resume_regs (kmem k') (p_esp (the_pcb p k')) =
      \<lparr>r_edi = 0, r_esi = 0, r_ebp = p_stack_start (the_pcb p k') + st - 4, r_esp = p_stack_start (the_pcb p k') + st - 4,
       r_ebx = 0, r_ecx = 0, r_eip = fp, r_cs = getCS k, r_eflags = STARTING_EFLAGS\<rparr> \<and>
    load32 (kmem k') (p_stack_start (the_pcb p k') + st - 4) = sym_sysstop (syms k) \<and>
    load32 (kmem k') (p_signal_table (the_pcb p k') + 124) = sym_sysstop (syms k) \<and>
    spare (n - unat (chunk st) - 144) (heap k') al' \<and> process k' = process k"
proof -
  have sst: "8192 \<le> sint st" unfolding st DEFAULT_STACK_SIZE_def by simp
  have "0 \<le> sint st" using sst by simp
  note ust = unat_nonneg [OF this]
  have big: "8192 \<le> unat st" "unat st < 2 ^ 31" using sst ust by (simp_all add: nat_le_iff le_nat_iff)
  have pos: "0 < st" using big(1) by (simp add: word_less_nat_alt)
  from on_heap_spare [OF assms(5) pos] big(2) assms(6) obtain a h1 where
    h1: "on_heap (kmalloc st) k = Some (data_start a, k\<lparr>heap := h1\<rparr>)" "data_start a \<noteq> 0" "block_ok (a, chunk st)"
      "spare (n - unat (chunk st)) h1 (insert (a, chunk st) al)" by auto
  have rest: "unat (chunk 128) \<le> n - unat (chunk st)" using assms(6) chunk_sizes(4) by linarith
  from on_heap_spare [of "n - unat (chunk st)" "k\<lparr>heap := h1\<rparr>" "insert (a, chunk st) al" 128] h1(4) rest chunk_sizes(4) obtain b h2 where
    h2: "on_heap (kmalloc 128) (k\<lparr>heap := h1\<rparr>) = Some (data_start b, k\<lparr>heap := h2\<rparr>)" "data_start b \<noteq> 0" "block_ok (b, chunk 128)"
      "spare (n - unat (chunk st) - 144) h2 (insert (b, chunk 128) (insert (a, chunk st) al))" by auto
  let ?al = "insert (b, chunk 128) (insert (a, chunk st) al)"
  obtain y s1 where y: "get_free_pcb (pt k) = (y, s1)" by fastforce
  from poll_queues [OF assms(1) y [unfolded get_free_pcb_def]] assms(2) have
    y1: "y = p" "p \<noteq> NullPcb" "queues_repr s1 (L(StoppedQueue := xs))" "same_but_next (pt k) s1" by auto
  let ?k2 = "upd_mem (memset (data_start b) 0 4) (k\<lparr>heap := h2\<rparr>)"
  let ?k3 = "?k2\<lparr>pt := s1\<rparr>"
  define k4 where "k4 = init_process p (data_start a) st (data_start b) fp ?k3"
  have "(b, chunk 128) \<noteq> (a, chunk st)" using big chunk_sizes(4) chunk_ok(1) [of st] by auto
  then have dj: "disj (b, chunk 128) (a, chunk st)" using spare_disj [OF h2(4), of "(b, chunk 128)" "(a, chunk st)"] by auto
  have room: "unat st + 16 \<le> unat (chunk st)" "48 \<le> unat st" "144 \<le> unat (chunk 128)" using chunk_ok(4) [of st] big chunk_sizes(4) by simp_all
  note M = init_process_memory [OF h1(3) h2(3) dj room k4_def]
  have q4: "queues_repr (pt k4) (L(StoppedQueue := xs))" using y1(3) by (simp add: k4_def init_process_frame queues_repr_upd born_def)
  have nin: "p \<notin> set ((L(StoppedQueue := xs)) q)" for q
    using queues_repr_distinct [OF assms(1), of StoppedQueue] queues_repr_disjoint [OF assms(1), of p StoppedQueue q] assms(2) by auto
  from add_ready_queues [OF q4 y1(2) nin] obtain s5 where
    s5: "add_pcb_to_ready_queue p (pt k4) = Some s5" and s5': "queues_repr s5 (L(StoppedQueue := xs, ReadyQueue := (L(StoppedQueue := xs)) ReadyQueue @ [p]))"
      and sb5: "same_but_next (upd_pcb p (\<lambda>u. u\<lparr>p_state := PROC_STATE_READY, p_blocked_status := BLOCKED_STATUS_NONE\<rparr>) (pt k4)) s5" by blast
  have q5: "queues_repr s5 (L(StoppedQueue := xs, ReadyQueue := L ReadyQueue @ [p]))" using s5' by simp
  note F = same_but_next_fields [OF sb5, of p] and G = same_but_next_fields(1) [OF y1(4)]
  let ?k5 = "k4\<lparr>pt := s5\<rparr>"
  have run: "create fp sz k = Some (p_pid (the_pcb p ?k5), ?k5)"
    using assms(3) h1(1,2) h2(1,2) y y1(1,2) s5
    by (simp add: create_def st [symmetric] Let_def SIGNAL_TABLE_SIZE_def on_procs_def k4_def [symmetric])
  have sp: "spare (n - unat (chunk st) - 144) (heap ?k2) (insert (b, chunk 128) (insert (a, chunk st) al))"
  proof (rule spare_write)
    fix x assume "memset (data_start b) 0 4 (kmem (k\<lparr>heap := h2\<rparr>)) x \<noteq> kmem (k\<lparr>heap := h2\<rparr>) x"
    then have "unat (x - data_start b) < 4" using memset_far [of 4 x "data_start b" 4] by fastforce
    then have "payload x (b, chunk 128)" using in_payload [OF h2(3), of x 0 4] room(3) by simp
    then show "\<exists>c\<in>insert (b, chunk 128) (insert (a, chunk st) al). payload x c" by blast
  qed (use h2(4) in simp)
  have "spare (n - unat (chunk st) - 144) (heap (upd_mem (\<lambda>_. kmem k4) ?k3)) (insert (b, chunk 128) (insert (a, chunk st) al))"
    by (rule spare_write) (use sp M(5) in auto)
  moreover have "heap (upd_mem (\<lambda>_. kmem k4) ?k3) = heap k4" using M(6) by (simp add: upd_mem_def)
  ultimately have sp4: "spare (n - unat (chunk st) - 144) (heap ?k5) (insert (b, chunk 128) (insert (a, chunk st) al))" by simp
  have f4: "p_stack_start (pcbs (pt k4) p) = data_start a" "p_signal_table (pcbs (pt k4) p) = data_start b"
    "p_esp (pcbs (pt k4) p) = data_start a + st - 48" "p_pid (pcbs (pt k4) p) = p_pid (pcbs (pt k) p)" "process k4 = process k"
    using G [of p] by (simp_all add: k4_def init_process_frame born_def cf_defs upd_mem_def)
  have sy: "getCS ?k3 = getCS k" "syms ?k3 = syms k" by (simp_all add: getCS_def upd_mem_def)
  have km: "kmem ?k5 = kmem k4" by (simp add: kmem_def)
  show ?thesis
    by (rule exI [of _ ?k5], rule exI [of _ ?al]) (use run q5 F f4 M(2-4) sp4 in \<open>simp add: the_pcb_def km sy\<close>)
qed

lemma boot_spare:
  assumes "boot_ok s" "unat (freemem s) + 12000 \<le> unat HOLESTART"
  shows "spare 10700 (kmeminit s) {}"
proof -
  let ?f = "align_to_paragraph (freemem s)"
  have h: "unat HOLESTART = 655360" by (simp add: HOLESTART_def)
  have b: "unat (freemem s) \<le> 2 ^ 32 - 64" using assms(2) h by simp
  have "unat ?f = (unat (freemem s) + 15) div 16 * 16" using b by (intro unat_align_to_paragraph) simp
  then have f: "unat ?f \<le> unat (freemem s) + 15" by simp
  then have "unat (HOLESTART - ?f) = unat HOLESTART - unat ?f"
    using assms(2) h by (intro unat_sub) (simp add: word_le_nat_alt)
  then have "10700 < unat (HOLESTART - ?f)" using f assms(2) h by simp
  with kmeminit_inv [OF assms(1)] show ?thesis unfolding spare_def boot_list_def by blast
qed

text \<open>Steps of the start-up that allocate and leave the process table alone.\<close>

lemma kbd_entry_ok:
  assumes "spare n (heap k) al" "32 \<le> n"
  shows "\<exists>k' al'. kbd_devsw_init i e k = Some k' \<and> spare (n - 32) (heap k') al' \<and> pt k' = pt k \<and> syms k' = syms k \<and>
    dvdriver (dev_table k' i) = KbdDriver \<and> (\<forall>j. j \<noteq> i \<longrightarrow> dev_table k' j = dev_table k j)"
proof -
  let ?k1 = "k\<lparr>dev_table := (dev_table k)(i := (dev_table k i)\<lparr>dvname := ''keyboard'', dvdriver := KbdDriver, dvminor := e\<rparr>)\<rparr>"
  from on_heap_spare [of n ?k1 al 4] assms chunk_sizes(1) obtain a s' where
    a: "on_heap (kmalloc 4) ?k1 = Some (data_start a, ?k1\<lparr>heap := s'\<rparr>)" "data_start a \<noteq> 0" "block_ok (a, chunk 4)"
      "spare (n - 32) s' (insert (a, chunk 4) al)" by auto
  let ?k2 = "?k1\<lparr>heap := s'\<rparr>"
  let ?k3 = "?k2\<lparr>dev_table := (dev_table ?k2)(i := (dev_table ?k2 i)\<lparr>dvioblk := data_start a\<rparr>)\<rparr>"
  let ?k4 = "upd_mem (\<lambda>m. store32 m (data_start a) e) ?k3"
  have "spare (n - 32) (heap ?k4) (insert (a, chunk 4) al)"
  proof (rule spare_write)
    fix x assume "store32 (kmem ?k3) (data_start a) e x \<noteq> kmem ?k3 x"
    then have "unat (x - (data_start a + of_nat 0)) < 4" using store32_range by fastforce
    then have "payload x (a, chunk 4)" by (rule in_payload [OF a(3)]) (simp add: chunk_sizes)
    then show "\<exists>b\<in>insert (a, chunk 4) al. payload x b" by blast
  qed (use a(4) in simp)
  moreover have "kbd_devsw_init i e k = Some ?k4" using a(1,2) by (simp add: kbd_devsw_init_def Let_def)
  ultimately show ?thesis by (intro exI [of _ ?k4] exI [of _ "insert (a, chunk 4) al"]) (simp add: upd_mem_def)
qed

lemma kbd_init_frame: "kbd_init k = (r, k') \<Longrightarrow> heap k' = heap k \<and> pt k' = pt k \<and> syms k' = syms k \<and> dev_table k' = dev_table k"
  by (auto simp: kbd_init_def Let_def inb_def upd_kbd_def emit_def)

lemma devtable_ok:
  assumes "spare n (heap k) al" "64 \<le> n"
  shows "\<exists>k' al'. di_init_devtable k = Some k' \<and> spare (n - 64) (heap k') al' \<and> pt k' = pt k \<and> syms k' = syms k"
proof -
  from kbd_entry_ok [OF assms(1), of 0 0] assms(2) obtain k1 al1 where
    k1: "kbd_devsw_init 0 0 k = Some k1" "spare (n - 32) (heap k1) al1" "pt k1 = pt k" "syms k1 = syms k"
      "dvdriver (dev_table k1 0) = KbdDriver" by auto
  have "32 \<le> n - 32" using assms(2) by simp
  from kbd_entry_ok [OF k1(2) this, of 1 1] assms(2) obtain k2 al2 where
    k2: "kbd_devsw_init 1 1 k1 = Some k2" "spare (n - 64) (heap k2) al2" "pt k2 = pt k1" "syms k2 = syms k1"
      "dvdriver (dev_table k2 1) = KbdDriver" "dev_table k2 0 = dev_table k1 0" by auto
  obtain r3 k3 where k3: "kbd_init k2 = (r3, k3)" by fastforce
  obtain r4 k4 where k4: "kbd_init k3 = (r4, k4)" by fastforce
  note f3 = kbd_init_frame [OF k3] and f4 = kbd_init_frame [OF k4]
  have u: "[0..<2] = [0, 1 :: nat]" by (simp add: upt_rec)
  have "di_init_devtable k = Some k4"
    using k1 k2 k3 k4 f3 by (simp add: di_init_devtable_def DEV_ID_KEYBOARD_NO_ECHO_def DEV_ID_KEYBOARD_def NUM_DEVICES_def u dvinit_def)
  with k1 k2 f3 f4 show ?thesis by (intro exI [of _ k4] exI [of _ al2]) simp
qed

lemma queue_alloc_ok:
  assumes "spare n (heap k) al" "32 \<le> n"
  shows "\<exists>k' al'. init_pcb_queue q k = Some k' \<and> spare (n - 32) (heap k') al' \<and> pt k' = empty_pcb_queue q (pt k) \<and> syms k' = syms k"
proof -
  from on_heap_spare [OF assms(1), of 12] assms(2) chunk_sizes(2) obtain a s' where
    a: "on_heap (kmalloc 12) k = Some (data_start a, k\<lparr>heap := s'\<rparr>)" "spare (n - 32) s' (insert (a, chunk 12) al)" by auto
  then show ?thesis by (auto simp: init_pcb_queue_def upd_pt_def)
qed

lemma contextinit_frame: "heap (contextinit k) = heap k" "pt (contextinit k) = pt k" "syms (contextinit k) = syms k"
  by (simp_all add: contextinit_def Let_def set_evec_def)

lemma offer_empty: "pcb_offer StoppedQueue p (empty_pcb_queue SleepQueue s) = empty_pcb_queue SleepQueue (pcb_offer StoppedQueue p s)"
  by (simp add: pcb_offer_def empty_pcb_queue_def upd_queue_def upd_pcb_def Let_def fun_upd_twist)

lemma upd_empty: "upd_pcb p f (empty_pcb_queue q s) = empty_pcb_queue q (upd_pcb p f s)"
  by (cases s) (simp add: empty_pcb_queue_def upd_queue_def upd_pcb_def)

lemma slots_empty: "fold init_pcb_slot is (empty_pcb_queue SleepQueue s) = empty_pcb_queue SleepQueue (fold init_pcb_slot is s)"
proof (induction "is" arbitrary: s)
  case (Cons i js)
  have "init_pcb_slot i (empty_pcb_queue SleepQueue s) = empty_pcb_queue SleepQueue (init_pcb_slot i s)"
    by (simp only: init_pcb_slot_def upd_empty offer_empty)
  with Cons show ?case by simp
qed simp

lemma init_queues:
  assumes "\<And>p. p \<noteq> NullPcb \<Longrightarrow> p_next (pcbs s p) = NullPcb"
  shows "queues_repr (empty_pcb_queue SleepQueue (empty_pcb_queue BlockedQueue (empty_pcb_queue ReadyQueue (empty_pcb_queue StoppedQueue s)))) (all_stopped 0)"
proof -
  have "queue_repr (empty_pcb_queue SleepQueue (empty_pcb_queue BlockedQueue (empty_pcb_queue ReadyQueue (empty_pcb_queue StoppedQueue s)))) q []" for q
    by (cases q) (simp_all add: queue_repr_def empty_pcb_queue_def)
  with assms show ?thesis by (simp add: queues_repr_def all_stopped_def empty_pcb_queue_def)
qed

lemma initpcb_ok:
  assumes "spare n (heap k) al" "128 \<le> n" "\<And>p. p \<noteq> NullPcb \<Longrightarrow> p_next (the_pcb p k) = NullPcb"
  shows "\<exists>k' al'. initpcb k = Some k' \<and> spare (n - 128) (heap k') al' \<and> queues_repr (pt k') (all_stopped 32) \<and>
    (\<exists>s. same_but_next (fresh_slots 32 s) (pt k')) \<and> syms k' = syms k"
proof -
  from queue_alloc_ok [OF assms(1), of StoppedQueue] assms(2) obtain k1 al1 where
    k1: "init_pcb_queue StoppedQueue k = Some k1" "spare (n - 32) (heap k1) al1" "pt k1 = empty_pcb_queue StoppedQueue (pt k)" "syms k1 = syms k" by auto
  have r: "32 \<le> n - 32" using assms(2) by simp
  from queue_alloc_ok [OF k1(2) r, of ReadyQueue] obtain k2 al2 where
    k2: "init_pcb_queue ReadyQueue k1 = Some k2" "spare (n - 64) (heap k2) al2" "pt k2 = empty_pcb_queue ReadyQueue (pt k1)" "syms k2 = syms k1" by auto
  have r: "32 \<le> n - 64" using assms(2) by simp
  from queue_alloc_ok [OF k2(2) r, of BlockedQueue] obtain k3 al3 where
    k3: "init_pcb_queue BlockedQueue k2 = Some k3" "spare (n - 96) (heap k3) al3" "pt k3 = empty_pcb_queue BlockedQueue (pt k2)" "syms k3 = syms k2" by auto
  let ?k4 = "upd_pt (fold init_pcb_slot [0..<PCB_TABLE_SIZE]) k3"
  have r: "32 \<le> n - 96" and "spare (n - 96) (heap ?k4) al3" using assms(2) k3(2) by simp_all
  from queue_alloc_ok [OF this(2,1), of SleepQueue] obtain k5 al5 where
    k5: "init_pcb_queue SleepQueue ?k4 = Some k5" "spare (n - 128) (heap k5) al5" "pt k5 = empty_pcb_queue SleepQueue (pt ?k4)" "syms k5 = syms ?k4" by auto
  let ?s = "empty_pcb_queue SleepQueue (empty_pcb_queue BlockedQueue (empty_pcb_queue ReadyQueue (empty_pcb_queue StoppedQueue (pt k))))"
  have "queues_repr ?s (all_stopped 0)" by (rule init_queues) (use assms(3) in \<open>simp add: the_pcb_def\<close>)
  from init_slots [OF this, of 32] have
    q: "queues_repr (fold init_pcb_slot [0..<32] ?s) (all_stopped 32)" "same_but_next (fresh_slots 32 ?s) (fold init_pcb_slot [0..<32] ?s)" by blast+
  have pt5: "pt k5 = fold init_pcb_slot [0..<32] ?s"
    using k1(3) k2(3) k3(3) k5(3) by (simp add: slots_empty PCB_TABLE_SIZE_def)
  have run: "initpcb k = Some k5" using k1(1) k2(1) k3(1) k5(1) by (simp add: initpcb_def sleepinit_def)
  have "syms k5 = syms k" using k1(4) k2(4) k3(4) k5(4) by (simp add: upd_pt_def)
  with run k5(2) q show ?thesis unfolding pt5 [symmetric] by blast
qed

lemma fresh_sched:
  assumes "queues_repr s (all_stopped 32)" "p_pid (pcbs s IdlePcb) = 0"
    and "\<And>i. i < 32 \<Longrightarrow> p_state (pcbs s (PcbSlot i)) = PROC_STATE_STOPPED \<and> p_pid (pcbs s (PcbSlot i)) = of_nat (i + 1)"
  shows "sched {} {} s"
proof -
  have "home (pcbs s (PcbSlot i)) = Some StoppedQueue" if "i < 32" for i using assms(3) [OF that] by (simp add: home_def)
  then have "placed s (all_stopped 32)" using assms(1) by (auto simp: placed_def all_stopped_def is_slot_def PCB_TABLE_SIZE_def)
  moreover have "pids_ok s" using start_pids [of s] assms(3)
    by (simp add: pids_ok_def fresh_slots_def fresh_pcb_def PCB_TABLE_SIZE_def)
  moreover have "runs s = {}" "parked s = {}" using assms(3) by (auto simp: runs_def parked_def parks_def is_slot_def PCB_TABLE_SIZE_def)
  ultimately show ?thesis using assms(2) by (auto simp: sched_def)
qed

lemma idleinit_ok:
  assumes "spare n (heap k) al" "2064 \<le> n"
  shows "\<exists>k' al' f. idleinit k = Some (0, k') \<and> spare (n - 2064) (heap k') al' \<and> syms k' = syms k \<and>
    pt k' = upd_pcb IdlePcb f (pt k) \<and> (\<forall>u. p_pid (f u) = 0 \<and> p_next (f u) = p_next u)"
proof -
  from on_heap_spare [OF assms(1), of 2048] assms(2) chunk_sizes(3) obtain a s' where
    a: "on_heap (kmalloc 2048) k = Some (data_start a, k\<lparr>heap := s'\<rparr>)" "data_start a \<noteq> 0" "block_ok (a, chunk 2048)"
      "spare (n - 2064) s' (insert (a, chunk 2048) al)" by auto
  let ?top = "data_start a + 2044" and ?e = "data_start a + 2000"
  let ?g = "\<lambda>m. init_context_frame (getCS k) ?e (sym_idleproc (syms k)) (store32 m ?top (sym_sysstop (syms k)))"
  let ?f = "\<lambda>u. u\<lparr>p_stack_start := data_start a, p_esp := ?e, p_pid := 0, p_blocked_id := 0, p_cpu_time := 0,
     p_blocked_status := BLOCKED_STATUS_NONE, p_state := PROC_STATE_READY\<rparr>"
  let ?k' = "upd_mem ?g (k\<lparr>heap := s', pt := upd_pcb IdlePcb ?f (pt k)\<rparr>)"
  have "idleinit k = Some (0, ?k')"
    using a(1,2) by (simp add: idleinit_def IDLE_PROC_STACK_SIZE_def Let_def cf_defs getCS_def set_pcb_def upd_pt_def upd_mem_def the_pcb_def)
      (simp add: upd_pcb_def add.commute [of _ "data_start a"])
  moreover have "spare (n - 2064) (heap ?k') (insert (a, chunk 2048) al)"
  proof (rule spare_write)
    fix x assume x: "?g (kmem (k\<lparr>heap := s', pt := upd_pcb IdlePcb ?f (pt k)\<rparr>)) x \<noteq> kmem (k\<lparr>heap := s', pt := upd_pcb IdlePcb ?f (pt k)\<rparr>) x"
    have "payload x (a, chunk 2048)"
    proof (cases "unat (x - ?e) < 44")
      case True
      then show ?thesis using in_payload [OF a(3), of x 2000 44] chunk_sizes(3) by simp
    next
      case False
      with x have "unat (x - ?top) < 4" using init_context_frame_bytes [of x ?e] store32_range by fastforce
      then show ?thesis using in_payload [OF a(3), of x 2044 4] chunk_sizes(3) by simp
    qed
    then show "\<exists>b\<in>insert (a, chunk 2048) al. payload x b" by blast
  qed (use a(4) in simp)
  ultimately show ?thesis
    by - (rule exI [of _ ?k'], rule exI [of _ "insert (a, chunk 2048) al"], rule exI [of _ ?f], simp add: upd_mem_def)
qed

lemma run_next_head:
  assumes "queues_repr (pt k) L" "L ReadyQueue = p # ps"
  shows "process (run_next k) = p \<and> kmem (run_next k) = kmem k \<and> p_pid (the_pcb p (run_next k)) = p_pid (the_pcb p k) \<and>
    p_esp (the_pcb p (run_next k)) = p_esp (the_pcb p k)"
proof -
  obtain y t where y: "pcb_poll ReadyQueue (pt k) = (y, t)" by fastforce
  from poll_queues [OF assms(1) y] assms(2) have t: "y = p" "same_but_next (pt k) t" by auto
  show ?thesis using same_but_next_fields(1,8) [OF t(2), of p] y t(1)
    by (simp add: run_next_def get_next_pcb_def the_pcb_def kmem_def Let_def)
qed

lemma boot_run:
  assumes "boot_ok (heap k0)" "unat (freemem (heap k0)) + 12000 \<le> unat HOLESTART" "sym_root (syms k0) \<noteq> 0"
    and "\<And>p. p \<noteq> NullPcb \<Longrightarrow> p_next (the_pcb p k0) = NullPcb"
  shows "\<exists>k. initproc [] k0 = Some k \<and> sched_ok k \<and> process k = PcbSlot 0 \<and> p_pid (cur_pcb k) = 1 \<and>
    r_eip (resume_regs (kmem k) (p_esp (cur_pcb k))) = sym_root (syms k0) \<and>
    r_eflags (resume_regs (kmem k) (p_esp (cur_pcb k))) = STARTING_EFLAGS"
proof -
  let ?j1 = "emit (PrintLog ''Memory manager initialized!'') ((emit (PrintLog ''CPSC 415, 2017W1 32 Bit Xeros -1.0.0 - even before beta'') k0)
    \<lparr>heap := kmeminit (heap k0)\<rparr>)"
  have "spare 10700 (heap ?j1) {}" using boot_spare [OF assms(1,2)] by (simp add: emit_def)
  from devtable_ok [OF this] obtain k1 al1 where
    k1: "di_init_devtable ?j1 = Some k1" "spare 10636 (heap k1) al1" "pt k1 = pt k0" "syms k1 = syms k0" by (auto simp: emit_def)
  let ?j2 = "emit (PrintLog ''Context switcher initialized!'') (contextinit (emit (PrintLog ''Devices initialized!'') k1))"
  have j2: "spare 10636 (heap ?j2) al1" "pt ?j2 = pt k0" "syms ?j2 = syms k0"
    using k1 by (simp_all add: contextinit_frame) (simp_all add: emit_def contextinit_frame)
  from initpcb_ok [OF j2(1)] assms(4) j2(2,3) obtain k2 al2 s where
    k2: "initpcb ?j2 = Some k2" "spare 10508 (heap k2) al2" "queues_repr (pt k2) (all_stopped 32)" "same_but_next (fresh_slots 32 s) (pt k2)"
      "syms k2 = syms k0" by (auto simp: the_pcb_def)
  let ?j3 = "emit (PrintLog ''Dispatcher initialized!'') k2"
  have j3: "spare 10508 (heap ?j3) al2" "pt ?j3 = pt k2" "syms ?j3 = syms k0" using k2 by (simp_all) (simp add: emit_def)
  from idleinit_ok [OF j3(1)] j3 obtain k3 al3 f where
    k3: "idleinit ?j3 = Some (0, k3)" "spare 8444 (heap k3) al3" "syms k3 = syms k0" "pt k3 = upd_pcb IdlePcb f (pt k2)"
      "\<forall>u. p_pid (f u) = 0 \<and> p_next (f u) = p_next u" by auto
  have q3: "queues_repr (pt k3) (all_stopped 32)" using k2(3) k3(4,5) by (simp add: queues_repr_upd)
  note F = same_but_next_fields(1,2) [OF k2(4)]
  have fr: "p_state (pcbs (pt k3) (PcbSlot i)) = PROC_STATE_STOPPED \<and> p_pid (pcbs (pt k3) (PcbSlot i)) = of_nat (i + 1)" if "i < 32" for i
    using F [of "PcbSlot i"] that k3(4) by (simp add: fresh_slots_def fresh_pcb_def)
  have s3: "sched {} {} (pt k3)" by (rule fresh_sched [OF q3 _ fr]) (use k3(4,5) in simp_all)
  let ?j4 = "emit (PrintLog ''Launching root process...'') k3"
  have j4: "queues_repr (pt ?j4) (all_stopped 32)" "all_stopped 32 StoppedQueue = PcbSlot 0 # map PcbSlot [1..<32]"
    "spare 8444 (heap ?j4) al3" "sym_root (syms k0) \<noteq> 0" "sched {} {} (pt ?j4)" "syms ?j4 = syms k0"
    using q3 k3 s3 assms(3) by (simp_all add: all_stopped_def upt_conv_Cons) (simp add: emit_def)
  have ds: "DEFAULT_STACK_SIZE = (if sint DEFAULT_STACK_SIZE < sint DEFAULT_STACK_SIZE then DEFAULT_STACK_SIZE else DEFAULT_STACK_SIZE)" by simp
  have "unat (chunk DEFAULT_STACK_SIZE) + 144 \<le> 8444" using chunk_sizes(5) by (simp add: DEFAULT_STACK_SIZE_def)
  from create_run [OF j4(1,2,4) ds j4(3) this] obtain k4 where
    k4: "create (sym_root (syms k0)) DEFAULT_STACK_SIZE ?j4 = Some (p_pid (the_pcb (PcbSlot 0) ?j4), k4)"
      "queues_repr (pt k4) ((all_stopped 32)(StoppedQueue := map PcbSlot [1..<32], ReadyQueue := all_stopped 32 ReadyQueue @ [PcbSlot 0]))"
      "resume_regs (kmem k4) (p_esp (the_pcb (PcbSlot 0) k4)) =
        \<lparr>r_edi = 0, r_esi = 0, r_ebp = p_stack_start (the_pcb (PcbSlot 0) k4) + DEFAULT_STACK_SIZE - 4, 
         r_esp = p_stack_start (the_pcb (PcbSlot 0) k4) + DEFAULT_STACK_SIZE - 4,
         r_ebx = 0, r_ecx = 0, r_eip = sym_root (syms k0), r_cs = getCS ?j4, r_eflags = STARTING_EFLAGS\<rparr>"
      "p_pid (the_pcb (PcbSlot 0) k4) = p_pid (the_pcb (PcbSlot 0) ?j4)" by blast
  have s4: "sched {} {} (pt k4)" using create_ok [OF k4(1) j4(5)] by simp
  obtain k5 where k5: "initPIT 100 k4 = Some k5" by (simp add: initPIT_def)
  then have f5: "pt k5 = pt k4" "kmem k5 = kmem k4" by (auto simp: initPIT_def Let_def)
  let ?j6 = "emit (PrintLog ''System initialization complete! Entering dispatcher...'') k5"
  have run: "initproc [] k0 = Some (run_next ?j6)"
    using k1(1) k2(1) k3(1) k4(1) j4(6) k5
    by (simp add: initproc_def dispinit_def rootinit_def dispatch_def Let_def)
  have s6: "sched {} {} (pt ?j6)" using s4 f5 by simp
  have q6: "queues_repr (pt ?j6) ((all_stopped 32)(StoppedQueue := map PcbSlot [1..<32], ReadyQueue := all_stopped 32 ReadyQueue @ [PcbSlot 0]))"
    using k4(2) f5 by simp
  have "((all_stopped 32)(StoppedQueue := map PcbSlot [1..<32], ReadyQueue := all_stopped 32 ReadyQueue @ [PcbSlot 0])) ReadyQueue = [PcbSlot 0]"
    by (simp add: all_stopped_def)
  note N = run_next_head [OF q6 this]
  have "p_pid (the_pcb (PcbSlot 0) ?j6) = 1" using k4(4) fr [of 0] f5 by (simp add: the_pcb_def)
  then show ?thesis using run sched_ok_at [OF run_next_ok [OF s6]] N k4(3) f5 by (simp add: cur_pcb_def the_pcb_def)
qed

text \<open>C9. A process is created in the first stopped slot and made ready behind the others. Entering it
  starts its function with interrupts enabled on an otherwise empty frame; when the function
  returns it finds the address of \<^verbatim>\<open>sysstop\<close>, which is also its handler for signal 31.\<close>

theorem create_correct:
  assumes "queues_repr (pt k) L" "L StoppedQueue = p # xs" "fp \<noteq> 0"
    and "st = (if sint sz < sint DEFAULT_STACK_SIZE then DEFAULT_STACK_SIZE else sz)"
    and "spare n (heap k) al" "unat (chunk st) + 144 \<le> n"
  shows "\<exists>k'. create fp sz k = Some (p_pid (the_pcb p k), k') \<and>
    queues_repr (pt k') (L(StoppedQueue := xs, ReadyQueue := L ReadyQueue @ [p])) \<and>
    p_state (the_pcb p k') = PROC_STATE_READY \<and>
    resume_regs (kmem k') (p_esp (the_pcb p k')) =
      \<lparr>r_edi = 0, r_esi = 0, r_ebp = p_stack_start (the_pcb p k') + st - 4, r_esp = p_stack_start (the_pcb p k') + st - 4,
       r_ebx = 0, r_ecx = 0, r_eip = fp, r_cs = getCS k, r_eflags = STARTING_EFLAGS\<rparr> \<and>
    load32 (kmem k') (p_stack_start (the_pcb p k') + st - 4) = sym_sysstop (syms k) \<and>
    load32 (kmem k') (p_signal_table (the_pcb p k') + 124) = sym_sysstop (syms k)"
  using create_run [OF assms] by blast

lemma demo_spare: "spare 500000 (kmeminit boot_state) {}"
  using boot_state_inv unfolding spare_def by fastforce

theorem create_correct_witness:
  "\<exists>k'. create 0x2000 100 demo_kernel = Some (7, k') \<and> r_eip (resume_regs (kmem k') (p_esp (the_pcb (PcbSlot 6) k'))) = 0x2000 \<and>
     load32 (kmem k') (p_stack_start (the_pcb (PcbSlot 6) k') + 8188) = 0x1000"
proof -
  have "spare 500000 (heap demo_kernel) {}" by (simp add: demo_spare)
  from create_correct [of demo_kernel demo_lists "PcbSlot 6" "[]" "0x2000" DEFAULT_STACK_SIZE 100, OF _ _ _ _ this] show ?thesis
    by (auto simp: demo_repr DEFAULT_STACK_SIZE_def chunk_sizes demo_pcb_def) (auto simp: demo_kernel_def algebra_simps)
qed

section \<open>A machine at power-on\<close>

definition power_on :: kernel where
  "power_on = demo_kernel\<lparr>heap := boot_state, process := NullPcb,
     pt := \<lparr>pcbs = (\<lambda>_. (demo_pcb 8)\<lparr>p_pid := 0\<rparr>), queues = (\<lambda>_. \<lparr>q_head = NullPcb, q_tail = NullPcb, q_size = 0\<rparr>)\<rparr>\<rparr>"

lemma power_on_boots:
  "boot_ok (heap power_on)" "unat (freemem (heap power_on)) + 12000 \<le> unat HOLESTART" "sym_root (syms power_on) = 0x1300"
  "p_next (the_pcb p power_on) = NullPcb"
  using boot_state_ok by (simp_all add: power_on_def boot_state_def HOLESTART_def the_pcb_def demo_pcb_def)
    (simp_all add: demo_kernel_def)

text \<open>C4. From power-on, with room for the start-up's blocks below the hole, \<^verbatim>\<open>initproc\<close> reaches the
  dispatcher with \<^verbatim>\<open>root\<close> as the current process, number 1, about to enter its function with
  interrupts enabled, and the scheduling invariant holds.\<close>

theorem boot_correct:
  assumes "boot_ok (heap k0)" "unat (freemem (heap k0)) + 12000 \<le> unat HOLESTART" "sym_root (syms k0) \<noteq> 0"
    and "\<And>p. p \<noteq> NullPcb \<Longrightarrow> p_next (the_pcb p k0) = NullPcb"
  shows "\<exists>k. initproc [] k0 = Some k \<and> sched_ok k \<and> process k = PcbSlot 0 \<and> p_pid (cur_pcb k) = 1 \<and>
    r_eip (resume_regs (kmem k) (p_esp (cur_pcb k))) = sym_root (syms k0) \<and>
    r_eflags (resume_regs (kmem k) (p_esp (cur_pcb k))) = STARTING_EFLAGS"
  using boot_run [OF assms] .

theorem boot_correct_witness:
  "\<exists>k. initproc [] power_on = Some k \<and> process k = PcbSlot 0 \<and> r_eip (resume_regs (kmem k) (p_esp (cur_pcb k))) = 0x1300"
  using boot_correct [of power_on] power_on_boots by fastforce


section \<open>The clock takes the processor back\<close>

lemma booted: "\<exists>k. initproc [] power_on = Some k \<and> sched_ok k \<and> process k = PcbSlot 0"
  using boot_run [of power_on] power_on_boots by fastforce

lemma entered_returns: "\<exists>k1. entered t k = Some (fst (contextswitch_exit (process (pick_idle k)) t k1), snd (contextswitch_exit (process (pick_idle k)) t k1))"
proof -
  let ?p = "process (pick_idle k)"
  have p: "?p \<noteq> NullPcb" by (simp add: pick_idle_def get_idleproc_def)
  have "contextswitch_enter ?p (pick_idle k) \<noteq> None"
  proof (cases "p_signals_pending (the_pcb ?p (pick_idle k)) = 0")
    case False
    then obtain n where "highest_bit (p_signals_pending (the_pcb ?p (pick_idle k))) (SIGNAL_TABLE_SIZE - 1) = Some n"
      using top_bit_exists highest_bit_31 by blast
    with False p show ?thesis by (auto simp: contextswitch_enter_def deliver_highest_priority_signal_def Let_def)
  qed (use p in \<open>simp add: contextswitch_enter_def\<close>)
  then show ?thesis by (auto simp: entered_def)
qed

lemma timer_returns:
  assumes "sched_ok k" "process k \<noteq> NullPcb"
  shows "\<exists>k'. handle_request TIMER_INT k = Some k'"
proof -
  define R where "R = (if is_slot (process k) then {process k} else {})"
  have "sched (parked (pt k)) R (pt k)" using assms(1) by (simp add: sched_ok_def sched_at_def R_def)
  from sched_tick [OF this] obtain s1 where "tick (pt k) = Some s1" by blast
  then show ?thesis using assms(2)
    by (auto simp: handle_request_def request_defs on_procs_def set_cur_def add_pcb_to_ready_queue_def Let_def)
qed

definition idle_tick :: trap where
  "idle_tick = \<lparr>trap_kind = TrapTimer, trap_esp = 0x30000, trap_mem = (\<lambda>m. m)\<rparr>"

text \<open>C16. A process cannot keep the processor: from every state of the scheduling invariant, a round
  that ends in a timer interrupt returns (whatever memory and stack pointer the process left) and
  keeps the invariant, so the dispatcher goes on to the next process.\<close>

theorem timer_round_returns:
  assumes "sched_ok k" "trap_kind t = TrapTimer"
  shows "\<exists>k'. dispatch_round t k = Some k' \<and> sched_ok k'"
proof -
  obtain k1 where k1: "entered t k = Some (TIMER_INT, k1)"
    using entered_returns [of t k] assms(2) by (auto simp: contextswitch_exit_def Let_def)
  have at: "sched_at (parked (pt k)) k1" and p1: "sched_ok k1" "process k1 \<noteq> NullPcb"
    using entered_ok [OF assms(1) [unfolded sched_ok_def] k1] sched_ok_at by (auto simp: pick_idle_def get_idleproc_def)
  then obtain k' where k': "handle_request TIMER_INT k1 = Some k'" using timer_returns by blast
  then have "sched_ok k'" using at timer_request_ok sched_ok_at by blast
  with k1 k' show ?thesis by (simp add: dispatch_round_entered)
qed

theorem timer_round_returns_witness:
  "\<exists>k k'. initproc [] power_on = Some k \<and> dispatch_round idle_tick k = Some k'"
proof -
  from booted obtain k where k: "initproc [] power_on = Some k" "sched_ok k" by blast
  from timer_round_returns [OF k(2), of idle_tick] k(1) show ?thesis by (auto simp: idle_tick_def)
qed

end
