(* ===== verification/Device_Properties.thy ===== *)
theory Device_Properties
  imports Kernel_Properties
begin

text \<open>
  Properties of the keyboard driver and of the device independent calls: the character buffer
  as a bounded queue, reads from it, the modifier keys, and the file descriptors.
\<close>

unbundle bit_operations_syntax

section \<open>The ring buffer as a list\<close>

definition ring_ok :: "kbd_state \<Rightarrow> bool" where
  "ring_ok b \<longleftrightarrow> unat (keyboard_buffer_head b) < 5 \<and> unat (keyboard_buffer_tail b) < 5"

definition ring :: "kbd_state \<Rightarrow> u8 list" where
  "ring b = map (\<lambda>i. keyboard_buffer b ((unat (keyboard_buffer_tail b) + i) mod 5))
     [0..<(unat (keyboard_buffer_head b) + 5 - unat (keyboard_buffer_tail b)) mod 5]"

definition ring_put :: "u8 \<Rightarrow> kbd_state \<Rightarrow> kbd_state" where
  "ring_put c b = b\<lparr>keyboard_buffer := (keyboard_buffer b)(unat (keyboard_buffer_head b) := c),
     keyboard_buffer_head := (keyboard_buffer_head b + 1) mod KEYBOARD_BUFFER_SIZE\<rparr>"

definition ring_drop :: "kbd_state \<Rightarrow> kbd_state" where
  "ring_drop b = b\<lparr>keyboard_buffer_tail := (keyboard_buffer_tail b + 1) mod KEYBOARD_BUFFER_SIZE\<rparr>"

lemma five_cases:
  fixes w :: i32
  assumes "unat w < 5"
  obtains "w = 0" | "w = 1" | "w = 2" | "w = 3" | "w = 4"
proof -
  have "unat w \<in> {0, 1, 2, 3, 4}" using assms by auto
  then have "w \<in> {0, 1, 2, 3, 4}" by (auto simp: word_unat_eq_iff)
  with that show thesis by blast
qed

lemma ring_put_correct:
  assumes "ring_ok b"
  shows "ring_ok (ring_put c b)"
    "(keyboard_buffer_head b + 1) mod KEYBOARD_BUFFER_SIZE = keyboard_buffer_tail b \<longleftrightarrow> length (ring b) = 4"
    "(keyboard_buffer_head b + 1) mod KEYBOARD_BUFFER_SIZE \<noteq> keyboard_buffer_tail b \<Longrightarrow> ring (ring_put c b) = ring b @ [c]"
proof -
  have h: "unat (keyboard_buffer_head b) < 5" and t: "unat (keyboard_buffer_tail b) < 5"
    using assms by (simp_all add: ring_ok_def)
  note D = ring_ok_def ring_def ring_put_def KEYBOARD_BUFFER_SIZE_def
  from h t show "ring_ok (ring_put c b)"
    by (elim five_cases) (simp_all add: D)
  from h t show "(keyboard_buffer_head b + 1) mod KEYBOARD_BUFFER_SIZE = keyboard_buffer_tail b \<longleftrightarrow> length (ring b) = 4"
    by (elim five_cases) (simp_all add: D)
  from h t show "(keyboard_buffer_head b + 1) mod KEYBOARD_BUFFER_SIZE \<noteq> keyboard_buffer_tail b \<Longrightarrow>
    ring (ring_put c b) = ring b @ [c]"
    by (elim five_cases) (simp_all add: D upt_rec numeral_2_eq_2 [symmetric])
qed

lemma ring_drop_correct:
  assumes "ring_ok b"
  shows "ring_ok (ring_drop b)" "keyboard_buffer_tail b = keyboard_buffer_head b \<longleftrightarrow> ring b = []"
    "keyboard_buffer_tail b \<noteq> keyboard_buffer_head b \<Longrightarrow>
      ring b = keyboard_buffer b (unat (keyboard_buffer_tail b)) # ring (ring_drop b)"
proof -
  have h: "unat (keyboard_buffer_head b) < 5" and t: "unat (keyboard_buffer_tail b) < 5"
    using assms by (simp_all add: ring_ok_def)
  note D = ring_ok_def ring_def ring_drop_def KEYBOARD_BUFFER_SIZE_def
  from h t show "ring_ok (ring_drop b)" by (elim five_cases) (simp_all add: D)
  from h t show "keyboard_buffer_tail b = keyboard_buffer_head b \<longleftrightarrow> ring b = []"
    by (elim five_cases) (simp_all add: D)
  from h t show "keyboard_buffer_tail b \<noteq> keyboard_buffer_head b \<Longrightarrow>
      ring b = keyboard_buffer b (unat (keyboard_buffer_tail b)) # ring (ring_drop b)"
    by (elim five_cases) (simp_all add: D upt_rec numeral_2_eq_2 [symmetric])
qed

lemma ring_cong:
  assumes "keyboard_buffer b' = keyboard_buffer b" "keyboard_buffer_head b' = keyboard_buffer_head b"
    "keyboard_buffer_tail b' = keyboard_buffer_tail b"
  shows "ring b' = ring b" "ring_ok b' = ring_ok b"
  using assms by (simp_all add: ring_def ring_ok_def)

section \<open>Typing with no reader\<close>

definition typed_char :: "kernel \<Rightarrow> u8" where
  "typed_char k = scancode_char (keyboard_keystate_flag (kbd k)) (0x0FF AND ucast (inputs k (n_inputs k + 1)))"

text \<open>C23. With no reader waiting, a keyboard interrupt refines an append to a bounded queue: the
  character of the scancode goes to the end of the four-character buffer, or is dropped when the
  buffer is full, and nothing is appended for a key that is not a character.\<close>

theorem keyboard_isr_buffers:
  assumes "ring_ok (kbd k)" "sint (kbd_task_refcount (kbd k)) \<le> 0" "bit (inputs k (n_inputs k)) 0"
  shows "\<exists>k'. keyboard_isr k = Some k' \<and> ring_ok (kbd k') \<and>
    ring (kbd k') = (if typed_char k = 0 \<or> length (ring (kbd k)) = 4 then ring (kbd k)
      else ring (kbd k) @ [typed_char k])"
proof -
  let ?s = "inputs k (n_inputs k)" and ?d = "0x0FF AND ucast (inputs k (n_inputs k + 1)) :: u32"
  have st: "1 AND ?s \<noteq> 0"
  proof -
    have "bit (1 AND ?s) 0" using assms(3) by (simp add: bit_simps)
    then show ?thesis by (metis bit_0_eq bot_apply bot_bool_def)
  qed
  obtain ka where in1: "inb KEYBOARD_PORT_CONTROL k = (?s, ka)" "kbd ka = kbd k"
    "inputs ka = inputs k" "n_inputs ka = n_inputs k + 1" by (simp add: inb_def emit_def)
  obtain kb where in2: "inb KEYBOARD_PORT_DATA_READ ka = (inputs k (n_inputs k + 1), kb)" "kbd kb = kbd k"
    using in1 by (simp add: inb_def emit_def)
  note kb = in2(2)
  obtain c k2 where p: "keyboard_process_scancode ?d kb = (c, k2)" by fastforce
  have c: "c = typed_char k" using p kb by (simp add: keyboard_process_scancode_def Let_def typed_char_def)
  have e: "keyboard_buffer (kbd k2) = keyboard_buffer (kbd k)"
    "keyboard_buffer_head (kbd k2) = keyboard_buffer_head (kbd k)"
    "keyboard_buffer_tail (kbd k2) = keyboard_buffer_tail (kbd k)"
    "kbd_task_refcount (kbd k2) = kbd_task_refcount (kbd k)"
    using p kb by (auto simp: keyboard_process_scancode_def Let_def split: if_splits)
  note k2 = ring_cong [OF e(1-3)] e(4)
  note R = ring_put_correct [of "kbd k2"]
  have upd: "upd_kbd (\<lambda>b. b\<lparr>keyboard_buffer_head := (keyboard_buffer_head b + 1) mod KEYBOARD_BUFFER_SIZE\<rparr>)
      (upd_kbd (\<lambda>b. b\<lparr>keyboard_buffer := (keyboard_buffer b)(unat (keyboard_buffer_head b) := c)\<rparr>) k2) =
    upd_kbd (ring_put c) k2" by (simp add: upd_kbd_def ring_put_def)
  have ec: "kbd (echo_char d x) = kbd x" for d x by (simp add: echo_char_def)
  have "keyboard_isr k = Some (if c = 0 \<or> (keyboard_buffer_head (kbd k2) + 1) mod KEYBOARD_BUFFER_SIZE = keyboard_buffer_tail (kbd k2)
      then k2 else echo_char c (upd_kbd (ring_put c) k2))"
    using st p k2(3) assms(2) by (simp add: keyboard_isr_def in1(1) in2(1) Let_def upd)
  then show ?thesis using R k2 assms(1) c by (auto simp: ec)
qed

lemma demo_kbd: "ring (kbd demo_kernel) = []" "ring_ok (kbd demo_kernel)"
  by (simp_all add: ring_def ring_ok_def demo_kernel_def)

definition type_kernel :: kernel where
  "type_kernel = demo_kernel\<lparr>inputs := (\<lambda>i. if even i then 1 else 0x1E)\<rparr>"

theorem keyboard_isr_buffers_witness:
  "\<exists>k'. keyboard_isr type_kernel = Some k' \<and> ring (kbd k') = [0x61]"
proof -
  have kb: "kbd type_kernel = kbd demo_kernel" by (simp add: type_kernel_def)
  have c: "typed_char type_kernel = 0x61"
    by (simp add: typed_char_def type_kernel_def demo_kernel_def scancode_char_def kbd_lower_def CHECK_BIT_eq)
  have "sint (kbd_task_refcount (kbd type_kernel)) \<le> 0" "bit (inputs type_kernel (n_inputs type_kernel)) 0"
    by (simp_all add: type_kernel_def demo_kernel_def)
  from keyboard_isr_buffers [OF _ this] demo_kbd c show ?thesis unfolding kb by auto
qed

text \<open>Releasing the control key also forgets a shift key that is still held down.\<close>

theorem ctrl_release_drops_shift:
  shows "\<not> bit (scancode_flags flags 0x9D) KEYBOARD_STATE_SHIFT_BIT \<and>
    \<not> bit (scancode_flags flags 0x9D) KEYBOARD_STATE_CTRL_BIT"
  by (simp add: scancode_flags_def kbd_bit_defs bit_simps bit_CLEAR_BIT)

section \<open>A read from the buffer\<close>

text \<open>What a reader that still wants \<open>n\<close> characters takes: up to \<open>n\<close>, or to the end of the line.\<close>

fun line_prefix :: "nat \<Rightarrow> u8 list \<Rightarrow> u8 list" where
  "line_prefix 0 cs = []"
| "line_prefix (Suc n) [] = []"
| "line_prefix (Suc n) (c # cs) = (if c = 10 then [c] else c # line_prefix n cs)"

definition line_done :: "nat \<Rightarrow> u8 list \<Rightarrow> bool" where
  "line_done n cs \<longleftrightarrow> length (line_prefix n cs) = n \<or> 10 \<in> set (line_prefix n cs)"

lemma line_done_simps [simp]:
  "line_done 0 cs" "\<not> line_done (Suc n) []"
  "line_done (Suc n) (c # cs) \<longleftrightarrow> c = 10 \<or> line_done n cs"
  by (auto simp: line_done_def)

lemma for_tasks_single:
  assumes "distinct js" "i \<in> set js" "f i k = Some k'" "\<forall>j\<in>set js - {i}. f j k = Some k \<and> f j k' = Some k'"
  shows "for_tasks f js k = Some k'"
proof -
  have skip: "for_tasks f js x = Some x" if "\<forall>j\<in>set js. f j x = Some x" for js x
    using that by (induction js) auto
  obtain as bs where js: "js = as @ i # bs" using assms(2) by (metis split_list)
  have app: "for_tasks f (as @ bs) x = Option.bind (for_tasks f as x) (for_tasks f bs)" for as bs x
    by (induction as arbitrary: x) (auto split: Option.bind_splits)
  have "for_tasks f as k = Some k" "for_tasks f bs k' = Some k'"
    using assms(1,4) js by (auto intro!: skip)
  with assms(3) show ?thesis by (simp add: js app)
qed

text \<open>One reader, at index \<open>i\<close>, not blocked, and nobody else waiting.\<close>

definition one_reader :: "nat \<Rightarrow> kernel \<Rightarrow> bool" where
  "one_reader i k \<longleftrightarrow> i < KBD_TASK_LIST_SIZE \<and> ring_ok (kbd k) \<and>
     (\<forall>j<KBD_TASK_LIST_SIZE. j \<noteq> i \<longrightarrow> t_waiting_on_read (the_task j k) = 0) \<and>
     p_state (the_pcb (t_pcb (the_task i k)) k) \<noteq> PROC_STATE_BLOCKED"

lemma task_simps [simp]:
  "the_task i (set_task j f k) = (if i = j then f (the_task i k) else the_task i k)"
  "kmem (set_task j f k) = kmem k" "the_pcb p (set_task j f k) = the_pcb p k" "the_task i (set_pcb p g k) = the_task i k"
  "the_task i (upd_mem h k) = the_task i k" "the_task i (echo_char c k) = the_task i k"
  "the_pcb p (echo_char c k) = the_pcb p k" "kmem (echo_char c k) = kmem k" "kbd (echo_char c k) = kbd k"
  by (simp_all add: set_task_def the_task_def echo_char_def)

lemma task_upd_kbd [simp]:
  "kbd_task_list (h (kbd k)) = kbd_task_list (kbd k) \<Longrightarrow> the_task i (upd_kbd h k) = the_task i k"
  by (simp add: the_task_def)

lemma set_task_kbd: "kbd (set_task j f k) = (kbd k)\<lparr>kbd_task_list := (kbd_task_list (kbd k))(j := f (kbd_task_list (kbd k) j))\<rparr>"
  by (simp add: set_task_def)

lemma give_char_reader:
  assumes "one_reader i k" "t_waiting_on_read (the_task i k) \<noteq> 0"
  defines "t \<equiv> the_task i k"
  shows "\<exists>k'. give_char c i k = Some k' \<and> one_reader i k' \<and>
    kmem k' = (kmem k)(t_buff t + t_buff_count t := c) \<and>
    t_pcb (the_task i k') = t_pcb t \<and> t_buff (the_task i k') = t_buff t \<and> t_bufflen (the_task i k') = t_bufflen t \<and>
    t_buff_count (the_task i k') = t_buff_count t + 1 \<and>
    (if t_buff_count t + 1 = t_bufflen t \<or> c = 10
     then t_waiting_on_read (the_task i k') = 0 \<and> kbd_task_refcount (kbd k') = kbd_task_refcount (kbd k) - 1
     else t_waiting_on_read (the_task i k') = t_waiting_on_read t \<and> kbd_task_refcount (kbd k') = kbd_task_refcount (kbd k)) \<and>
    keyboard_buffer (kbd k') = keyboard_buffer (kbd k) \<and> keyboard_buffer_head (kbd k') = keyboard_buffer_head (kbd k) \<and>
    keyboard_buffer_tail (kbd k') = keyboard_buffer_tail (kbd k) \<and> keyboard_eof (kbd k') = keyboard_eof (kbd k) \<and>
    kbd_done (kbd k') = kbd_done (kbd k)"
  using assms(1,2) ring_cong(2)
  by (auto simp: give_char_def keyboard_unblock_proc_def Let_def t_def one_reader_def set_task_kbd ring_ok_def)

lemma process_char_reader:
  assumes "one_reader i k" "t_waiting_on_read (the_task i k) \<noteq> 0" "c \<noteq> keyboard_eof (kbd k)" "give_char c i k = Some k'"
    "one_reader i k'"
  shows "keyboard_process_char c k = Some k'"
proof -
  have "for_tasks (give_char c) [0..<KBD_TASK_LIST_SIZE] k = Some k'"
    using assms(1,4,5) by (intro for_tasks_single) (auto simp: one_reader_def give_char_def)
  with assms(3) show ?thesis by (simp add: keyboard_process_char_def)
qed

lemma flush_reader:
  assumes "one_reader i k" "t_waiting_on_read (the_task i k) \<noteq> 0" "kbd_task_refcount (kbd k) = 1"
    and "t_bufflen (the_task i k) = t_buff_count (the_task i k) + of_nat (Suc n)" "n < 2 ^ 31"
    and "keyboard_eof (kbd k) \<notin> set (ring (kbd k))"
  defines "cs \<equiv> line_prefix (Suc n) (ring (kbd k))"
  shows "\<exists>k'. keyboard_flush_buffer k = Some k' \<and> ring_ok (kbd k') \<and>
    ring (kbd k') = drop (length cs) (ring (kbd k)) \<and>
    kmem k' = write_bytes (t_buff (the_task i k) + t_buff_count (the_task i k)) cs (kmem k) \<and>
    t_buff_count (the_task i k') = t_buff_count (the_task i k) + of_nat (length cs) \<and>
    (t_waiting_on_read (the_task i k') = 0 \<longleftrightarrow> line_done (Suc n) (ring (kbd k))) \<and>
    kbd_done (kbd k') = kbd_done (kbd k)"
  using assms(1-6) unfolding cs_def
proof (induction "ring (kbd k)" arbitrary: k n)
  case Nil
  then have "keyboard_buffer_tail (kbd k) = keyboard_buffer_head (kbd k)"
    using ring_drop_correct(2) [of "kbd k"] by (simp add: one_reader_def)
  then have "keyboard_flush_buffer k = Some k" by (subst keyboard_flush_buffer.simps) simp
  then show ?case using Nil by (simp add: one_reader_def flip: Nil(1))
next
  case (Cons c rs)
  have ok: "ring_ok (kbd k)" using Cons.prems(1) by (simp add: one_reader_def)
  note D = ring_drop_correct [OF ok]
  have ne: "keyboard_buffer_tail (kbd k) \<noteq> keyboard_buffer_head (kbd k)" using D(2) Cons(2) by auto
  have c: "keyboard_buffer (kbd k) (unat (keyboard_buffer_tail (kbd k))) = c" "ring (ring_drop (kbd k)) = rs"
    using D(3) [OF ne] Cons(2) by simp_all
  have eof: "c \<noteq> keyboard_eof (kbd k)" using Cons.prems(6) unfolding Cons(2) [symmetric] by auto
  from give_char_reader [OF Cons.prems(1,2), of c] obtain k1 where
    g: "give_char c i k = Some k1" "one_reader i k1"
      "kmem k1 = (kmem k)(t_buff (the_task i k) + t_buff_count (the_task i k) := c)"
      "t_buff (the_task i k1) = t_buff (the_task i k)" "t_bufflen (the_task i k1) = t_bufflen (the_task i k)"
      "t_buff_count (the_task i k1) = t_buff_count (the_task i k) + 1"
    and w: "if t_buff_count (the_task i k) + 1 = t_bufflen (the_task i k) \<or> c = 10
     then t_waiting_on_read (the_task i k1) = 0 \<and> kbd_task_refcount (kbd k1) = kbd_task_refcount (kbd k) - 1
     else t_waiting_on_read (the_task i k1) = t_waiting_on_read (the_task i k) \<and> kbd_task_refcount (kbd k1) = kbd_task_refcount (kbd k)"
    and b: "keyboard_buffer (kbd k1) = keyboard_buffer (kbd k)" "keyboard_buffer_head (kbd k1) = keyboard_buffer_head (kbd k)"
      "keyboard_buffer_tail (kbd k1) = keyboard_buffer_tail (kbd k)" "keyboard_eof (kbd k1) = keyboard_eof (kbd k)"
      "kbd_done (kbd k1) = kbd_done (kbd k)" by blast
  let ?k2 = "upd_kbd ring_drop k1"
  have p: "keyboard_process_char c k = Some k1" by (rule process_char_reader [OF Cons.prems(1,2) eof g(1,2)])
  have flush: "keyboard_flush_buffer k = keyboard_flush_buffer ?k2"
    using Cons.prems(3) ne p c(1)
    by (subst keyboard_flush_buffer.simps) (simp add: ring_drop_def [abs_def])
  have k2: "the_task i ?k2 = the_task i k1" "ring (kbd ?k2) = rs" "ring_ok (kbd ?k2)"
    "kbd_task_refcount (kbd ?k2) = kbd_task_refcount (kbd k1)" "keyboard_eof (kbd ?k2) = keyboard_eof (kbd k)"
    "kbd_done (kbd ?k2) = kbd_done (kbd k)" "one_reader i ?k2"
    using c(2) D(1) b g(2) ring_cong [of "ring_drop (kbd k1)" "ring_drop (kbd k)"]
    by (simp_all add: ring_drop_def one_reader_def)
  have end_iff: "t_buff_count (the_task i k) + 1 = t_bufflen (the_task i k) \<longleftrightarrow> n = 0"
  proof -
    have "1 = (of_nat (Suc n) :: i32) \<longleftrightarrow> n = 0"
      using Cons.prems(5) by (subst word_unat_eq_iff) (simp add: unat_of_nat del: of_nat_Suc)
    then show ?thesis unfolding Cons.prems(4) by (simp only: add_left_cancel)
  qed
  show ?case
  proof (cases "n = 0 \<or> c = 10")
    case True
    then have z: "t_waiting_on_read (the_task i k1) = 0" "kbd_task_refcount (kbd k1) = 0"
      using w end_iff Cons.prems(3) by (simp_all split: if_splits)
    have "keyboard_flush_buffer ?k2 = Some ?k2" using z(2) k2(4) by (subst keyboard_flush_buffer.simps) simp
    moreover have "line_prefix (Suc n) (c # rs) = [c]" using True by auto
    moreover have "line_done (Suc n) (c # rs)" using True by auto
    ultimately show ?thesis unfolding Cons(2) [symmetric] flush using k2(1-3,6) g(3,4,6) z(1)
      by (intro exI [of _ ?k2]) simp
  next
    case False
    then obtain m where m: "n = Suc m" by (cases n) auto
    have w': "t_waiting_on_read (the_task i k1) \<noteq> 0" "kbd_task_refcount (kbd k1) = 1"
      using w end_iff False Cons.prems(2,3) by simp_all
    have len: "t_bufflen (the_task i ?k2) = t_buff_count (the_task i ?k2) + of_nat (Suc m)"
      using Cons.prems(4) m g(5,6) k2(1) by simp
    have "keyboard_eof (kbd ?k2) \<notin> set (ring (kbd ?k2))"
      using Cons.prems(6) unfolding Cons(2) [symmetric] k2 by simp
    from Cons.hyps(1) [OF k2(2) [symmetric] k2(7) _ _ len _ this] w' k2 m Cons.prems(5) obtain k' where
      "keyboard_flush_buffer ?k2 = Some k'" "ring_ok (kbd k')" "ring (kbd k') = drop (length (line_prefix (Suc m) rs)) rs"
      "kmem k' = write_bytes (t_buff (the_task i k1) + t_buff_count (the_task i k1)) (line_prefix (Suc m) rs) (kmem k1)"
      "t_buff_count (the_task i k') = t_buff_count (the_task i k1) + of_nat (length (line_prefix (Suc m) rs))"
      "t_waiting_on_read (the_task i k') = 0 \<longleftrightarrow> line_done (Suc m) rs" "kbd_done (kbd k') = kbd_done (kbd k)"
      by auto
    with flush g False m show ?thesis by (unfold Cons(2) [symmetric], intro exI [of _ k']) (simp add: ac_simps)
  qed
qed

lemma line_prefix_length: "length (line_prefix n cs) \<le> n"
  by (induction n cs rule: line_prefix.induct) auto

text \<open>C24. A read from the keyboard before the end of file (\<^verbatim>\<open>kbd_done\<close> is 0 and the buffered characters hold no end-of-file
  character), with nobody else waiting and at least one character asked for, takes from the buffered characters up to as many as it
  wants, or to the end of the line, in order, and stores them at the reader's buffer and nowhere else (when echo is on they
  are printed too, which is recorded as output). When it has got all it wants, also by the end of the line, it returns their number. When the line
  has not ended, it returns that the reader is to block, and the reader's entry in the task list waits. When the line
  has ended with fewer characters than asked for, the code is wrong: it also returns that the reader is to block, although the entry waits
  no longer, so that nothing is left to wake the reader.\<close>

theorem kbd_read_buffered:
  fixes buff :: addr
  assumes "ring_ok (kbd k)" "kbd_task_refcount (kbd k) = 0" "kbd_done (kbd k) = 0"
    and "\<forall>j<KBD_TASK_LIST_SIZE. t_waiting_on_read (the_task j k) = 0" "p_state (the_pcb p k) \<noteq> PROC_STATE_BLOCKED"
    and "keyboard_eof (kbd k) \<notin> set (ring (kbd k))" "0 < n" "n < 2 ^ 31"
  shows "let cs = line_prefix n (ring (kbd k)) in
    \<exists>k'. kbd_read p blk buff (of_nat n) k = Some (if length cs = n then of_nat n else KBD_BLOCKERR, k') \<and>
      kmem k' = write_bytes buff cs (kmem k) \<and> ring (kbd k') = drop (length cs) (ring (kbd k)) \<and>
      (t_waiting_on_read (the_task (task_index p k) k') \<noteq> 0 \<longleftrightarrow> \<not> line_done n (ring (kbd k)))"
proof -
  obtain m where m: "n = Suc m" "m < 2 ^ 31" using assms(7,8) by (cases n) auto
  let ?i = "task_index p k"
  let ?k = "set_task ?i (\<lambda>t. t\<lparr>t_pcb := p, t_buff := buff, t_buff_count := 0, t_bufflen := of_nat n, t_waiting_on_read := 1\<rparr>)
    (upd_kbd (\<lambda>b. b\<lparr>kbd_task_refcount := kbd_task_refcount b + 1\<rparr>) k)"
  have i: "?i < KBD_TASK_LIST_SIZE"
    by (simp add: task_index_def KBD_TASK_LIST_SIZE_def PCB_TABLE_SIZE_def unat_mod)
  have r: "ring (kbd ?k) = ring (kbd k)" "ring_ok (kbd ?k) = ring_ok (kbd k)"
    by (rule ring_cong; simp add: set_task_kbd)+
  have k: "kbd_task_refcount (kbd ?k) = 1" "kbd_done (kbd ?k) = 0" "keyboard_eof (kbd ?k) = keyboard_eof (kbd k)"
    "kmem ?k = kmem k" using assms(2,3) by (simp_all add: set_task_kbd)
  have one: "one_reader ?i ?k"
    unfolding one_reader_def r using i assms(1,4,5) by auto
  have "\<exists>k'. keyboard_flush_buffer ?k = Some k' \<and> ring_ok (kbd k') \<and>
    ring (kbd k') = drop (length (line_prefix (Suc m) (ring (kbd ?k)))) (ring (kbd ?k)) \<and>
    kmem k' = write_bytes (t_buff (the_task ?i ?k) + t_buff_count (the_task ?i ?k)) (line_prefix (Suc m) (ring (kbd ?k))) (kmem ?k) \<and>
    t_buff_count (the_task ?i k') = t_buff_count (the_task ?i ?k) + of_nat (length (line_prefix (Suc m) (ring (kbd ?k)))) \<and>
    (t_waiting_on_read (the_task ?i k') = 0 \<longleftrightarrow> line_done (Suc m) (ring (kbd ?k))) \<and>
    kbd_done (kbd k') = kbd_done (kbd ?k)"
    using one m k assms(6) unfolding r(1) [symmetric] by (intro flush_reader) simp_all
  then obtain k' where k': "keyboard_flush_buffer ?k = Some k'"
    "ring (kbd k') = drop (length (line_prefix n (ring (kbd k)))) (ring (kbd k))"
    "kmem k' = write_bytes buff (line_prefix n (ring (kbd k))) (kmem k)"
    "t_buff_count (the_task ?i k') = of_nat (length (line_prefix n (ring (kbd k))))"
    "t_waiting_on_read (the_task ?i k') = 0 \<longleftrightarrow> line_done n (ring (kbd k))" "kbd_done (kbd k') = 0"
    unfolding r k m(1) [symmetric] by auto
  have "length (line_prefix n (ring (kbd k))) < 2 ^ 32" "n < 2 ^ 32"
    using line_prefix_length [of n "ring (kbd k)"] assms(8) by simp_all
  then have "(of_nat (length (line_prefix n (ring (kbd k)))) :: i32) = of_nat n \<longleftrightarrow> length (line_prefix n (ring (kbd k))) = n"
    by (auto simp: word_unat_eq_iff unat_of_nat)
  with k' show ?thesis by (simp add: kbd_read_def Let_def)
qed

definition line_kernel :: "u8 list \<Rightarrow> kernel" where
  "line_kernel cs = upd_kbd (\<lambda>b. b\<lparr>keyboard_buffer := (\<lambda>i. cs ! i), keyboard_buffer_head := of_nat (length cs)\<rparr>) demo_kernel"

theorem kbd_read_buffered_witness:
  "\<exists>k'. kbd_read (PcbSlot 7) 0 0x30000 4 (line_kernel [0x61, 10]) = Some (KBD_BLOCKERR, k') \<and>
     kmem k' 0x30000 = 0x61 \<and> t_waiting_on_read (the_task 8 k') = 0"
proof -
  let ?k = "line_kernel [0x61, 10]"
  have r: "ring (kbd ?k) = [0x61, 10]" "ring_ok (kbd ?k)"
    by (simp_all add: line_kernel_def ring_def ring_ok_def demo_kernel_def upt_rec)
  have i: "task_index (PcbSlot 7) ?k = 8"
    by (simp add: task_index_def line_kernel_def demo_pcb_def KBD_TASK_LIST_SIZE_def PCB_TABLE_SIZE_def)
  have "kbd_task_refcount (kbd ?k) = 0" "kbd_done (kbd ?k) = 0" "keyboard_eof (kbd ?k) = 4"
    "\<forall>j<KBD_TASK_LIST_SIZE. t_waiting_on_read (the_task j ?k) = 0" "p_state (the_pcb (PcbSlot 7) ?k) \<noteq> PROC_STATE_BLOCKED"
    by (simp_all add: line_kernel_def demo_kernel_def the_task_def the_pcb_def demo_pcb_def)
  note K = kbd_read_buffered [OF r(2) this(1,2,4,5), where n = 4 and blk = 0 and buff = "0x30000", unfolded r i Let_def]
  have lp: "line_prefix 4 [0x61, 10] = [0x61, 10]" "line_done 4 [0x61, 10]"
  proof -
    have four: "4 = Suc (Suc (Suc (Suc 0)))" by simp
    show "line_prefix 4 [0x61, 10] = [0x61, 10]" "line_done 4 [0x61, 10]"
      unfolding four by (simp_all add: line_done_def)
  qed
  from K [unfolded lp(1)] lp(2) \<open>keyboard_eof (kbd ?k) = 4\<close> show ?thesis by auto
qed

section \<open>Descriptors\<close>

lemma first_free_correct:
  "fd \<le> first_free tab fd n \<and> first_free tab fd n \<le> fd + n \<and>
   (first_free tab fd n < fd + n \<longrightarrow> tab (first_free tab fd n) = None) \<and>
   (\<forall>i. fd \<le> i \<and> i < first_free tab fd n \<longrightarrow> tab i \<noteq> None)"
proof (induction tab fd n rule: first_free.induct)
  case (2 tab fd n)
  show ?case
  proof (cases "tab fd = None")
    case False
    have "tab i \<noteq> None" if "fd \<le> i" "i < first_free tab (fd + 1) n" for i
      using 2 False that by (cases "i = fd") auto
    with 2 False show ?thesis by auto
  qed (auto dest: leD)
qed (auto dest: leD)

lemma kbd_open_frame:
  assumes "kbd_open p blk k = Some (r, k')" "0 \<le> sint (kbd_refcount (kbd k))"
  shows "the_pcb q k' = the_pcb q k" "dev_table k' = dev_table k"
    "r = 0 \<Longrightarrow> kbd_refcount (kbd k') = kbd_refcount (kbd k) + 1"
proof -
  have z: "kbd_refcount (kbd k) = 0" if "\<not> 0 < sint (kbd_refcount (kbd k))"
    using assms(2) that by (metis less_le sint_0 signed_eq_0_iff)
  show "the_pcb q k' = the_pcb q k" "dev_table k' = dev_table k"
    "r = 0 \<Longrightarrow> kbd_refcount (kbd k') = kbd_refcount (kbd k) + 1"
    using assms(1) z
    by (auto simp: kbd_open_def Let_def the_pcb_def upd_kbd_def SYSERR_def split: if_splits Option.bind_splits)
qed

lemma kbd_close_frame:
  assumes "kbd_close p blk k = (r, k')" "0 < sint (kbd_refcount (kbd k))"
  shows "r = 0" "the_pcb q k' = the_pcb q k" "kbd_refcount (kbd k') = kbd_refcount (kbd k) - 1"
  using assms by (auto simp: kbd_close_def Let_def set_task_def upd_kbd_def the_pcb_def split: if_splits)

text \<open>A successful open gives the lowest free descriptor and records the device in it; closing
  the descriptor succeeds, frees it again and takes back the driver's count of openers.\<close>

theorem open_close_roundtrip:
  assumes "di_open p dev k = Some (fd, k1)" "fd \<noteq> SYSERR" "\<forall>d<NUM_DEVICES. dvdriver (dev_table k d) = KbdDriver"
    and "0 \<le> sint (kbd_refcount (kbd k))" "sint (kbd_refcount (kbd k)) < 2 ^ 31 - 1"
  shows "unat fd < PCB_MAX_FDS \<and> p_fd_table (the_pcb p k) (unat fd) = None \<and>
    (\<forall>i<unat fd. p_fd_table (the_pcb p k) i \<noteq> None) \<and>
    p_fd_table (the_pcb p k1) = (p_fd_table (the_pcb p k))(unat fd := Some (unat dev)) \<and>
    (\<exists>k2. di_close p fd k1 = Some (0, k2) \<and> p_fd_table (the_pcb p k2) = p_fd_table (the_pcb p k) \<and>
       kbd_refcount (kbd k2) = kbd_refcount (kbd k))"
proof -
  let ?t = "p_fd_table (the_pcb p k)"
  let ?f = "first_free ?t 0 PCB_MAX_FDS"
  note F = first_free_correct [of 0 ?t PCB_MAX_FDS]
  have p: "p \<noteq> NullPcb" using assms(1) by (cases "p = NullPcb") (auto simp: di_open_def)
  from assms(1,2) p have dev: "0 \<le> sint dev" "sint dev < 2" and f: "?f < PCB_MAX_FDS"
    by (auto simp: di_open_def NUM_DEVICES_def Let_def not_le split: if_splits)
  have d: "unat dev < NUM_DEVICES" using sint_small [OF dev(1)] dev(2) unfolding NUM_DEVICES_def by linarith
  from assms(1,2) p dev f obtain k0 where
    k0: "kbd_open p (dvioblk (dev_table k (unat dev))) k = Some (0, k0)" and
    k1: "k1 = set_pcb p (\<lambda>u. u\<lparr>p_fd_table := (p_fd_table u)(?f := Some (unat dev))\<rparr>) k0" and fd: "fd = of_nat ?f"
    using assms(3) d
    by (auto simp: di_open_def NUM_DEVICES_def Let_def not_le dvopen_def split: if_splits Option.bind_splits)
  note O = kbd_open_frame [OF k0 assms(4)]
  have uf: "unat fd = ?f" "sint fd = int ?f" "?f < 4"
    using fd f sint_of_nat [of ?f] by (simp_all add: PCB_MAX_FDS_def unat_of_nat)
  have valid: "valid_fd p fd k1" using uf k1 by (simp add: valid_fd_def PCB_MAX_FDS_def)
  have rc: "kbd_refcount (kbd k1) = kbd_refcount (kbd k) + 1" using O(3) k1 by simp
  have pos: "0 < sint (kbd_refcount (kbd k1))"
  proof -
    have u: "unat (kbd_refcount (kbd k)) < 2147483647" using assms(5) by (intro sint_less_unat [OF assms(4)]) simp
    then have "unat (kbd_refcount (kbd k) + 1) = unat (kbd_refcount (kbd k)) + 1" by (simp add: unat_word_ariths)
    then have "sint (kbd_refcount (kbd k) + 1) = int (unat (kbd_refcount (kbd k)) + 1)"
      using u by (subst sint_unat) simp_all
    then show ?thesis unfolding rc by linarith
  qed
  obtain r k2 where c: "kbd_close p (dvioblk (fd_entry p fd k1)) k1 = (r, k2)" by fastforce
  note C = kbd_close_frame [OF c pos]
  have "dvdriver (fd_entry p fd k1) = KbdDriver"
    using assms(3) d O(2) k1 uf by (simp add: fd_entry_def set_pcb_def upd_pt_def the_pcb_def upd_pcb_def)
  then have close: "di_close p fd k1 = Some (0, set_pcb p (\<lambda>u. u\<lparr>p_fd_table := (p_fd_table u)(unat fd := None)\<rparr>) k2)"
    using p valid c C(1) by (simp add: di_close_def Let_def dvclose_def)
  have "?t ?f = None" using F f by simp
  then have "(?t(?f := Some (unat dev)))(?f := None) = ?t" by (simp add: fun_upd_idem)
  with close C(2,3) rc k1 O(1) uf F f show ?thesis by simp
qed

theorem open_close_roundtrip_witness:
  "\<exists>k1 k2. di_open (PcbSlot 7) 1 demo_kernel = Some (0, k1) \<and> di_close (PcbSlot 7) 0 k1 = Some (0, k2)"
proof -
  have four: "PCB_MAX_FDS = Suc (Suc (Suc (Suc 0)))" by (simp add: PCB_MAX_FDS_def)
  have ff: "first_free (p_fd_table (demo_pcb 7)) 0 PCB_MAX_FDS = 0" "PCB_MAX_FDS \<noteq> 0"
    by (simp_all add: four demo_pcb_def)
  have dev: "dvdriver (dev_table demo_kernel i) = KbdDriver" "kbd_refcount (kbd demo_kernel) = 0"
    "t_waiting_on_read (the_task j demo_kernel) = 0" for i j
    by (simp_all add: demo_kernel_def the_task_def)
  have "\<exists>k1. di_open (PcbSlot 7) 1 demo_kernel = Some (0, k1)"
    by (simp add: di_open_def NUM_DEVICES_def Let_def ff dvopen_def kbd_open_def dev)
  then obtain k1 where k1: "di_open (PcbSlot 7) 1 demo_kernel = Some (0, k1)" by blast
  from open_close_roundtrip [OF k1] k1 dev show ?thesis by (auto simp: SYSERR_def)
qed

end
