(* ===== verification/Device_Frame.thy ===== *)
theory Device_Frame
  imports Startup Device_Properties
begin

text \<open>
  What the rest of the kernel does to the device part of the state (the keyboard driver's state, the
  device table and the descriptor tables of the processes): the queues, the sleep list, creation and
  clean-up, signals and messages leave it alone. In particular the clean-up of a process does not
  close its descriptors.
\<close>

unbundle bit_operations_syntax

section \<open>The descriptor tables of a process table\<close>

definition fdt :: "procs \<Rightarrow> pcb_ptr \<Rightarrow> nat \<Rightarrow> nat option" where
  "fdt s p = p_fd_table (pcbs s p)"

named_theorems fdt_frame \<open>operations that keep every descriptor table\<close>

lemma fdt_upd_pcb [simp]: "(\<And>u. p_fd_table (f u) = p_fd_table u) \<Longrightarrow> fdt (upd_pcb p f s) = fdt s"
  by (rule ext) (simp add: fdt_def)

lemma fdt_upd_queue [simp]: "fdt (upd_queue q f s) = fdt s"
  by (rule ext) (simp add: fdt_def)

lemma fdt_queue_ops [simp]:
  "fdt (snd (pcb_poll q s)) = fdt s" "fdt (pcb_offer q p s) = fdt s" "fdt (add_pcb_to_stopped_queue p s) = fdt s"
  "fdt (snd (get_next_pcb s)) = fdt s" "fdt (snd (get_free_pcb s)) = fdt s"
proof -
  show poll: "fdt (snd (pcb_poll q s)) = fdt s" for q s by (simp add: pcb_poll_def Let_def)
  show offer: "fdt (pcb_offer q p s) = fdt s" for q p s by (simp add: pcb_offer_def Let_def)
  show "fdt (add_pcb_to_stopped_queue p s) = fdt s" by (simp add: add_pcb_to_stopped_queue_def Let_def offer)
  show "fdt (snd (get_free_pcb s)) = fdt s" by (simp add: get_free_pcb_def poll)
  have "pcb_poll q s = (p, s') \<Longrightarrow> fdt s' = fdt s" for q p s s' using poll [of q s] by simp
  then show "fdt (snd (get_next_pcb s)) = fdt s"
    by (auto simp: get_next_pcb_def Let_def split: prod.split)
qed

lemma fdt_poll: "pcb_poll q s = (p, s') \<Longrightarrow> fdt s' = fdt s"
  using fdt_queue_ops(1) [of q s] by simp

lemma fdt_remove [fdt_frame]: "pcb_remove q p s = Some (b, s') \<Longrightarrow> fdt s' = fdt s"
  by (auto simp: pcb_remove_def Let_def bind_eq_Some_conv split: if_splits)

lemma fdt_add [fdt_frame]:
  "add_pcb_to_ready_queue p s = Some s' \<Longrightarrow> fdt s' = fdt s"
  "add_pcb_to_blocked_queue p s = Some s' \<Longrightarrow> fdt s' = fdt s"
  by (auto simp: add_pcb_to_ready_queue_def add_pcb_to_blocked_queue_def Let_def bind_eq_Some_conv)

lemma fdt_remove_from [fdt_frame]:
  "remove_pcb_from_ready_queue p s = Some (b, s') \<Longrightarrow> fdt s' = fdt s"
  "remove_pcb_from_blocked_queue p s = Some (b, s') \<Longrightarrow> fdt s' = fdt s"
  "remove_pcb_from_sleep_queue p s = Some (b, s') \<Longrightarrow> fdt s' = fdt s"
  by (auto simp: remove_pcb_from_ready_queue_def remove_pcb_from_blocked_queue_def remove_pcb_from_sleep_queue_def
      bind_eq_Some_conv dest: fdt_remove)

lemma fdt_peek_loop: "fdt (snd (peek_loop n P r s)) = fdt s"
proof (induction n arbitrary: r s)
  case (Suc n)
  then show ?case by (auto simp: Let_def split: prod.split dest: fdt_poll)
qed simp

lemma fdt_peek [simp]: "fdt (snd (peek_next_sender s)) = fdt s" "fdt (snd (peek_any_receiver s)) = fdt s"
  by (simp_all add: peek_next_sender_def peek_any_receiver_def fdt_peek_loop)

lemma fdt_unblock_loop: "unblock_loop n pid s = Some s' \<Longrightarrow> fdt s' = fdt s"
proof (induction n arbitrary: s)
  case (Suc n)
  then show ?case
    by (auto simp: Let_def bind_eq_Some_conv split: prod.splits if_splits dest!: fdt_add fdt_poll)
qed simp

lemma fdt_unblock [fdt_frame]: "unblock_pcb_waiting_for_pid pid s = Some s' \<Longrightarrow> fdt s' = fdt s"
  unfolding unblock_pcb_waiting_for_pid_def by (rule fdt_unblock_loop)

lemma fdt_sleep_find: "sleep_find e s prev cur = Some r \<Longrightarrow> fdt (fst r) = fdt s"
  by (rule sleep_find.raw_induct [rotated]) (auto simp: Let_def split: if_splits)

lemma fdt_sleep [fdt_frame]: "sleep p ms s = Some s' \<Longrightarrow> fdt s' = fdt s"
  by (auto simp: sleep_def add_pcb_to_sleep_queue_def Let_def bind_eq_Some_conv split: if_splits dest!: fdt_sleep_find)

lemma fdt_wake [fdt_frame]: "wake p s = Some s' \<Longrightarrow> fdt s' = fdt s"
  by (auto simp: wake_def bind_eq_Some_conv dest!: fdt_frame)

lemma fdt_tick_loop: "tick_loop p s = Some s' \<Longrightarrow> fdt s' = fdt s"
  by (rule tick_loop.raw_induct [rotated]) (auto simp: bind_eq_Some_conv split: if_splits dest!: fdt_wake)

lemma fdt_tick [fdt_frame]: "tick s = Some s' \<Longrightarrow> fdt s' = fdt s"
  by (auto simp: tick_def Let_def split: if_splits dest: fdt_tick_loop)

section \<open>The device part of the kernel\<close>

definition devs :: "kernel \<Rightarrow> kbd_state \<times> (nat \<Rightarrow> devsw) \<times> (pcb_ptr \<Rightarrow> nat \<Rightarrow> nat option)" where
  "devs k = (kbd k, dev_table k, fdt (pt k))"

named_theorems devs_frame \<open>operations that keep the device part\<close>

lemma dev_table_access [simp]:
  "dev_table (upd_mem f k) = dev_table k" "dev_table (upd_pt g k) = dev_table k" "dev_table (upd_kbd h k) = dev_table k"
  "dev_table (emit e k) = dev_table k" "dev_table (outb a b k) = dev_table k" "dev_table (set_pcb p i k) = dev_table k"
  by (simp_all add: upd_mem_def upd_pt_def upd_kbd_def emit_def outb_def set_pcb_def)

lemma devs_simps [simp]:
  "devs (upd_mem f k) = devs k" "devs (emit e k) = devs k" "devs (outb a b k) = devs k" "devs (k\<lparr>process := p\<rparr>) = devs k"
  "fdt s = fdt (pt k) \<Longrightarrow> devs (k\<lparr>pt := s\<rparr>) = devs k"
  by (simp_all add: devs_def)

lemma devs_set_pcb [simp]: "(\<And>u. p_fd_table (f u) = p_fd_table u) \<Longrightarrow> devs (set_pcb p f k) = devs k"
  by (simp add: devs_def)

lemma devs_upd_pt [simp]: "fdt (f (pt k)) = fdt (pt k) \<Longrightarrow> devs (upd_pt f k) = devs k"
  by (simp add: devs_def)

lemma devs_cur [simp]: "devs (cur_ret r k) = devs k" "(\<And>u. p_fd_table (f u) = p_fd_table u) \<Longrightarrow> devs (set_cur f k) = devs k"
  by (simp_all add: cur_ret_def set_cur_def)

lemma devs_run_next [simp]: "devs (run_next k) = devs k"
  by (simp add: run_next_def devs_def split_beta)

lemma devs_end_of_intr [simp]: "devs (end_of_intr k) = devs k"
  by (simp add: end_of_intr_def)

lemma devs_on_heap [devs_frame]: "on_heap f k = Some (x, k') \<Longrightarrow> devs k' = devs k"
  by (auto simp: on_heap_def devs_def)

lemma devs_on_procs: "on_procs f k = Some k' \<Longrightarrow> (\<And>s'. f (pt k) = Some s' \<Longrightarrow> fdt s' = fdt (pt k)) \<Longrightarrow> devs k' = devs k"
  by (auto simp: on_procs_def devs_def)

lemma devs_on_procs_ret: "on_procs_ret f k = Some (x, k') \<Longrightarrow> (\<And>y s'. f (pt k) = Some (y, s') \<Longrightarrow> fdt s' = fdt (pt k)) \<Longrightarrow> devs k' = devs k"
  by (auto simp: on_procs_ret_def devs_def)

lemma devs_queue_ops [devs_frame]:
  "on_procs (add_pcb_to_ready_queue p) k = Some k' \<Longrightarrow> devs k' = devs k"
  "on_procs (add_pcb_to_blocked_queue p) k = Some k' \<Longrightarrow> devs k' = devs k"
  "on_procs_ret (remove_pcb_from_ready_queue p) k = Some (b, k') \<Longrightarrow> devs k' = devs k"
  "on_procs_ret (remove_pcb_from_blocked_queue p) k = Some (b, k') \<Longrightarrow> devs k' = devs k"
  "on_procs_ret (remove_pcb_from_sleep_queue p) k = Some (b, k') \<Longrightarrow> devs k' = devs k"
  "on_procs (unblock_pcb_waiting_for_pid pid) k = Some k' \<Longrightarrow> devs k' = devs k"
  "on_procs (sleep p ms) k = Some k' \<Longrightarrow> devs k' = devs k"
  "on_procs (wake p) k = Some k' \<Longrightarrow> devs k' = devs k"
  "on_procs tick k = Some k' \<Longrightarrow> devs k' = devs k"
  by (erule devs_on_procs devs_on_procs_ret, erule fdt_frame)+

section \<open>What leaves the device part alone\<close>

lemma devs_cleanup [devs_frame]: "cleanup_pcb p k = Some k' \<Longrightarrow> devs k' = devs k"
  by (auto simp: cleanup_pcb_def Let_def bind_eq_Some_conv ASSERT_bind dest!: devs_frame)

lemma devs_init_process [simp]: "devs (init_process p a st b fp k) = devs k"
  by (simp add: init_process_def Let_def)

lemma fdt_free: "get_free_pcb s = (p, s') \<Longrightarrow> fdt s' = fdt s"
  using fdt_queue_ops(5) [of s] by simp

lemma devs_create [devs_frame]:
  assumes "create fp st k = Some (r, k')"
  shows "devs k' = devs k"
proof (cases "fp = 0")
  case False
  define n where "n = (if sint st < sint DEFAULT_STACK_SIZE then DEFAULT_STACK_SIZE else st)"
  have c: "create fp st k = do {
          (stack_start, k) \<leftarrow> on_heap (kmalloc n) k;
          if stack_start = 0 then Some (CREATE_FAILURE, k)
          else do {
            (signal_table, k) \<leftarrow> on_heap (kmalloc (SIGNAL_TABLE_SIZE * 4)) k;
            if signal_table = 0 then Some (CREATE_FAILURE, k)
            else do {
              let k = upd_mem (memset signal_table 0 4) k;
              let (new_proc, s) = get_free_pcb (pt k);
              let k = k\<lparr>pt := s\<rparr>;
              if new_proc = NullPcb then do {
                let k = emit (PrintLog ''Unable to find an available PCB!'') k;
                (_, k) \<leftarrow> on_heap (kfree stack_start) k;
                (_, k) \<leftarrow> on_heap (kfree signal_table) k;
                Some (CREATE_FAILURE, k)
              } else do {
                let k = init_process new_proc stack_start n signal_table fp k;
                k \<leftarrow> on_procs (add_pcb_to_ready_queue new_proc) k;
                Some (p_pid (the_pcb new_proc k), k)
              }
            }
          }
        }" using False by (simp add: create_def n_def [symmetric] Let_def)
  from assms show ?thesis unfolding c
    by (auto simp: Let_def bind_eq_Some_conv split_beta simp del: devs_simps(5) split: if_splits dest!: devs_frame) simp_all
qed (use assms in \<open>auto simp: create_def\<close>)

lemma devs_signal [simp]: "devs (snd (signal pid n k)) = devs k"
  by (simp add: signal_def Let_def split: prod.split)

lemma devs_set_pcb_signal [devs_frame]: "set_pcb_signal p n k = Some (r, k') \<Longrightarrow> devs k' = devs k"
  by (auto simp: set_pcb_signal_def Let_def bind_eq_Some_conv split: if_splits blocked_status.splits dest!: devs_frame)

lemma devs_deliver [devs_frame]: "deliver_highest_priority_signal p k = Some k' \<Longrightarrow> devs k' = devs k"
  by (auto simp: deliver_highest_priority_signal_def Let_def bind_eq_Some_conv split: if_splits)

lemma devs_message_ends [devs_frame]:
  "block_sender p pid k = Some (r, k') \<Longrightarrow> devs k' = devs k" "block_receiver p pid k = Some (r, k') \<Longrightarrow> devs k' = devs k"
  "release_partner p len k = Some (r, k') \<Longrightarrow> devs k' = devs k"
  by (auto simp: block_sender_def block_receiver_def release_partner_def Let_def bind_eq_Some_conv dest!: devs_frame)

lemma fdt_peeks: "peek_any_receiver s = (p, s') \<Longrightarrow> fdt s' = fdt s" "peek_next_sender s = (p, s') \<Longrightarrow> fdt s' = fdt s"
  using fdt_peek [of s] by simp_all

lemma devs_send [devs_frame]: "send p q b n k = Some (r, k') \<Longrightarrow> devs k' = devs k"
  by (auto simp: send_def Let_def bind_eq_Some_conv split: if_splits prod.splits dest!: devs_frame fdt_peeks)

lemma devs_recv [devs_frame]: "recv p q b n k = Some (r, k') \<Longrightarrow> devs k' = devs k"
  by (auto simp: recv_def Let_def bind_eq_Some_conv split: if_splits prod.splits dest!: devs_frame fdt_peeks)

text \<open>
  The descriptors of a process survive it: clean-up leaves them open, and the next process that gets
  the slot starts with them.
\<close>

lemma descriptors_outlive_process:
  assumes "cleanup_pcb p k = Some k1" "create f n k1 = Some (r, k2)"
  shows "p_fd_table (pcbs (pt k2) p) = p_fd_table (pcbs (pt k) p)"
proof -
  have "fdt (pt k2) = fdt (pt k)" using devs_cleanup [OF assms(1)] devs_create [OF assms(2)] by (simp add: devs_def)
  then show ?thesis by (simp add: fdt_def fun_eq_iff)
qed

end
