(* ===== verification/Device_Types.thy ===== *)
theory Device_Types
  imports Device_Frame
begin

text \<open>
  The devices stay well typed: from the boot on, whatever requests and interrupts follow, the indices
  of the keyboard's ring buffer are in range, every entry of the device table has the keyboard's
  handlers and every open descriptor of a process refers to an entry.
\<close>

unbundle bit_operations_syntax

section \<open>Well-typed devices\<close>

text \<open>
  The indices of the ring buffer are in range, every entry of the device table has the keyboard's handlers, and
  every open descriptor is one of the four of its process and refers to an entry.
\<close>

definition dev_typed :: "kernel \<Rightarrow> bool" where
  "dev_typed k \<longleftrightarrow> ring_ok (kbd k) \<and> (\<forall>d<NUM_DEVICES. dvdriver (dev_table k d) = KbdDriver) \<and>
     (\<forall>p fd d. p_fd_table (the_pcb p k) fd = Some d \<longrightarrow> fd < PCB_MAX_FDS \<and> d < NUM_DEVICES)"

lemma dev_typed_devs: "dev_typed k \<longleftrightarrow> (case devs k of (b, t, F) \<Rightarrow>
    ring_ok b \<and> (\<forall>d<NUM_DEVICES. dvdriver (t d) = KbdDriver) \<and> (\<forall>p fd d. F p fd = Some d \<longrightarrow> fd < PCB_MAX_FDS \<and> d < NUM_DEVICES))"
  by (simp add: dev_typed_def devs_def fdt_def the_pcb_def)

lemma dev_typed_cong: "devs k' = devs k \<Longrightarrow> dev_typed k' \<longleftrightarrow> dev_typed k"
  by (simp add: dev_typed_devs)

text \<open>The keyboard's statics change in many places, the two indices in few.\<close>

definition ring_kept :: "kernel \<Rightarrow> kernel \<Rightarrow> bool" where
  "ring_kept k k' \<longleftrightarrow> snd (devs k') = snd (devs k) \<and> keyboard_buffer_head (kbd k') = keyboard_buffer_head (kbd k) \<and>
     keyboard_buffer_tail (kbd k') = keyboard_buffer_tail (kbd k)"

lemma ring_kept_typed: "ring_kept k k' \<Longrightarrow> dev_typed k \<Longrightarrow> dev_typed k'"
  by (auto simp: ring_kept_def dev_typed_devs devs_def ring_ok_def)

lemma ring_kept_refl: "ring_kept k k" and ring_kept_trans: "ring_kept k k' \<Longrightarrow> ring_kept k' k'' \<Longrightarrow> ring_kept k k''"
  by (simp_all add: ring_kept_def)

lemma ring_kept_devs: "devs k' = devs k \<Longrightarrow> ring_kept k k'"
  by (simp add: ring_kept_def devs_def)

lemma ring_kept_upd_kbd:
  "(\<And>b. keyboard_buffer_head (f b) = keyboard_buffer_head b \<and> keyboard_buffer_tail (f b) = keyboard_buffer_tail b) \<Longrightarrow>
    ring_kept k (upd_kbd f k)"
  by (simp add: ring_kept_def devs_def)

lemma ring_kept_task: "ring_kept k (set_task i f k)"
  unfolding set_task_def by (rule ring_kept_upd_kbd) simp

lemma for_tasks_inv:
  assumes "\<And>i k k'. f i k = Some k' \<Longrightarrow> P k \<Longrightarrow> P k'"
  shows "for_tasks f js k = Some k' \<Longrightarrow> P k \<Longrightarrow> P k'"
  using assms by (induction js arbitrary: k) (auto simp: bind_eq_Some_conv)

lemma devs_inb [simp]: "devs (snd (inb port k)) = devs k"
  by (simp add: inb_def) (simp add: devs_def)

lemma devs_kbd_int [simp]: "devs (setKbdInt b k) = devs k"
  by (simp add: setKbdInt_def enable_irq_def Let_def split_beta)

lemma devs_echo: "devs (echo_char c k) = devs k"
  by (simp add: echo_char_def)

lemma unblock_kept: "keyboard_unblock_proc i k = Some k' \<Longrightarrow> ring_kept k k'"
proof -
  assume a: "keyboard_unblock_proc i k = Some k'"
  let ?k1 = "upd_kbd (\<lambda>b. b\<lparr>kbd_task_refcount := kbd_task_refcount b - 1\<rparr>) k"
  let ?k2 = "set_task i (\<lambda>t. t\<lparr>t_waiting_on_read := 0\<rparr>) ?k1"
  have "ring_kept k ?k1" by (rule ring_kept_upd_kbd) simp
  then have "ring_kept k ?k2" by (rule ring_kept_trans [OF _ ring_kept_task])
  moreover have "devs k' = devs ?k2" using a
    by (auto simp: keyboard_unblock_proc_def Let_def bind_eq_Some_conv split: if_splits dest!: devs_frame)
  ultimately show ?thesis using ring_kept_devs ring_kept_trans by blast
qed

lemma process_char_kept: "keyboard_process_char c k = Some k' \<Longrightarrow> ring_kept k k'"
proof -
  have eof: "ring_kept k k'" if "keyboard_handle_eof k = Some k'" for k k'
  proof -
    let ?k = "upd_kbd (\<lambda>b. b\<lparr>kbd_done := 1\<rparr>) (setKbdInt 0 k)"
    have "ring_kept (setKbdInt 0 k) ?k" by (rule ring_kept_upd_kbd) simp
    then have "ring_kept k ?k" by (rule ring_kept_trans [OF ring_kept_devs, rotated]) simp
    moreover from that have ft: "for_tasks (\<lambda>i k. if t_waiting_on_read (the_task i k) \<noteq> 0 then keyboard_unblock_proc i k else Some k)
       [0..<KBD_TASK_LIST_SIZE] ?k = Some k'" by (simp add: keyboard_handle_eof_def Let_def)
    ultimately show ?thesis
      by (intro for_tasks_inv [where P = "ring_kept k", OF _ ft]) (auto split: if_splits intro: ring_kept_trans dest: unblock_kept)
  qed
  have give: "ring_kept k k'" if "give_char c i k = Some k'" for i k k'
  proof -
    let ?k1 = "upd_mem (\<lambda>m. m(t_buff (the_task i k) + t_buff_count (the_task i k) := c)) k"
    let ?k2 = "echo_char c (set_task i (\<lambda>t. t\<lparr>t_buff_count := t_buff_count t + 1\<rparr>) ?k1)"
    have "ring_kept k ?k1" by (rule ring_kept_devs) simp
    then have "ring_kept k ?k2"
      by (rule ring_kept_trans [OF ring_kept_trans [OF _ ring_kept_task] ring_kept_devs [OF devs_echo]])
    moreover have "k' = k \<or> k' = ?k2 \<or> keyboard_unblock_proc i ?k2 = Some k'"
      using that by (auto simp: give_char_def Let_def split: if_splits)
    ultimately show ?thesis using ring_kept_trans [OF _ unblock_kept] ring_kept_refl by blast
  qed
  assume "keyboard_process_char c k = Some k'"
  then consider "keyboard_handle_eof k = Some k'" | "for_tasks (give_char c) [0..<KBD_TASK_LIST_SIZE] k = Some k'"
    by (auto simp: keyboard_process_char_def split: if_splits)
  then show ?thesis
  proof cases
    case 2
    show ?thesis by (rule for_tasks_inv [where P = "ring_kept k", OF ring_kept_trans 2 ring_kept_refl]) (auto dest: give)
  qed (rule eof)
qed

lemma flush_typed: "keyboard_flush_buffer k = Some k' \<Longrightarrow> dev_typed k \<Longrightarrow> dev_typed k'"
proof (rule keyboard_flush_buffer.raw_induct [rotated, where P = "\<lambda>k k'. dev_typed k \<longrightarrow> dev_typed k'", THEN mp])
  fix f k k'
  assume IH: "\<And>k k'. f k = Some k' \<Longrightarrow> dev_typed k \<longrightarrow> dev_typed k'"
    and step: "(if 0 < sint (kbd_task_refcount (kbd k)) \<and> keyboard_buffer_tail (kbd k) \<noteq> keyboard_buffer_head (kbd k)
      then let c = keyboard_buffer (kbd k) (unat (keyboard_buffer_tail (kbd k)))
           in keyboard_process_char c k \<bind> (\<lambda>k. let k = upd_kbd (\<lambda>b. b\<lparr>keyboard_buffer_tail := (keyboard_buffer_tail b + 1) mod KEYBOARD_BUFFER_SIZE\<rparr>) k in f k)
      else Some k) = Some k'"
  show "dev_typed k \<longrightarrow> dev_typed k'"
  proof
    assume t: "dev_typed k"
    show "dev_typed k'"
    proof (cases "0 < sint (kbd_task_refcount (kbd k)) \<and> keyboard_buffer_tail (kbd k) \<noteq> keyboard_buffer_head (kbd k)")
      case True
      with step obtain k1 where k1: "keyboard_process_char (keyboard_buffer (kbd k) (unat (keyboard_buffer_tail (kbd k)))) k = Some k1"
        "f (upd_kbd ring_drop k1) = Some k'" by (auto simp: bind_eq_Some_conv ring_drop_def [abs_def])
      have "dev_typed k1" by (rule ring_kept_typed [OF process_char_kept [OF k1(1)] t])
      then have "dev_typed (upd_kbd ring_drop k1)"
        using ring_drop_correct(1) by (auto simp: dev_typed_devs devs_def)
      then show ?thesis using IH [OF k1(2)] by simp
    qed (use step t in auto)
  qed
qed

section \<open>The device calls\<close>

lemma dev_typed_set_pcb: "(\<And>u. p_fd_table (f u) = p_fd_table u) \<Longrightarrow> dev_typed (set_pcb p f k) \<longleftrightarrow> dev_typed k"
  by (rule dev_typed_cong) simp

lemma kbd_open_typed: "kbd_open p blk k = Some (r, k') \<Longrightarrow> dev_typed k \<Longrightarrow> dev_typed k'"
  by (auto simp: kbd_open_def Let_def ASSERT_bind dev_typed_devs devs_def ring_ok_def setKbdInt_def enable_irq_def inb_def split_beta
      split: if_splits)

lemma kbd_close_typed: "dev_typed k \<Longrightarrow> dev_typed (snd (kbd_close p blk k))"
proof -
  assume t: "dev_typed k"
  define k1 where "k1 = upd_kbd (\<lambda>b. b\<lparr>kbd_refcount := kbd_refcount b - 1\<rparr>) k"
  define k2 where "k2 = (if kbd_refcount (kbd k1) = 0 then setKbdInt 0 k1 else k1)"
  define k3 where "k3 = (if t_waiting_on_read (the_task (task_index p k2) k2) \<noteq> 0
    then upd_kbd (\<lambda>b. b\<lparr>kbd_task_refcount := kbd_task_refcount b - 1\<rparr>) k2 else k2)"
  define k4 where "k4 = set_task (task_index p k2) (\<lambda>t. t\<lparr>t_waiting_on_read := 0\<rparr>) k3"
  have 1: "ring_kept k k1" unfolding k1_def by (rule ring_kept_upd_kbd) simp
  have 2: "ring_kept k1 k2" unfolding k2_def by (rule ring_kept_devs) simp
  have 3: "ring_kept k2 k3" unfolding k3_def by (auto intro: ring_kept_upd_kbd ring_kept_refl)
  have 4: "ring_kept k3 k4" unfolding k4_def by (rule ring_kept_task)
  have "snd (kbd_close p blk k) = (if sint (kbd_refcount (kbd k)) \<le> 0 then k else k4)"
    by (simp add: kbd_close_def Let_def k1_def k2_def k3_def k4_def)
  then show ?thesis using t ring_kept_typed [OF ring_kept_trans [OF ring_kept_trans [OF ring_kept_trans [OF 1 2] 3] 4] t] by simp
qed

lemma kbd_read_typed: "kbd_read p blk buff n k = Some (r, k') \<Longrightarrow> dev_typed k \<Longrightarrow> dev_typed k'"
proof -
  assume r: "kbd_read p blk buff n k = Some (r, k')" and t: "dev_typed k"
  define k1 where "k1 = upd_kbd (\<lambda>b. b\<lparr>kbd_task_refcount := kbd_task_refcount b + 1\<rparr>) k"
  define k2 where "k2 = set_task (task_index p k) (\<lambda>t. t\<lparr>t_pcb := p, t_buff := buff, t_buff_count := 0, t_bufflen := n, t_waiting_on_read := 1\<rparr>) k1"
  have 1: "ring_kept k k1" unfolding k1_def by (rule ring_kept_upd_kbd) simp
  have 2: "ring_kept k1 k2" unfolding k2_def by (rule ring_kept_task)
  have "dev_typed k2" by (rule ring_kept_typed [OF ring_kept_trans [OF 1 2] t])
  moreover have "kbd_read p blk buff n k = Option.bind (keyboard_flush_buffer k2) (\<lambda>k3. Some (
       if t_buff_count (the_task (task_index p k) k3) = n then (n, k3)
       else if kbd_done (kbd k3) \<noteq> 0 then (t_buff_count (the_task (task_index p k) k3), k3)
       else (KBD_BLOCKERR, k3)))" by (simp only: kbd_read_def Let_def k1_def k2_def)
  with r have "keyboard_flush_buffer k2 = Some k'" by (cases "keyboard_flush_buffer k2") (simp_all split: if_splits)
  ultimately show ?thesis using flush_typed by blast
qed

lemma kbd_ioctl_typed: "dev_typed k \<Longrightarrow> dev_typed (snd (kbd_ioctl p blk c a k))"
  by (auto simp: kbd_ioctl_def kbd_ioctl_set_eof_def dev_typed_devs devs_def ring_ok_def)

lemma fd_driver:
  assumes "dev_typed k" "valid_fd p fd k"
  shows "dvdriver (fd_entry p fd k) = KbdDriver"
  using assms by (fastforce simp: dev_typed_def valid_fd_def fd_entry_def)

lemma dev_typed_fd:
  assumes "dev_typed k" "x = None \<or> fd < PCB_MAX_FDS \<and> the x < NUM_DEVICES"
  shows "dev_typed (set_pcb p (\<lambda>u. u\<lparr>p_fd_table := (p_fd_table u)(fd := x)\<rparr>) k)"
  using assms by (auto simp: dev_typed_def)

lemma di_open_typed: "di_open p n k = Some (r, k') \<Longrightarrow> dev_typed k \<Longrightarrow> dev_typed k'"
proof -
  assume o: "di_open p n k = Some (r, k')" and t: "dev_typed k"
  show ?thesis
  proof (cases "k' = k")
    case False
    with o have n: "\<not> (sint n < 0 \<or> int NUM_DEVICES \<le> sint n)" "first_free (p_fd_table (the_pcb p k)) 0 PCB_MAX_FDS < PCB_MAX_FDS"
      by (auto simp: di_open_def ASSERT_bind Let_def split: if_splits)
    then have d: "unat n < NUM_DEVICES" using sint_less_unat [of n NUM_DEVICES] by simp
    then have "dvdriver (dev_table k (unat n)) = KbdDriver" using t by (simp add: dev_typed_def)
    with o n obtain x k1 where k1: "kbd_open p (dvioblk (dev_table k (unat n))) k = Some (x, k1)"
      "k' = k1 \<or> k' = set_pcb p (\<lambda>u. u\<lparr>p_fd_table := (p_fd_table u)(first_free (p_fd_table (the_pcb p k)) 0 PCB_MAX_FDS := Some (unat n))\<rparr>) k1"
      by (auto simp: di_open_def dvopen_def ASSERT_bind Let_def bind_eq_Some_conv split: if_splits)
    have "dev_typed k1" by (rule kbd_open_typed [OF k1(1) t])
    then show ?thesis using k1(2) dev_typed_fd [of k1 "Some (unat n)"] n(2) d by auto
  qed (use t in simp)
qed

lemma di_calls_typed:
  assumes "dev_typed k" "p \<noteq> NullPcb"
  shows "\<exists>r k'. di_close p fd k = Some (r, k') \<and> dev_typed k'" "\<exists>r k'. di_write p fd buff n k = Some (r, k') \<and> dev_typed k'"
    "\<exists>r k'. di_ioctl p fd c a k = Some (r, k') \<and> dev_typed k'" "di_read p fd buff n k = Some (r, k') \<Longrightarrow> dev_typed k'"
proof -
  note D = fd_driver [OF assms(1), of p fd]
  have "dev_typed k1 \<Longrightarrow> dev_typed (set_pcb p (\<lambda>u. u\<lparr>p_fd_table := (p_fd_table u)(unat fd := None)\<rparr>) k1)" for k1
    by (rule dev_typed_fd) auto
  then show "\<exists>r k'. di_close p fd k = Some (r, k') \<and> dev_typed k'"
    using D kbd_close_typed [OF assms(1), of p "dvioblk (fd_entry p fd k)"] assms
    by (auto simp: di_close_def dvclose_def Let_def split_beta)
  show "\<exists>r k'. di_write p fd buff n k = Some (r, k') \<and> dev_typed k'"
    using D assms by (auto simp: di_write_def dvwrite_def kbd_write_def)
  show "\<exists>r k'. di_ioctl p fd c a k = Some (r, k') \<and> dev_typed k'"
    using D kbd_ioctl_typed [OF assms(1), of p "dvioblk (fd_entry p fd k)" c a] assms
    by (cases "kbd_ioctl p (dvioblk (fd_entry p fd k)) c a k") (auto simp: di_ioctl_def dvioctl_def)
  show "di_read p fd buff n k = Some (r, k') \<Longrightarrow> dev_typed k'"
    using D assms by (auto simp: di_read_def dvread_def split: if_splits dest: kbd_read_typed)
qed

lemma keyboard_isr_typed: "keyboard_isr k = Some k' \<Longrightarrow> dev_typed k \<Longrightarrow> dev_typed k'"
proof -
  assume i: "keyboard_isr k = Some k'" and t: "dev_typed k"
  obtain s1 ka where a: "inb KEYBOARD_PORT_CONTROL k = (s1, ka)" by fastforce
  obtain s2 kb where b: "inb KEYBOARD_PORT_DATA_READ ka = (s2, kb)" by fastforce
  obtain c kc where p: "keyboard_process_scancode (0x0FF AND ucast s2) kb = (c, kc)" by fastforce
  have upd: "upd_kbd (\<lambda>b. b\<lparr>keyboard_buffer_head := (keyboard_buffer_head b + 1) mod KEYBOARD_BUFFER_SIZE\<rparr>)
      (upd_kbd (\<lambda>b. b\<lparr>keyboard_buffer := (keyboard_buffer b)(unat (keyboard_buffer_head b) := c)\<rparr>) kc) =
    upd_kbd (ring_put c) kc" by (simp add: upd_kbd_def ring_put_def)
  have k': "k' = kb \<or> k' = kc \<or> keyboard_process_char c kc = Some k' \<or> k' = echo_char c (upd_kbd (ring_put c) kc)"
    using i by (auto simp: keyboard_isr_def a b p Let_def upd split: if_splits)
  have "devs kb = devs k" using devs_inb [of KEYBOARD_PORT_CONTROL k] devs_inb [of KEYBOARD_PORT_DATA_READ ka] a b by simp
  then have kb: "dev_typed kb" using t dev_typed_cong by blast
  then have kc: "dev_typed kc" using p
    by (auto simp: keyboard_process_scancode_def Let_def dev_typed_devs devs_def ring_ok_def split: if_splits)
  then have "dev_typed (upd_kbd (ring_put c) kc)"
    using ring_put_correct(1) by (auto simp: dev_typed_devs devs_def)
  then show ?thesis using kb kc k' ring_kept_typed [OF process_char_kept] dev_typed_cong [OF devs_echo] by blast
qed

section \<open>Requests and rounds\<close>

lemma dev_typed_ret: "ret_to p res = Some k' \<Longrightarrow> (\<And>r k1. res = Some (r, k1) \<Longrightarrow> dev_typed k1) \<Longrightarrow> dev_typed k'"
  by (auto simp: ret_to_def dev_typed_set_pcb)

lemma dev_typed_cur [simp]: "dev_typed (cur_ret r k) = dev_typed k" "(\<And>u. p_fd_table (f u) = p_fd_table u) \<Longrightarrow> dev_typed (set_cur f k) = dev_typed k"
  "dev_typed (run_next k) = dev_typed k" "dev_typed (end_of_intr k) = dev_typed k" "dev_typed (upd_mem g k) = dev_typed k"
  "dev_typed (emit e k) = dev_typed k"
  by (rule dev_typed_cong, simp)+

lemma dev_typed_keep: "devs k' = devs k \<Longrightarrow> dev_typed k \<Longrightarrow> dev_typed k'"
  using dev_typed_cong by blast

text \<open>Handlers that do not touch devices.\<close>

lemma handlers_keep:
  "handle_syscall_create k = Some (r, k') \<Longrightarrow> devs k' = devs k" "handle_syscall_kill k = Some (r, k') \<Longrightarrow> devs k' = devs k"
  "handle_syscall_wait k = Some k' \<Longrightarrow> devs k' = devs k" "handle_syscall_sleep k = Some k' \<Longrightarrow> devs k' = devs k"
  "handle_syscall_send k = Some (r, k') \<Longrightarrow> devs k' = devs k" "handle_syscall_recv k = Some (r, k') \<Longrightarrow> devs k' = devs k"
  "handle_syscall_cputimes k = (r, k') \<Longrightarrow> devs k' = devs k" "handle_syscall_sighandler k = Some (r, k') \<Longrightarrow> devs k' = devs k"
  "handle_syscall_sigreturn k = Some k' \<Longrightarrow> devs k' = devs k"
  by (auto simp: handle_syscall_create_def handle_syscall_kill_def handle_syscall_wait_def handle_syscall_sleep_def
      handle_syscall_send_def handle_syscall_recv_def handle_syscall_cputimes_def handle_syscall_sighandler_def
      handle_syscall_sigreturn_def fill_processStatus_def Let_def bind_eq_Some_conv split_beta split: if_splits dest!: devs_frame)

lemma device_handlers_typed:
  assumes "dev_typed k"
  shows "handle_syscall_open k = Some k' \<Longrightarrow> dev_typed k'" "handle_syscall_close k = Some k' \<Longrightarrow> dev_typed k'"
    "handle_syscall_write k = Some k' \<Longrightarrow> dev_typed k'" "handle_syscall_read k = Some k' \<Longrightarrow> dev_typed k'"
    "handle_syscall_ioctl k = Some k' \<Longrightarrow> dev_typed k'"
proof -
  have some: "dev_typed k1" if "m = Some (r, k1)" "p \<noteq> NullPcb \<Longrightarrow> \<exists>r k'. m = Some (r, k') \<and> dev_typed k'" "m = do { ASSERT (p \<noteq> NullPcb); m }"
    for m :: "(i32 \<times> kernel) option" and p r k1
    using that by (cases "p = NullPcb") auto
  have A: "di_close p fd k = do { ASSERT (p \<noteq> NullPcb); di_close p fd k }" "di_write p fd b n k = do { ASSERT (p \<noteq> NullPcb); di_write p fd b n k }"
    "di_ioctl p fd c a k = do { ASSERT (p \<noteq> NullPcb); di_ioctl p fd c a k }" for p fd b n c a
    by (cases "p = NullPcb"; simp add: di_close_def di_write_def di_ioctl_def)+
  note C = some [OF _ di_calls_typed(1) [OF assms] A(1)] some [OF _ di_calls_typed(2) [OF assms] A(2)] some [OF _ di_calls_typed(3) [OF assms] A(3)]
  have R: "dev_typed k1" if "di_read p fd b n k = Some (r, k1)" for p fd b n r k1
    using that di_calls_typed(4) [OF assms] by (cases "p = NullPcb") (simp add: di_read_def, blast)
  show "handle_syscall_open k = Some k' \<Longrightarrow> dev_typed k'"
    using assms by (auto simp: handle_syscall_open_def bind_eq_Some_conv dest: di_open_typed)
  show "handle_syscall_close k = Some k' \<Longrightarrow> dev_typed k'"
    by (auto simp: handle_syscall_close_def bind_eq_Some_conv dest: C)
  show "handle_syscall_write k = Some k' \<Longrightarrow> dev_typed k'"
    using assms by (auto simp: handle_syscall_write_def Let_def bind_eq_Some_conv split: if_splits dest: C)
  show "handle_syscall_ioctl k = Some k' \<Longrightarrow> dev_typed k'"
    by (auto simp: handle_syscall_ioctl_def bind_eq_Some_conv dest: C)
  show "handle_syscall_read k = Some k' \<Longrightarrow> dev_typed k'"
    using assms by (auto simp: handle_syscall_read_def Let_def bind_eq_Some_conv split: if_splits dest: R)
qed

lemma if_someE: "(if b then x else y) = Some z \<Longrightarrow> (x = Some z \<Longrightarrow> P) \<Longrightarrow> (y = Some z \<Longrightarrow> P) \<Longrightarrow> P"
  by (cases b) simp_all

lemma request_typed:
  assumes "handle_request req k = Some k'" "dev_typed k"
  shows "dev_typed k'"
proof -
  note H = handlers_keep [of k, THEN dev_typed_keep, OF _ assms(2)]
  have tick: "dev_typed k'" if "do {
        k \<leftarrow> on_procs tick k;
        let k = set_cur (\<lambda>u. u\<lparr>p_cpu_time := p_cpu_time u + 1\<rparr>) k;
        k \<leftarrow> (if p_pid (cur_pcb k) \<noteq> 0 then on_procs (add_pcb_to_ready_queue (process k)) k else Some k);
        Some (end_of_intr (run_next k))
      } = Some k'"
    using that assms(2) by (auto simp: Let_def bind_eq_Some_conv split: if_splits dest!: devs_frame dev_typed_cong)
  have keep: "on_procs (add_pcb_to_ready_queue (process k)) k = Some z \<Longrightarrow> dev_typed z" "cleanup_pcb (process k) k = Some z \<Longrightarrow> dev_typed z" for z
    using assms(2) by (auto dest!: devs_frame dev_typed_cong)
  have "ret_to p (handle_syscall_create k) = Some k' \<Longrightarrow> dev_typed k'" "ret_to p (handle_syscall_kill k) = Some k' \<Longrightarrow> dev_typed k'"
    "ret_to p (handle_syscall_send k) = Some k' \<Longrightarrow> dev_typed k'" "ret_to p (handle_syscall_recv k) = Some k' \<Longrightarrow> dev_typed k'"
    "ret_to p (Some (handle_syscall_cputimes k)) = Some k' \<Longrightarrow> dev_typed k'" "ret_to p (handle_syscall_sighandler k) = Some k' \<Longrightarrow> dev_typed k'" for p
    by (erule dev_typed_ret, auto intro: H)+
  note F = this device_handlers_typed [OF assms(2)] H(3,9)
  show ?thesis
    using assms(1) unfolding handle_request_def
    by (elim if_someE) (assumption | erule F tick | use assms(2) in \<open>auto intro: keep H(4) dest: keyboard_isr_typed simp: handle_syscall_puts_def\<close>)+
qed

lemma devs_switch:
  "contextswitch_enter p k = Some k' \<Longrightarrow> devs k' = devs k" "contextswitch_exit p t k = (r, k') \<Longrightarrow> devs k' = devs k" "devs (pick_idle k) = devs k"
  by (auto simp: contextswitch_enter_def contextswitch_exit_def pick_idle_def Let_def bind_eq_Some_conv ASSERT_bind
      split: if_splits trap_kind.splits dest!: devs_frame)

lemma round_typed:
  assumes "dispatch_round t k = Some k'" "dev_typed k"
  shows "dev_typed k'"
proof -
  obtain k1 where k1: "contextswitch_enter (process (pick_idle k)) (pick_idle k) = Some k1"
    using assms(1) by (auto simp: dispatch_round_def Let_def bind_eq_Some_conv)
  obtain req k2 where k2: "contextswitch_exit (process k1) t k1 = (req, k2)" by fastforce
  have "devs k2 = devs k" using devs_switch(1) [OF k1] devs_switch(2) [OF k2] devs_switch(3) by simp
  then have "dev_typed k2" using assms(2) dev_typed_cong by blast
  moreover have "handle_request req k2 = Some k'" using assms(1) unfolding dispatch_round_def Let_def k1 by (simp add: k2)
  ultimately show ?thesis using request_typed by blast
qed

lemma loop_typed: "dispatch_loop ts k = Some k' \<Longrightarrow> dev_typed k \<Longrightarrow> dev_typed k'"
  by (induction ts arbitrary: k) (auto simp: bind_eq_Some_conv dest: round_typed)

section \<open>Start-up\<close>

lemma devs_init_queue: "init_pcb_queue q k = Some k' \<Longrightarrow> devs k' = devs k"
  by (auto simp: init_pcb_queue_def empty_pcb_queue_def bind_eq_Some_conv dest!: devs_frame)

lemma devs_initpcb: "initpcb k = Some k' \<Longrightarrow> devs k' = devs k"
proof -
  have "fdt (fold init_pcb_slot js s) = fdt s" for js s
    by (induction js arbitrary: s) (simp_all add: init_pcb_slot_def)
  then show "initpcb k = Some k' \<Longrightarrow> devs k' = devs k"
    by (auto simp: initpcb_def sleepinit_def Let_def bind_eq_Some_conv dest!: devs_init_queue)
qed

lemma devs_idleinit: "idleinit k = Some (r, k') \<Longrightarrow> devs k' = devs k"
  by (auto simp: idleinit_def Let_def bind_eq_Some_conv split: if_splits dest!: devs_frame)

lemma devs_contextinit: "devs (contextinit k) = devs k"
  by (simp add: contextinit_def set_evec_def Let_def devs_def)

lemma devs_initPIT: "initPIT d k = Some k' \<Longrightarrow> devs k' = devs k"
  by (auto simp: initPIT_def enable_irq_def Let_def split_beta split: if_splits)

text \<open>Setting up the device table: both entries get the handlers, and the ring is empty.\<close>

lemma devsw_init_table: "kbd_devsw_init i e k = Some k' \<Longrightarrow>
    fdt (pt k') = fdt (pt k) \<and> (\<forall>j. dvdriver (dev_table k' j) = (if j = i then KbdDriver else dvdriver (dev_table k j)))"
  by (auto simp: kbd_devsw_init_def Let_def bind_eq_Some_conv ASSERT_bind on_heap_def)

lemma kbd_init_ring: "ring_ok (kbd (snd (kbd_init k)))" "dev_table (snd (kbd_init k)) = dev_table k" "pt (snd (kbd_init k)) = pt k"
  by (simp_all add: kbd_init_def Let_def inb_def ring_ok_def split_beta)

lemma devtable_typed:
  assumes "di_init_devtable k = Some k'" "\<forall>p fd. p_fd_table (the_pcb p k) fd = None"
  shows "dev_typed k'"
proof -
  from assms(1) obtain k1 k2 where k: "kbd_devsw_init DEV_ID_KEYBOARD_NO_ECHO 0 k = Some k1" "kbd_devsw_init DEV_ID_KEYBOARD 1 k1 = Some k2"
    "for_tasks (\<lambda>i k. map_option snd (dvinit (dvdriver (dev_table k i)) k)) [0..<NUM_DEVICES] k2 = Some k'"
    by (auto simp: di_init_devtable_def bind_eq_Some_conv)
  note d = devsw_init_table [OF k(1)] devsw_init_table [OF k(2)]
  have t: "dvdriver (dev_table k2 j) = KbdDriver" if "j < NUM_DEVICES" for j
    using d that by (auto simp: NUM_DEVICES_def DEV_ID_KEYBOARD_def DEV_ID_KEYBOARD_NO_ECHO_def less_Suc_eq numeral_2_eq_2)
  have k': "k' = snd (kbd_init (snd (kbd_init k2)))"
    using k(3) t [of 0] t [of 1] kbd_init_ring(2) by (simp add: NUM_DEVICES_def dvinit_def upt_rec numeral_2_eq_2)
  have "fdt (pt k') = fdt (pt k)" unfolding k' kbd_init_ring(3) using d by simp
  then have "p_fd_table (the_pcb p k') = p_fd_table (the_pcb p k)" for p by (simp add: fdt_def the_pcb_def fun_eq_iff)
  then show ?thesis using assms(2) t kbd_init_ring by (simp add: dev_typed_def k')
qed

text \<open>C7. From a machine whose descriptors are all closed the kernel boots into, and stays in, a state where the
  devices are well typed, whatever traps follow: the indices of the keyboard's ring buffer are in range, both
  entries of the device table have the keyboard's handlers, and every open descriptor is one of the four of its
  process and refers to an entry. So close, write and ioctl, called by any process with any descriptor and any
  arguments, always return: none of them fails an assertion or calls through a handler that is not there.\<close>

theorem devices_stay_typed:
  assumes "initproc ts k = Some k'" "\<forall>p fd. p_fd_table (the_pcb p k) fd = None"
  shows "dev_typed k' \<and> (\<forall>p fd buff n command args. p \<noteq> NullPcb \<longrightarrow>
    di_close p fd k' \<noteq> None \<and> di_write p fd buff n k' \<noteq> None \<and> di_ioctl p fd command args k' \<noteq> None)"
proof -
  let ?k0 = "emit (PrintLog ''Memory manager initialized!'') ((emit (PrintLog ''CPSC 415, 2017W1 32 Bit Xeros -1.0.0 - even before beta'') k)
     \<lparr>heap := kmeminit (heap (emit (PrintLog ''CPSC 415, 2017W1 32 Bit Xeros -1.0.0 - even before beta'') k))\<rparr>)"
  from assms(1) obtain k1 k2 r k3 k4 k5 where k: "di_init_devtable ?k0 = Some k1"
    "initpcb (emit (PrintLog ''Context switcher initialized!'') (contextinit (emit (PrintLog ''Devices initialized!'') k1))) = Some k2"
    "idleinit (emit (PrintLog ''Dispatcher initialized!'') k2) = Some (r, k3)" "rootinit k3 = Some k4" "initPIT 100 k4 = Some k5"
    "dispatch ts (emit (PrintLog ''System initialization complete! Entering dispatcher...'') k5) = Some k'"
    by (auto simp: initproc_def dispinit_def Let_def bind_eq_Some_conv)
  have "dev_typed k1" by (rule devtable_typed [OF k(1)]) (use assms(2) in \<open>simp add: the_pcb_def\<close>)
  moreover have "devs k4 = devs k3" using k(4) by (auto simp: rootinit_def Let_def bind_eq_Some_conv dest!: devs_create)
  then have "devs k5 = devs k1"
    using devs_initpcb [OF k(2)] devs_idleinit [OF k(3)] devs_initPIT [OF k(5)] by (simp add: devs_contextinit)
  ultimately have "dev_typed k5" using dev_typed_cong by blast
  then have "dev_typed (run_next (emit (PrintLog ''System initialization complete! Entering dispatcher...'') k5))" by simp
  then have t: "dev_typed k'" using loop_typed k(6) by (simp add: dispatch_def)
  then show ?thesis using di_calls_typed(1-3) [OF t] by fastforce
qed

theorem devices_stay_typed_witness:
  "\<exists>k. initproc [] power_on = Some k \<and> dev_typed k \<and> di_close (PcbSlot 0) 3 k \<noteq> None"
proof -
  obtain k where k: "initproc [] power_on = Some k" using booted by blast
  have "\<forall>p fd. p_fd_table (the_pcb p power_on) fd = None" by (simp add: power_on_def the_pcb_def demo_pcb_def)
  from devices_stay_typed [OF k this] k show ?thesis by blast
qed

end
