(* ===== verification/Status_Report.thy ===== *)
theory Status_Report
  imports Kernel_Properties
begin

text \<open>
  The report of \<^verbatim>\<open>sysgetcputimes\<close>: the structure in the caller's memory as an array of words, the
  rows the kernel puts there, and what happens when the table is full.
\<close>

unbundle bit_operations_syntax

section \<open>The rows of the report\<close>

type_synonym row = "u32 \<times> u32 \<times> u32"

definition idle_row :: "procs \<Rightarrow> row" where
  "idle_row s = (let u = pcbs s IdlePcb in (p_pid u, state_num (p_state u), p_cpu_time u * 10))"

definition slot_row :: "u32 \<Rightarrow> procs \<Rightarrow> nat \<Rightarrow> row" where
  "slot_row pid s i = (let u = pcbs s (PcbSlot i) in
     (p_pid u, if pid = p_pid u then 2 else state_num (p_state u) + blocked_num (p_blocked_status u), p_cpu_time u * 10))"

definition in_use :: "procs \<Rightarrow> nat \<Rightarrow> bool" where
  "in_use s i \<longleftrightarrow> p_state (pcbs s (PcbSlot i)) \<noteq> PROC_STATE_STOPPED"

definition report :: "u32 \<Rightarrow> procs \<Rightarrow> row list" where
  "report pid s = map (slot_row pid s) (filter (in_use s) [0..<32])"

definition put_row :: "nat \<Rightarrow> row \<Rightarrow> (nat \<Rightarrow> u32) \<Rightarrow> nat \<Rightarrow> u32" where
  "put_row c r v = v(Suc c := fst r, 33 + c := fst (snd r), 65 + c := snd (snd r))"

lemma ps_cells:
  "ps_pid ps c = cell ps (Suc c)" "ps_status ps c = cell ps (33 + c)" "ps_cpuTime ps c = cell ps (65 + c)"
  by (simp_all add: ps_pid_def ps_status_def ps_cpuTime_def cell_def)

lemma put_row_memory:
  assumes "words_at m ps 98 v" "c \<le> 32"
  shows "words_at (store32 (store32 (store32 m (ps_pid ps c) p) (ps_status ps c) q) (ps_cpuTime ps c) r) ps 98 (put_row c (p, q, r) v)"
    and "392 \<le> unat (x - ps) \<Longrightarrow> store32 (store32 (store32 m (ps_pid ps c) p) (ps_status ps c) q) (ps_cpuTime ps c) r x = m x"
    and "c < 32 \<Longrightarrow> 388 \<le> unat (x - ps) \<Longrightarrow> store32 (store32 (store32 m (ps_pid ps c) p) (ps_status ps c) q) (ps_cpuTime ps c) r x = m x"
proof -
  show "words_at (store32 (store32 (store32 m (ps_pid ps c) p) (ps_status ps c) q) (ps_cpuTime ps c) r) ps 98 (put_row c (p, q, r) v)"
    unfolding ps_cells put_row_def fst_conv snd_conv by (intro words_at_store assms(1)) (use assms(2) in simp_all)
qed (use assms(2) in \<open>simp_all add: ps_cells store_cell_outside [where n = 98] store_cell_outside [where n = 97]\<close>)

fun put_rows :: "nat \<Rightarrow> row list \<Rightarrow> (nat \<Rightarrow> u32) \<Rightarrow> nat \<Rightarrow> u32" where
  "put_rows c [] v = v"
| "put_rows c (r # rs) v = put_rows (Suc c) rs (put_row (Suc c) r v)"

lemma fill_slots:
  assumes "words_at m ps 98 v" "c + length (filter (in_use s) is) \<le> 32"
  shows "\<exists>m'. fold (fill_slot pid ps s) is (c, m) = (c + length (filter (in_use s) is), m') \<and>
    words_at m' ps 98 (put_rows c (map (slot_row pid s) (filter (in_use s) is)) v) \<and>
    (\<forall>x. 392 \<le> unat (x - ps) \<longrightarrow> m' x = m x) \<and>
    (c + length (filter (in_use s) is) < 32 \<longrightarrow> (\<forall>x. 388 \<le> unat (x - ps) \<longrightarrow> m' x = m x))"
  using assms
proof (induction "is" arbitrary: c m v)
  case (Cons i "is")
  show ?case
  proof (cases "in_use s i")
    case False
    then have "fill_slot pid ps s i (c, m) = (c, m)" by (simp add: fill_slot_def in_use_def)
    with Cons.IH [OF Cons.prems(1)] Cons.prems(2) False show ?thesis by simp
  next
    case True
    obtain p q r where row: "slot_row pid s i = (p, q, r)" by (metis prod_cases3)
    let ?m = "store32 (store32 (store32 m (ps_pid ps (Suc c)) p) (ps_status ps (Suc c)) q) (ps_cpuTime ps (Suc c)) r"
    have f: "fill_slot pid ps s i (c, m) = (Suc c, ?m)"
      using True row by (auto simp: fill_slot_def in_use_def slot_row_def Let_def MS_PER_CLOCK_TICK_def)
    have c: "Suc c \<le> 32" "Suc c + length (filter (in_use s) is) \<le> 32" using Cons.prems(2) True by simp_all
    note put = put_row_memory [OF Cons.prems(1) c(1), where p = p and q = q and r = r]
    from Cons.IH [OF put(1) c(2)] obtain m' where m': "fold (fill_slot pid ps s) is (Suc c, ?m) = (Suc c + length (filter (in_use s) is), m')"
      "words_at m' ps 98 (put_rows (Suc c) (map (slot_row pid s) (filter (in_use s) is)) (put_row (Suc c) (p, q, r) v))"
      "\<And>x. 392 \<le> unat (x - ps) \<Longrightarrow> m' x = ?m x"
      "\<And>x. Suc c + length (filter (in_use s) is) < 32 \<Longrightarrow> 388 \<le> unat (x - ps) \<Longrightarrow> m' x = ?m x"
      by blast
    show ?thesis using m' put(2,3) f row True by (intro exI [of _ m']) auto
  qed
qed simp

definition row_at :: "(nat \<Rightarrow> u32) \<Rightarrow> nat \<Rightarrow> row" where
  "row_at v i = (v (Suc i), v (33 + i), v (65 + i))"

lemma row_at_put: "c < 32 \<Longrightarrow> i < 32 \<Longrightarrow> row_at (put_row c r v) i = (if i = c then r else row_at v i)"
  by (auto simp: row_at_def put_row_def)

lemma row_at_put_rows:
  "c + length rs < 32 \<Longrightarrow> i < 32 \<Longrightarrow>
   row_at (put_rows c rs v) i = (if c < i \<and> i \<le> c + length rs then rs ! (i - Suc c) else row_at v i)"
proof (induction rs arbitrary: c v)
  case (Cons r rs)
  then show ?case by (auto simp: row_at_put nth_Cons' Suc_diff_Suc)
qed auto

lemma put_rows_append: "put_rows c (xs @ ys) v = put_rows (c + length xs) ys (put_rows c xs v)"
  by (induction xs arbitrary: c v) simp_all

lemma report_length: "length (report pid s) \<le> 32"
  unfolding report_def by (metis length_filter_le length_map length_upt minus_nat.diff_0)

text \<open>The two stages of the report: the idle process, then the slots in use.\<close>

lemma fill_processStatus_cells:
  "\<exists>m'. fill_processStatus p ps k = (of_nat (length (report (p_pid (the_pcb p k)) (pt k))), upd_mem (\<lambda>_. m') k) \<and>
    words_at m' ps 98 (put_rows 0 (report (p_pid (the_pcb p k)) (pt k)) (put_row 0 (idle_row (pt k)) (\<lambda>j. load32 (kmem k) (cell ps j)))) \<and>
    (length (report (p_pid (the_pcb p k)) (pt k)) < 32 \<longrightarrow> (\<forall>x. 388 \<le> unat (x - ps) \<longrightarrow> m' x = kmem k x))"
proof -
  obtain a b c where row: "idle_row (pt k) = (a, b, c)" by (metis prod_cases3)
  let ?m = "store32 (store32 (store32 (kmem k) (ps_pid ps 0) a) (ps_status ps 0) b) (ps_cpuTime ps 0) c"
  note put = put_row_memory [OF words_at_self [of "kmem k" ps 98], where c = 0 and p = a and q = b and r = c]
  have n: "0 + length (filter (in_use (pt k)) [0..<32]) \<le> 32" using report_length [of 0 "pt k"] by (simp add: report_def)
  from fill_slots [OF put(1) n, of "p_pid (the_pcb p k)"] obtain m' where m':
    "fold (fill_slot (p_pid (the_pcb p k)) ps (pt k)) [0..<32] (0, ?m) = (length (filter (in_use (pt k)) [0..<32]), m')"
    "words_at m' ps 98 (put_rows 0 (report (p_pid (the_pcb p k)) (pt k)) (put_row 0 (idle_row (pt k)) (\<lambda>j. load32 (kmem k) (cell ps j))))"
    "length (filter (in_use (pt k)) [0..<32]) < 32 \<Longrightarrow> \<forall>x. 388 \<le> unat (x - ps) \<longrightarrow> m' x = ?m x"
    by (auto simp: report_def row simp del: upt_rec_numeral)
  have "fill_processStatus p ps k = (of_nat (length (filter (in_use (pt k)) [0..<32])), upd_mem (\<lambda>_. m') k)"
    using m'(1) row by (simp add: fill_processStatus_def Let_def PCB_TABLE_SIZE_def get_idleproc_def the_pcb_def idle_row_def
        MS_PER_CLOCK_TICK_def del: upt_rec_numeral)
  then show ?thesis using m'(2,3) put(3) by (intro exI [of _ m']) (auto simp: report_def simp del: upt_rec_numeral)
qed

lemma cputimes_accepted:
  assumes "arg k 0 = ps" "ps < HOLESTART \<or> HOLEEND < ps" "ps + sizeof_processStatuses \<le> maxaddr (heap k)"
  shows "handle_syscall_cputimes k = fill_processStatus (process k) ps k"
  using assms by (auto simp: handle_syscall_cputimes_def Let_def)

text \<open>C30. The process report: with a free slot in the table, \<^verbatim>\<open>sysgetcputimes\<close> returns the number of processes other than
  the idle process, and the structure has in its rows the idle process and then these processes in the order of their
  slots, each with its pid, its status (the caller is running, the others have their state and what blocks them)
  and its time in milliseconds. Nothing outside the structure changes.\<close>

theorem cputimes_correct:
  assumes "arg k 0 = ps" "ps < HOLESTART \<or> HOLEEND < ps" "ps + sizeof_processStatuses \<le> maxaddr (heap k)"
    and "\<exists>i<32. \<not> in_use (pt k) i"
  defines "rows \<equiv> report (p_pid (the_pcb (process k) k)) (pt k)"
  shows "\<exists>m'. handle_syscall_cputimes k = (of_nat (length rows), upd_mem (\<lambda>_. m') k) \<and>
    (\<forall>i\<le>length rows. (load32 m' (ps_pid ps i), load32 m' (ps_status ps i), load32 m' (ps_cpuTime ps i)) = (idle_row (pt k) # rows) ! i) \<and>
    (\<forall>x. unat sizeof_processStatuses \<le> unat (x - ps) \<longrightarrow> m' x = kmem k x)"
proof -
  from assms(4) obtain i where "i \<in> set [0..<32]" "\<not> in_use (pt k) i" by auto
  then have "length (filter (in_use (pt k)) [0..<32]) < length [0..<(32::nat)]" by (rule length_filter_less)
  then have n: "length rows < 32" by (simp add: rows_def report_def)
  from fill_processStatus_cells [of "process k" ps k, folded rows_def] n obtain m' where m':
    "fill_processStatus (process k) ps k = (of_nat (length rows), upd_mem (\<lambda>_. m') k)"
    "words_at m' ps 98 (put_rows 0 rows (put_row 0 (idle_row (pt k)) (\<lambda>j. load32 (kmem k) (cell ps j))))"
    "\<forall>x. 388 \<le> unat (x - ps) \<longrightarrow> m' x = kmem k x" by blast
  have "(load32 m' (ps_pid ps i), load32 m' (ps_status ps i), load32 m' (ps_cpuTime ps i)) = (idle_row (pt k) # rows) ! i"
    if "i \<le> length rows" for i
  proof -
    have "(load32 m' (ps_pid ps i), load32 m' (ps_status ps i), load32 m' (ps_cpuTime ps i)) =
        row_at (put_rows 0 rows (put_row 0 (idle_row (pt k)) (\<lambda>j. load32 (kmem k) (cell ps j)))) i"
      using m'(2) n that by (auto simp: row_at_def words_at_def ps_cells)
    then show ?thesis using n that by (auto simp: row_at_put_rows row_at_put nth_Cons' not_less)
  qed
  then show ?thesis using m'(1,3) cputimes_accepted [OF assms(1-3)] by (auto simp: sizeof_processStatuses_def)
qed

text \<open>C39. With all 32 slots in use the report has 33 rows, and the arrays of the structure 32 entries: the pid of the last
  process overwrites the status of the idle process, its status the idle process's time, and its time is stored in the
  word after the structure.\<close>

theorem cputimes_overruns:
  assumes "arg k 0 = ps" "ps < HOLESTART \<or> HOLEEND < ps" "ps + sizeof_processStatuses \<le> maxaddr (heap k)"
    and "\<forall>i<32. in_use (pt k) i"
  shows "\<exists>m'. handle_syscall_cputimes k = (32, upd_mem (\<lambda>_. m') k) \<and>
    (load32 m' (ps_status ps 0), load32 m' (ps_cpuTime ps 0), load32 m' (ps + sizeof_processStatuses)) =
      slot_row (p_pid (the_pcb (process k) k)) (pt k) 31"
proof -
  let ?pid = "p_pid (the_pcb (process k) k)"
  have "filter (in_use (pt k)) [0..<32] = [0..<32]" using assms(4) by (intro filter_True) (auto simp del: upt_rec_numeral)
  also have "\<dots> = [0..<31] @ [31]" using upt_Suc_append [of 0 31] by (simp del: upt_rec_numeral upt_Suc)
  finally have r: "report ?pid (pt k) = map (slot_row ?pid (pt k)) [0..<31] @ [slot_row ?pid (pt k) 31]"
    by (simp add: report_def del: upt_rec_numeral)
  from fill_processStatus_cells [of "process k" ps k, unfolded r] obtain m' v where m':
    "fill_processStatus (process k) ps k = (32, upd_mem (\<lambda>_. m') k)"
    "words_at m' ps 98 (put_rows 0 (map (slot_row ?pid (pt k)) [0..<31] @ [slot_row ?pid (pt k) 31]) v)"
    by (auto simp del: upt_rec_numeral)
  then have "words_at m' ps 98 (put_row 32 (slot_row ?pid (pt k) 31) (put_rows 0 (map (slot_row ?pid (pt k)) [0..<31]) v))"
    by (simp add: put_rows_append del: upt_rec_numeral)
  moreover have "ps + sizeof_processStatuses = cell ps 97" by (simp add: cell_def sizeof_processStatuses_def)
  ultimately show ?thesis using m'(1) cputimes_accepted [OF assms(1-3)]
    by (intro exI [of _ m']) (simp add: words_at_def ps_cells put_row_def del: upt_rec_numeral)
qed

text \<open>A process in slot 7 that asks for the report at \<open>0x31000\<close>, in a table with the given slots.\<close>

definition report_kernel :: "(nat \<Rightarrow> pcb) \<Rightarrow> kernel" where
  "report_kernel f = upd_mem (\<lambda>_. store32 (\<lambda>_. 0) 0x30000 0x31000)
     (upd_pt (\<lambda>s. s\<lparr>pcbs := (\<lambda>p. case p of PcbSlot i \<Rightarrow> (f i)\<lparr>p_args := 0x30000\<rparr> | _ \<Rightarrow> demo_pcb 8)\<rparr>) demo_kernel)"

lemma report_kernel_simps [simp]:
  "pcbs (pt (report_kernel f)) (PcbSlot i) = (f i)\<lparr>p_args := 0x30000\<rparr>" "process (report_kernel f) = PcbSlot 7"
  by (simp_all add: report_kernel_def)

lemma report_kernel_args:
  "arg (report_kernel f) 0 = 0x31000" "(0x31000 :: addr) < HOLESTART \<or> HOLEEND < 0x31000"
  "0x31000 + sizeof_processStatuses \<le> maxaddr (heap (report_kernel f))"
proof -
  have "maxaddr (heap (report_kernel f)) = 0x3FFFFF"
    by (simp add: report_kernel_def upd_mem_def upd_pt_def kmeminit_def boot_state_def Let_def)
  then show "0x31000 + sizeof_processStatuses \<le> maxaddr (heap (report_kernel f))" by (simp add: sizeof_processStatuses_def)
qed (simp_all add: arg_def va_arg_def cur_pcb_def the_pcb_def report_kernel_def HOLESTART_def)

theorem cputimes_correct_witness:
  "\<exists>m'. handle_syscall_cputimes (report_kernel demo_pcb) = (7, upd_mem (\<lambda>_. m') (report_kernel demo_pcb)) \<and>
     (load32 m' (ps_pid 0x31000 2), load32 m' (ps_status 0x31000 2), load32 m' (ps_cpuTime 0x31000 2)) = (2, 4, 0)"
proof -
  have "report (p_pid (the_pcb (process (report_kernel demo_pcb)) (report_kernel demo_pcb))) (pt (report_kernel demo_pcb)) =
      [(1, 0, 0), (2, 4, 0), (3, 5, 0), (4, 6, 0), (5, 7, 0), (6, 7, 0), (8, 2, 0)]"
    by (simp add: report_def in_use_def slot_row_def demo_pcb_def the_pcb_def upt_rec)
  note c = cputimes_correct [OF report_kernel_args, of demo_pcb, unfolded this]
  have "\<exists>i<32. \<not> in_use (pt (report_kernel demo_pcb)) i" by (intro exI [of _ 31]) (simp add: in_use_def demo_pcb_def)
  from c [OF this] show ?thesis
  proof (elim exE conjE, goal_cases)
    case (1 m')
    from 1(2) [rule_format, of 2] 1(1) show ?case by (intro exI [of _ m']) simp
  qed
qed

theorem cputimes_overruns_witness:
  "\<exists>m'. handle_syscall_cputimes (report_kernel (\<lambda>i. demo_pcb 0\<lparr>p_pid := of_nat i + 1, p_cpu_time := 5\<rparr>)) =
      (32, upd_mem (\<lambda>_. m') (report_kernel (\<lambda>i. demo_pcb 0\<lparr>p_pid := of_nat i + 1, p_cpu_time := 5\<rparr>))) \<and>
     load32 m' (ps_status 0x31000 0) = 32 \<and> load32 m' (0x31000 + 388) = 50"
proof -
  have "\<forall>i<32. in_use (pt (report_kernel (\<lambda>i. demo_pcb 0\<lparr>p_pid := of_nat i + 1, p_cpu_time := 5\<rparr>))) i"
    by (simp add: in_use_def demo_pcb_def)
  from cputimes_overruns [OF report_kernel_args this] show ?thesis
    by (auto simp: slot_row_def the_pcb_def sizeof_processStatuses_def)
qed

end
