(* ===== verification/Memory_Safety.thy ===== *)
theory Memory_Safety
  imports Device_Types Status_Report
begin

text \<open>
  Which bytes the kernel writes while it serves a request: the invariant of the readers that wait for the keyboard, whose
  next character has room in their buffers, the frame of each handler, and what a round writes before and after its process runs.
\<close>

unbundle bit_operations_syntax

section \<open>Waiting readers and their buffers\<close>

definition span :: "addr \<Rightarrow> u32 \<Rightarrow> addr set" where
  "span a n = {x. x - a < n}"

definition waits :: "kernel \<Rightarrow> nat \<Rightarrow> bool" where
  "waits k i \<longleftrightarrow> i < KBD_TASK_LIST_SIZE \<and> t_waiting_on_read (the_task i k) \<noteq> 0"

definition reader_buffers :: "kernel \<Rightarrow> addr set" where
  "reader_buffers k = {x. \<exists>i. waits k i \<and> x \<in> span (t_buff (the_task i k)) (t_bufflen (the_task i k))}"

definition readers_ok :: "kernel \<Rightarrow> bool" where
  "readers_ok k \<longleftrightarrow> (\<forall>i. waits k i \<longrightarrow> t_buff_count (the_task i k) < t_bufflen (the_task i k))"

text \<open>A step of the driver: it writes into the buffers of the readers that wait, and no reader gets a larger one.\<close>

definition reads :: "kernel \<Rightarrow> kernel \<Rightarrow> bool" where
  "reads k k' \<longleftrightarrow> (readers_ok k \<longrightarrow> readers_ok k' \<and> reader_buffers k' \<subseteq> reader_buffers k \<and>
     (\<forall>x. x \<notin> reader_buffers k \<longrightarrow> kmem k' x = kmem k x))"

lemma reads_refl: "reads k k"
  by (simp add: reads_def)

lemma reads_trans: "reads k k' \<Longrightarrow> reads k' k'' \<Longrightarrow> reads k k''"
  unfolding reads_def by (metis subset_iff)

abbreviation tasks :: "kernel \<Rightarrow> nat \<Rightarrow> kbd_task" where
  "tasks k \<equiv> kbd_task_list (kbd k)"

lemma same_tasks:
  "tasks k' = tasks k \<Longrightarrow> readers_ok k' \<longleftrightarrow> readers_ok k" "tasks k' = tasks k \<Longrightarrow> reader_buffers k' = reader_buffers k"
  by (simp_all add: readers_ok_def reader_buffers_def waits_def the_task_def)

lemma reads_same: "tasks k' = tasks k \<Longrightarrow> kmem k' = kmem k \<Longrightarrow> reads k k'"
  using same_tasks [of k' k] by (simp add: reads_def)

lemma reads_stop: "tasks k' = (tasks k)(i := (tasks k i)\<lparr>t_waiting_on_read := 0\<rparr>) \<Longrightarrow> kmem k' = kmem k \<Longrightarrow> reads k k'"
  by (auto simp: reads_def readers_ok_def reader_buffers_def waits_def the_task_def split: if_splits)

section \<open>What keeps the memory and the readers\<close>

named_theorems kept \<open>operations that keep the byte memory and the keyboard's statics\<close>

lemma kept_on_procs [kept]: "on_procs f k = Some k' \<Longrightarrow> kmem k' = kmem k \<and> kbd k' = kbd k"
  "on_procs_ret g k = Some (x, k') \<Longrightarrow> kmem k' = kmem k \<and> kbd k' = kbd k"
  by (auto simp: on_procs_def on_procs_ret_def kmem_def)

lemma kept_simps [simp]:
  "kmem (k\<lparr>process := p\<rparr>) = kmem k" "kmem (k\<lparr>pt := s\<rparr>) = kmem k"
  "kmem (snd (inb port k)) = kmem k" "kbd (snd (inb port k)) = kbd k" "kmem (echo_char c k) = kmem k" "kbd (echo_char c k) = kbd k"
  "kmem (run_next k) = kmem k" "kbd (run_next k) = kbd k" "kmem (cur_ret r k) = kmem k" "kbd (cur_ret r k) = kbd k"
  "kmem (set_cur f k) = kmem k" "kbd (set_cur f k) = kbd k" "kmem (set_task i h k) = kmem k"
  "tasks (set_task i h k) = (tasks k)(i := h (tasks k i))"
  by (simp_all add: kmem_def inb_def emit_def echo_char_def run_next_def cur_ret_def set_cur_def set_task_def split_beta)

lemma unblock_tasks:
  assumes "keyboard_unblock_proc i k = Some k'"
  shows "tasks k' = (tasks k)(i := (tasks k i)\<lparr>t_waiting_on_read := 0\<rparr>)" "kmem k' = kmem k"
  using assms by (auto simp: keyboard_unblock_proc_def Let_def bind_eq_Some_conv split: if_splits dest!: kept)

lemma reads_unblock: "keyboard_unblock_proc i k = Some k' \<Longrightarrow> reads k k'"
  using unblock_tasks by (blast intro: reads_stop)

lemma reads_give:
  assumes "give_char c i k = Some k'" "i < KBD_TASK_LIST_SIZE"
  shows "reads k k'"
proof (cases "t_waiting_on_read (the_task i k) = 0")
  case True
  then show ?thesis using assms(1) by (simp add: give_char_def reads_refl)
next
  case False
  let ?t = "tasks k i"
  let ?m = "(kmem k)(t_buff ?t + t_buff_count ?t := c)"
  let ?k = "echo_char c (set_task i (\<lambda>t. t\<lparr>t_buff_count := t_buff_count t + 1\<rparr>) (upd_mem (\<lambda>m. m(t_buff (the_task i k) + t_buff_count (the_task i k) := c)) k))"
  have k1: "kmem ?k = ?m" "tasks ?k = (tasks k)(i := ?t\<lparr>t_buff_count := t_buff_count ?t + 1\<rparr>)" by (simp_all add: the_task_def fun_upd_def)
  have c: "t_buff_count ?t + 1 \<noteq> t_bufflen ?t \<and> k' = ?k \<or> keyboard_unblock_proc i ?k = Some k'"
    using assms(1) False by (auto simp: give_char_def Let_def the_task_def split: if_splits)
  have w: "waits k i" using False assms(2) by (simp add: waits_def)
  show ?thesis unfolding reads_def
  proof (intro impI)
    assume ok: "readers_ok k"
    then have l: "t_buff_count ?t < t_bufflen ?t" using w by (simp add: readers_ok_def the_task_def)
    have m: "kmem k' = ?m" using c unblock_tasks(2) [of i ?k k'] k1(1) by auto
    have t: "tasks k' j = tasks k j" if "j \<noteq> i" for j using c unblock_tasks(1) [of i ?k k'] k1(2) that by auto
    have ti: "t_buff (tasks k' i) = t_buff ?t" "t_bufflen (tasks k' i) = t_bufflen ?t"
      "t_waiting_on_read (tasks k' i) \<noteq> 0 \<Longrightarrow> t_buff_count (tasks k' i) < t_bufflen ?t"
    proof -
      show "t_buff (tasks k' i) = t_buff ?t" "t_bufflen (tasks k' i) = t_bufflen ?t"
        using c unblock_tasks(1) [of i ?k k'] k1(2) by auto
      assume "t_waiting_on_read (tasks k' i) \<noteq> 0"
      then have "t_buff_count ?t + 1 \<noteq> t_bufflen ?t" "k' = ?k" using c unblock_tasks(1) [of i ?k k'] by auto
      moreover have "t_buff_count ?t + 1 \<le> t_bufflen ?t" using l by (rule inc_le)
      ultimately show "t_buff_count (tasks k' i) < t_bufflen ?t" using k1(2) by simp
    qed
    have "waits k' j \<Longrightarrow> waits k j" for j using t [of j] w by (cases "j = i") (auto simp: waits_def the_task_def)
    moreover have "t_buff (tasks k' j) = t_buff (tasks k j) \<and> t_bufflen (tasks k' j) = t_bufflen (tasks k j)" for j
      using t [of j] ti(1,2) by (cases "j = i") auto
    ultimately have "reader_buffers k' \<subseteq> reader_buffers k" by (auto simp: reader_buffers_def the_task_def)
    moreover have "readers_ok k'" unfolding readers_ok_def
    proof (intro allI impI)
      fix j assume "waits k' j"
      then show "t_buff_count (the_task j k') < t_bufflen (the_task j k')"
        using ok t [of j] ti by (cases "j = i") (auto simp: readers_ok_def waits_def the_task_def)
    qed
    moreover have "t_buff ?t + t_buff_count ?t \<in> reader_buffers k"
      using w l by (auto simp: reader_buffers_def span_def the_task_def)
    ultimately show "readers_ok k' \<and> reader_buffers k' \<subseteq> reader_buffers k \<and> (\<forall>x. x \<notin> reader_buffers k \<longrightarrow> kmem k' x = kmem k x)"
      using m by auto
  qed
qed

lemma reads_tasks:
  assumes "\<And>i k k'. i < KBD_TASK_LIST_SIZE \<Longrightarrow> f i k = Some k' \<Longrightarrow> reads k k'" "set js \<subseteq> {..<KBD_TASK_LIST_SIZE}"
  shows "for_tasks f js k = Some k' \<Longrightarrow> reads k k'"
  using assms(2)
proof (induction js arbitrary: k)
  case (Cons j js)
  then show ?case by (auto simp: bind_eq_Some_conv intro: reads_trans [OF assms(1)])
qed (simp add: reads_refl)

lemma kept_int [simp]: "tasks (setKbdInt b k) = tasks k"
  by simp

lemma reads_process_char:
  assumes "keyboard_process_char c k = Some k'"
  shows "reads k k'"
proof (cases "c = keyboard_eof (kbd k)")
  case True
  let ?k = "upd_kbd (\<lambda>b. b\<lparr>kbd_done := 1\<rparr>) (setKbdInt 0 k)"
  have "reads k ?k" by (rule reads_same) simp_all
  moreover have "for_tasks (\<lambda>i k. if t_waiting_on_read (the_task i k) \<noteq> 0 then keyboard_unblock_proc i k else Some k) [0..<KBD_TASK_LIST_SIZE] ?k = Some k'"
    using assms True by (simp add: keyboard_process_char_def keyboard_handle_eof_def Let_def)
  then have "reads ?k k'" by (rule reads_tasks [rotated 2]) (auto split: if_splits intro: reads_unblock reads_refl)
  ultimately show ?thesis by (rule reads_trans)
next
  case False
  then have "for_tasks (give_char c) [0..<KBD_TASK_LIST_SIZE] k = Some k'" using assms by (simp add: keyboard_process_char_def)
  then show ?thesis by (rule reads_tasks [rotated 2]) (auto intro: reads_give)
qed

lemma reads_flush: "keyboard_flush_buffer k = Some k' \<Longrightarrow> reads k k'"
proof (rule keyboard_flush_buffer.raw_induct [rotated, where P = reads])
  fix f k k'
  assume IH: "\<And>k k'. f k = Some k' \<Longrightarrow> reads k k'"
    and step: "(if 0 < sint (kbd_task_refcount (kbd k)) \<and> keyboard_buffer_tail (kbd k) \<noteq> keyboard_buffer_head (kbd k)
      then let c = keyboard_buffer (kbd k) (unat (keyboard_buffer_tail (kbd k)))
           in keyboard_process_char c k \<bind> (\<lambda>k. let k = upd_kbd (\<lambda>b. b\<lparr>keyboard_buffer_tail := (keyboard_buffer_tail b + 1) mod KEYBOARD_BUFFER_SIZE\<rparr>) k in f k)
      else Some k) = Some k'"
  show "reads k k'"
  proof (cases "0 < sint (kbd_task_refcount (kbd k)) \<and> keyboard_buffer_tail (kbd k) \<noteq> keyboard_buffer_head (kbd k)")
    case True
    with step obtain k1 where k1: "keyboard_process_char (keyboard_buffer (kbd k) (unat (keyboard_buffer_tail (kbd k)))) k = Some k1"
      "f (upd_kbd ring_drop k1) = Some k'" by (auto simp: bind_eq_Some_conv ring_drop_def [abs_def])
    have "reads k1 (upd_kbd ring_drop k1)" by (rule reads_same) (simp_all add: ring_drop_def)
    then show ?thesis using reads_trans [OF reads_process_char [OF k1(1)]] reads_trans IH [OF k1(2)] by blast
  next
    case False
    then show ?thesis using step by (subst (asm) if_not_P) (simp_all add: reads_refl)
  qed
qed


section \<open>The device calls\<close>

lemma reads_kbd_read:
  assumes "kbd_read p blk buff n k = Some (r, k')" "0 < n" "readers_ok k"
  shows "readers_ok k' \<and> (\<forall>x. x \<notin> span buff n \<union> reader_buffers k \<longrightarrow> kmem k' x = kmem k x)"
proof -
  let ?i = "task_index p k"
  define k1 where "k1 = upd_kbd (\<lambda>b. b\<lparr>kbd_task_refcount := kbd_task_refcount b + 1\<rparr>) k"
  define k2 where "k2 = set_task ?i (\<lambda>t. t\<lparr>t_pcb := p, t_buff := buff, t_buff_count := 0, t_bufflen := n, t_waiting_on_read := 1\<rparr>) k1"
  have "kbd_read p blk buff n k = Option.bind (keyboard_flush_buffer k2) (\<lambda>k3. Some (
       if t_buff_count (the_task ?i k3) = n then (n, k3)
       else if kbd_done (kbd k3) \<noteq> 0 then (t_buff_count (the_task ?i k3), k3)
       else (KBD_BLOCKERR, k3)))" by (simp only: kbd_read_def Let_def k1_def k2_def)
  with assms(1) have f: "keyboard_flush_buffer k2 = Some k'" by (cases "keyboard_flush_buffer k2") (simp_all split: if_splits)
  have t: "tasks k2 = (tasks k)(?i := (tasks k ?i)\<lparr>t_pcb := p, t_buff := buff, t_buff_count := 0, t_bufflen := n, t_waiting_on_read := 1\<rparr>)"
    and m: "kmem k2 = kmem k" by (simp_all add: k2_def k1_def)
  have "readers_ok k2" using assms(2,3) t by (auto simp: readers_ok_def waits_def the_task_def)
  moreover have "reader_buffers k2 \<subseteq> span buff n \<union> reader_buffers k"
    using t by (auto simp: reader_buffers_def waits_def the_task_def split: if_splits)
  ultimately show ?thesis using reads_flush [OF f] m unfolding reads_def by auto
qed

lemma kbd_calls_keep:
  "kbd_open p blk k = Some (r, k') \<Longrightarrow> kmem k' = kmem k \<and> tasks k' = tasks k"
  "kbd_ioctl p blk c a k = (r, k') \<Longrightarrow> kmem k' = kmem k \<and> tasks k' = tasks k"
  "kbd_close p blk k = (r, k') \<Longrightarrow> kmem k' = kmem k \<and> (tasks k' = tasks k \<or> (\<exists>i. tasks k' = (tasks k)(i := (tasks k i)\<lparr>t_waiting_on_read := 0\<rparr>)))"
  by (auto simp: kbd_open_def kbd_ioctl_def kbd_ioctl_set_eof_def kbd_close_def Let_def ASSERT_bind split: if_splits)

lemma reads_set_pcb [simp]: "reads k (set_pcb p f k') = reads k k'" "reads k (cur_ret r k') = reads k k'" "reads k (set_cur f k') = reads k k'"
    "reads k (run_next k') = reads k k'" "reads k (end_of_intr k') = reads k k'"
  using same_tasks [of "set_pcb p f k'" k'] same_tasks [of "cur_ret r k'" k'] same_tasks [of "set_cur f k'" k'] same_tasks [of "run_next k'" k']
    same_tasks [of "end_of_intr k'" k'] by (simp_all add: reads_def)

lemma reads_di_calls:
  "di_open p n k = Some (r, k') \<Longrightarrow> kmem k' = kmem k \<and> reads k k'"
  "di_close p fd k = Some (r, k') \<Longrightarrow> kmem k' = kmem k \<and> reads k k'"
  "di_write p fd b n k = Some (r, k') \<Longrightarrow> kmem k' = kmem k \<and> reads k k'"
  "di_ioctl p fd c a k = Some (r, k') \<Longrightarrow> kmem k' = kmem k \<and> reads k k'"
  by (auto simp: di_open_def di_close_def di_write_def di_ioctl_def dvopen_def dvclose_def dvwrite_def dvioctl_def kbd_write_def
      ASSERT_bind Let_def bind_eq_Some_conv split: if_splits driver.splits dest!: kbd_calls_keep
      intro: reads_refl reads_same reads_stop)

lemma reads_isr: "keyboard_isr k = Some k' \<Longrightarrow> reads k k'"
proof -
  assume i: "keyboard_isr k = Some k'"
  obtain s1 ka where a: "inb KEYBOARD_PORT_CONTROL k = (s1, ka)" by fastforce
  obtain s2 kb where b: "inb KEYBOARD_PORT_DATA_READ ka = (s2, kb)" by fastforce
  obtain c kc where p: "keyboard_process_scancode (0x0FF AND ucast s2) kb = (c, kc)" by fastforce
  have k': "k' = kb \<or> k' = kc \<or> keyboard_process_char c kc = Some k' \<or> (tasks k' = tasks kc \<and> kmem k' = kmem kc)"
    using i by (auto simp: keyboard_isr_def a b p Let_def split: if_splits)
  have "kmem kb = kmem k" "tasks kb = tasks k"
    using kept_simps(3,4) [of KEYBOARD_PORT_CONTROL k] kept_simps(3,4) [of KEYBOARD_PORT_DATA_READ ka] a b by simp_all
  then have "reads k kb" by (intro reads_same)
  moreover have "reads kb kc" using p by (intro reads_same) (auto simp: keyboard_process_scancode_def Let_def split: if_splits)
  ultimately show ?thesis using k' reads_trans reads_process_char reads_same reads_refl by metis
qed

section \<open>Requests\<close>

text \<open>The bytes that a request may change, apart from those that manage the heap, pass messages or return from signals.\<close>

definition written :: "u32 \<Rightarrow> kernel \<Rightarrow> addr set" where
  "written r k =
     (if r = SYSCALL_READ then span (arg k 1) (arg k 2) \<union> reader_buffers k
      else if r = KEYBOARD_INT then reader_buffers k
      else if r = SYSCALL_CPUTIMES then span (arg k 0) 392
      else if r = SYSCALL_SIGHANDLER then span (arg k 2) 4 \<union> span (p_signal_table (cur_pcb k) + 4 * arg k 0) 4
      else {})"

definition confined :: "u32 \<Rightarrow> kernel \<Rightarrow> kernel \<Rightarrow> bool" where
  "confined r k k' \<longleftrightarrow> (\<forall>x. x \<notin> written r k \<longrightarrow> kmem k' x = kmem k x)"

lemma kept_handlers:
  "handle_syscall_kill k = Some (r, k') \<Longrightarrow> kmem k' = kmem k" "handle_syscall_wait k = Some k' \<Longrightarrow> kmem k' = kmem k"
  "handle_syscall_sleep k = Some k' \<Longrightarrow> kmem k' = kmem k"
  by (auto simp: handle_syscall_kill_def handle_syscall_wait_def handle_syscall_sleep_def set_pcb_signal_def Let_def bind_eq_Some_conv
      ASSERT_bind split: if_splits blocked_status.splits dest!: kept)

lemma outside_span: "x \<notin> span a n \<Longrightarrow> unat n \<le> unat (x - a)"
  by (simp add: span_def word_le_nat_alt not_less)

lemma sighandler_confined: "handle_syscall_sighandler k = Some (r, k') \<Longrightarrow> confined SYSCALL_SIGHANDLER k k'"
proof -
  assume "handle_syscall_sighandler k = Some (r, k')"
  then have "k' = k \<or> (\<exists>v w. kmem k' = store32 (store32 (kmem k) (arg k 2) v) (p_signal_table (cur_pcb k) + 4 * arg k 0) w)"
    by (auto simp: handle_syscall_sighandler_def Let_def bind_eq_Some_conv cur_pcb_def split: if_splits) blast+
  then show ?thesis by (auto simp: confined_def written_def request_defs store32_far dest!: outside_span)
qed

lemma cputimes_confined: "handle_syscall_cputimes k = (r, k') \<Longrightarrow> confined SYSCALL_CPUTIMES k k'"
proof -
  assume h: "handle_syscall_cputimes k = (r, k')"
  define f where "f = fill_processStatus (process k) (arg k 0) k"
  have "k' = k \<or> (r, k') = f" using h by (auto simp: handle_syscall_cputimes_def Let_def f_def split: if_splits)
  moreover have "kmem (snd f) x = kmem k x" if x: "392 \<le> unat (x - arg k 0)" for x
  proof -
    obtain p q s where i: "p = p_pid (the_pcb get_idleproc k)" "q = state_num (p_state (the_pcb get_idleproc k))"
      "s = p_cpu_time (the_pcb get_idleproc k) * MS_PER_CLOCK_TICK" by blast
    let ?m = "store32 (store32 (store32 (kmem k) (ps_pid (arg k 0) 0) p) (ps_status (arg k 0) 0) q) (ps_cpuTime (arg k 0) 0) s"
    have "words_at ?m (arg k 0) 98 (put_row 0 (p, q, s) (\<lambda>j. load32 (kmem k) (cell (arg k 0) j)))"
      and m: "?m x = kmem k x" by (rule put_row_memory [OF words_at_self] | simp add: x)+
    moreover have "length (filter (in_use (pt k)) [0..<32]) \<le> 32" using length_filter_le [of "in_use (pt k)" "[0..<32]"] by simp
    ultimately obtain m' where "fold (fill_slot (p_pid (the_pcb (process k) k)) (arg k 0) (pt k)) [0..<32] (0, ?m) =
        (0 + length (filter (in_use (pt k)) [0..<32]), m')" "\<forall>x. 392 \<le> unat (x - arg k 0) \<longrightarrow> m' x = ?m x"
      using fill_slots [of ?m "arg k 0" _ 0 "pt k" "[0..<32]"] by (metis add_0)
    then show ?thesis using m x by (simp add: f_def fill_processStatus_def Let_def i PCB_TABLE_SIZE_def)
  qed
  ultimately show ?thesis by (auto simp: confined_def written_def request_defs dest!: outside_span)
qed

lemma read_confined:
  assumes "handle_syscall_read k = Some k'" "readers_ok k"
  shows "readers_ok k' \<and> confined SYSCALL_READ k k'"
proof (cases "kmem k' = kmem k \<and> tasks k' = tasks k")
  case True
  then show ?thesis using assms(2) same_tasks(1) [of k' k] by (simp add: confined_def)
next
  case False
  obtain x where v: "verify_sysptr (arg k 1) (arg k 2) (heap k) = Some x" using assms(1)
    by (auto simp: handle_syscall_read_def Let_def bind_eq_Some_conv)
  then have "0 < sint (arg k 2)" by (auto simp: verify_sysptr_def ASSERT_bind split: if_splits)
  then have n: "0 < arg k 2" by (metis not_gr_zero sint_0 less_irrefl word_neq_0_conv)
  from assms(1) v False obtain r k1 where k1: "di_read (process k) (arg k 0) (arg k 1) (arg k 2) k = Some (r, k1)"
    "kmem k' = kmem k1" "tasks k' = tasks k1"
    by (auto simp: handle_syscall_read_def Let_def bind_eq_Some_conv split: if_splits)
  then have "k1 = k \<or> (\<exists>blk. kbd_read (process k) blk (arg k 1) (arg k 2) k = Some (r, k1))"
    by (auto simp: di_read_def dvread_def ASSERT_bind Let_def split: if_splits driver.splits)
  then have "readers_ok k1 \<and> (\<forall>x. x \<notin> span (arg k 1) (arg k 2) \<union> reader_buffers k \<longrightarrow> kmem k1 x = kmem k x)"
    using reads_kbd_read [OF _ n assms(2)] assms(2) by auto
  then show ?thesis using k1(2,3) same_tasks(1) [of k' k1] by (simp add: confined_def written_def)
qed

lemma readers_keep: "devs k' = devs k \<Longrightarrow> readers_ok k \<Longrightarrow> readers_ok k'"
  using same_tasks(1) [of k' k] by (simp add: devs_def)

lemma confined_kept: "kmem k' = kmem k \<Longrightarrow> confined r k k'"
  by (simp add: confined_def)

definition manages_memory :: "u32 \<Rightarrow> bool" where
  "manages_memory r \<longleftrightarrow> r \<in> {SYSCALL_CREATE, SYSCALL_STOP, SYSCALL_SEND, SYSCALL_RECV, SYSCALL_SIGRETURN}"

text \<open>What a request does to the readers and to the memory.\<close>

definition tidy :: "u32 \<Rightarrow> kernel \<Rightarrow> kernel \<Rightarrow> bool" where
  "tidy r k k' \<longleftrightarrow> readers_ok k' \<and> (\<not> manages_memory r \<longrightarrow> confined r k k')"

lemma tidy_keep: "devs k' = devs k \<Longrightarrow> readers_ok k \<Longrightarrow> kmem k' = kmem k \<or> manages_memory r \<Longrightarrow> tidy r k k'"
  using readers_keep confined_kept unfolding tidy_def by blast

lemma tidy_ret: "ret_to p res = Some k' \<Longrightarrow> (\<And>r k1. res = Some (r, k1) \<Longrightarrow> tidy q k k1) \<Longrightarrow> tidy q k k'"
proof -
  assume a: "ret_to p res = Some k'" "\<And>r k1. res = Some (r, k1) \<Longrightarrow> tidy q k k1"
  obtain r k1 where r: "res = Some (r, k1)" and k': "k' = set_pcb p (\<lambda>u. u\<lparr>p_ret := r\<rparr>) k1" using a(1) by (auto simp: ret_to_def)
  have "readers_ok k' = readers_ok k1" by (rule same_tasks(1)) (simp add: k')
  moreover have "kmem k' = kmem k1" by (simp add: k')
  ultimately show ?thesis using a(2) [OF r] by (simp add: tidy_def confined_def)
qed

lemma device_request_tidy:
  assumes "readers_ok k"
  shows "handle_syscall_open k = Some k' \<Longrightarrow> tidy r k k'" "handle_syscall_close k = Some k' \<Longrightarrow> tidy r k k'"
    "handle_syscall_write k = Some k' \<Longrightarrow> tidy r k k'" "handle_syscall_ioctl k = Some k' \<Longrightarrow> tidy r k k'"
proof -
  have t: "tidy r k k'" if "kmem k1 = kmem k \<and> reads k k1" "k' = cur_ret x k1" for k' k1 x
  proof -
    have "readers_ok (cur_ret x k1) = readers_ok k1" by (rule same_tasks(1)) simp
    then show ?thesis using that assms by (simp add: tidy_def confined_def reads_def)
  qed
  have u: "tidy r k (cur_ret x k)" for x by (rule t [OF _ refl]) (simp add: reads_refl)
  show "handle_syscall_open k = Some k' \<Longrightarrow> tidy r k k'" "handle_syscall_close k = Some k' \<Longrightarrow> tidy r k k'"
    "handle_syscall_write k = Some k' \<Longrightarrow> tidy r k k'" "handle_syscall_ioctl k = Some k' \<Longrightarrow> tidy r k k'"
    by (auto simp: handle_syscall_open_def handle_syscall_close_def handle_syscall_write_def handle_syscall_ioctl_def Let_def
        bind_eq_Some_conv split: if_splits intro: t u dest!: reads_di_calls)
qed

lemma request_cases:
  "handle_request SYSCALL_READ k = handle_syscall_read k" "handle_request KEYBOARD_INT k = map_option end_of_intr (keyboard_isr k)"
  "handle_request SYSCALL_OPEN k = handle_syscall_open k" "handle_request SYSCALL_CLOSE k = handle_syscall_close k"
  "handle_request SYSCALL_WRITE k = handle_syscall_write k" "handle_request SYSCALL_IOCTL k = handle_syscall_ioctl k"
  "handle_request SYSCALL_CPUTIMES k = ret_to (process k) (Some (handle_syscall_cputimes k))"
  "handle_request SYSCALL_SIGHANDLER k = ret_to (process k) (handle_syscall_sighandler k)"
  "handle_request SYSCALL_CREATE k = ret_to (process k) (handle_syscall_create k)"
  "handle_request SYSCALL_STOP k = map_option run_next (cleanup_pcb (process k) k)"
  "handle_request SYSCALL_SEND k = ret_to (process k) (handle_syscall_send k)"
  "handle_request SYSCALL_RECV k = ret_to (process k) (handle_syscall_recv k)"
  "handle_request SYSCALL_SIGRETURN k = handle_syscall_sigreturn k"
  "handle_request SYSCALL_YIELD k = map_option run_next (on_procs (add_pcb_to_ready_queue (process k)) k)"
  "handle_request SYSCALL_GETPID k = Some (cur_ret (p_pid (cur_pcb k)) k)"
  "handle_request SYSCALL_KILL k = ret_to (process k) (handle_syscall_kill k)"
  "handle_request SYSCALL_PUTS k = Some (handle_syscall_puts k)"
  "handle_request SYSCALL_SLEEP k = map_option run_next (handle_syscall_sleep k)"
  "handle_request SYSCALL_WAIT k = handle_syscall_wait k"
  "handle_request TIMER_INT k = do {
     k \<leftarrow> on_procs tick k;
     let k = set_cur (\<lambda>u. u\<lparr>p_cpu_time := p_cpu_time u + 1\<rparr>) k;
     k \<leftarrow> (if p_pid (cur_pcb k) \<noteq> 0 then on_procs (add_pcb_to_ready_queue (process k)) k else Some k);
     Some (end_of_intr (run_next k)) }"
  by (simp_all add: handle_request_def request_defs)

lemma ret_to_keeps:
  "ret_to p res = Some k' \<Longrightarrow> (\<And>r k1. res = Some (r, k1) \<Longrightarrow> devs k1 = devs k) \<Longrightarrow> devs k' = devs k"
  "ret_to p res = Some k' \<Longrightarrow> (\<And>r k1. res = Some (r, k1) \<Longrightarrow> kmem k1 = kmem k) \<Longrightarrow> kmem k' = kmem k"
  by (auto simp: ret_to_def)

lemma managing_requests_keep:
  assumes "handle_request r k = Some k'" "manages_memory r"
  shows "devs k' = devs k"
  using assms(2,1) unfolding manages_memory_def
  by (elim insertE emptyE; simp only: request_cases)
    (auto elim!: ret_to_keeps(1) dest: handlers_keep devs_cleanup)

lemma quiet_requests_keep:
  assumes "handle_request r k = Some k'"
    "r \<in> {SYSCALL_YIELD, SYSCALL_GETPID, SYSCALL_KILL, SYSCALL_PUTS, SYSCALL_SLEEP, SYSCALL_WAIT, TIMER_INT}"
  shows "kmem k' = kmem k \<and> devs k' = devs k"
proof -
  have puts: "kmem (handle_syscall_puts k) = kmem k \<and> devs (handle_syscall_puts k) = devs k" by (simp add: handle_syscall_puts_def)
  have "kmem k' = kmem k" using assms(2,1)
    by (elim insertE emptyE; simp only: request_cases)
      (auto simp: Let_def bind_eq_Some_conv puts split: if_splits elim!: ret_to_keeps(2) dest: kept_handlers dest!: kept)
  moreover have "devs k' = devs k" using assms(2,1)
    by (elim insertE emptyE; simp only: request_cases)
      (auto simp: Let_def bind_eq_Some_conv puts split: if_splits elim!: ret_to_keeps(1) dest: handlers_keep dest!: devs_frame)
  ultimately show ?thesis ..
qed

lemma request_tidy:
  assumes "handle_request r k = Some k'" "readers_ok k"
  shows "tidy r k k'"
proof -
  consider "r = SYSCALL_READ" | "r = KEYBOARD_INT" | "r \<in> {SYSCALL_OPEN, SYSCALL_CLOSE, SYSCALL_WRITE, SYSCALL_IOCTL}"
    | "r = SYSCALL_CPUTIMES" | "r = SYSCALL_SIGHANDLER" | "manages_memory r"
    | "r \<in> {SYSCALL_YIELD, SYSCALL_GETPID, SYSCALL_KILL, SYSCALL_PUTS, SYSCALL_SLEEP, SYSCALL_WAIT, TIMER_INT}"
    using assms(1) unfolding handle_request_def manages_memory_def by (simp split: if_split_asm)
  then show ?thesis
  proof cases
    case 1
    then show ?thesis using read_confined assms by (simp add: tidy_def request_cases)
  next
    case 2
    then obtain k1 where "keyboard_isr k = Some k1" "k' = end_of_intr k1" using assms(1) by (auto simp: request_cases)
    then have "reads k k'" using reads_isr by simp
    then show ?thesis using assms(2) 2 by (simp add: tidy_def confined_def reads_def written_def request_defs)
  next
    case 3
    then show ?thesis using assms(1) by (elim insertE emptyE) (simp_all add: request_cases device_request_tidy [OF assms(2)])
  next
    case 4
    obtain x k1 where h: "handle_syscall_cputimes k = (x, k1)" by fastforce
    have "tidy r k k1" using readers_keep [OF handlers_keep(7) [OF h] assms(2)] cputimes_confined [OF h] 4 by (simp add: tidy_def)
    then show ?thesis using assms(1) h unfolding 4 request_cases by (auto intro: tidy_ret)
  next
    case 5
    then have "ret_to (process k) (handle_syscall_sighandler k) = Some k'" using assms(1) by (simp add: request_cases)
    then show ?thesis
      by (rule tidy_ret) (use 5 assms(2) readers_keep handlers_keep(8) sighandler_confined in \<open>unfold tidy_def, blast\<close>)
  next
    case 6
    then show ?thesis using tidy_keep managing_requests_keep [OF assms(1)] assms(2) by blast
  next
    case 7
    then show ?thesis using tidy_keep quiet_requests_keep [OF assms(1)] assms(2) by blast
  qed
qed

section \<open>From the boot on\<close>

lemma readers_round:
  assumes "dispatch_round t k = Some k'" "readers_ok k"
  shows "readers_ok k'"
proof -
  obtain k1 where k1: "contextswitch_enter (process (pick_idle k)) (pick_idle k) = Some k1"
    using assms(1) by (auto simp: dispatch_round_def Let_def bind_eq_Some_conv)
  obtain r k2 where k2: "contextswitch_exit (process k1) t k1 = (r, k2)" by fastforce
  have "devs k2 = devs k" using devs_switch(1) [OF k1] devs_switch(2) [OF k2] devs_switch(3) by simp
  then have "readers_ok k2" using assms(2) by (rule readers_keep)
  moreover have "handle_request r k2 = Some k'" using assms(1) unfolding dispatch_round_def Let_def k1 by (simp add: k2)
  ultimately show ?thesis using request_tidy by (simp add: tidy_def)
qed

lemma readers_loop: "dispatch_loop ts k = Some k' \<Longrightarrow> readers_ok k \<Longrightarrow> readers_ok k'"
  by (induction ts arbitrary: k) (auto simp: bind_eq_Some_conv dest: readers_round)

lemma readers_init: "readers_ok (snd (kbd_init k))"
  by (simp add: readers_ok_def waits_def the_task_def kbd_init_def Let_def split_beta)

lemma devtable_last:
  assumes "di_init_devtable k = Some k'"
  shows "\<exists>k3. k' = snd (kbd_init k3)"
proof -
  obtain k2 where "for_tasks (\<lambda>i k. map_option snd (dvinit (dvdriver (dev_table k i)) k)) [0..<NUM_DEVICES] k2 = Some k'"
    using assms by (auto simp: di_init_devtable_def bind_eq_Some_conv)
  then obtain k3 where "map_option snd (dvinit (dvdriver (dev_table k3 1)) k3) = Some k'"
    by (auto simp: NUM_DEVICES_def upt_rec numeral_2_eq_2 bind_eq_Some_conv)
  then have "k' = snd (kbd_init k3)" by (auto simp: dvinit_def split: driver.splits)
  then show ?thesis ..
qed

lemma readers_devtable: "di_init_devtable k = Some k' \<Longrightarrow> readers_ok k'"
  using devtable_last readers_init by blast

lemma readers_boot:
  assumes "initproc ts k = Some k'"
  shows "readers_ok k'"
proof -
  let ?k0 = "emit (PrintLog ''Memory manager initialized!'') ((emit (PrintLog ''CPSC 415, 2017W1 32 Bit Xeros -1.0.0 - even before beta'') k)
     \<lparr>heap := kmeminit (heap (emit (PrintLog ''CPSC 415, 2017W1 32 Bit Xeros -1.0.0 - even before beta'') k))\<rparr>)"
  from assms obtain k1 k2 r k3 k4 k5 where k: "di_init_devtable ?k0 = Some k1"
    "initpcb (emit (PrintLog ''Context switcher initialized!'') (contextinit (emit (PrintLog ''Devices initialized!'') k1))) = Some k2"
    "idleinit (emit (PrintLog ''Dispatcher initialized!'') k2) = Some (r, k3)" "rootinit k3 = Some k4" "initPIT 100 k4 = Some k5"
    "dispatch ts (emit (PrintLog ''System initialization complete! Entering dispatcher...'') k5) = Some k'"
    by (auto simp: initproc_def dispinit_def Let_def bind_eq_Some_conv)
  have "devs k4 = devs k3" using k(4) by (auto simp: rootinit_def Let_def bind_eq_Some_conv dest!: devs_create)
  then have "devs (run_next (emit (PrintLog ''System initialization complete! Entering dispatcher...'') k5)) = devs k1"
    using devs_initpcb [OF k(2)] devs_idleinit [OF k(3)] devs_initPIT [OF k(5)] by (simp add: devs_contextinit)
  from readers_keep [OF this readers_devtable [OF k(1)]] show ?thesis using readers_loop k(6) by (simp add: dispatch_def)
qed

section \<open>A round\<close>

text \<open>
  Two kinds of stores are not in the byte memory of this model: those of \<^verbatim>\<open>kprintf\<close> to the display, of which the state records
  the call (theory \<^verbatim>\<open>Console\<close> has the stores), and those of \<^verbatim>\<open>get_next_pcb\<close> through the null pointer when no process is
  ready, which go to a PCB of their own. The round that follows prints nothing, and when nobody is ready the first page is left out.
\<close>

definition is_print :: "io_event \<Rightarrow> bool" where
  "is_print e \<longleftrightarrow> (case e of PrintChar c \<Rightarrow> True | PrintFormat a \<Rightarrow> True | PrintLog s \<Rightarrow> True | _ \<Rightarrow> False)"

definition silent :: "kernel \<Rightarrow> kernel \<Rightarrow> bool" where
  "silent k k' \<longleftrightarrow> (\<exists>es. io k' = io k @ es \<and> (\<forall>e\<in>set es. \<not> is_print e))"

lemma enter_confined:
  assumes "contextswitch_enter p k = Some ke" "p_signals_pending (the_pcb p k) = 0" "x \<notin> span (p_esp (the_pcb p k) + cf_eax) 4"
  shows "kmem ke x = kmem k x"
  using assms by (auto simp: contextswitch_enter_def Let_def ASSERT_bind store32_far dest: outside_span)

text \<open>C8. Where a round of the dispatcher writes, in every state that is reached from the boot, whatever traps came. Entering a process with no
  signal pending stores the four bytes of its result in its context frame and no other; then the process runs, and leaves
  what it likes. Serving its request, when this prints nothing (no \<^verbatim>\<open>sysputs\<close>, and no character echoed), changes of what the process
  left only these bytes: for a read, its buffer and the buffers of the readers that wait; for a key, the buffers of
  the readers that wait; for a status report, its 392 bytes; for installing a signal handler, the word for the old one and the word of
  the table. Every other request, and the timer, leaves each byte as it was. When no process is ready, the first 4096 bytes are left out, where
  the kernel stores through a null pointer. Not covered are the requests that
  manage the heap (create, stop), pass messages or return from signals, and the kernel's own variables, which are not in the byte memory.\<close>

theorem kernel_writes_confined:
  assumes "initproc ts k0 = Some k" "p = process (pick_idle k)" "contextswitch_enter p (pick_idle k) = Some ke"
    and "contextswitch_exit p t ke = (r, k1)" "handle_request r k1 = Some k2" "silent k1 k2" "\<not> manages_memory r"
  shows "dispatch_round t k = Some k2 \<and>
    (p_signals_pending (the_pcb p k) = 0 \<longrightarrow> (\<forall>x. x \<notin> span (p_esp (the_pcb p k) + cf_eax) 4 \<longrightarrow> kmem ke x = kmem k x)) \<and>
    kmem k1 = trap_mem t (kmem ke) \<and>
    (\<forall>x. x \<notin> written r k1 \<longrightarrow> (process k2 = NullPcb \<longrightarrow> 0x1000 \<le> x) \<longrightarrow> kmem k2 x = kmem k1 x)"
proof -
  have same: "the_pcb p (pick_idle k) = the_pcb p k" "kmem (pick_idle k) = kmem k" by (simp_all add: pick_idle_def the_pcb_def)
  have e: "entered t k = Some (r, k1)" using assms(2-4) by (simp add: entered_def)
  have "devs k1 = devs k" using devs_switch(1) [OF assms(3)] devs_switch(2) [OF assms(4)] devs_switch(3) by simp
  then have "readers_ok k1" using readers_boot [OF assms(1)] by (rule readers_keep)
  then have "\<forall>x. x \<notin> written r k1 \<longrightarrow> kmem k2 x = kmem k1 x" using request_tidy [OF assms(5)] assms(7) by (simp add: tidy_def confined_def)
  moreover have "kmem k1 = trap_mem t (kmem ke)" using assms(4)
    by (cases "trap_kind t") (auto simp: contextswitch_exit_def Let_def)
  moreover have "dispatch_round t k = Some k2" using e assms(5) by (simp add: dispatch_round_entered)
  ultimately show ?thesis using enter_confined [OF assms(3)] unfolding same by blast
qed

text \<open>The first timer interrupt after the boot changes nothing of what the process left.\<close>

theorem kernel_writes_confined_witness:
  "\<exists>k ke k2. initproc [] power_on = Some k \<and> contextswitch_enter (PcbSlot 0) k = Some ke \<and> dispatch_round idle_tick k = Some k2 \<and>
     kmem k2 0x9000 = kmem ke 0x9000"
proof -
  from booted obtain k where k: "initproc [] power_on = Some k" "sched_ok k" "process k = PcbSlot 0" by blast
  have p: "PcbSlot 0 = process (pick_idle k)" using k(3) by (simp add: pick_idle_def)
  obtain k1 where k1: "entered idle_tick k = Some (TIMER_INT, k1)"
    using entered_returns [of idle_tick k] by (auto simp: contextswitch_exit_def idle_tick_def Let_def)
  then obtain ke where ke: "contextswitch_enter (PcbSlot 0) (pick_idle k) = Some ke" "contextswitch_exit (PcbSlot 0) idle_tick ke = (TIMER_INT, k1)"
    using p by (auto simp: entered_def)
  have "sched_at (parked (pt k)) k1" "process k1 = PcbSlot 0"
    using entered_ok [OF _ k1] k(2,3) by (simp_all add: sched_ok_def pick_idle_def)
  then obtain k2 where k2: "handle_request TIMER_INT k1 = Some k2" using timer_returns [OF sched_ok_at] by fastforce
  have "io k2 = io k1 @ [Outb ICU1 0x20, Outb ICU2 0x20]" using k2
    by (auto simp: request_cases Let_def bind_eq_Some_conv on_procs_def end_of_intr_def outb_def emit_def run_next_def set_cur_def set_pcb_def
        upd_pt_def split_beta split: if_splits)
  then have "silent k1 k2" by (simp add: silent_def is_print_def)
  moreover have "\<not> manages_memory TIMER_INT" "0x9000 \<notin> written TIMER_INT k1" by (simp_all add: manages_memory_def written_def request_defs)
  ultimately have "dispatch_round idle_tick k = Some k2" "kmem k1 = trap_mem idle_tick (kmem ke)" "kmem k2 0x9000 = kmem k1 0x9000"
    using kernel_writes_confined [OF k(1) p ke k2] by auto
  then show ?thesis using k(1,3) ke(1) by (auto simp: idle_tick_def pick_idle_def)
qed

end
