(* ===== verification/Round_Properties.thy ===== *)
theory Round_Properties
  imports Startup
begin

text \<open>
  Rounds of the dispatcher: what entering a process and leaving it keeps of the queues, the processes that a run of the
  dispatcher enters, and the rotation of processes that yield.
\<close>

unbundle bit_operations_syntax

section \<open>The processes that run\<close>

text \<open>The process that each round of a run enters.\<close>

fun schedule :: "trap list \<Rightarrow> kernel \<Rightarrow> pcb_ptr list" where
  "schedule [] k = []"
| "schedule (t # ts) k = process (pick_idle k) #
     (case dispatch_round t k of None \<Rightarrow> [] | Some k' \<Rightarrow> schedule ts k')"

lemma signal_queues: "queues_repr (pt (snd (signal pid n k))) = queues_repr (pt k)"
  by (rule ext) (simp add: signal_def Let_def split_beta queues_repr_upd)

lemma deliver_queues:
  "deliver_highest_priority_signal p k = Some k' \<Longrightarrow> queues_repr (pt k') = queues_repr (pt k)"
  by (rule ext) (auto simp: deliver_highest_priority_signal_def Let_def ASSERT_bind bind_eq_Some_conv signal_queues queues_repr_upd
    split: if_splits)

lemma entered_queues:
  assumes "entered t k = Some (req, k')"
  shows "queues_repr (pt k') = queues_repr (pt k)" "process k' = process (pick_idle k)"
proof -
  let ?p = "process (pick_idle k)"
  obtain k1 where k1: "contextswitch_enter ?p (pick_idle k) = Some k1" "contextswitch_exit ?p t k1 = (req, k')"
    using assms by (auto simp: entered_def)
  have "queues_repr (pt k1) = queues_repr (pt (pick_idle k))" using k1(1)
    by (auto simp: contextswitch_enter_def Let_def ASSERT_bind bind_eq_Some_conv deliver_queues split: if_splits)
  moreover have "queues_repr (pt k') = queues_repr (pt k1)" using k1(2)
    by (intro ext) (auto simp: contextswitch_exit_def Let_def queues_repr_upd split: trap_kind.splits)
  ultimately show "queues_repr (pt k') = queues_repr (pt k)" by (simp add: pick_idle_def)
  show "process k' = ?p" using entered_process [OF k1(1)] k1(2)
    by (auto simp: contextswitch_exit_def Let_def split: trap_kind.splits)
qed

section \<open>Yielding\<close>

text \<open>A round whose process calls \<^verbatim>\<open>sysyield\<close>.\<close>

definition yields :: "trap \<Rightarrow> bool" where
  "yields t \<longleftrightarrow> (\<exists>args r f. t = sys_enter sysyield args r f)"

lemma yield_entered: "yields t \<Longrightarrow> \<exists>k1. entered t k = Some (SYSCALL_YIELD, k1)"
  using entered_returns [of t k] syscall_frame(1)
  by (fastforce simp: yields_def contextswitch_exit_def sys_enter_def syscall_trap_def sysyield_def Let_def)

lemma yield_round:
  assumes "queues_repr (pt k) L" "process k \<noteq> NullPcb" "\<forall>q. process k \<notin> set (L q)" "yields t"
  shows "\<exists>k'. dispatch_round t k = Some k' \<and> process k' # tl (L ReadyQueue @ [process k]) = rotate1 (process k # L ReadyQueue) \<and>
    queues_repr (pt k') (L(ReadyQueue := tl (L ReadyQueue @ [process k])))"
proof -
  from yield_entered [OF assms(4)] obtain k1 where k1: "entered t k = Some (SYSCALL_YIELD, k1)" by blast
  have q: "queues_repr (pt k1) L" "process k1 = process k"
    using entered_queues [OF k1] assms(1,2) by (simp_all add: pick_idle_def)
  from yield_step [OF q(1)] q(2) assms(2,3) obtain k' where
    k': "handle_request SYSCALL_YIELD k1 = Some k'" "process k' = hd (L ReadyQueue @ [process k])"
      "queues_repr (pt k') (L(ReadyQueue := tl (L ReadyQueue @ [process k])))" by auto
  have "process k' # tl (L ReadyQueue @ [process k]) = rotate1 (process k # L ReadyQueue)"
    using k'(2) by (cases "L ReadyQueue") simp_all
  with k1 k' show ?thesis by (simp add: dispatch_round_entered)
qed

text \<open>C15. Yielding is fair. When the current process is in no queue and every round ends in a call of
  \<^verbatim>\<open>sysyield\<close>, the dispatcher runs on; the processes it enters are, one after the other, those of the circle of the
  current process and the ready queue, so that everyone in the circle runs once in every turn of it; and the ready queue stays the rest of
  the circle.\<close>

theorem yield_round_robin:
  assumes "queues_repr (pt k) L" "process k \<noteq> NullPcb" "\<forall>q. process k \<notin> set (L q)" "\<forall>t\<in>set ts. yields t"
  shows "\<exists>k'. dispatch_loop ts k = Some k' \<and>
    schedule ts k = map (\<lambda>i. hd (rotate i (process k # L ReadyQueue))) [0..<length ts] \<and>
    process k' = hd (rotate (length ts) (process k # L ReadyQueue)) \<and>
    queues_repr (pt k') (L(ReadyQueue := tl (rotate (length ts) (process k # L ReadyQueue))))"
  using assms
proof (induction ts arbitrary: k L)
  case (Cons t ts)
  let ?M = "L(ReadyQueue := tl (L ReadyQueue @ [process k]))" and ?c = "process k # L ReadyQueue"
  from yield_round [OF Cons.prems(1-3)] Cons.prems(4) obtain k1 where
    k1: "dispatch_round t k = Some k1" "process k1 # ?M ReadyQueue = rotate1 ?c" "queues_repr (pt k1) ?M" by auto
  have "set (process k1 # ?M ReadyQueue) = set ?c" "distinct (process k1 # ?M ReadyQueue)"
    unfolding k1(2) set_rotate1 distinct1_rotate using queues_repr_distinct [OF Cons.prems(1)] Cons.prems(3) by simp_all
  then have in1: "process k1 \<in> set ?c" "process k1 \<notin> set (?M ReadyQueue)" by auto
  then have "process k1 \<notin> set (L q)" if "q \<noteq> ReadyQueue" for q
    using Cons.prems(3) queues_repr_disjoint [OF Cons.prems(1) _ not_sym [OF that]] by auto
  then have fresh: "\<forall>q. process k1 \<notin> set (?M q)" using in1(2) by simp
  have nn: "process k1 \<noteq> NullPcb"
    using in1(1) Cons.prems(2) queues_repr_nonnull [OF Cons.prems(1), of ReadyQueue] by auto
  have rest: "\<forall>t\<in>set ts. yields t" using Cons.prems(4) by simp
  from Cons.IH [OF k1(3) nn fresh rest, unfolded k1(2) fun_upd_upd] obtain k' where
    k': "dispatch_loop ts k1 = Some k'" "schedule ts k1 = map (\<lambda>i. hd (rotate i (rotate1 ?c))) [0..<length ts]"
      "process k' = hd (rotate (length ts) (rotate1 ?c))" "queues_repr (pt k') (L(ReadyQueue := tl (rotate (length ts) (rotate1 ?c))))"
    by blast
  have r: "rotate n (rotate1 ?c) = rotate (Suc n) ?c" for n by (simp add: rotate_def funpow_swap1 del: rotate1.simps)
  have s: "schedule (t # ts) k = map (\<lambda>i. hd (rotate i ?c)) [0..<length (t # ts)]"
    using k1(1) k'(2) Cons.prems(2) unfolding r by (simp add: pick_idle_def upt_conv_Cons map_Suc_upt [symmetric] del: upt_Suc)
  show ?case
    by (rule exI [of _ k'], unfold s) (use k1(1) k'(1,3,4) in \<open>simp only: r length_Cons dispatch_loop.simps Option.bind.bind_lunit simp_thms\<close>)
qed simp

definition demo_yield :: trap where
  "demo_yield = sys_enter sysyield 0x30008 demo_regs (\<lambda>m. m)"

theorem yield_round_robin_witness:
  "\<exists>k'. dispatch_loop [demo_yield, demo_yield, demo_yield] demo_kernel = Some k' \<and>
     schedule [demo_yield, demo_yield, demo_yield] demo_kernel = [PcbSlot 7, PcbSlot 0, PcbSlot 7] \<and> process k' = PcbSlot 0"
proof -
  have "\<forall>q. process demo_kernel \<notin> set (demo_lists q)" using demo_running by simp
  moreover have "\<forall>t\<in>set [demo_yield, demo_yield, demo_yield]. yields t" by (auto simp: yields_def demo_yield_def)
  ultimately show ?thesis using yield_round_robin [of demo_kernel demo_lists "[demo_yield, demo_yield, demo_yield]"] demo_repr
    by (auto simp: eval_nat_numeral)
qed

end
