(* ===== verification/Reader_Scheduling.thy ===== *)
theory Reader_Scheduling
  imports Memory_Safety Round_Properties
begin

text \<open>
  Scheduling with the keyboard: the processes parked in a device read are those that the driver's task list can make ready.
  The invariant of the queues and the task list together, kept by every request and interrupt, and the states that the
  dispatcher reaches.
\<close>

unbundle bit_operations_syntax

section \<open>Tasks and parked processes\<close>

text \<open>The slot whose process has entry \<open>i\<close> of the driver's task list: the remainder of its pid.\<close>

definition task_slot :: "nat \<Rightarrow> pcb_ptr" where
  "task_slot i = PcbSlot ((i + 31) mod 32)"

lemma task_slot_eq: "i < KBD_TASK_LIST_SIZE \<Longrightarrow> j < KBD_TASK_LIST_SIZE \<Longrightarrow> task_slot i = task_slot j \<longleftrightarrow> i = j"
proof -
  have m: "(n + 31) mod 32 = (if n = 0 then 31 else n - 1)" if "n < 32" for n :: nat
    using that mod_add_self2 [of "n - 1" 32] by (cases "n = 0") (simp_all add: add.commute)
  assume "i < KBD_TASK_LIST_SIZE" "j < KBD_TASK_LIST_SIZE"
  then show ?thesis using m [of i] m [of j] by (auto simp: task_slot_def KBD_TASK_LIST_SIZE_def PCB_TABLE_SIZE_def split: if_splits)
qed

lemma task_slot_index:
  assumes "pids_ok (pt k)" "is_slot p"
  shows "task_slot (task_index p k) = p" "task_index p k < KBD_TASK_LIST_SIZE"
proof -
  obtain j where j: "p = PcbSlot j" "j < 32" using assms(2) by (auto simp: is_slot_def PCB_TABLE_SIZE_def)
  then have "pid_of_slot j (p_pid (the_pcb p k))" using assms(1) by (simp add: pids_ok_def PCB_TABLE_SIZE_def the_pcb_def)
  then obtain n where n: "unat (p_pid (the_pcb p k)) = Suc n" "n mod 32 = j" by (cases "unat (p_pid (the_pcb p k))") (auto simp: pid_of_slot_def)
  have "(Suc n mod 32 + 31) mod 32 = (Suc n + 31) mod 32" by (rule mod_add_left_eq)
  then have "(unat (p_pid (the_pcb p k)) mod 32 + 31) mod 32 = j" unfolding n(1) using n(2) by simp
  then show "task_slot (task_index p k) = p" "task_index p k < KBD_TASK_LIST_SIZE"
    using j by (simp_all add: task_slot_def task_index_def KBD_TASK_LIST_SIZE_def PCB_TABLE_SIZE_def unat_mod)
qed

text \<open>
  Every waiting task belongs to the process of its entry, which is parked, or is one of \<open>W\<close> (the process whose read is being
  served).
\<close>

definition reading :: "pcb_ptr set \<Rightarrow> pcb_ptr set \<Rightarrow> pcb_ptr set \<Rightarrow> kernel \<Rightarrow> bool" where
  "reading W D R k \<longleftrightarrow> W \<subseteq> R \<and> sched D R (pt k) \<and>
     (\<forall>i. waits k i \<longrightarrow> t_pcb (the_task i k) = task_slot i \<and> task_slot i \<in> D \<union> W)"

text \<open>A step of the driver: it makes parked processes ready, ends waits and starts none, and at the end of file ends them all.\<close>

definition drives :: "kernel \<Rightarrow> kernel \<Rightarrow> bool" where
  "drives k k' \<longleftrightarrow> process k' = process k \<and>
     (\<forall>i. waits k' i \<longrightarrow> waits k i \<and> t_bufflen (the_task i k') = t_bufflen (the_task i k)) \<and>
     (kbd_done (kbd k') = kbd_done (kbd k) \<or> (\<forall>i. \<not> waits k' i)) \<and>
     (\<forall>W D R. reading W D R k \<longrightarrow> (\<exists>D'. reading W D' R k'))"

lemma drives_refl: "drives k k"
  by (auto simp: drives_def)

lemma drives_trans: "drives k k' \<Longrightarrow> drives k' k'' \<Longrightarrow> drives k k''"
  unfolding drives_def by metis

lemma waits_same: "tasks k' = tasks k \<Longrightarrow> waits k' = waits k \<and> (\<forall>i. the_task i k' = the_task i k)"
  by (auto simp: waits_def the_task_def)

lemma reading_same: "tasks k' = tasks k \<Longrightarrow> pt k' = pt k \<Longrightarrow> reading W D R k' = reading W D R k"
  using waits_same [of k' k] by (simp add: reading_def)

lemma drives_same:
  "tasks k' = tasks k \<Longrightarrow> pt k' = pt k \<Longrightarrow> process k' = process k \<Longrightarrow> kbd_done (kbd k') = kbd_done (kbd k) \<Longrightarrow> drives k k'"
  using reading_same [of k' k] waits_same [of k' k] by (auto simp: drives_def)

lemma unblock_done: "keyboard_unblock_proc i k = Some k' \<Longrightarrow> kbd_done (kbd k') = kbd_done (kbd k) \<and> process k' = process k"
  by (auto simp: keyboard_unblock_proc_def Let_def bind_eq_Some_conv on_procs_def set_task_def split: if_splits)

text \<open>Unblocking the reader of a task.\<close>

lemma unblock_reading:
  assumes "keyboard_unblock_proc i k = Some k'" "reading W D R k" "waits k i"
  shows "\<exists>D'. reading W D' R k'"
proof -
  let ?p = "task_slot i"
  have p: "t_pcb (the_task i k) = ?p" "?p \<in> D \<union> W" and s: "sched D R (pt k)" "W \<subseteq> R" and i: "i < KBD_TASK_LIST_SIZE"
    using assms(2,3) by (auto simp: reading_def waits_def)
  note t = unblock_tasks(1) [OF assms(1)]
  have w: "waits k' j \<longleftrightarrow> waits k j \<and> j \<noteq> i" "j \<noteq> i \<Longrightarrow> the_task j k' = the_task j k" for j
    using t by (auto simp: waits_def the_task_def)
  have other: "task_slot j \<noteq> ?p" if "waits k' j" for j
    using that w(1) [of j] task_slot_eq [OF _ i, of j] by (auto simp: waits_def)
  let ?s = "upd_pcb ?p (\<lambda>u. u\<lparr>p_ret := t_buff_count (the_task i k)\<rparr>) (pt k)"
  show ?thesis
  proof (cases "?p \<in> D")
    case True
    then have pp: "is_slot ?p" "parks (pcbs (pt k) ?p)" using sched_parked [OF s(1), of ?p] by auto
    then have h: "home (pcbs (pt k) ?p) = None" by (auto simp: home_def parks_def)
    have s1: "sched D R ?s" by (rule sched_upd [OF s(1)]) (use h in simp_all)
    from sched_unpark [OF s1 True] obtain s2 where
      s2: "add_pcb_to_ready_queue ?p ?s = Some s2" "sched (D - {?p}) R s2" "p_blocked_status (pcbs s2 ?p) = BLOCKED_STATUS_NONE"
        "p_state (pcbs s2 ?p) = PROC_STATE_READY" by blast
    have "pt k' = upd_pcb ?p (\<lambda>u. u\<lparr>p_blocked_status := BLOCKED_STATUS_NONE\<rparr>) s2"
      using assms(1) p(1) pp(2) s2(1)
      by (auto simp: keyboard_unblock_proc_def Let_def on_procs_def the_task_def set_task_def the_pcb_def parks_def set_pcb_def upd_pt_def)
    moreover have "sched (D - {?p}) R (upd_pcb ?p (\<lambda>u. u\<lparr>p_blocked_status := BLOCKED_STATUS_NONE\<rparr>) s2)"
      by (rule sched_upd [OF s2(2)]) (use s2(3) in simp_all)
    ultimately have "reading W (D - {?p}) R k'"
      using assms(2) w other unfolding reading_def by auto
    then show ?thesis ..
  next
    case False
    then have pR: "?p \<in> R" using p(2) s(2) by auto
    then have "p_state (pcbs (pt k) ?p) = PROC_STATE_RUNNING" using s(1) by (auto simp: sched_def runs_def)
    then have "pt k' = ?s"
      using assms(1) p(1) by (auto simp: keyboard_unblock_proc_def Let_def the_task_def set_task_def the_pcb_def)
    moreover have "sched D R ?s" by (rule sched_upd [OF s(1)]) (use pR in simp_all)
    ultimately have "reading W D R k'" using assms(2) w unfolding reading_def by auto
    then show ?thesis ..
  qed
qed

lemma drives_unblock:
  assumes "keyboard_unblock_proc i k = Some k'" "waits k i"
  shows "drives k k'" "\<not> waits k' i"
proof -
  have w: "waits k' j \<longleftrightarrow> waits k j \<and> j \<noteq> i" for j
    using unblock_tasks(1) [OF assms(1)] by (auto simp: waits_def the_task_def)
  then show "\<not> waits k' i" by simp
  have "t_bufflen (the_task j k') = t_bufflen (the_task j k)" for j
    using unblock_tasks(1) [OF assms(1)] by (simp add: the_task_def)
  then show "drives k k'" using unblock_done [OF assms(1)] unblock_reading [OF assms(1) _ assms(2)] w unfolding drives_def by simp
qed

lemma drives_give:
  assumes "give_char c i k = Some k'" "i < KBD_TASK_LIST_SIZE"
  shows "drives k k'"
proof (cases "t_waiting_on_read (the_task i k) = 0")
  case True
  then show ?thesis using assms(1) by (simp add: give_char_def drives_refl)
next
  case False
  let ?k = "echo_char c (set_task i (\<lambda>t. t\<lparr>t_buff_count := t_buff_count t + 1\<rparr>) (upd_mem (\<lambda>m. m(t_buff (the_task i k) + t_buff_count (the_task i k) := c)) k))"
  have k1: "tasks ?k = (tasks k)(i := (tasks k i)\<lparr>t_buff_count := t_buff_count (tasks k i) + 1\<rparr>)" "pt ?k = pt k"
    "process ?k = process k" "kbd_done (kbd ?k) = kbd_done (kbd k)"
    by (simp_all add: echo_char_def set_task_def)
  have w: "waits ?k = waits k" using k1(1) by (auto simp: waits_def the_task_def fun_eq_iff)
  have "reading W D R ?k = reading W D R k" for W D R
    using k1(1,2) w by (auto simp: reading_def the_task_def)
  then have d: "drives k ?k" using w k1 by (auto simp: drives_def the_task_def)
  have "k' = ?k \<or> keyboard_unblock_proc i ?k = Some k'"
    using assms(1) False by (auto simp: give_char_def Let_def the_task_def split: if_splits)
  moreover have "waits ?k i" unfolding w using False assms(2) by (simp add: waits_def)
  ultimately show ?thesis using d drives_unblock(1) drives_trans by blast
qed

lemma drives_tasks:
  assumes "\<And>i k k'. i < KBD_TASK_LIST_SIZE \<Longrightarrow> f i k = Some k' \<Longrightarrow> drives k k'" "set js \<subseteq> {..<KBD_TASK_LIST_SIZE}"
  shows "for_tasks f js k = Some k' \<Longrightarrow> drives k k'"
  using assms(2)
proof (induction js arbitrary: k)
  case (Cons j js)
  then show ?case by (auto simp: bind_eq_Some_conv intro: drives_trans [OF assms(1)])
qed (simp add: drives_refl)

text \<open>At the end of file every waiting reader is unblocked.\<close>

lemma drives_eof:
  assumes "keyboard_handle_eof k = Some k'"
  shows "drives k k'"
proof -
  let ?f = "\<lambda>i k. if t_waiting_on_read (the_task i k) \<noteq> 0 then keyboard_unblock_proc i k else Some k"
  have f: "drives k k' \<and> \<not> waits k' i" if "i < KBD_TASK_LIST_SIZE" "?f i k = Some k'" for i k k'
    using that drives_unblock [of i k k'] drives_refl [of k] by (auto simp: waits_def split: if_splits)
  have all: "drives k k' \<and> (\<forall>i\<in>set js. \<not> waits k' i)" if "for_tasks ?f js k = Some k'" "set js \<subseteq> {..<KBD_TASK_LIST_SIZE}" for js k k'
    using that
  proof (induction js arbitrary: k)
    case (Cons j js)
    then obtain k1 where k1: "?f j k = Some k1" "for_tasks ?f js k1 = Some k'" by (auto simp: bind_eq_Some_conv)
    with Cons.IH [OF k1(2)] Cons.prems(2) f [OF _ k1(1)] have
      a: "drives k k1" "\<not> waits k1 j" "drives k1 k'" "\<forall>i\<in>set js. \<not> waits k' i" by auto
    then have "\<not> waits k' j" by (auto simp: drives_def)
    with a drives_trans [OF a(1,3)] show ?case by simp
  qed (simp add: drives_refl)
  let ?k = "upd_kbd (\<lambda>b. b\<lparr>kbd_done := 1\<rparr>) (setKbdInt 0 k)"
  have "for_tasks ?f [0..<KBD_TASK_LIST_SIZE] ?k = Some k'" using assms by (simp add: keyboard_handle_eof_def Let_def)
  from all [OF this] have d: "drives ?k k'" "\<not> waits k' i" for i by (auto simp: waits_def atLeast0LessThan)
  have "waits ?k = waits k" "reading W D R ?k = reading W D R k" for W D R
    using waits_same [of ?k k] reading_same [of ?k k] by simp_all
  then show ?thesis using d waits_same [of ?k k] by (simp add: drives_def)
qed

lemma drives_process_char: "keyboard_process_char c k = Some k' \<Longrightarrow> drives k k'"
proof (cases "c = keyboard_eof (kbd k)")
  case False
  moreover assume "keyboard_process_char c k = Some k'"
  ultimately have "for_tasks (give_char c) [0..<KBD_TASK_LIST_SIZE] k = Some k'" by (simp add: keyboard_process_char_def)
  then show ?thesis by (rule drives_tasks [rotated 2]) (auto intro: drives_give)
qed (simp add: keyboard_process_char_def drives_eof)

lemma drives_flush: "keyboard_flush_buffer k = Some k' \<Longrightarrow> drives k k'"
proof (rule keyboard_flush_buffer.raw_induct [rotated, where P = drives])
  fix f k k'
  assume IH: "\<And>k k'. f k = Some k' \<Longrightarrow> drives k k'"
    and step: "(if 0 < sint (kbd_task_refcount (kbd k)) \<and> keyboard_buffer_tail (kbd k) \<noteq> keyboard_buffer_head (kbd k)
      then let c = keyboard_buffer (kbd k) (unat (keyboard_buffer_tail (kbd k)))
           in keyboard_process_char c k \<bind> (\<lambda>k. let k = upd_kbd (\<lambda>b. b\<lparr>keyboard_buffer_tail := (keyboard_buffer_tail b + 1) mod KEYBOARD_BUFFER_SIZE\<rparr>) k in f k)
      else Some k) = Some k'"
  show "drives k k'"
  proof (cases "0 < sint (kbd_task_refcount (kbd k)) \<and> keyboard_buffer_tail (kbd k) \<noteq> keyboard_buffer_head (kbd k)")
    case True
    with step obtain k1 where k1: "keyboard_process_char (keyboard_buffer (kbd k) (unat (keyboard_buffer_tail (kbd k)))) k = Some k1"
      "f (upd_kbd ring_drop k1) = Some k'" by (auto simp: bind_eq_Some_conv ring_drop_def [abs_def])
    have "drives k1 (upd_kbd ring_drop k1)" by (rule drives_same) (simp_all add: ring_drop_def)
    then show ?thesis using drives_trans [OF drives_process_char [OF k1(1)]] drives_trans IH [OF k1(2)] by blast
  next
    case False
    then show ?thesis using step by (subst (asm) if_not_P) (simp_all add: drives_refl)
  qed
qed

section \<open>The interrupt and the read\<close>

lemma drives_isr:
  assumes "keyboard_isr k = Some k'"
  shows "drives k k'"
proof -
  obtain s1 ka where a: "inb KEYBOARD_PORT_CONTROL k = (s1, ka)" by fastforce
  obtain s2 kb where b: "inb KEYBOARD_PORT_DATA_READ ka = (s2, kb)" by fastforce
  obtain c kc where p: "keyboard_process_scancode (0x0FF AND ucast s2) kb = (c, kc)" by fastforce
  have "drives k kb" by (rule drives_same) (use a b in \<open>auto simp: inb_def\<close>)
  moreover have "drives kb kc" using p
    by (intro drives_same) (auto simp: keyboard_process_scancode_def Let_def split: if_splits)
  moreover have "k' = kb \<or> k' = kc \<or> keyboard_process_char c kc = Some k' \<or> drives kc k'"
  proof -
    have "drives kc (echo_char c (upd_kbd (\<lambda>b. b\<lparr>keyboard_buffer_head := (keyboard_buffer_head b + 1) mod KEYBOARD_BUFFER_SIZE\<rparr>)
      (upd_kbd (\<lambda>b. b\<lparr>keyboard_buffer := (keyboard_buffer b)(unat (keyboard_buffer_head b) := c)\<rparr>) kc)))"
      by (rule drives_same) (simp_all add: echo_char_def)
    then show ?thesis using assms by (auto simp: keyboard_isr_def a b p Let_def split: if_splits)
  qed
  ultimately show ?thesis using drives_trans drives_process_char drives_refl by metis
qed

text \<open>The invariant: the queues, the room of the waiting readers, and that exactly parked processes wait.\<close>

definition readers_parked :: "kernel \<Rightarrow> bool" where
  "readers_parked k \<longleftrightarrow> (\<forall>i. waits k i \<longrightarrow> t_pcb (the_task i k) = task_slot i \<and> task_slot i \<in> parked (pt k))"

definition places_ok :: "kernel \<Rightarrow> bool" where
  "places_ok k \<longleftrightarrow> sched_ok k \<and> readers_ok k \<and> readers_parked k"

lemma places_reading:
  assumes "places_ok k"
  shows "reading {} (parked (pt k)) (if is_slot (process k) then {process k} else {}) k"
  using assms by (auto simp: places_ok_def sched_ok_def sched_at_def readers_parked_def reading_def)

lemma reading_places:
  assumes "reading {} D (if is_slot (process k) then {process k} else {}) k" "readers_ok k"
    "process k = NullPcb \<or> process k = IdlePcb \<or> is_slot (process k)"
  shows "places_ok k"
proof -
  have at: "sched_at D k" using assms by (simp add: reading_def sched_at_def)
  show ?thesis using sched_ok_at [OF at] sched_at_parked [OF at] assms(1,2)
    by (auto simp: places_ok_def readers_parked_def reading_def)
qed

lemma places_process: "places_ok k \<Longrightarrow> process k = NullPcb \<or> process k = IdlePcb \<or> is_slot (process k)"
  by (simp add: places_ok_def sched_ok_def sched_at_def)

lemma keyboard_request_places:
  assumes "handle_request KEYBOARD_INT k = Some k'" "places_ok k"
  shows "places_ok k'"
proof -
  obtain k1 where k1: "keyboard_isr k = Some k1" "k' = end_of_intr k1" using assms(1) by (auto simp: request_cases)
  have d: "drives k k'" using drives_trans [OF drives_isr [OF k1(1)] drives_same [of k' k1]] k1(2) by simp
  then obtain D where D: "reading {} D (if is_slot (process k) then {process k} else {}) k'"
    using places_reading [OF assms(2)] unfolding drives_def by blast
  have e: "process k' = process k" using d by (simp add: drives_def)
  have "readers_ok k'" using request_tidy [OF assms(1)] assms(2) by (simp add: tidy_def places_ok_def)
  with D places_process [OF assms(2)] show ?thesis unfolding e [symmetric] by (intro reading_places)
qed

text \<open>A read before the end of file: the caller goes on with no entry in the task list, or is parked.\<close>

lemma kbd_read_reading:
  assumes "kbd_read p blk buff n k = Some (r, k')" "sched D {p} (pt k)" "readers_ok k" "0 < n" "kbd_done (kbd k) = 0"
    and w: "\<forall>i. waits k i \<longrightarrow> t_pcb (the_task i k) = task_slot i \<and> task_slot i \<in> D"
  shows "\<exists>D'. reading {p} D' {p} k' \<and> process k' = process k \<and> (r = KBD_BLOCKERR \<or> \<not> waits k' (task_index p k))"
proof -
  let ?i = "task_index p k"
  define k1 where "k1 = upd_kbd (\<lambda>b. b\<lparr>kbd_task_refcount := kbd_task_refcount b + 1\<rparr>) k"
  define k2 where "k2 = set_task ?i (\<lambda>t. t\<lparr>t_pcb := p, t_buff := buff, t_buff_count := 0, t_bufflen := n, t_waiting_on_read := 1\<rparr>) k1"
  have r: "kbd_read p blk buff n k = Option.bind (keyboard_flush_buffer k2) (\<lambda>k3. Some (
       if t_buff_count (the_task ?i k3) = n then (n, k3)
       else if kbd_done (kbd k3) \<noteq> 0 then (t_buff_count (the_task ?i k3), k3)
       else (KBD_BLOCKERR, k3)))" by (simp only: kbd_read_def Let_def k1_def k2_def)
  with assms(1) have f: "keyboard_flush_buffer k2 = Some k'" by (cases "keyboard_flush_buffer k2") (simp_all split: if_splits)
  have t: "tasks k2 = (tasks k)(?i := (tasks k ?i)\<lparr>t_pcb := p, t_buff := buff, t_buff_count := 0, t_bufflen := n, t_waiting_on_read := 1\<rparr>)"
    and k2: "pt k2 = pt k" "process k2 = process k" "kbd_done (kbd k2) = 0" using assms(5) by (simp_all add: k2_def k1_def set_task_def)
  have p: "is_slot p" "pids_ok (pt k)" using assms(2) by (auto simp: sched_def runs_def)
  note slot = task_slot_index [OF p(2,1)]
  have "waits k2 j \<Longrightarrow> t_pcb (the_task j k2) = task_slot j \<and> task_slot j \<in> D \<union> {p}" for j
    using t w slot by (cases "j = ?i") (auto simp: waits_def the_task_def)
  then have "reading {p} D {p} k2" using assms(2) k2(1) by (simp add: reading_def)
  moreover note d = drives_flush [OF f]
  ultimately obtain D' where D': "reading {p} D' {p} k'" "process k' = process k" using k2(2) unfolding drives_def by metis
  have "readers_ok k2" using assms(3,4) t by (auto simp: readers_ok_def waits_def the_task_def)
  then have ok: "readers_ok k'" using reads_flush [OF f] by (simp add: reads_def)
  have "r = KBD_BLOCKERR \<or> \<not> waits k' ?i"
  proof (cases "t_buff_count (the_task ?i k') = n")
    case True
    have "t_bufflen (tasks k' ?i) = n" if "waits k' ?i"
      using d t that by (simp add: drives_def the_task_def)
    then show ?thesis using True ok by (auto simp: readers_ok_def the_task_def)
  next
    case False
    then show ?thesis using assms(1) r f d k2(3) by (auto simp: drives_def split: if_splits)
  qed
  with D' show ?thesis by blast
qed

lemma read_request_places:
  assumes "handle_request SYSCALL_READ k = Some k'" "places_ok k" "is_slot (process k)" "kbd_done (kbd k) = 0"
  shows "places_ok k'"
proof -
  let ?p = "process k" and ?i = "task_index (process k) k"
  have h: "handle_syscall_read k = Some k'" using assms(1) by (simp add: request_cases)
  have s: "sched (parked (pt k)) {?p} (pt k)" "readers_ok k"
    and w: "\<forall>i. waits k i \<longrightarrow> t_pcb (the_task i k) = task_slot i \<and> task_slot i \<in> parked (pt k)"
    using assms(2,3) by (auto simp: places_ok_def sched_ok_def sched_at_def readers_parked_def)
  have ok: "readers_ok k'" using request_tidy [OF assms(1) s(2)] by (simp add: tidy_def)
  have ret: "places_ok (cur_ret SYSERR k)"
  proof (rule reading_places)
    show "reading {} (parked (pt k)) (if is_slot (process (cur_ret SYSERR k)) then {process (cur_ret SYSERR k)} else {}) (cur_ret SYSERR k)"
      using cur_ret_ok [OF s(1)] w waits_same [of "cur_ret SYSERR k" k] assms(3) by (simp add: reading_def)
    show "readers_ok (cur_ret SYSERR k)" using s(2) same_tasks(1) [of "cur_ret SYSERR k" k] by simp
  qed (use assms(3) in simp)
  obtain x where v: "verify_sysptr (arg k 1) (arg k 2) (heap k) = Some x" using h
    by (auto simp: handle_syscall_read_def Let_def bind_eq_Some_conv)
  show ?thesis
  proof (cases "x = OK")
    case False
    with h v have "k' = cur_ret SYSERR k" by (auto simp: handle_syscall_read_def Let_def)
    with ret show ?thesis by simp
  next
    case True
    from v have "0 < sint (arg k 2)" by (auto simp: verify_sysptr_def ASSERT_bind split: if_splits)
    then have n: "0 < arg k 2" by (metis not_gr_zero sint_0 less_irrefl word_neq_0_conv)
    define fin where "fin j = (if p_ret (cur_pcb j) = BLOCKERR then run_next (set_cur (\<lambda>u. u\<lparr>p_blocked_status := BLOCKED_STATUS_DEVICE\<rparr>)
         (set_cur (\<lambda>u. u\<lparr>p_state := PROC_STATE_BLOCKED\<rparr>) j)) else j)" for j
    have "Option.bind (di_read ?p (arg k 0) (arg k 1) (arg k 2) k) (\<lambda>(r, k1). Some (fin (cur_ret r k1))) = Some k'"
      using h v True by (simp add: handle_syscall_read_def Let_def fin_def cong: if_cong)
    then obtain r k1 where k1: "di_read ?p (arg k 0) (arg k 1) (arg k 2) k = Some (r, k1)" "k' = fin (cur_ret r k1)"
      by (cases "di_read ?p (arg k 0) (arg k 1) (arg k 2) k") auto
    from k1(1) have "k1 = k \<and> r = SYSERR \<or> (\<exists>blk. kbd_read ?p blk (arg k 1) (arg k 2) k = Some (r, k1))"
      by (auto simp: di_read_def dvread_def ASSERT_bind Let_def split: if_splits driver.splits)
    then consider "k1 = k" "r = SYSERR" | blk where "kbd_read ?p blk (arg k 1) (arg k 2) k = Some (r, k1)" by blast
    then show ?thesis
    proof cases
      case 1
      then have "p_ret (cur_pcb (cur_ret r k1)) \<noteq> BLOCKERR" by (simp add: cur_pcb_def cur_ret_def set_cur_def SYSERR_def BLOCKERR_def)
      with 1 k1(2) have "k' = cur_ret SYSERR k" by (simp add: fin_def)
      with ret show ?thesis by simp
    next
      case 2
      from kbd_read_reading [OF 2 s n assms(4) w] obtain D where
        D: "reading {?p} D {?p} k1" "process k1 = ?p" "r = KBD_BLOCKERR \<or> \<not> waits k1 ?i" by blast
      let ?j = "cur_ret r k1"
      have j: "p_ret (cur_pcb ?j) = r" "process ?j = ?p" "tasks ?j = tasks k1" using D(2) by (simp_all add: cur_pcb_def cur_ret_def set_cur_def)
      have sj: "sched D {?p} (pt ?j)" using cur_ret_ok [of D k1 r] D(1,2) by (simp add: reading_def)
      have wj: "t_pcb (the_task i ?j) = task_slot i \<and> task_slot i \<in> insert ?p D" if "waits ?j i" for i
        using that D(1) waits_same [OF j(3)] by (auto simp: reading_def)
      show ?thesis
      proof (cases "r = BLOCKERR")
        case True
        let ?m = "set_cur (\<lambda>u. u\<lparr>p_blocked_status := BLOCKED_STATUS_DEVICE\<rparr>) (set_cur (\<lambda>u. u\<lparr>p_state := PROC_STATE_BLOCKED\<rparr>) ?j)"
        have k': "k' = run_next ?m" using k1(2) j(1) True by (simp add: fin_def)
        have "sched (insert ?p D) ({?p} - {?p}) (upd_pcb ?p (\<lambda>u. u\<lparr>p_state := PROC_STATE_BLOCKED, p_blocked_status := BLOCKED_STATUS_DEVICE\<rparr>) (pt ?j))"
          by (rule sched_park [OF sj]) (simp_all add: parks_def)
        moreover have "upd_pcb ?p (\<lambda>u. u\<lparr>p_state := PROC_STATE_BLOCKED, p_blocked_status := BLOCKED_STATUS_DEVICE\<rparr>) (pt ?j) = pt ?m"
          using j(2) by (simp add: set_cur_def upd_pcb_def)
        ultimately have "sched_at (insert ?p D) (run_next ?m)" using run_next_ok by simp
        moreover have "tasks (run_next ?m) = tasks k1" using j(3) by simp
        then have "t_pcb (the_task i k') = task_slot i \<and> task_slot i \<in> insert ?p D" if "waits k' i" for i
          using that wj [of i] waits_same [of k' ?j] waits_same [OF j(3)] unfolding k' by simp
        ultimately show ?thesis using ok sched_ok_at sched_at_parked unfolding places_ok_def readers_parked_def k' by blast
      next
        case False
        then have k': "k' = ?j" using k1(2) j(1) by (simp add: fin_def)
        have "r \<noteq> KBD_BLOCKERR" using False by (simp add: KBD_BLOCKERR_def BLOCKERR_def)
        then have "\<not> waits ?j ?i" using D(3) waits_same [OF j(3)] by simp
        moreover have "pids_ok (pt k)" using s(1) by (simp add: sched_def)
        note slot = task_slot_index [OF this assms(3)]
        ultimately have "task_slot i \<noteq> ?p" if "waits ?j i" for i
          using that slot task_slot_eq [of i ?i] by (auto simp: waits_def)
        then have "reading {} D {?p} ?j" using sj wj by (auto simp: reading_def)
        then show ?thesis using ok j(2) assms(3) unfolding k' by (intro reading_places [of D]) simp_all
      qed
    qed
  qed
qed

section \<open>Every request\<close>

text \<open>The other requests start no wait.\<close>

definition calm :: "kernel \<Rightarrow> kernel \<Rightarrow> bool" where
  "calm k k' \<longleftrightarrow> (\<forall>i. waits k' i \<longrightarrow> waits k i \<and> t_pcb (the_task i k') = t_pcb (the_task i k))"

lemma calm_tasks: "tasks k' = tasks k \<Longrightarrow> calm k k'" "devs k' = devs k \<Longrightarrow> calm k k'"
    "tasks k' = (tasks k)(i := (tasks k i)\<lparr>t_waiting_on_read := 0\<rparr>) \<Longrightarrow> calm k k'"
  by (auto simp: calm_def waits_def the_task_def devs_def split: if_splits)

lemma calm_di_calls:
  "di_open p n k = Some (r, k') \<Longrightarrow> calm k k'" "di_close p fd k = Some (r, k') \<Longrightarrow> calm k k'"
  "di_write p fd b n k = Some (r, k') \<Longrightarrow> calm k k'" "di_ioctl p fd c a k = Some (r, k') \<Longrightarrow> calm k k'"
  by (auto simp: di_open_def di_close_def di_write_def di_ioctl_def dvopen_def dvclose_def dvwrite_def dvioctl_def kbd_write_def
      ASSERT_bind Let_def bind_eq_Some_conv split: if_splits driver.splits dest!: kbd_calls_keep
      intro: calm_tasks)

lemma calm_trans: "calm k k' \<Longrightarrow> tasks k'' = tasks k' \<Longrightarrow> calm k k''"
  by (auto simp: calm_def waits_def the_task_def)

lemma calm_device:
  "handle_syscall_open k = Some k' \<Longrightarrow> calm k k'" "handle_syscall_close k = Some k' \<Longrightarrow> calm k k'"
  "handle_syscall_write k = Some k' \<Longrightarrow> calm k k'" "handle_syscall_ioctl k = Some k' \<Longrightarrow> calm k k'"
proof -
  have t: "calm k k'" if "calm k k1" "k' = cur_ret x k1" for k' k1 x
    by (rule calm_trans [OF that(1)]) (simp add: that(2))
  have u: "calm k (cur_ret x k)" for x by (rule calm_tasks(1)) simp
  show "handle_syscall_open k = Some k' \<Longrightarrow> calm k k'" "handle_syscall_close k = Some k' \<Longrightarrow> calm k k'"
    "handle_syscall_write k = Some k' \<Longrightarrow> calm k k'" "handle_syscall_ioctl k = Some k' \<Longrightarrow> calm k k'"
    by (auto simp: handle_syscall_open_def handle_syscall_close_def handle_syscall_write_def handle_syscall_ioctl_def Let_def
        bind_eq_Some_conv split: if_splits intro: t u dest!: calm_di_calls)
qed

lemma request_calm:
  assumes "handle_request r k = Some k'" "r \<notin> {SYSCALL_READ, KEYBOARD_INT}"
  shows "calm k k'"
proof -
  consider "r \<in> {SYSCALL_OPEN, SYSCALL_CLOSE, SYSCALL_WRITE, SYSCALL_IOCTL}"
    | "r = SYSCALL_CPUTIMES" | "r = SYSCALL_SIGHANDLER" | "manages_memory r"
    | "r \<in> {SYSCALL_YIELD, SYSCALL_GETPID, SYSCALL_KILL, SYSCALL_PUTS, SYSCALL_SLEEP, SYSCALL_WAIT, TIMER_INT}"
    using assms unfolding handle_request_def manages_memory_def by (simp split: if_split_asm)
  then show ?thesis
  proof cases
    case 1
    then show ?thesis using assms(1) by (elim insertE emptyE) (simp_all add: request_cases calm_device)
  next
    case 2
    obtain x k1 where h: "handle_syscall_cputimes k = (x, k1)" by fastforce
    then have "devs k' = devs k" using assms(1) handlers_keep(7) [OF h] unfolding 2 request_cases by (auto simp: ret_to_def)
    then show ?thesis by (rule calm_tasks)
  next
    case 3
    then have "ret_to (process k) (handle_syscall_sighandler k) = Some k'" using assms(1) by (simp add: request_cases)
    then have "devs k' = devs k" by (rule ret_to_keeps) (rule handlers_keep(8))
    then show ?thesis by (rule calm_tasks)
  next
    case 4
    from managing_requests_keep [OF assms(1) this] show ?thesis by (rule calm_tasks)
  next
    case 5
    from quiet_requests_keep [OF assms(1) this] show ?thesis by (blast intro: calm_tasks)
  qed
qed

text \<open>What a request must meet for the invariant to be kept.\<close>

definition tame :: "u32 \<Rightarrow> kernel \<Rightarrow> bool" where
  "tame req k \<longleftrightarrow> (is_slot (process k) \<or> req \<in> {TIMER_INT, KEYBOARD_INT}) \<and>
     (req = SYSCALL_READ \<longrightarrow> kbd_done (kbd k) = 0) \<and> message_ok req k"

lemma request_places:
  assumes "places_ok k" "tame req k" "handle_request req k = Some k'"
  shows "places_ok k'"
proof -
  consider "req = KEYBOARD_INT" | "req = SYSCALL_READ" | "req \<notin> {SYSCALL_READ, KEYBOARD_INT}" by blast
  then show ?thesis
  proof cases
    case 1
    with keyboard_request_places assms(1,3) show ?thesis by simp
  next
    case 2
    with assms(2) have "is_slot (process k)" "kbd_done (kbd k) = 0" by (auto simp: tame_def request_defs)
    with 2 read_request_places assms(1,3) show ?thesis by simp
  next
    case 3
    then have p: "is_slot (process k) \<or> req = TIMER_INT" "message_ok req k" using assms(2) by (auto simp: tame_def)
    have at: "sched_at (parked (pt k)) k" "readers_ok k" "readers_parked k" using assms(1) by (auto simp: places_ok_def sched_ok_def)
    have at': "sched_at (parked (pt k)) k'" by (rule request_sched [OF at(1) p(1) 3 p(2) assms(3)])
    have "readers_ok k'" using request_tidy [OF assms(3) at(2)] by (simp add: tidy_def)
    moreover have "readers_parked k'"
      using request_calm [OF assms(3) 3] at(3) sched_at_parked [OF at'] by (simp add: readers_parked_def calm_def)
    ultimately show ?thesis using sched_ok_at [OF at'] by (simp add: places_ok_def)
  qed
qed

section \<open>Rounds\<close>

lemma entered_places:
  assumes "places_ok k" "entered t k = Some (req, k1)"
  shows "places_ok k1" "kbd k1 = kbd k" "process k1 = process (pick_idle k)"
proof -
  have at: "sched_at (parked (pt k)) k1" and p: "process k1 = process (pick_idle k)"
    using entered_ok [OF _ assms(2)] assms(1) by (auto simp: places_ok_def sched_ok_def)
  have "devs k1 = devs k" using assms(2) devs_switch(3) [of k]
    by (auto simp: entered_def Let_def bind_eq_Some_conv dest!: devs_switch(1,2))
  then show kb: "kbd k1 = kbd k" by (simp add: devs_def)
  then have t: "tasks k1 = tasks k" by simp
  show "places_ok k1" using assms(1) sched_ok_at [OF at] sched_at_parked [OF at] same_tasks(1) [OF t] waits_same [OF t]
    by (simp add: places_ok_def readers_parked_def)
  show "process k1 = process (pick_idle k)" by (rule p)
qed

text \<open>Runs of the dispatcher, round by round, in which every request is tame.\<close>

inductive runs_to :: "kernel \<Rightarrow> kernel \<Rightarrow> bool" where
  start: "runs_to k k"
| round: "runs_to k0 k \<Longrightarrow> entered t k = Some (req, k1) \<Longrightarrow> tame req k1 \<Longrightarrow> handle_request req k1 = Some k' \<Longrightarrow> runs_to k0 k'"

lemma runs_to_places: "runs_to k0 k \<Longrightarrow> places_ok k0 \<Longrightarrow> places_ok k"
  by (induction rule: runs_to.induct) (auto intro: request_places dest: entered_places(1))

text \<open>At the end of the start-up nobody waits for the keyboard.\<close>

lemma boot_nobody_waits:
  assumes "initproc [] k = Some k'"
  shows "\<not> waits k' i"
proof -
  let ?k0 = "emit (PrintLog ''Memory manager initialized!'') ((emit (PrintLog ''CPSC 415, 2017W1 32 Bit Xeros -1.0.0 - even before beta'') k)
     \<lparr>heap := kmeminit (heap (emit (PrintLog ''CPSC 415, 2017W1 32 Bit Xeros -1.0.0 - even before beta'') k))\<rparr>)"
  from assms obtain k1 k2 r k3 k4 k5 where k: "di_init_devtable ?k0 = Some k1"
    "initpcb (emit (PrintLog ''Context switcher initialized!'') (contextinit (emit (PrintLog ''Devices initialized!'') k1))) = Some k2"
    "idleinit (emit (PrintLog ''Dispatcher initialized!'') k2) = Some (r, k3)" "rootinit k3 = Some k4" "initPIT 100 k4 = Some k5"
    "dispatch [] (emit (PrintLog ''System initialization complete! Entering dispatcher...'') k5) = Some k'"
    by (auto simp: initproc_def dispinit_def Let_def bind_eq_Some_conv)
  have "devs k4 = devs k3" using k(4) by (auto simp: rootinit_def Let_def bind_eq_Some_conv dest!: devs_create)
  then have "devs k' = devs k1"
    using devs_initpcb [OF k(2)] devs_idleinit [OF k(3)] devs_initPIT [OF k(5)] k(6) by (auto simp: devs_contextinit dispatch_def)
  then have "tasks k' = tasks k1" by (simp add: devs_def)
  moreover obtain k3 where "k1 = snd (kbd_init k3)" using devtable_last [OF k(1)] by blast
  ultimately show ?thesis by (simp add: waits_def the_task_def kbd_init_def Let_def split_beta)
qed

lemma boot_places: "initproc [] k = Some k' \<Longrightarrow> sched_ok k' \<Longrightarrow> places_ok k'"
  using boot_nobody_waits readers_boot by (simp add: places_ok_def readers_parked_def)

section \<open>Properties\<close>

text \<open>C2. Serving a request or an interrupt keeps the scheduling invariant: every slot of the table is in the queue that its state
  says and in no other, a process blocked in a device read is in none but is the only owner of its entry in the keyboard's task list
  (an entry waits only for such a process, and has room), the current process is the only one running, sleepers
  have non-negative remaining times, and a slot's pid belongs to it. This holds for each of the twenty cases of the dispatcher, reads
  and key presses included, when the handler returns, with these exceptions. The idle process makes no system call. A read is served before
  the end of file (after it, a read that finds too little returns but stays registered in the task list). When a message is sent
  or received, the third word of no blocked process's argument list is -5, the number that means blocking. When a message is sent to a process that is not blocked, no process waits to receive
  from anyone (a send puts such a process into the queue twice).\<close>

theorem scheduling_invariant:
  assumes "places_ok k" "is_slot (process k) \<or> req \<in> {TIMER_INT, KEYBOARD_INT}"
    and "req = SYSCALL_READ \<longrightarrow> kbd_done (kbd k) = 0"
    and "req \<in> {SYSCALL_SEND, SYSCALL_RECV} \<longrightarrow> lengths_ok k"
    and "req = SYSCALL_SEND \<longrightarrow> finds_receiver (pid_to_pcb (arg k 0) (pt k)) k"
    and "handle_request req k = Some k'"
  shows "places_ok k'"
  by (rule request_places [OF assms(1) _ assms(6)]) (use assms(2-5) in \<open>simp add: tame_def message_ok_def\<close>)

lemma slot_0: "is_slot (PcbSlot 0)" by (simp add: PCB_TABLE_SIZE_def)

text \<open>After the boot, the first process yields.\<close>

theorem scheduling_invariant_witness:
  "\<exists>k k'. initproc [] power_on = Some k \<and> handle_request SYSCALL_YIELD k = Some k' \<and> places_ok k'"
proof -
  from booted obtain k where k: "initproc [] power_on = Some k" "sched_ok k" "process k = PcbSlot 0" by blast
  then have "sched (parked (pt k)) {PcbSlot 0} (pt k)" by (simp add: sched_ok_def sched_at_def PCB_TABLE_SIZE_def)
  from sched_ready [OF this, of "PcbSlot 0"] obtain s where "add_pcb_to_ready_queue (PcbSlot 0) (pt k) = Some s" by auto
  then have y: "handle_request SYSCALL_YIELD k = Some (run_next (k\<lparr>pt := s\<rparr>))"
    using k(3) by (simp add: handle_request_def request_defs on_procs_def)
  from scheduling_invariant [OF boot_places [OF k(1,2)] _ _ _ _ y] k slot_0 y show ?thesis by (auto simp: request_defs)
qed

text \<open>C3. In every state that the dispatcher reaches from one with the invariant (as from the boot) by rounds whose requests are tame,
  that is, meet the conditions of the previous property (reads and key presses are among them): the four queues hold each slot exactly once if it is ready, blocked,
  asleep or stopped; every other slot is the running process, which is the current one, or is blocked in a device read; only processes
  blocked in a read have a waiting entry in the keyboard's task list; and the pids of the slots are distinct.\<close>

theorem queues_partition_slots:
  assumes "places_ok k0" "runs_to k0 k"
  shows "(\<exists>L. queues_repr (pt k) L \<and> (\<forall>p q. p \<in> set (L q) \<longleftrightarrow> is_slot p \<and> home (the_pcb p k) = Some q)) \<and>
    (\<forall>p. is_slot p \<longrightarrow> home (the_pcb p k) = None \<longrightarrow> p = process k \<or> p \<in> parked (pt k)) \<and>
    (\<forall>p. is_slot p \<longrightarrow> (p_state (the_pcb p k) = PROC_STATE_RUNNING \<longleftrightarrow> p = process k)) \<and>
    (\<forall>i. waits k i \<longrightarrow> t_pcb (the_task i k) \<in> parked (pt k)) \<and>
    (\<forall>p q. is_slot p \<longrightarrow> is_slot q \<longrightarrow> p_pid (the_pcb p k) = p_pid (the_pcb q k) \<longrightarrow> p = q)"
proof -
  have k: "places_ok k" by (rule runs_to_places [OF assms(2,1)])
  then obtain R where R: "sched (parked (pt k)) R (pt k)" "R = (if is_slot (process k) then {process k} else {})"
    by (auto simp: places_ok_def sched_ok_def sched_at_def)
  then obtain L where "placed (pt k) L" by (auto simp: sched_def)
  moreover have run: "is_slot p \<longrightarrow> (p_state (the_pcb p k) = PROC_STATE_RUNNING \<longleftrightarrow> p = process k)" for p
    using R by (auto simp: sched_def runs_def the_pcb_def split: if_splits)
  moreover have "p = process k \<or> p \<in> parked (pt k)" if "is_slot p" "home (the_pcb p k) = None" for p
    using run [of p] that by (auto simp: home_def parked_def parks_def the_pcb_def split: proc_state.splits if_splits)
  moreover have "p = q" if pq: "is_slot p" "is_slot q" "p_pid (the_pcb p k) = p_pid (the_pcb q k)" for p q
  proof -
    obtain i j where ij: "p = PcbSlot i" "q = PcbSlot j" "i < PCB_TABLE_SIZE" "j < PCB_TABLE_SIZE" using pq(1,2) by (auto simp: is_slot_def)
    have "pid_of_slot i (p_pid (the_pcb p k))" "pid_of_slot j (p_pid (the_pcb q k))"
      using R(1) ij by (auto simp: sched_def pids_ok_def the_pcb_def)
    with pq(3) ij show ?thesis by (simp add: pid_of_slot_def)
  qed
  moreover have "t_pcb (the_task i k) \<in> parked (pt k)" if "waits k i" for i
    using k that by (simp add: places_ok_def readers_parked_def)
  ultimately show ?thesis by (simp add: placed_def the_pcb_def) blast
qed

text \<open>A timer interrupt in the first process after the boot.\<close>

theorem queues_partition_slots_witness:
  "\<exists>k0 k. initproc [] power_on = Some k0 \<and> dispatch_round idle_tick k0 = Some k \<and>
     (\<exists>L. queues_repr (pt k) L \<and> (\<forall>p q. p \<in> set (L q) \<longleftrightarrow> is_slot p \<and> home (the_pcb p k) = Some q))"
proof -
  from booted obtain k0 where k0: "initproc [] power_on = Some k0" "sched_ok k0" "process k0 = PcbSlot 0" by blast
  note ok = boot_places [OF k0(1,2)]
  obtain k1 where k1: "entered idle_tick k0 = Some (TIMER_INT, k1)"
    using entered_returns [of idle_tick k0] by (auto simp: contextswitch_exit_def idle_tick_def Let_def)
  have p1: "sched_ok k1" "process k1 = PcbSlot 0"
    using entered_places [OF ok k1] k0(3) by (simp_all add: places_ok_def pick_idle_def)
  then obtain k where k: "handle_request TIMER_INT k1 = Some k" using timer_returns by fastforce
  have t: "tame TIMER_INT k1" by (simp add: tame_def message_ok_def request_defs)
  from queues_partition_slots [OF ok runs_to.round [OF runs_to.start k1 t k]] k0(1) k1 k show ?thesis
    by (auto simp: dispatch_round_entered)
qed

end
