(* ===== verification/Lib_String.thy ===== *)
theory Lib_String
  imports Lib_Memory "HOL-Library.Signed_Division"
begin

text \<open>
  The string functions of the C library (\<^verbatim>\<open>lib/libxc\<close>) on the byte memory. A string that
  has no terminator makes them run forever, hence \<open>option\<close>. Characters are signed bytes.
  A zero terminated string in memory is \<open>cstring\<close>, and the second half says what each
  function does on such strings.
\<close>

unbundle bit_operations_syntax

section \<open>Functions\<close>

partial_function (option) strlen_loop :: "memory \<Rightarrow> addr \<Rightarrow> i32 \<Rightarrow> i32 option" where
  "strlen_loop m s n = (if m s \<noteq> 0 then strlen_loop m (s + 1) (n + 1) else Some n)"

definition strlen :: "memory \<Rightarrow> addr \<Rightarrow> i32 option" where
  "strlen m s = strlen_loop m s 0"

definition char_diff :: "u8 \<Rightarrow> u8 \<Rightarrow> i32" where
  "char_diff a b = scast a - scast b"

partial_function (option) strcmp :: "memory \<Rightarrow> addr \<Rightarrow> addr \<Rightarrow> i32 option" where
  "strcmp m s1 s2 =
     (if m s1 = m s2 then if m s1 = 0 then Some 0 else strcmp m (s1 + 1) (s2 + 1)
      else Some (char_diff (m s1) (m s2)))"

partial_function (option) strncmp :: "memory \<Rightarrow> addr \<Rightarrow> addr \<Rightarrow> i32 \<Rightarrow> i32 option" where
  "strncmp m s1 s2 n =
     (let n = n - 1 in
      if 0 \<le> sint n \<and> m s1 = m s2 then if m s1 = 0 then Some 0 else strncmp m (s1 + 1) (s2 + 1) n
      else Some (if sint n < 0 then 0 else char_diff (m s1) (m s2)))"

partial_function (option) strcpy :: "addr \<Rightarrow> addr \<Rightarrow> memory \<Rightarrow> memory option" where
  "strcpy s1 s2 m =
     (let c = m s2; m = m(s1 := c)
      in if c \<noteq> 0 then strcpy (s1 + 1) (s2 + 1) m else Some m)"

partial_function (option) string_end :: "memory \<Rightarrow> addr \<Rightarrow> addr option" where
  "string_end m s = (if m s \<noteq> 0 then string_end m (s + 1) else Some s)"

definition strcat :: "addr \<Rightarrow> addr \<Rightarrow> memory \<Rightarrow> memory option" where
  "strcat s1 s2 m = do { e \<leftarrow> string_end m s1; strcpy e s2 m }"

partial_function (option) strncat_loop :: "addr \<Rightarrow> addr \<Rightarrow> i32 \<Rightarrow> memory \<Rightarrow> memory option" where
  "strncat_loop s1 s2 n m =
     (let c = m s2; m = m(s1 := c)
      in if c \<noteq> 0 then
           let n = n - 1
           in if sint n < 0 then Some (m(s1 := 0)) else strncat_loop (s1 + 1) (s2 + 1) n m
         else Some m)"

definition strncat :: "addr \<Rightarrow> addr \<Rightarrow> i32 \<Rightarrow> memory \<Rightarrow> memory option" where
  "strncat s1 s2 n m = do { e \<leftarrow> string_end m s1; strncat_loop e s2 n m }"

fun strncpy_loop :: "nat \<Rightarrow> addr \<Rightarrow> addr \<Rightarrow> memory \<Rightarrow> memory" where
  "strncpy_loop 0 s1 s2 m = m"
| "strncpy_loop (Suc n) s1 s2 m =
     (let c = m s2; m = m(s1 := c)
      in if c = 0 then fill_bytes n (s1 + 1) 0 m else strncpy_loop n (s1 + 1) (s2 + 1) m)"

definition strncpy :: "addr \<Rightarrow> addr \<Rightarrow> i32 \<Rightarrow> memory \<Rightarrow> memory" where
  "strncpy s1 s2 n m = strncpy_loop (nat (sint n)) s1 s2 m"

partial_function (option) index_char :: "memory \<Rightarrow> addr \<Rightarrow> u8 \<Rightarrow> addr option" where
  "index_char m sp c =
     (if m sp = c then Some sp else if m sp \<noteq> 0 then index_char m (sp + 1) c else Some 0)"

partial_function (option) rindex_loop :: "memory \<Rightarrow> addr \<Rightarrow> u8 \<Rightarrow> addr \<Rightarrow> addr option" where
  "rindex_loop m sp c r =
     (let r = (if m sp = c then sp else r)
      in if m sp \<noteq> 0 then rindex_loop m (sp + 1) c r else Some r)"

definition rindex :: "memory \<Rightarrow> addr \<Rightarrow> u8 \<Rightarrow> addr option" where
  "rindex m sp c = rindex_loop m sp c 0"

text \<open>Half-words of memory, and \<^verbatim>\<open>swab\<close> on them.\<close>

definition load16 :: "memory \<Rightarrow> addr \<Rightarrow> 16 word" where
  "load16 m a = ucast (m a) OR push_bit 8 (ucast (m (a + 1)))"

definition store16 :: "memory \<Rightarrow> addr \<Rightarrow> 16 word \<Rightarrow> memory" where
  "store16 m a v = m(a := ucast v, a + 1 := ucast (drop_bit 8 v))"

fun swab_loop :: "nat \<Rightarrow> addr \<Rightarrow> addr \<Rightarrow> memory \<Rightarrow> memory" where
  "swab_loop 0 pf pt m = m"
| "swab_loop (Suc n) pf pt m =
     (let v = scast (load16 m pf) :: i32
      in swab_loop n (pf + 2) (pt + 2) (store16 m pt (ucast (push_bit 8 v + (signed_drop_bit 8 v AND 0xFF)))))"

definition swab :: "addr \<Rightarrow> addr \<Rightarrow> i32 \<Rightarrow> memory \<Rightarrow> memory" where
  "swab pf pt n m = swab_loop (nat (sint n sdiv 2)) pf pt m"

definition abs_int :: "i32 \<Rightarrow> i32" where
  "abs_int x = (if sint x < 0 then - x else x)"

text \<open>\<^verbatim>\<open>rand\<close> with its state \<^verbatim>\<open>randx\<close>.\<close>

definition rand :: "u32 \<Rightarrow> i32 \<times> u32" where
  "rand randx = (let randx = randx * 1103515245 + 12345 in (drop_bit 16 randx AND 0x7FFF, randx))"

definition srand :: "u32 \<Rightarrow> u32" where "srand x = x"

text \<open>\<^verbatim>\<open>atoi\<close>; \<^verbatim>\<open>atol\<close> is the same code, \<^verbatim>\<open>long\<close> being as wide as \<^verbatim>\<open>int\<close>.\<close>

partial_function (option) skip_blanks :: "memory \<Rightarrow> addr \<Rightarrow> addr option" where
  "skip_blanks m p = (if m p = 0x20 \<or> m p = 0x09 then skip_blanks m (p + 1) else Some p)"

definition is_digit :: "u8 \<Rightarrow> bool" where
  "is_digit c \<longleftrightarrow> 0x30 \<le> sint c \<and> sint c \<le> 0x39"

partial_function (option) atoi_digits :: "memory \<Rightarrow> addr \<Rightarrow> i32 \<Rightarrow> i32 option" where
  "atoi_digits m p n =
     (if is_digit (m p) then atoi_digits m (p + 1) (n * 10 + scast (m p) - 0x30) else Some n)"

definition atoi :: "memory \<Rightarrow> addr \<Rightarrow> i32 option" where
  "atoi m p = do {
     p \<leftarrow> skip_blanks m p;
     let f = (m p = 0x2D);
     let p = (if m p = 0x2D \<or> m p = 0x2B then p + 1 else p);
     n \<leftarrow> atoi_digits m p 0;
     Some (if f then - n else n)
   }"

definition atol :: "memory \<Rightarrow> addr \<Rightarrow> i32 option" where
  "atol m p = do {
     p \<leftarrow> skip_blanks m p;
     let f = (m p = 0x2D);
     let p = (if m p = 0x2D \<or> m p = 0x2B then p + 1 else p);
     n \<leftarrow> atoi_digits m p 0;
     Some (if f then - n else n)
   }"

section \<open>Zero terminated strings\<close>

fun cstring :: "memory \<Rightarrow> addr \<Rightarrow> u8 list \<Rightarrow> bool" where
  "cstring m a [] \<longleftrightarrow> m a = 0"
| "cstring m a (c # cs) \<longleftrightarrow> m a = c \<and> c \<noteq> 0 \<and> cstring m (a + 1) cs"

lemma cstring_apply:
  "cstring m a cs \<Longrightarrow> i \<le> length cs \<Longrightarrow> m (a + of_nat i) = (if i < length cs then cs ! i else 0)"
proof (induction cs arbitrary: a i)
  case (Cons c cs)
  show ?case
  proof (cases i)
    case (Suc j)
    with Cons.IH [of "a + 1" j] Cons.prems show ?thesis by (simp add: add.assoc)
  qed (use Cons.prems in simp)
qed simp

lemma cstring_cong:
  "(\<And>i. i \<le> length cs \<Longrightarrow> m' (a + of_nat i) = m (a + of_nat i)) \<Longrightarrow> cstring m' a cs = cstring m a cs"
proof (induction cs arbitrary: a)
  case (Cons c cs)
  have "cstring m' (a + 1) cs = cstring m (a + 1) cs"
  proof (rule Cons.IH)
    show "m' (a + 1 + of_nat i) = m (a + 1 + of_nat i)" if "i \<le> length cs" for i
      using Cons.prems [of "Suc i"] that by (simp add: add.assoc)
  qed
  with Cons.prems [of 0] show ?case by simp
qed simp

lemma strlen_loop_cstring: "cstring m a cs \<Longrightarrow> strlen_loop m a n = Some (n + of_nat (length cs))"
  by (induction cs arbitrary: a n) (subst strlen_loop.simps, simp add: ac_simps)+

lemma strlen_cstring: "cstring m a cs \<Longrightarrow> strlen m a = Some (of_nat (length cs))"
  by (simp add: strlen_def strlen_loop_cstring)

lemma string_end_cstring: "cstring m a cs \<Longrightarrow> string_end m a = Some (a + of_nat (length cs))"
  by (induction cs arbitrary: a) (subst string_end.simps, simp add: ac_simps)+

lemma char_diff_0: "char_diff a b = 0 \<longleftrightarrow> a = b"
proof -
  have "sint (scast c :: i32) = sint c" for c :: u8
    using sint_greater_eq [of c] sint_less [of c]
    by (simp add: signed_scast_eq signed_take_bit_int_eq_self)
  then show ?thesis unfolding char_diff_def by (metis eq_iff_diff_eq_0 signed_word_eqI)
qed

lemma strcmp_cstring:
  "cstring m a cs \<Longrightarrow> cstring m b ds \<Longrightarrow> \<exists>r. strcmp m a b = Some r \<and> (r = 0 \<longleftrightarrow> cs = ds)"
proof (induction cs arbitrary: a b ds)
  case Nil
  then show ?case by (cases ds) (subst strcmp.simps, auto simp: char_diff_0)+
next
  case (Cons c cs)
  then show ?case by (cases ds) (subst strcmp.simps, auto simp: char_diff_0)+
qed

end
