(* ===== verification/Shell.thy ===== *)
theory Shell
  imports Lib_String
begin

text \<open>
  The parsing that the shell of \<^verbatim>\<open>c/user.c\<close> does on a line: cutting it at the newline,
  and splitting it into a command, an argument and the trailing ampersand. The programs
  themselves (\<^verbatim>\<open>root\<close>, \<^verbatim>\<open>shell\<close> and its commands) are in \<open>User\<close>.
\<close>

unbundle bit_operations_syntax

partial_function (option) filter_newline :: "addr \<Rightarrow> memory \<Rightarrow> memory option" where
  "filter_newline str m =
     (if m str \<noteq> 0 then
        if m str = 0x0A then Some (m(str := 0)) else filter_newline (str + 1) m
      else Some m)"

definition is_separator :: "u8 \<Rightarrow> bool" where
  "is_separator c \<longleftrightarrow> c = 0x20 \<or> c = 0x26"

text \<open>The two copying loops of \<^verbatim>\<open>get_command\<close>: up to a blank, an ampersand or the end.\<close>

partial_function (option) copy_word ::
  "addr \<Rightarrow> addr \<Rightarrow> i32 \<Rightarrow> memory \<Rightarrow> (addr \<times> addr \<times> i32 \<times> memory) option" where
  "copy_word str dst len m =
     (if m str \<noteq> 0 \<and> m str \<noteq> 0x20 \<and> m str \<noteq> 0x26
      then copy_word (str + 1) (dst + 1) (len + 1) (m(dst := m str))
      else Some (str, dst, len, m))"

partial_function (option) skip_separators :: "memory \<Rightarrow> addr \<Rightarrow> i32 \<Rightarrow> (addr \<times> i32) option" where
  "skip_separators m str len =
     (if m str \<noteq> 0 \<and> is_separator (m str) then skip_separators m (str + 1) (len + 1) else Some (str, len))"

partial_function (option) skip_to_end :: "memory \<Rightarrow> addr \<Rightarrow> i32 \<Rightarrow> (addr \<times> i32) option" where
  "skip_to_end m str len = (if m str \<noteq> 0 then skip_to_end m (str + 1) (len + 1) else Some (str, len))"

partial_function (option) find_ampersand :: "memory \<Rightarrow> addr \<Rightarrow> i32 \<Rightarrow> i32 \<Rightarrow> i32 option" where
  "find_ampersand m str len ampersand =
     (if 0 < sint len \<and> is_separator (m str) then
        let ampersand = (if m str = 0x26 then 1 else ampersand)
        in if m str \<noteq> 0x20 then Some ampersand else find_ampersand m (str - 1) (len - 1) ampersand
      else Some ampersand)"

definition get_command :: "addr \<Rightarrow> addr \<Rightarrow> addr \<Rightarrow> memory \<Rightarrow> (i32 \<times> memory) option" where
  "get_command str command arg m = do {
     (str, command, len, m) \<leftarrow> copy_word str command 0 m;
     let m = m(command := 0);
     (str, len) \<leftarrow> skip_separators m str len;
     (str, arg, len, m) \<leftarrow> copy_word str arg len m;
     let m = m(arg := 0);
     (str, len) \<leftarrow> skip_to_end m str len;
     ampersand \<leftarrow> find_ampersand m (str - 1) (len - 1) 0;
     Some (ampersand, m)
   }"

end
