(* ===== verification/Lib_Format.thy ===== *)
theory Lib_Format
  imports Lib_String
begin

text \<open>
  Formatted output, \<^verbatim>\<open>lib/libxc/doprnt.c\<close> and \<^verbatim>\<open>sprintf.c\<close>. The characters that
  \<^verbatim>\<open>_doprnt\<close> hands to its output function are a list. Numbers are converted in a local
  buffer, here a function without bound (the code's has 20 bytes); the digits come least
  significant first from a table of fixed width, of which the leading zeros are skipped.
\<close>

unbundle bit_operations_syntax

section \<open>Digits\<close>

text \<open>
  The end of every conversion: from the most significant entry down past the zeros, but not
  past the last one. The list is \<^verbatim>\<open>temp[1]\<close>, \<^verbatim>\<open>temp[2]\<close>, and so on.
\<close>

definition emit_digits :: "u8 list \<Rightarrow> u8 list" where
  "emit_digits temp =
     (let ds = dropWhile (\<lambda>c. c = 0x30) (rev temp) in if ds = [] then [hd temp] else ds)"

fun udigits10 :: "nat \<Rightarrow> u32 \<Rightarrow> u8 list" where
  "udigits10 0 num = []"
| "udigits10 (Suc i) num = (ucast (num mod 10) + 0x30) # udigits10 i (num div 10)"

definition prt10 :: "u32 \<Rightarrow> u8 list" where
  "prt10 num = emit_digits (udigits10 5 num)"

text \<open>Signed division and remainder, as the long conversion has them.\<close>

fun sdigits10 :: "nat \<Rightarrow> i32 \<Rightarrow> u8 list" where
  "sdigits10 0 num = []"
| "sdigits10 (Suc i) num =
     (word_of_int (sint num smod 10) + 0x30) # sdigits10 i (word_of_int (sint num sdiv 10))"

definition prtl10 :: "i32 \<Rightarrow> u8 list" where
  "prtl10 num = emit_digits (sdigits10 10 num)"

fun udigits8 :: "nat \<Rightarrow> u32 \<Rightarrow> u8 list" where
  "udigits8 0 num = []"
| "udigits8 (Suc i) num = (ucast (num AND 7) + 0x30) # udigits8 i (drop_bit 3 num AND 0x3FFF)"

definition prt8 :: "u32 \<Rightarrow> u8 list" where
  "prt8 num = (let temp = udigits8 6 num in emit_digits (temp[5 := temp ! 5 AND 0x31]))"

fun sdigits8 :: "nat \<Rightarrow> i32 \<Rightarrow> u8 list" where
  "sdigits8 0 num = []"
| "sdigits8 (Suc i) num = (ucast (num AND 7) + 0x30) # sdigits8 i (signed_drop_bit 3 num)"

definition prtl8 :: "i32 \<Rightarrow> u8 list" where
  "prtl8 num = (let temp = sdigits8 11 num in emit_digits (temp[10 := temp ! 10 AND 0x33]))"

definition hex_digit :: "u32 \<Rightarrow> u8" where
  "hex_digit d = (if d < 10 then 0x30 + ucast d else 0x61 + ucast (d - 10))"

fun udigits16 :: "nat \<Rightarrow> u32 \<Rightarrow> u8 list" where
  "udigits16 0 num = []"
| "udigits16 (Suc i) num = hex_digit (num AND 0x0f) # udigits16 i (drop_bit 4 num)"

definition prt16 :: "u32 \<Rightarrow> u8 list" where
  "prt16 num = emit_digits (udigits16 4 num)"

fun sdigits16 :: "nat \<Rightarrow> i32 \<Rightarrow> u8 list" where
  "sdigits16 0 num = []"
| "sdigits16 (Suc i) num = hex_digit (num AND 0x0f) # sdigits16 i (signed_drop_bit 4 num)"

definition prtl16 :: "i32 \<Rightarrow> u8 list" where
  "prtl16 num = emit_digits (sdigits16 8 num)"

fun udigits2 :: "nat \<Rightarrow> u32 \<Rightarrow> u8 list" where
  "udigits2 0 num = []"
| "udigits2 (Suc i) num = (if num mod 2 = 0 then 0x30 else 0x31) # udigits2 i (drop_bit 1 num)"

definition prt2 :: "u32 \<Rightarrow> u8 list" where
  "prt2 num = emit_digits (udigits2 16 num)"

fun sdigits2 :: "nat \<Rightarrow> i32 \<Rightarrow> u8 list" where
  "sdigits2 0 num = []"
| "sdigits2 (Suc i) num = (if sint num smod 2 = 0 then 0x30 else 0x31) # sdigits2 i (signed_drop_bit 1 num)"

definition prtl2 :: "i32 \<Rightarrow> u8 list" where
  "prtl2 num = emit_digits (sdigits2 32 num)"

section \<open>One conversion\<close>

text \<open>Where the converted text is: in the local buffer, or at an address (\<^verbatim>\<open>%s\<close>).\<close>

datatype text_src = LocalString | UserString addr

record fmt_state =
  f_mem :: memory
  f_args :: addr
  f_string :: "nat \<Rightarrow> u8"
  f_out :: "u8 list"
  f_dst :: "addr option"

text \<open>
  The output function: \<^verbatim>\<open>sprntf\<close> stores the character at the place \<open>f_dst\<close> points to,
  \<^verbatim>\<open>kputc\<close> writes it to the screen; both are recorded in \<open>f_out\<close>.
\<close>

definition putc :: "u8 \<Rightarrow> fmt_state \<Rightarrow> fmt_state" where
  "putc c s = (case f_dst s of None \<Rightarrow> s\<lparr>f_out := f_out s @ [c]\<rparr>
     | Some p \<Rightarrow> s\<lparr>f_out := f_out s @ [c], f_mem := (f_mem s)(p := c), f_dst := Some (p + 1)\<rparr>)"

definition put_string :: "u8 list \<Rightarrow> (nat \<Rightarrow> u8) \<Rightarrow> nat \<Rightarrow> u8" where
  "put_string ds str = (\<lambda>i. if i < length ds then ds ! i else if i = length ds then 0 else str i)"

definition cur_arg :: "fmt_state \<Rightarrow> i32" where
  "cur_arg s = load32 (f_mem s) (f_args s)"

text \<open>The loop that makes a negative long positive, and what it has to add to the first digit.\<close>

partial_function (option) fold_negative :: "i32 \<Rightarrow> u8 \<Rightarrow> (i32 \<times> u8) option" where
  "fold_negative num first_add =
     (if sint num < 0 then fold_negative (num - 1000000000) (first_add + 1) else Some (num, first_add))"

definition conv_unsigned :: "bool \<Rightarrow> fmt_state \<Rightarrow> fmt_state option" where
  "conv_unsigned longflag s =
     (if longflag then do {
        (num, first_add) \<leftarrow> fold_negative (cur_arg s) 0;
        let s = s\<lparr>f_mem := store32 (f_mem s) (f_args s) num\<rparr>;
        let str = put_string (prtl10 num) (f_string s);
        Some (s\<lparr>f_string := str(0 := str 0 + first_add)\<rparr>)
      } else Some (s\<lparr>f_string := put_string (prt10 (cur_arg s)) (f_string s)\<rparr>))"

definition conv_signed :: "fmt_state \<Rightarrow> fmt_state \<times> bool" where
  "conv_signed s =
     (if sint (cur_arg s) < 0
      then (s\<lparr>f_mem := store32 (f_mem s) (f_args s) (- cur_arg s)\<rparr>, True) else (s, False))"

text \<open>
  The switch on the format character: the state, where the text is, whether there is a minus
  sign, the fill character and the maximal width. \<^verbatim>\<open>longflag\<close> is a counter in the code; it is
  at least 1 on entry (\<^verbatim>\<open>INT_NOT_LONG\<close> is not defined), and \<^verbatim>\<open>'d'\<close> subtracts and adds one.
\<close>

definition convert :: "u8 \<Rightarrow> nat \<Rightarrow> u8 \<Rightarrow> i32 \<Rightarrow> fmt_state \<Rightarrow>
    (fmt_state \<times> text_src \<times> bool \<times> u8 \<times> i32) option" where
  "convert f longflag fill fmax s =
     (if f = 0x63 then
        Some (s\<lparr>f_string := (f_string s)(0 := ucast (cur_arg s), 1 := 0)\<rparr>, LocalString, False, 0x20, 0)
      else if f = 0x73 then Some (s, UserString (cur_arg s), False, 0x20, fmax)
      else if f = 0x44 \<or> f = 0x64 then do {
        let (s, is_neg) = conv_signed s;
        let longflag = (if f = 0x44 then 1 else longflag) - 1 + 1;
        s \<leftarrow> conv_unsigned (longflag \<noteq> 0) s;
        Some (s, LocalString, is_neg, fill, 0)
      }
      else if f = 0x55 then do {
        s \<leftarrow> conv_unsigned (longflag + 1 \<noteq> 0) s;
        Some (s, LocalString, False, fill, 0)
      }
      else if f = 0x75 then do {
        s \<leftarrow> conv_unsigned (longflag \<noteq> 0) s;
        Some (s, LocalString, False, fill, 0)
      }
      else if f = 0x4F \<or> f = 0x6F then
        let longflag = (if f = 0x4F then longflag + 1 else longflag);
            ds = (if longflag \<noteq> 0 then prtl8 (cur_arg s) else prt8 (cur_arg s))
        in Some (s\<lparr>f_string := put_string ds (f_string s)\<rparr>, LocalString, False, fill, 0)
      else if f = 0x58 \<or> f = 0x78 then
        let longflag = (if f = 0x58 then longflag + 1 else longflag);
            ds = (if longflag \<noteq> 0 then prtl16 (cur_arg s) else prt16 (cur_arg s))
        in Some (s\<lparr>f_string := put_string ds (f_string s)\<rparr>, LocalString, False, fill, 0)
      else if f = 0x42 \<or> f = 0x62 then
        let longflag = (if f = 0x42 then longflag + 1 else longflag);
            ds = (if longflag \<noteq> 0 then prtl2 (cur_arg s) else prt2 (cur_arg s))
        in Some (s\<lparr>f_string := put_string ds (f_string s)\<rparr>, LocalString, False, fill, 0)
      else Some (putc f s, LocalString, False, fill, fmax))"

section \<open>Padding and output\<close>

definition text_at :: "fmt_state \<Rightarrow> text_src \<Rightarrow> nat \<Rightarrow> u8" where
  "text_at s src i = (case src of LocalString \<Rightarrow> f_string s i | UserString a \<Rightarrow> f_mem s (a + of_nat i))"

partial_function (option) text_length :: "(nat \<Rightarrow> u8) \<Rightarrow> nat \<Rightarrow> nat option" where
  "text_length txt len = (if txt len \<noteq> 0 then text_length txt (len + 1) else Some len)"

definition MAXSTR :: i32 where "MAXSTR = 80"

definition clip_width :: "i32 \<Rightarrow> i32" where
  "clip_width w = (if sint MAXSTR < sint w \<or> sint w < 0 then 0 else w)"

definition emit_field :: "bool \<Rightarrow> u8 \<Rightarrow> bool \<Rightarrow> i32 \<Rightarrow> i32 \<Rightarrow> text_src \<Rightarrow> i32 \<Rightarrow> fmt_state \<Rightarrow> fmt_state" where
  "emit_field leftjust fill is_neg fmin fmax src len s =
     (let fmin = clip_width fmin;
          fmax = clip_width fmax;
          len = (if fmax \<noteq> 0 \<and> sint fmax < sint len then fmax else len);
          leading = (if fmin \<noteq> 0 then fmin - len else 0);
          leading = (if (fmax \<noteq> 0 \<or> fmin \<noteq> 0) \<and> is_neg then leading - 1 else leading);
          s = (if is_neg \<and> fill = 0x30 then putc 0x2D s else s);
          s = (if \<not> leftjust then fold (\<lambda>i. putc fill) [0..<nat (sint leading)] s else s);
          s = (if is_neg \<and> fill = 0x20 then putc 0x2D s else s);
          s = fold (\<lambda>i s. putc (text_at s src i) s) [0..<nat (sint len)] s
      in if leftjust then fold (\<lambda>i. putc fill) [0..<nat (sint leading)] s else s)"

section \<open>The format string\<close>

partial_function (option) parse_number :: "memory \<Rightarrow> addr \<Rightarrow> i32 \<Rightarrow> (i32 \<times> addr) option" where
  "parse_number m fmt n =
     (if is_digit (m fmt) then parse_number m (fmt + 1) (n * 10 + scast (m fmt) - 0x30) else Some (n, fmt))"

definition parse_width :: "addr \<Rightarrow> fmt_state \<Rightarrow> (i32 \<times> addr \<times> fmt_state) option" where
  "parse_width fmt s =
     (if f_mem s fmt = 0x2A then Some (cur_arg s, fmt + 1, s\<lparr>f_args := f_args s + 4\<rparr>)
      else do { (n, fmt) \<leftarrow> parse_number (f_mem s) fmt 0; Some (n, fmt, s) })"

text \<open>A directive after its percent sign. The result says whether the format goes on, and where.\<close>

definition directive :: "addr \<Rightarrow> fmt_state \<Rightarrow> (addr option \<times> fmt_state) option" where
  "directive fmt s = do {
     let leftjust = (f_mem s fmt = 0x2D);
     let fmt = (if leftjust then fmt + 1 else fmt);
     let fill = (if f_mem s fmt = 0x30 then 0x30 else 0x20);
     let fmt = (if f_mem s fmt = 0x30 then fmt + 1 else fmt);
     (fmin, fmt, s) \<leftarrow> parse_width fmt s;
     (fmax, fmt, s) \<leftarrow> (if f_mem s fmt = 0x2E then parse_width (fmt + 1) s else Some (0, fmt, s));
     let fmt = (if f_mem s fmt = 0x6C then fmt + 1 else fmt);
     let longflag = 1;
     let f = f_mem s fmt;
     let fmt = fmt + 1;
     if f = 0 then Some (None, putc 0x25 s)
     else do {
       (s, src, is_neg, fill, fmax) \<leftarrow> convert f longflag fill fmax s;
       let s = s\<lparr>f_args := f_args s + 4\<rparr>;
       len \<leftarrow> text_length (text_at s src) 0;
       Some (Some fmt, emit_field leftjust fill is_neg fmin fmax src (of_nat len) s)
     }
   }"

partial_function (option) doprnt :: "addr \<Rightarrow> fmt_state \<Rightarrow> fmt_state option" where
  "doprnt fmt s =
     (let c = f_mem s fmt; fmt = fmt + 1
      in if c \<noteq> 0x25 then
           if c = 0 then Some s else doprnt fmt (putc c s)
         else if f_mem s fmt = 0x25 then doprnt (fmt + 1) (putc 0x25 s)
         else do {
           (go, s) \<leftarrow> directive fmt s;
           (case go of None \<Rightarrow> Some s | Some fmt \<Rightarrow> doprnt fmt s)
         })"

text \<open>\<^verbatim>\<open>sprintf\<close>: the end of the text in memory is terminated; the result is the address after it.\<close>

definition sprintf :: "addr \<Rightarrow> addr \<Rightarrow> addr \<Rightarrow> (nat \<Rightarrow> u8) \<Rightarrow> memory \<Rightarrow> (addr \<times> memory) option" where
  "sprintf str fmt args locals m = do {
     s \<leftarrow> doprnt fmt \<lparr>f_mem = m, f_args = args, f_string = locals, f_out = [], f_dst = Some str\<rparr>;
     let p = the (f_dst s);
     Some (p + 1, (f_mem s)(p := 0))
   }"

end
