(* ===== verification/User.thy ===== *)
theory User
  imports Shell Lib_Format Syscalls
begin

text \<open>
  The programs of \<^verbatim>\<open>c/user.c\<close>: the login process, the shell and its commands. A program is a tree
  of the system calls it makes, each with what it does with the answer; what it computes between
  two calls is done on the byte memory, which the kernel may have changed when a call returns. A
  tree is finite: a program that loops is given by one turn of its loop. The frames of the
  processes (where their local buffers lie) are arguments.
\<close>

unbundle bit_operations_syntax

section \<open>Programs that make system calls\<close>

datatype 'a user =
    Done 'a memory
  | Stuck
  | Call sys_call memory "i32 \<Rightarrow> memory \<Rightarrow> 'a user"

primrec user_bind :: "'a user \<Rightarrow> ('a \<Rightarrow> memory \<Rightarrow> 'b user) \<Rightarrow> 'b user" where
  "user_bind (Done x m) f = f x m"
| "user_bind Stuck f = Stuck"
| "user_bind (Call c m k) f = Call c m (\<lambda>r m. user_bind (k r m) f)"

text \<open>A computation of the process itself, which may not return.\<close>

definition after :: "'b option \<Rightarrow> ('b \<Rightarrow> 'a user) \<Rightarrow> 'a user" where
  "after x f = (case x of None \<Rightarrow> Stuck | Some y \<Rightarrow> f y)"

lemma after_simps [simp]: "after None f = Stuck" "after (Some x) f = f x"
  by (simp_all add: after_def)

text \<open>
  The answers of the kernel: what a call returns and what has become of the memory. Playing a
  program against a list of answers gives the calls it makes, and where it ends.
\<close>

type_synonym answer = "i32 \<times> (memory \<Rightarrow> memory)"

fun play :: "'a user \<Rightarrow> answer list \<Rightarrow> sys_call list \<times> ('a \<times> memory) option" where
  "play (Done x m) as = ([], Some (x, m))"
| "play Stuck as = ([], None)"
| "play (Call c m k) [] = ([c], None)"
| "play (Call c m k) ((r, f) # as) = (let (cs, res) = play (k r (f m)) as in (c # cs, res))"

text \<open>A loop whose body says whether it goes on, with a list of answers for each turn.\<close>

fun play_loop :: "(memory \<Rightarrow> bool user) \<Rightarrow> memory \<Rightarrow> answer list list \<Rightarrow> sys_call list \<times> (bool \<times> memory) option" where
  "play_loop p m [] = ([], Some (True, m))"
| "play_loop p m (as # ass) =
     (case play (p m) as of
        (cs, Some (True, m')) \<Rightarrow> (let (cs', res) = play_loop p m' ass in (cs @ cs', res))
      | other \<Rightarrow> other)"

lemma play_loop_turn:
  "play (p m) as = (cs, Some (True, m')) \<Longrightarrow> fst (play_loop p m (as # ass)) = cs @ fst (play_loop p m' ass)"
  by (simp split: prod.split)

lemma play_loop_last: "play (p m) as = (cs, Some (False, m')) \<Longrightarrow> play_loop p m (as # ass) = (cs, Some (False, m'))"
  by simp

section \<open>Names of the program text\<close>

text \<open>Where the linker puts the string literals, the functions and the statics.\<close>

record user_syms =
  lit :: "string \<Rightarrow> addr"
  fn_shell :: addr
  fn_command_ps :: addr
  fn_command_k :: addr
  fn_command_a :: addr
  fn_command_t :: addr
  fn_command_a_handler :: addr
  v_pid_to_kill :: addr
  v_command_arg :: addr
  v_detailed_states :: addr

definition ascii :: "string \<Rightarrow> u8 list" where
  "ascii s = map of_char s"

definition nl :: string where
  "nl = [CHR 0x0A]"

section \<open>root\<close>

definition same_text :: "addr \<Rightarrow> addr \<Rightarrow> memory \<Rightarrow> bool option" where
  "same_text p q m = map_option (\<lambda>c. c = 0) (strcmp m p q)"

definition root_turn :: "user_syms \<Rightarrow> addr \<Rightarrow> addr \<Rightarrow> addr \<Rightarrow> memory \<Rightarrow> bool user" where
  "root_turn S user_buf pass_buf va m =
     (let m = memset user_buf 0 80 m;
          m = memset pass_buf 0 80 m
      in Call (sysputs (lit S (''Welcome to Xeros - an experimental OS'' @ nl))) m (\<lambda>_ m.
         Call (sysopen (of_nat DEV_ID_KEYBOARD)) m (\<lambda>fd m.
         Call (sysputs (lit S ''Username: '')) m (\<lambda>_ m.
         Call (sysread fd user_buf 20) m (\<lambda>_ m.
         Call (sysioctl fd KEYBOARD_IOCTL_DISABLE_ECHO va) m (\<lambda>_ m.
         Call (sysputs (lit S ''Password: '')) m (\<lambda>_ m.
         Call (sysread fd pass_buf 20) m (\<lambda>_ m.
         Call (sysclose fd) m (\<lambda>_ m.
         after (filter_newline user_buf m) (\<lambda>m.
         after (filter_newline pass_buf m) (\<lambda>m.
         after (same_text user_buf (lit S ''cs415'') m) (\<lambda>user_ok.
         after (if user_ok then same_text pass_buf (lit S ''EveryonegetsanA'') m else Some False) (\<lambda>ok.
         if ok then
           Call (syscreate (fn_shell S) DEFAULT_STACK_SIZE) m (\<lambda>shell_pid m.
           Call (syswait shell_pid) m (\<lambda>_ m. Done True m))
         else
           Call (sysputs (lit S (nl @ ''Invalid username and/or password!'' @ nl @ nl))) m (\<lambda>_ m. Done True m))))))))))))))"

section \<open>shell\<close>

definition shell_begin :: "user_syms \<Rightarrow> memory \<Rightarrow> i32 user" where
  "shell_begin S m = Call (sysputs (lit S nl)) m (\<lambda>_ m. Call (sysopen (of_nat DEV_ID_KEYBOARD)) m (\<lambda>fd m. Done fd m))"

definition shell_wait :: "bool \<Rightarrow> i32 \<Rightarrow> memory \<Rightarrow> bool user" where
  "shell_wait wait pid m = (if wait then Call (syswait pid) m (\<lambda>_ m. Done True m) else Done True m)"

definition shell_command :: "user_syms \<Rightarrow> addr \<Rightarrow> addr \<Rightarrow> i32 \<Rightarrow> memory \<Rightarrow> bool user" where
  "shell_command S command argument ampersand m =
     after (same_text (lit S ''t'') command m) (\<lambda>t.
     if t then Call (syscreate (fn_command_t S) DEFAULT_STACK_SIZE) m (\<lambda>pid m. shell_wait (ampersand = 0) pid m)
     else after (same_text (lit S ''ps'') command m) (\<lambda>ps.
     if ps then Call (syscreate (fn_command_ps S) DEFAULT_STACK_SIZE) m (\<lambda>pid m. shell_wait True pid m)
     else after (same_text (lit S ''a'') command m) (\<lambda>a.
     if a then
       let m = store32 m (v_command_arg S) argument
       in Call (syscreate (fn_command_a S) DEFAULT_STACK_SIZE) m (\<lambda>pid m. shell_wait True pid m)
     else after (same_text (lit S ''k'') command m) (\<lambda>k.
     if k then after (atoi m argument) (\<lambda>n.
       let m = store32 m (v_pid_to_kill S) n
       in Call (syscreate (fn_command_k S) DEFAULT_STACK_SIZE) m (\<lambda>pid m. shell_wait True pid m))
     else after (same_text (lit S ''ex'') command m) (\<lambda>ex.
     if ex then Done False m
     else Call (sysputs (lit S (''Invalid command!'' @ nl))) m (\<lambda>_ m. shell_wait True 0 m))))))"

definition shell_turn :: "user_syms \<Rightarrow> addr \<Rightarrow> addr \<Rightarrow> addr \<Rightarrow> i32 \<Rightarrow> memory \<Rightarrow> bool user" where
  "shell_turn S buf command argument fd m =
     (let m = memset buf 0 100 m
      in Call (sysputs (lit S ''> '')) m (\<lambda>_ m.
         Call (sysread fd buf 80) m (\<lambda>bytes m.
         if bytes = 0 then Done False m
         else after (filter_newline buf m) (\<lambda>m.
              after (get_command buf command argument m) (\<lambda>(ampersand, m).
              shell_command S command argument ampersand m)))))"

definition shell_end :: "user_syms \<Rightarrow> i32 \<Rightarrow> memory \<Rightarrow> unit user" where
  "shell_end S fd m = Call (sysputs (lit S (''Logging out...'' @ nl))) m (\<lambda>_ m. Call (sysclose fd) m (\<lambda>_ m. Done () m))"

section \<open>The commands\<close>

definition ps_row :: "user_syms \<Rightarrow> addr \<Rightarrow> addr \<Rightarrow> addr \<Rightarrow> (nat \<Rightarrow> u8) \<Rightarrow> nat \<Rightarrow> memory \<Rightarrow> memory option" where
  "ps_row S ps str va locals i m =
     (let state = load32 m (v_detailed_states S + 4 * load32 m (ps_status ps i));
          m = store_args va [load32 m (ps_pid ps i), state, load32 m (ps_cpuTime ps i)] m
      in map_option snd (sprintf str (lit S (''%4d  %16s  %8d'' @ nl)) va locals m))"

fun ps_rows :: "user_syms \<Rightarrow> addr \<Rightarrow> addr \<Rightarrow> addr \<Rightarrow> (nat \<Rightarrow> u8) \<Rightarrow> nat \<Rightarrow> nat \<Rightarrow> memory \<Rightarrow> unit user" where
  "ps_rows S ps str va locals i 0 m = Done () m"
| "ps_rows S ps str va locals i (Suc n) m =
     after (ps_row S ps str va locals i m) (\<lambda>m.
     Call (sysputs str) m (\<lambda>_ m. ps_rows S ps str va locals (Suc i) n m))"

definition command_ps :: "user_syms \<Rightarrow> addr \<Rightarrow> addr \<Rightarrow> addr \<Rightarrow> (nat \<Rightarrow> u8) \<Rightarrow> memory \<Rightarrow> unit user" where
  "command_ps S ps str va locals m =
     Call (sysgetcputimes ps) m (\<lambda>num m.
     Call (sysputs (lit S (''PID | State           | Time'' @ nl))) m (\<lambda>_ m.
     ps_rows S ps str va locals 0 (nat (sint num + 1)) m))"

definition command_k :: "user_syms \<Rightarrow> memory \<Rightarrow> unit user" where
  "command_k S m =
     (if load32 m (v_pid_to_kill S) = 0 then
        Call (sysputs (lit S (''Cannot terminate idle proc.'' @ nl))) m (\<lambda>_ m. Done () m)
      else
        Call (syskill (load32 m (v_pid_to_kill S)) KILL_SIGNAL_NUM) m (\<lambda>ret m.
        if ret \<noteq> 0 then Call (sysputs (lit S (''No such process.'' @ nl))) m (\<lambda>_ m. Done () m)
        else Done () m))"

definition command_a_handler :: "user_syms \<Rightarrow> addr \<Rightarrow> memory \<Rightarrow> unit user" where
  "command_a_handler S oldHandler m =
     Call (sysputs (lit S (''ALARM ALARM ALARM'' @ nl))) m (\<lambda>_ m.
     Call (syssighandler 15 0 oldHandler) m (\<lambda>_ m. Done () m))"

definition command_a :: "user_syms \<Rightarrow> addr \<Rightarrow> memory \<Rightarrow> unit user" where
  "command_a S oldHandler m =
     after (atoi m (load32 m (v_command_arg S))) (\<lambda>sleeparg.
     if sint sleeparg \<le> 0 then
       Call (sysputs (lit S (''Usage: Enter SLEEP_MILLIS'' @ nl))) m (\<lambda>_ m. Done () m)
     else
       Call (syssighandler 15 (fn_command_a_handler S) oldHandler) m (\<lambda>_ m.
       Call (syssleep (MS_PER_CLOCK_TICK * sleeparg)) m (\<lambda>_ m.
       Call sysgetpid m (\<lambda>pid m.
       Call (syskill pid 15) m (\<lambda>_ m. Done () m)))))"

definition command_t_turn :: "user_syms \<Rightarrow> memory \<Rightarrow> bool user" where
  "command_t_turn S m = Call (sysputs (lit S (''T'' @ nl))) m (\<lambda>_ m. Call (syssleep 10000) m (\<lambda>_ m. Done True m))"

section \<open>Leaving a function that the kernel entered\<close>

text \<open>
  A process's function returns to \<^verbatim>\<open>sysstop\<close> (its return address, see \<open>init_process\<close>); a signal
  handler is called by \<^verbatim>\<open>sigtramp\<close>, which gives the frame back. Neither call returns, and after
  \<^verbatim>\<open>syssigreturn\<close> an assertion fails.
\<close>

definition leave_process :: "'a user \<Rightarrow> unit user" where
  "leave_process p = user_bind p (\<lambda>_ m. Call sysstop m (\<lambda>_ m. Stuck))"

definition sigtramp :: "(addr \<Rightarrow> memory \<Rightarrow> 'a user) \<Rightarrow> addr \<Rightarrow> memory \<Rightarrow> unit user" where
  "sigtramp handler cntx m = user_bind (handler cntx m) (\<lambda>_ m. Call (syssigreturn cntx) m (\<lambda>_ m. Stuck))"

end
