(* ===== verification/Lib_Properties.thy ===== *)
theory Lib_Properties
  imports Lib_Format Shell
begin

text \<open>
  What the C library's routines compute: \<^verbatim>\<open>blkcopy\<close> moves a block, \<^verbatim>\<open>sprintf\<close> with \<^verbatim>\<open>%d\<close>
  writes the decimal numeral of any 32-bit number and \<^verbatim>\<open>atoi\<close> reads it back.
\<close>

unbundle bit_operations_syntax

section \<open>Block copy\<close>

text \<open>C26. \<^verbatim>\<open>blkcopy\<close> is a simultaneous copy, whatever the overlap of the two blocks: its string
  instructions, backward or forward by bytes and words, leave at the destination what the
  source held before, and nothing else changes.\<close>

theorem blkcopy_moves:
  assumes "0 \<le> sint count" "sint src + sint count \<le> 2 ^ 31" "sint dst + sint count \<le> 2 ^ 31"
  shows "blkcopy dst src count m = (\<lambda>x. if unat (x - dst) < unat count then m (src + (x - dst)) else m x)"
  using blkcopy_copied [OF assms] by (simp add: copied_def)

theorem blkcopy_moves_witness:
  "blkcopy 0x1001 0x1000 6 ucast = (\<lambda>x. if unat (x - 0x1001) < 6 then ucast (0x1000 + (x - 0x1001)) else ucast x)"
  using blkcopy_moves [of 6 "0x1000" "0x1001" ucast] by simp

section \<open>Decimal numerals\<close>

definition digit :: "nat \<Rightarrow> u8" where
  "digit d = 0x30 + of_nat d"

fun decimal :: "nat \<Rightarrow> u8 list" where
  "decimal n = (if n < 10 then [digit n] else decimal (n div 10) @ [digit (n mod 10)])"

declare decimal.simps [simp del]

fun digits_low :: "nat \<Rightarrow> nat \<Rightarrow> u8 list" where
  "digits_low 0 n = []"
| "digits_low (Suc i) n = digit (n mod 10) # digits_low i (n div 10)"

lemma ten_cases: "d < 10 \<Longrightarrow> d = 0 \<or> d = 1 \<or> d = 2 \<or> d = 3 \<or> d = 4 \<or> d = 5 \<or> d = 6 \<or> d = 7 \<or> d = 8 \<or> d = 9" for d :: nat
  by arith

lemma digit_facts:
  assumes "d < 10"
  shows "is_digit (digit d)" "scast (digit d) = (0x30 + of_nat d :: i32)" "digit d \<noteq> 0" "digit d = 0x30 \<longleftrightarrow> d = 0"
  using ten_cases [OF assms] by (elim disjE; simp add: digit_def is_digit_def)+

lemma digit_nonzero [simp]: "digit (n mod 10) \<noteq> 0"
  by (rule digit_facts) simp

lemma decimal_nonempty [simp]: "decimal n \<noteq> []"
  by (subst decimal.simps) simp

lemma decimal_digits: "c \<in> set (decimal n) \<Longrightarrow> is_digit c \<and> c \<noteq> 0"
  by (induction n rule: decimal.induct) (subst (asm) (2) decimal.simps, auto simp: digit_facts split: if_splits)

lemma drop_zeros: "n < 10 ^ i \<Longrightarrow> dropWhile (\<lambda>c. c = 0x30) (rev (digits_low i n)) = (if n = 0 then [] else decimal n)"
proof (induction i arbitrary: n)
  case (Suc i)
  have "n div 10 < 10 ^ i" using Suc.prems by (simp add: less_mult_imp_div_less mult.commute)
  note IH = Suc.IH [OF this]
  have h: "digit (n mod 10) = 0x30 \<longleftrightarrow> n mod 10 = 0" by (simp add: digit_facts)
  show ?case
  proof (cases "n div 10 = 0")
    case True
    then have "n < 10" by simp
    from IH True have "\<forall>c\<in>set (digits_low i (n div 10)). c = 0x30" by (simp add: dropWhile_eq_Nil_conv)
    then have "dropWhile (\<lambda>c. c = 0x30) (rev (digits_low i (n div 10)) @ [digit (n mod 10)]) = dropWhile (\<lambda>c. c = 0x30) [digit (n mod 10)]"
      by (intro dropWhile_append2) auto
    with h \<open>n < 10\<close> show ?thesis by (simp add: decimal.simps [of n])
  next
    case False
    then have "\<not> n < 10" by auto
    have "\<exists>c\<in>set (rev (digits_low i (n div 10))). c \<noteq> 0x30"
      using IH False by (metis (mono_tags, lifting) decimal_nonempty dropWhile_eq_Nil_conv)
    then have "dropWhile (\<lambda>c. c = 0x30) (rev (digits_low i (n div 10)) @ [digit (n mod 10)]) =
        dropWhile (\<lambda>c. c = 0x30) (rev (digits_low i (n div 10))) @ [digit (n mod 10)]"
      by (auto intro: dropWhile_append1)
    with IH False \<open>\<not> n < 10\<close> show ?thesis by (simp add: decimal.simps [of n])
  qed
qed simp

lemma emit_digits_low:
  assumes "n < 10 ^ i" "0 < i"
  shows "emit_digits (digits_low i n) = decimal n"
proof (cases n)
  case 0
  obtain j where "i = Suc j" using assms(2) by (cases i) auto
  then show ?thesis using drop_zeros [OF assms(1)] 0 by (simp add: emit_digits_def decimal.simps)
qed (use drop_zeros [OF assms(1)] in \<open>simp add: emit_digits_def Let_def\<close>)

lemma sdigits10_low: "n < 2 ^ 31 \<Longrightarrow> sdigits10 i (of_nat n) = digits_low i n"
proof (induction i arbitrary: n)
  case (Suc i)
  have s: "sint (of_nat n :: i32) = int n" using Suc.prems by (rule sint_of_nat)
  have "int n smod 10 = int (n mod 10)" "int n sdiv 10 = int (n div 10)"
    by (cases "n = 0"; simp add: signed_modulo_int_def signed_divide_int_def zdiv_int zmod_int)+
  moreover have "n div 10 < 2 ^ 31" using Suc.prems by simp
  ultimately show ?case using Suc.IH [of "n div 10"] s by (simp add: digit_def add.commute)
qed simp

lemma prtl10_decimal: "n < 2 ^ 31 \<Longrightarrow> prtl10 (of_nat n) = decimal n"
  by (simp add: prtl10_def sdigits10_low emit_digits_low)

lemma decimal_lead: "0 < a \<Longrightarrow> a < 10 \<Longrightarrow> b < 10 ^ i \<Longrightarrow> decimal (a * 10 ^ i + b) = digit a # rev (digits_low i b)"
proof (induction i arbitrary: b)
  case (Suc i)
  have "b div 10 < 10 ^ i" using Suc.prems by (simp add: less_mult_imp_div_less mult.commute)
  moreover have e: "a * 10 ^ Suc i + b = b + 10 * (a * 10 ^ i)" by simp
  have "(a * 10 ^ Suc i + b) div 10 = a * 10 ^ i + b div 10" "(a * 10 ^ Suc i + b) mod 10 = b mod 10"
    unfolding e by simp_all
  moreover have "1 * 10 \<le> a * 10 ^ Suc i" using Suc.prems(1) by (intro mult_mono) simp_all
  then have "\<not> a * 10 ^ Suc i + b < 10" by linarith
  ultimately show ?case using Suc.IH [of "b div 10"] Suc.prems by (subst decimal.simps) simp
qed (simp add: decimal.simps)

text \<open>Subtracting thousand millions from a word read as negative until it is not.\<close>

lemma fold_negative_nonneg: "0 \<le> sint num \<Longrightarrow> fold_negative num k = Some (num, k)"
  by (subst fold_negative.simps) simp

lemma fold_negative_step: "sint num < 0 \<Longrightarrow> fold_negative num k = fold_negative (num - 1000000000) (k + 1)"
  by (subst fold_negative.simps) simp

lemma sint_nonneg_iff: "0 \<le> sint num \<longleftrightarrow> unat num < 2 ^ 31" for num :: i32
proof
  assume nn: "0 \<le> sint num"
  moreover have "sint num < 2 ^ 31" using sint_less [of num] by simp
  ultimately show "unat num < 2 ^ 31" unfolding sint_small [OF nn] by (simp only: of_nat_less_iff [symmetric, where 'a = int]) simp
qed (simp add: sint_unat)

lemma fold_negative_correct:
  "\<exists>r k. fold_negative num 0 = Some (of_nat r, of_nat k) \<and> r < 2 ^ 31 \<and>
     unat num = k * 10 ^ 9 + r \<and> (k = 0 \<or> 10 ^ 9 \<le> r) \<and> k \<le> 3"
proof -
  have step: "fold_negative (of_nat n) (of_nat k) = fold_negative (of_nat (n - 10 ^ 9)) (of_nat (Suc k))"
    if "2 ^ 31 \<le> n" "n < 2 ^ 32" for n k
  proof -
    have "sint (of_nat n :: i32) < 0" using that sint_nonneg_iff [of "of_nat n"] by (simp add: unat_of_nat)
    moreover have "of_nat n - 1000000000 = (of_nat (n - 10 ^ 9) :: i32)" using that by (simp add: of_nat_diff)
    ultimately show ?thesis by (subst fold_negative_step) (simp_all add: add.commute)
  qed
  have stop: "fold_negative (of_nat n) k = Some (of_nat n, k)" if "n < 2 ^ 31" for n k
    by (rule fold_negative_nonneg) (use that in \<open>simp add: sint_nonneg_iff unat_of_nat\<close>)
  define n where "n = unat num"
  have n: "n < 2 ^ 32" using unat_lt [of num] by (simp add: n_def)
  consider "n < 2 ^ 31" | "2 ^ 31 \<le> n" "n < 2 ^ 31 + 10 ^ 9" | "2 ^ 31 + 10 ^ 9 \<le> n" "n < 2 ^ 31 + 2 * 10 ^ 9"
    | "2 ^ 31 + 2 * 10 ^ 9 \<le> n" by linarith
  then have "\<exists>r k. fold_negative (of_nat n) 0 = Some (of_nat r, of_nat k) \<and> r < 2 ^ 31 \<and>
     n = k * 10 ^ 9 + r \<and> (k = 0 \<or> 10 ^ 9 \<le> r) \<and> k \<le> 3"
  proof cases
    case 1
    then show ?thesis using stop [of n 0] by - (rule exI [of _ n], rule exI [of _ 0], auto)
  next
    case 2
    then show ?thesis using step [of n 0] stop [of "n - 10 ^ 9" 1] n
      by - (rule exI [of _ "n - 10 ^ 9"], rule exI [of _ 1], auto)
  next
    case 3
    then show ?thesis using step [of n 0] step [of "n - 10 ^ 9" 1] stop [of "n - 2 * 10 ^ 9" 2] n
      by - (rule exI [of _ "n - 2 * 10 ^ 9"], rule exI [of _ 2], auto)
  next
    case 4
    then show ?thesis using step [of n 0] step [of "n - 10 ^ 9" 1] step [of "n - 2 * 10 ^ 9" 2] stop [of "n - 3 * 10 ^ 9" 3] n
      by - (rule exI [of _ "n - 3 * 10 ^ 9"], rule exI [of _ 3], auto)
  qed
  then show ?thesis by (simp add: n_def)
qed

text \<open>The digits of the part below, with the number of subtractions added to the first one.\<close>

lemma decimal_fold:
  assumes "r < 2 ^ 31" "k = 0 \<or> 10 ^ 9 \<le> r" "k \<le> 3"
  shows "decimal (k * 10 ^ 9 + r) = (case decimal r of c # cs \<Rightarrow> (c + of_nat k) # cs)"
proof (cases "k = 0")
  case True
  then show ?thesis using decimal_nonempty [of r] by (simp split: list.split)
next
  case False
  define a b where "a = r div 10 ^ 9" and "b = r mod 10 ^ 9"
  have r: "r = a * 10 ^ 9 + b" "b < 10 ^ 9" by (simp_all add: a_def b_def)
  have "a \<le> 2" "0 < a" using assms False by (auto simp: a_def)
  then have "decimal r = digit a # rev (digits_low 9 b)" "decimal (k * 10 ^ 9 + r) = digit (k + a) # rev (digits_low 9 b)"
    using decimal_lead [of a b 9] decimal_lead [of "k + a" b 9] r assms(3) by (simp_all add: algebra_simps)
  then show ?thesis by (simp add: digit_def)
qed

lemma puts_fields:
  "f_dst s = Some p \<Longrightarrow> fold putc cs s = s\<lparr>f_out := f_out s @ cs, f_mem := write_bytes p cs (f_mem s), f_dst := Some (p + of_nat (length cs))\<rparr>"
proof (induction cs arbitrary: s p)
  case (Cons c cs)
  have "f_dst (putc c s) = Some (p + 1)" by (simp add: putc_def Cons.prems)
  from Cons.IH [OF this] show ?case by (simp add: putc_def Cons.prems add.assoc fun_upd_def)
qed simp

lemma puts_fields_None: "f_dst s = None \<Longrightarrow> fold putc cs s = s\<lparr>f_out := f_out s @ cs\<rparr>"
  by (induction cs arbitrary: s) (simp_all add: putc_def)

text \<open>The conversion of \<^verbatim>\<open>%d\<close> leaves the numeral of the absolute value in the buffer.\<close>

lemma put_string_lead:
  "cs \<noteq> [] \<Longrightarrow> (put_string cs str)(0 := put_string cs str 0 + c) = put_string (case cs of d # ds \<Rightarrow> (d + c) # ds) str"
  by (cases cs) (auto simp: put_string_def fun_eq_iff nth_Cons split: nat.split)

lemma conv_unsigned_correct:
  "\<exists>r. conv_unsigned True s = Some (s\<lparr>f_mem := store32 (f_mem s) (f_args s) r,
     f_string := put_string (decimal (unat (cur_arg s))) (f_string s)\<rparr>)"
proof -
  obtain r k where f: "fold_negative (cur_arg s) 0 = Some (of_nat r, of_nat k)" "r < 2 ^ 31"
    "unat (cur_arg s) = k * 10 ^ 9 + r" "k = 0 \<or> 10 ^ 9 \<le> r" "k \<le> 3"
    using fold_negative_correct by blast
  have "put_string (decimal (unat (cur_arg s))) str = put_string (case decimal r of c # cs \<Rightarrow> (c + of_nat k) # cs) str" for str
    by (simp only: f(3) decimal_fold [OF f(2,4,5)])
  then show ?thesis
    by (intro exI [of _ "of_nat r"])
      (simp add: conv_unsigned_def f(1) prtl10_decimal [OF f(2)] put_string_lead)
qed

text \<open>The text of a signed number: a minus sign when it is negative, and the numeral.\<close>

definition signed_text :: "i32 \<Rightarrow> u8 list" where
  "signed_text v = (if sint v < 0 then 0x2D # decimal (unat (- v)) else decimal (unat v))"

lemma text_length_from:
  "k \<le> n \<Longrightarrow> (\<forall>i<n. txt i \<noteq> 0) \<Longrightarrow> txt n = 0 \<Longrightarrow> text_length txt k = Some n"
proof (induction "n - k" arbitrary: k)
  case 0
  then show ?case by (subst text_length.simps) simp
next
  case (Suc d)
  then have "text_length txt (k + 1) = Some n" by (intro Suc.hyps) auto
  then show ?case using Suc by (subst text_length.simps) auto
qed

lemma put_string_length: "\<forall>c\<in>set cs. c \<noteq> 0 \<Longrightarrow> text_length (put_string cs str) 0 = Some (length cs)"
  by (rule text_length_from) (auto simp: put_string_def)

lemma putc_string [simp]: "f_string (putc c s) = f_string s"
  by (simp add: putc_def split: option.split)

lemma text_at_local: "text_at s LocalString = f_string s"
  by (rule ext) (simp add: text_at_def)

lemma emit_local: "fold (\<lambda>i s. putc (text_at s LocalString i) s) is s = fold putc (map (f_string s) is) s"
  by (induction "is" arbitrary: s) (simp_all add: text_at_def)

lemma decimal_length: "n < 10 ^ Suc k \<Longrightarrow> length (decimal n) \<le> Suc k"
proof (induction k arbitrary: n)
  case (Suc k)
  then have "n div 10 < 10 ^ Suc k" by (simp add: less_mult_imp_div_less mult.commute)
  from Suc.IH [OF this] show ?case by (subst decimal.simps) simp
qed (subst decimal.simps, simp)

lemma signed_text_length: "length (signed_text v) \<le> 11"
  using decimal_length [of "unat v" 9] decimal_length [of "unat (- v)" 9] unat_lt [of v] unat_lt [of "- v"]
  by (simp add: signed_text_def)

lemma store32_twice: "store32 (store32 m a x) a y = store32 m a y"
  by (simp add: store32_def fun_eq_iff)

text \<open>A field is padded with blanks on the left to its minimal width.\<close>

definition padded :: "nat \<Rightarrow> u8 list \<Rightarrow> u8 list" where
  "padded w cs = replicate (w - length cs) 0x20 @ cs"

lemma padded_length: "length (padded w cs) = max w (length cs)"
  by (simp add: padded_def)

lemma emit_fill: "fold (\<lambda>i. putc c) [0..<k] s = fold putc (replicate k c) s"
proof (induction k)
  case (Suc k)
  have "replicate (Suc k) c = replicate k c @ [c]" by (simp add: replicate_append_same)
  then show ?case using Suc by simp
qed simp

lemma emit_text:
  "(\<And>i. i < length cs \<Longrightarrow> text_at (fold putc (take i cs) t) src i = cs ! i) \<Longrightarrow>
   fold (\<lambda>i s. putc (text_at s src i) s) [0..<length cs] t = fold putc cs t"
proof (induction cs rule: rev_induct)
  case (snoc c cs)
  have "fold (\<lambda>i s. putc (text_at s src i) s) [0..<length cs] t = fold putc cs t"
  proof (rule snoc.IH)
    show "text_at (fold putc (take i cs) t) src i = cs ! i" if "i < length cs" for i
      using snoc.prems [of i] that by (simp add: nth_append)
  qed
  then show ?case using snoc.prems [of "length cs"] by simp
qed simp

lemma field_lead:
  assumes "w \<le> 80" "n \<le> 80"
  shows "nat (sint (of_nat w - of_nat n :: i32)) = w - n" "nat (sint (of_nat w - of_nat n - 1 :: i32)) = w - n - 1"
proof -
  have e: "of_nat w - of_nat n = (of_int (int w - int n) :: i32)" "of_nat w - of_nat n - 1 = (of_int (int w - int n - 1) :: i32)" by simp_all
  have "\<bar>int w - int n\<bar> < 2 ^ 31" "\<bar>int w - int n - 1\<bar> < 2 ^ 31" using assms by (auto simp: abs_if)
  note b = this [THEN sint_of_int]
  show "nat (sint (of_nat w - of_nat n :: i32)) = w - n" unfolding e(1) b(1) by linarith
  show "nat (sint (of_nat w - of_nat n - 1 :: i32)) = w - n - 1" unfolding e(2) b(2) by linarith
qed

lemma emit_padded:
  assumes "w \<le> 80" "length cs \<le> 80" "sg = (if neg then [0x2D] else [])"
    and "\<And>i. i < length cs \<Longrightarrow> text_at (fold putc (replicate (w - length (sg @ cs)) 0x20 @ sg @ take i cs) s) src i = cs ! i"
  shows "emit_field False 0x20 neg (of_nat w) 0 src (of_nat (length cs)) s = fold putc (padded w (sg @ cs)) s"
proof -
  have w: "sint (of_nat w :: i32) = int w" "sint (of_nat (length cs) :: i32) = int (length cs)"
    using assms(1,2) by (auto intro!: sint_of_nat)
  then have c: "clip_width (of_nat w) = of_nat w" "clip_width 0 = 0" "of_nat w = (0 :: i32) \<longleftrightarrow> w = 0"
    using assms(1) by (auto simp: clip_width_def MAXSTR_def)
  let ?t = "fold putc sg (fold putc (replicate (w - length (sg @ cs)) 0x20) s)"
  have "emit_field False 0x20 neg (of_nat w) 0 src (of_nat (length cs)) s =
      fold (\<lambda>i s. putc (text_at s src i) s) [0..<length cs] ?t"
    using c w(2) field_lead [OF assms(1,2)] by (cases neg; cases "w = 0") (simp_all add: emit_field_def emit_fill assms(3))
  also have "\<dots> = fold putc cs ?t" by (rule emit_text) (use assms(4) in simp)
  finally show ?thesis by (simp add: padded_def)
qed

lemma text_at_local_putc: "text_at (fold putc cs s) LocalString i = f_string s i"
proof (induction cs arbitrary: s)
  case (Cons c cs)
  show ?case using Cons [of "putc c s"] by simp
qed (simp add: text_at_def)

lemma signed_parts:
  assumes "conv_signed s = (t, neg)"
  shows "(if neg then [0x2D] else []) @ decimal (unat (cur_arg t)) = signed_text (cur_arg s)"
    "\<exists>m. t = s\<lparr>f_mem := m\<rparr> \<and> (\<forall>r. store32 m (f_args s) r = store32 (f_mem s) (f_args s) r)"
  using assms by (auto simp: conv_signed_def cur_arg_def signed_text_def load32_store32_same store32_twice split: if_splits
    intro: exI [of _ "f_mem t"])

lemma directive_width_d:
  assumes "f_mem s fmt \<notin> {0x2D, 0x30, 0x2A}" "parse_number (f_mem s) fmt 0 = Some (of_nat w, q)" "f_mem s q = 0x64" "w \<le> 80"
  shows "\<exists>r str. directive fmt s = Some (Some (q + 1),
    fold putc (padded w (signed_text (cur_arg s))) (s\<lparr>f_mem := store32 (f_mem s) (f_args s) r, f_string := str, f_args := f_args s + 4\<rparr>))"
proof -
  obtain t neg where t: "conv_signed s = (t, neg)" by fastforce
  let ?ds = "decimal (unat (cur_arg t))"
  obtain m where m: "t = s\<lparr>f_mem := m\<rparr>" "\<And>r. store32 m (f_args s) r = store32 (f_mem s) (f_args s) r"
    using signed_parts(2) [OF t] by blast
  obtain r where r: "conv_unsigned True t = Some (t\<lparr>f_mem := store32 (f_mem t) (f_args t) r, f_string := put_string ?ds (f_string t)\<rparr>)"
    using conv_unsigned_correct by blast
  have l: "length ?ds \<le> 80" using decimal_length [of "unat (cur_arg t)" 9] unat_lt [of "cur_arg t"] by simp
  have tl: "text_length (put_string ?ds str) 0 = Some (length ?ds)" for str
    by (rule put_string_length) (auto dest: decimal_digits)
  define v where "v = t\<lparr>f_mem := store32 (f_mem t) (f_args t) r, f_string := put_string ?ds (f_string t), f_args := f_args t + 4\<rparr>"
  have "directive fmt s = Some (Some (q + 1), emit_field False 0x20 neg (of_nat w) 0 LocalString (of_nat (length ?ds)) v)"
    using assms(1-3) by (auto simp: directive_def parse_width_def convert_def t r tl text_at_local v_def Let_def)
  also have "emit_field False 0x20 neg (of_nat w) 0 LocalString (of_nat (length ?ds)) v =
      fold putc (padded w ((if neg then [0x2D] else []) @ ?ds)) v"
    by (rule emit_padded [OF assms(4) l refl], unfold text_at_local_putc) (simp add: v_def put_string_def)
  finally show ?thesis unfolding signed_parts(1) [OF t]
    by (intro exI [of _ r] exI [of _ "f_string v"]) (simp add: v_def m)
qed

text \<open>Without a width.\<close>

lemma directive_d:
  assumes "f_mem s fmt = 0x64" "f_dst s = Some p"
  shows "\<exists>r str. directive fmt s = Some (Some (fmt + 1),
    s\<lparr>f_mem := write_bytes p (signed_text (cur_arg s)) (store32 (f_mem s) (f_args s) r), f_args := f_args s + 4, f_string := str,
      f_out := f_out s @ signed_text (cur_arg s), f_dst := Some (p + of_nat (length (signed_text (cur_arg s))))\<rparr>)"
proof -
  have "parse_number (f_mem s) fmt 0 = Some (of_nat 0, fmt)" by (subst parse_number.simps) (simp add: is_digit_def assms(1))
  then obtain r str where "directive fmt s = Some (Some (fmt + 1), fold putc (padded 0 (signed_text (cur_arg s)))
      (s\<lparr>f_mem := store32 (f_mem s) (f_args s) r, f_string := str, f_args := f_args s + 4\<rparr>))"
    using directive_width_d [of s fmt 0 fmt] assms(1) by auto
  then show ?thesis using assms(2)
    by (intro exI [of _ r] exI [of _ str]) (subst (asm) puts_fields, simp, cases s, simp add: padded_def)
qed

lemma cstringI:
  "(\<And>i. i < length cs \<Longrightarrow> m (a + of_nat i) = cs ! i \<and> cs ! i \<noteq> 0) \<Longrightarrow> m (a + of_nat (length cs)) = 0 \<Longrightarrow> cstring m a cs"
proof (induction cs arbitrary: a)
  case (Cons c cs)
  have "cstring m (a + 1) cs"
  proof (rule Cons.IH)
    show "m (a + 1 + of_nat i) = cs ! i \<and> cs ! i \<noteq> 0" if "i < length cs" for i
      using Cons.prems(1) [of "Suc i"] that by (simp add: add.assoc)
  qed (use Cons.prems(2) in \<open>simp add: add.assoc\<close>)
  with Cons.prems(1) [of 0] show ?case by simp
qed simp

lemma cstring_write:
  assumes "0 \<notin> set cs" "length cs < 2 ^ 32"
  shows "cstring ((write_bytes a cs m)(a + of_nat (length cs) := 0)) a cs"
proof (rule cstringI)
  fix i assume i: "i < length cs"
  then have u: "unat (of_nat i :: u32) = i" "unat (of_nat (length cs) :: u32) = length cs"
    using assms(2) by (simp_all add: unat_of_nat)
  then have "of_nat i \<noteq> (of_nat (length cs) :: u32)" using i by force
  then show "((write_bytes a cs m)(a + of_nat (length cs) := 0)) (a + of_nat i) = cs ! i \<and> cs ! i \<noteq> 0"
    using assms i u by (auto simp: write_bytes_apply) (metis nth_mem)
qed simp

text \<open>Reading a numeral back.\<close>

lemma atoi_digits_cstring:
  "cstring m p cs \<Longrightarrow> \<forall>c\<in>set cs. is_digit c \<Longrightarrow>
   atoi_digits m p n = Some (foldl (\<lambda>n c. n * 10 + scast c - 0x30) n cs)"
proof (induction cs arbitrary: p n)
  case Nil
  then show ?case by (subst atoi_digits.simps) (simp add: is_digit_def)
next
  case (Cons c cs)
  then show ?case by (subst atoi_digits.simps) simp
qed

lemma decimal_value: "foldl (\<lambda>n c. n * 10 + scast c - 0x30) 0 (decimal n) = (of_nat n :: i32)"
proof (induction n rule: decimal.induct)
  case (1 n)
  have s: "scast (digit d) - 0x30 = (of_nat d :: i32)" if "d < 10" for d using digit_facts(2) [OF that] by simp
  have "of_nat n = (of_nat (10 * (n div 10) + n mod 10) :: i32)" by simp
  also have "\<dots> = of_nat (n div 10) * 10 + of_nat (n mod 10)" by (simp only: of_nat_add of_nat_mult of_nat_numeral mult.commute)
  finally have e: "of_nat n = (of_nat (n div 10) * 10 + of_nat (n mod 10) :: i32)" .
  show ?case
  proof (cases "n < 10")
    case True
    with s [OF True] show ?thesis by (simp add: decimal.simps)
  next
    case False
    with 1 show ?thesis unfolding e by (subst decimal.simps) (simp add: s digit_facts(2))
  qed
qed

lemma atoi_text:
  assumes "cstring m p (signed_text v)"
  shows "atoi m p = Some v"
proof -
  have digits: "atoi_digits m q 0 = Some (of_nat n)" "m q \<notin> {0x20, 0x09, 0x2D, 0x2B}" if "cstring m q (decimal n)" for q n
  proof -
    show "atoi_digits m q 0 = Some (of_nat n)"
      using atoi_digits_cstring [OF that] decimal_digits decimal_value [of n] by auto
    have "m q = hd (decimal n)" using that by (cases "decimal n") auto
    then have "is_digit (m q)" using decimal_digits [of "hd (decimal n)" n] by simp
    then show "m q \<notin> {0x20, 0x09, 0x2D, 0x2B}" by (auto simp: is_digit_def)
  qed
  have skip: "skip_blanks m p = Some p" if "m p \<notin> {0x20, 0x09}" using that by (subst skip_blanks.simps) simp
  show ?thesis
  proof (cases "sint v < 0")
    case True
    then have c: "m p = 0x2D" "cstring m (p + 1) (decimal (unat (- v)))" using assms by (simp_all add: signed_text_def)
    then show ?thesis using digits(1) [OF c(2)] skip by (simp add: atoi_def)
  next
    case False
    then have c: "cstring m p (decimal (unat v))" using assms by (simp add: signed_text_def)
    then show ?thesis using digits [OF c] skip by (simp add: atoi_def)
  qed
qed

lemma skip_blanks_total: "cstring m p cs \<Longrightarrow> \<exists>q ds. skip_blanks m p = Some q \<and> cstring m q ds"
proof (induction cs arbitrary: p)
  case Nil
  then show ?case by (subst skip_blanks.simps) (auto intro: exI [of _ "[]"])
next
  case (Cons c cs)
  show ?case
  proof (cases "c = 0x20 \<or> c = 0x09")
    case True
    then show ?thesis using Cons.IH [of "p + 1"] Cons.prems by (subst skip_blanks.simps) auto
  next
    case False
    then have "skip_blanks m p = Some p" using Cons.prems by (subst skip_blanks.simps) auto
    then show ?thesis using Cons.prems by blast
  qed
qed

lemma atoi_digits_total: "cstring m p cs \<Longrightarrow> \<exists>n. atoi_digits m p k = Some n"
proof (induction cs arbitrary: p k)
  case Nil
  then show ?case by (subst atoi_digits.simps) (simp add: is_digit_def)
next
  case (Cons c cs)
  then show ?case by (subst atoi_digits.simps) auto
qed

text \<open>\<^verbatim>\<open>atoi\<close> returns on any string.\<close>

lemma atoi_total:
  assumes "cstring m p cs"
  shows "\<exists>n. atoi m p = Some n"
proof -
  obtain q ds where q: "skip_blanks m p = Some q" "cstring m q ds" using skip_blanks_total [OF assms] by blast
  have "\<exists>es. cstring m (if m q = 0x2D \<or> m q = 0x2B then q + 1 else q) es"
    using q(2) by (cases ds) (auto intro: exI [of _ ds])
  then obtain n where "atoi_digits m (if m q = 0x2D \<or> m q = 0x2B then q + 1 else q) 0 = Some n"
    using atoi_digits_total by blast
  then show ?thesis using q(1) by (simp add: atoi_def)
qed

text \<open>C29. Printing with \<^verbatim>\<open>%d\<close> and reading with \<^verbatim>\<open>atoi\<close> are inverse for every 32-bit number, the
  least one included: \<^verbatim>\<open>sprintf\<close> leaves the sign and the decimal numeral as a string, and
  \<^verbatim>\<open>atoi\<close> of it is the number.\<close>

theorem sprintf_atoi_roundtrip:
  assumes "m fmt = 0x25" "m (fmt + 1) = 0x64" "m (fmt + 2) = 0"
    and "12 \<le> unat (fmt + 2 - str)" "4 \<le> unat (fmt + 2 - args)"
  shows "\<exists>p m'. sprintf str fmt args locals m = Some (p, m') \<and>
    cstring m' str (signed_text (load32 m args)) \<and> atoi m' str = Some (load32 m args)"
proof -
  let ?v = "load32 m args" and ?s = "\<lparr>f_mem = m, f_args = args, f_string = locals, f_out = [], f_dst = Some str\<rparr>"
  let ?cs = "signed_text ?v"
  have dst: "f_dst ?s = Some str" and mem: "f_mem ?s (fmt + 1) = 0x64" and v: "cur_arg ?s = ?v"
    using assms by (simp_all add: cur_arg_def)
  obtain r ls where d: "directive (fmt + 1) ?s = Some (Some (fmt + 2),
      ?s\<lparr>f_mem := write_bytes str ?cs (store32 m args r), f_args := args + 4, f_string := ls,
        f_out := ?cs, f_dst := Some (str + of_nat (length ?cs))\<rparr>)"
    using directive_d [OF mem dst] unfolding v by (auto simp: add.assoc)
  have len: "length ?cs \<le> 11" by (rule signed_text_length)
  have "write_bytes str ?cs (store32 m args r) (fmt + 2) = 0"
    using len assms(3-5) by (simp add: write_bytes_apply store32_far)
  then have e: "doprnt (fmt + 2) t = Some t" if "f_mem t = write_bytes str ?cs (store32 m args r)" for t
    using that by (subst doprnt.simps) simp
  have "doprnt fmt ?s = Some (?s\<lparr>f_mem := write_bytes str ?cs (store32 m args r), f_args := args + 4, f_string := ls,
        f_out := ?cs, f_dst := Some (str + of_nat (length ?cs))\<rparr>)"
    using assms(1,2) d by (subst doprnt.simps) (simp add: e)
  then have s: "sprintf str fmt args locals m = Some (str + of_nat (length ?cs) + 1,
      (write_bytes str ?cs (store32 m args r))(str + of_nat (length ?cs) := 0))"
    by (simp add: sprintf_def Let_def)
  have "0 \<notin> set ?cs" by (auto simp: signed_text_def dest: decimal_digits)
  then have "cstring ((write_bytes str ?cs (store32 m args r))(str + of_nat (length ?cs) := 0)) str ?cs"
    by (rule cstring_write) (use len in simp)
  with s atoi_text show ?thesis by blast
qed

theorem sprintf_atoi_roundtrip_witness:
  "\<exists>p m'. sprintf 0x3000 0x1000 0x2000 (\<lambda>i. 0) ((\<lambda>a. 0)(0x1000 := 0x25, 0x1001 := 0x64, 0x2003 := 0x80)) = Some (p, m') \<and>
     atoi m' 0x3000 = Some 0x80000000"
  using sprintf_atoi_roundtrip [of "(\<lambda>a. 0)(0x1000 := 0x25, 0x1001 := 0x64, 0x2003 := 0x80)" "0x1000" "0x3000" "0x2000" "\<lambda>i. 0"]
  by (auto simp: load32_def)


end
