(* ===== verification/Shell_Properties.thy ===== *)
theory Shell_Properties
  imports Lib_Properties
begin

text \<open>
  What the shell's parser does with a line: the command, the argument and the ampersand it
  finds are those of three functions on lists of characters.
\<close>

unbundle bit_operations_syntax

section \<open>Parsing a line of the shell\<close>

text \<open>The command and the argument of a line, and whether it ends in an ampersand.\<close>

definition line_command :: "u8 list \<Rightarrow> u8 list" where
  "line_command cs = takeWhile (\<lambda>c. \<not> is_separator c) cs"

definition line_argument :: "u8 list \<Rightarrow> u8 list" where
  "line_argument cs = takeWhile (\<lambda>c. \<not> is_separator c) (dropWhile is_separator (dropWhile (\<lambda>c. \<not> is_separator c) cs))"

definition line_background :: "u8 list \<Rightarrow> bool" where
  "line_background cs \<longleftrightarrow> (case dropWhile (\<lambda>c. c = 0x20) (rev (tl cs)) of [] \<Rightarrow> False | c # _ \<Rightarrow> c = 0x26)"

definition apart :: "addr \<Rightarrow> addr \<Rightarrow> nat \<Rightarrow> bool" where
  "apart a b n \<longleftrightarrow> (\<forall>i\<le>n. \<forall>j\<le>n. a + of_nat i \<noteq> b + of_nat j)"

lemma cstring_write_other:
  assumes "\<And>i. i \<le> length cs \<Longrightarrow> d \<noteq> s + of_nat i"
  shows "cstring (m(d := c)) s cs = cstring m s cs"
  by (rule cstring_cong) (use assms in auto)

lemma copy_word_correct:
  "cstring m s cs \<Longrightarrow> (\<And>i j. i \<le> length cs \<Longrightarrow> j \<le> length cs \<Longrightarrow> s + of_nat i \<noteq> d + of_nat j) \<Longrightarrow>
   w = line_command cs \<Longrightarrow> copy_word s d len m = Some (s + of_nat (length w), d + of_nat (length w), len + of_nat (length w), write_bytes d w m)"
proof (induction cs arbitrary: s d len m w)
  case Nil
  then show ?case by (subst copy_word.simps) (simp add: line_command_def)
next
  case (Cons c cs)
  show ?case
  proof (cases "is_separator c")
    case True
    with Cons.prems show ?thesis by (subst copy_word.simps) (auto simp: line_command_def is_separator_def)
  next
    case False
    have c: "cstring (m(d := c)) (s + 1) cs"
    proof (subst cstring_write_other)
      show "d \<noteq> s + 1 + of_nat i" if "i \<le> length cs" for i
        using Cons.prems(2) [of "Suc i" 0] that by (simp add: add.assoc)
    qed (use Cons.prems(1) in simp)
    have a: "s + 1 + of_nat i \<noteq> d + 1 + of_nat j" if "i \<le> length cs" "j \<le> length cs" for i j
      using Cons.prems(2) [of "Suc i" "Suc j"] that by (simp add: add.assoc)
    have "copy_word (s + 1) (d + 1) (len + 1) (m(d := c)) = Some (s + 1 + of_nat (length (line_command cs)),
        d + 1 + of_nat (length (line_command cs)), len + 1 + of_nat (length (line_command cs)),
        write_bytes (d + 1) (line_command cs) (m(d := c)))"
      by (rule Cons.IH [OF c a refl])
    with False Cons.prems(1,3) show ?thesis
      by (subst copy_word.simps) (simp add: line_command_def is_separator_def add.assoc)
  qed
qed

lemma cstring_append: "cstring m s (xs @ ys) \<Longrightarrow> cstring m (s + of_nat (length xs)) ys"
proof (induction xs arbitrary: s)
  case (Cons c xs)
  from Cons.IH [of "s + 1"] Cons.prems show ?case by (simp add: add.assoc)
qed simp

lemma cstring_nonzero: "cstring m s cs \<Longrightarrow> 0 \<notin> set cs"
  by (induction cs arbitrary: s) auto

lemma skip_separators_correct:
  "cstring m s cs \<Longrightarrow> n = length (takeWhile is_separator cs) \<Longrightarrow>
   skip_separators m s len = Some (s + of_nat n, len + of_nat n)"
proof (induction cs arbitrary: s len n)
  case Nil
  then show ?case by (subst skip_separators.simps) simp
next
  case (Cons c cs)
  then show ?case by (subst skip_separators.simps) (auto simp: add.assoc)
qed

lemma skip_to_end_correct:
  "cstring m s cs \<Longrightarrow> skip_to_end m s len = Some (s + of_nat (length cs), len + of_nat (length cs))"
proof (induction cs arbitrary: s len)
  case Nil
  then show ?case by (subst skip_to_end.simps) simp
next
  case (Cons c cs)
  then show ?case by (subst skip_to_end.simps) (simp add: add.assoc)
qed

lemma find_ampersand_correct:
  assumes "cstring m s cs" "length cs < 2 ^ 31"
  shows "n < length cs \<Longrightarrow>
    find_ampersand m (s + of_nat n) (of_nat n) 0 = Some (if line_background (take (Suc n) cs) then 1 else 0)"
proof (induction n)
  case 0
  then show ?case by (subst find_ampersand.simps) (cases cs; simp add: line_background_def)
next
  case (Suc n)
  then obtain d ds where cs: "cs = d # ds" "n < length ds" by (cases cs) auto
  let ?c = "cs ! Suc n"
  have c: "m (s + of_nat (Suc n)) = ?c" using cstring_apply [OF assms(1), of "Suc n"] Suc.prems by simp
  have l: "0 < sint (of_nat (Suc n) :: i32)" using Suc.prems assms(2) by (subst sint_of_nat) simp_all
  have b: "line_background (take (Suc (Suc n)) cs) =
      (if ?c = 0x20 then line_background (take (Suc n) cs) else ?c = 0x26)"
    using cs by (simp add: line_background_def take_Suc_conv_app_nth)
  have "find_ampersand m (s + of_nat n) (of_nat n) 0 = Some (if line_background (take (Suc n) cs) then 1 else 0)"
    using Suc by simp
  then show ?case
    using l c b by (subst find_ampersand.simps, auto simp: is_separator_def simp del: of_nat_Suc) (auto simp: algebra_simps)
qed

definition put_cstring :: "addr \<Rightarrow> u8 list \<Rightarrow> memory \<Rightarrow> memory" where
  "put_cstring d w m = (write_bytes d w m)(d + of_nat (length w) := 0)"

lemma put_cstring_other:
  assumes "length w \<le> n" "n < 2 ^ 32" "\<And>j. j \<le> n \<Longrightarrow> x \<noteq> d + of_nat j"
  shows "put_cstring d w m x = m x"
proof -
  have "x = d + of_nat (unat (x - d))" by simp
  then have "n < unat (x - d)" using assms(3) by (meson not_le)
  moreover have "x \<noteq> d + of_nat (length w)" using assms by simp
  ultimately show ?thesis using assms(1,2) by (simp add: put_cstring_def write_bytes_apply)
qed

lemma put_cstring_keeps:
  assumes "cstring m s cs" "length cs \<le> n" "length w \<le> n" "n < 2 ^ 32" "apart s d n"
  shows "cstring (put_cstring d w m) s cs"
proof (subst cstring_cong)
  show "put_cstring d w m (s + of_nat i) = m (s + of_nat i)" if "i \<le> length cs" for i
    by (rule put_cstring_other [OF assms(3,4)]) (use assms(2,5) that in \<open>auto simp: apart_def\<close>)
qed (rule assms(1))

lemma apart_far: "far a (Suc n) b (Suc n) \<Longrightarrow> Suc n \<le> 2 ^ 31 \<Longrightarrow> apart a b n"
  using far_ne [of a "Suc n" b "Suc n"] by (auto simp: apart_def less_Suc_eq_le)

lemma get_command_parses:
  assumes "cstring m str cs" "length cs < 2 ^ 31"
    and "apart str command (length cs)" "apart str argument (length cs)" "apart command argument (length cs)"
  shows "\<exists>m'. get_command str command argument m = Some (if line_background cs then 1 else 0, m') \<and>
    cstring m' command (line_command cs) \<and> cstring m' argument (line_argument cs) \<and> cstring m' str cs \<and>
    (\<forall>x. (\<forall>j\<le>length cs. x \<noteq> command + of_nat j \<and> x \<noteq> argument + of_nat j) \<longrightarrow> m' x = m x)"
proof -
  let ?w = "line_command cs" and ?n = "length cs"
  define r where "r = dropWhile (\<lambda>c. \<not> is_separator c) cs"
  define p where "p = takeWhile is_separator r"
  define t where "t = dropWhile is_separator r"
  let ?v = "line_command t"
  define e where "e = dropWhile (\<lambda>c. \<not> is_separator c) t"
  have cs: "cs = ?w @ p @ ?v @ e" and v: "line_argument cs = ?v"
    by (simp_all add: line_command_def line_argument_def r_def p_def t_def e_def)
  have L: "length ?w + (length p + (length ?v + length e)) = ?n" by (simp only: length_append [symmetric] cs [symmetric])
  have lt: "length t = length ?v + length e" by (simp add: e_def line_command_def flip: length_append)
  have len: "length ?w \<le> ?n" "length ?v \<le> ?n" "?n < 2 ^ 32" "?n = length ?w + length p + length ?v + length e" "length t = length ?v + length e"
    using assms(2) L lt by simp_all
  define m1 where "m1 = put_cstring command ?w m"
  define m2 where "m2 = put_cstring argument ?v m1"
  have "copy_word str command 0 m = Some (str + of_nat (length ?w), command + of_nat (length ?w), 0 + of_nat (length ?w), write_bytes command ?w m)"
    by (rule copy_word_correct [OF assms(1) _ refl]) (use assms(3) in \<open>auto simp: apart_def\<close>)
  moreover have s1: "cstring m1 str cs" unfolding m1_def
    by (rule put_cstring_keeps [OF assms(1) order_refl len(1,3) assms(3)])
  then have s1': "cstring m1 (str + of_nat (length ?w)) (p @ t)"
    using cstring_append [of m1 str ?w "p @ t"] by (simp add: line_command_def p_def t_def r_def)
  then have "skip_separators m1 (str + of_nat (length ?w)) l = Some (str + of_nat (length ?w) + of_nat (length p), l + of_nat (length p))" for l
    by (rule skip_separators_correct) (simp add: p_def t_def)
  moreover have "copy_word (str + of_nat (length ?w) + of_nat (length p)) argument l m1 =
      Some (str + of_nat (length ?w) + of_nat (length p) + of_nat (length ?v), argument + of_nat (length ?v), l + of_nat (length ?v), write_bytes argument ?v m1)" for l
  proof (rule copy_word_correct [OF cstring_append [OF s1'] _ refl])
    show "str + of_nat (length ?w) + of_nat (length p) + of_nat i \<noteq> argument + of_nat j" if "i \<le> length t" "j \<le> length t" for i j
      using assms(4)[unfolded apart_def, rule_format, of "length ?w + length p + i" j] that len by (simp add: add.assoc)
  qed
  moreover have s2: "cstring m2 str cs" unfolding m2_def
    by (rule put_cstring_keeps [OF s1 order_refl len(2,3) assms(4)])
  then have "cstring m2 (str + of_nat (length (?w @ p @ ?v))) e"
    using cstring_append [of m2 str "?w @ p @ ?v" e] cs by simp
  then have "skip_to_end m2 (str + of_nat (length ?w) + of_nat (length p) + of_nat (length ?v)) l =
      Some (str + of_nat (length ?w) + of_nat (length p) + of_nat (length ?v) + of_nat (length e), l + of_nat (length e))" for l
    by (intro skip_to_end_correct) (simp add: add.assoc)
  moreover have "find_ampersand m2 (str + of_nat ?n - 1) (of_nat ?n - 1) 0 = Some (if line_background cs then 1 else 0)"
  proof (cases cs)
    case Nil
    then show ?thesis by (subst find_ampersand.simps) (simp add: line_background_def)
  next
    case (Cons c ds)
    with find_ampersand_correct [OF s2 assms(2), of "length ds"] show ?thesis by simp
  qed
  ultimately have run: "get_command str command argument m = Some (if line_background cs then 1 else 0, m2)"
    using len(4) by (simp add: get_command_def m1_def [unfolded put_cstring_def, symmetric] m2_def [unfolded put_cstring_def, symmetric] ac_simps)
  have nz: "0 \<notin> set ?w" "0 \<notin> set ?v" using cstring_nonzero [OF assms(1)] by (subst (asm) cs, auto)+
  have "cstring m1 command ?w" unfolding m1_def put_cstring_def
    by (rule cstring_write) (use nz len in auto)
  then have "cstring m2 command ?w" unfolding m2_def by (rule put_cstring_keeps [OF _ len(1,2,3) assms(5)])
  moreover have "cstring m2 argument ?v" unfolding m2_def put_cstring_def
    by (rule cstring_write) (use nz len in auto)
  moreover have "m2 x = m x" if "\<forall>j\<le>?n. x \<noteq> command + of_nat j \<and> x \<noteq> argument + of_nat j" for x
    unfolding m1_def m2_def using put_cstring_other [OF _ len(3)] len(1,2) that by simp
  ultimately show ?thesis using run s2 v by auto
qed

text \<open>C28. The shell's parser: from a line it leaves the characters up to the first blank or
  ampersand in the command buffer, the next such run in the argument buffer, each terminated,
  and returns 1 when the last character that is not a blank is an ampersand (after the first
  character of the line). It writes only to the two buffers, up to the length of the line.\<close>

theorem get_command_correct:
  assumes "cstring m str cs" "length cs < 2 ^ 31"
    and "apart str command (length cs)" "apart str argument (length cs)" "apart command argument (length cs)"
  shows "\<exists>m'. get_command str command argument m = Some (if line_background cs then 1 else 0, m') \<and>
    cstring m' command (line_command cs) \<and> cstring m' argument (line_argument cs) \<and> cstring m' str cs \<and>
    (\<forall>x. (\<forall>j\<le>length cs. x \<noteq> command + of_nat j \<and> x \<noteq> argument + of_nat j) \<longrightarrow> m' x = m x)"
  using assms by (rule get_command_parses)

theorem get_command_correct_witness:
  "\<exists>m'. get_command 0x1000 0x2000 0x3000 ((\<lambda>a. 0)(0x1000 := 0x61, 0x1001 := 0x20, 0x1002 := 0x35, 0x1003 := 0x26)) = Some (1, m') \<and>
     cstring m' 0x2000 [0x61] \<and> cstring m' 0x3000 [0x35]"
  using get_command_correct [of "(\<lambda>a. 0)(0x1000 := 0x61, 0x1001 := 0x20, 0x1002 := 0x35, 0x1003 := 0x26)" "0x1000"
    "[0x61, 0x20, 0x35, 0x26]" "0x2000" "0x3000"]
  by (auto simp: line_background_def line_command_def line_argument_def is_separator_def apart_far far_def)

end
