(* ===== verification/User_Properties.thy ===== *)
theory User_Properties
  imports User Shell_Properties
begin

text \<open>
  The calls that the login process and the shell make, for everything the kernel may answer as
  long as it leaves the buffers and the constants of the process alone.
\<close>

unbundle bit_operations_syntax

section \<open>Text in a buffer\<close>

definition text_line :: "u8 list \<Rightarrow> u8 list" where
  "text_line cs = takeWhile (\<lambda>c. c \<noteq> 0 \<and> c \<noteq> 0x0A) cs"

lemma text_line_twice: "takeWhile (\<lambda>c. c \<noteq> 0x0A) (takeWhile (\<lambda>c. c \<noteq> 0) cs) = text_line cs"
  by (induction cs) (auto simp: text_line_def)

lemma text_line_length: "length (text_line cs) \<le> length cs"
  by (simp add: text_line_def length_takeWhile_le)

lemma buffer_cstring:
  assumes "\<forall>i\<le>length cs. m (a + of_nat i) = (if i < length cs then cs ! i else 0)"
  shows "cstring m a (takeWhile (\<lambda>c. c \<noteq> 0) cs)"
proof (rule cstringI)
  fix i assume "i < length (takeWhile (\<lambda>c. c \<noteq> 0) cs)"
  moreover have "length (takeWhile (\<lambda>c. c \<noteq> 0) cs) \<le> length cs" by (rule length_takeWhile_le)
  ultimately show "m (a + of_nat i) = takeWhile (\<lambda>c. c \<noteq> 0) cs ! i \<and> takeWhile (\<lambda>c. c \<noteq> 0) cs ! i \<noteq> 0"
    using assms set_takeWhileD [OF nth_mem, of i "\<lambda>c. c \<noteq> 0" cs] by (auto simp: takeWhile_nth)
next
  let ?n = "length (takeWhile (\<lambda>c. c \<noteq> 0) cs)"
  have "?n \<le> length cs" by (rule length_takeWhile_le)
  then show "m (a + of_nat ?n) = 0"
    using assms nth_length_takeWhile [of "\<lambda>c. c \<noteq> 0" cs] by auto
qed

lemma filter_newline_correct:
  "cstring m a cs \<Longrightarrow> filter_newline a m =
     Some (if 0x0A \<in> set cs then m(a + of_nat (length (takeWhile (\<lambda>c. c \<noteq> 0x0A) cs)) := 0) else m)"
proof (induction cs arbitrary: a)
  case Nil
  then show ?case by (subst filter_newline.simps) simp
next
  case (Cons c cs)
  then show ?case by (subst filter_newline.simps) (auto simp: add.assoc)
qed

lemma filter_newline_line:
  assumes "cstring m a cs" "length cs < 2 ^ 32"
  shows "\<exists>m'. filter_newline a m = Some m' \<and> cstring m' a (takeWhile (\<lambda>c. c \<noteq> 0x0A) cs) \<and>
    (\<forall>x. (\<forall>i\<le>length cs. x \<noteq> a + of_nat i) \<longrightarrow> m' x = m x)"
proof (cases "0x0A \<in> set cs")
  case False
  then have w: "takeWhile (\<lambda>c. c \<noteq> 0x0A) cs = cs" by (subst takeWhile_eq_all_conv) metis
  show ?thesis unfolding w using assms(1) False filter_newline_correct [OF assms(1)] by simp
next
  case True
  let ?w = "takeWhile (\<lambda>c. c \<noteq> 0x0A) cs"
  have l: "length ?w \<le> length cs" by (rule length_takeWhile_le)
  have "cstring (m(a + of_nat (length ?w) := 0)) a ?w"
  proof (rule cstringI)
    fix i assume i: "i < length ?w"
    then have "of_nat i \<noteq> (of_nat (length ?w) :: addr)" using l assms(2) by (simp add: word_of_nat_eq_iff take_bit_nat_eq_self)
    moreover have "?w ! i = cs ! i" using i by (simp add: takeWhile_nth)
    moreover have "cs ! i \<noteq> 0" using i l cstring_nonzero [OF assms(1)] nth_mem [of i cs] by force
    ultimately show "(m(a + of_nat (length ?w) := 0)) (a + of_nat i) = ?w ! i \<and> ?w ! i \<noteq> 0"
      using cstring_apply [OF assms(1), of i] i l by auto
  qed simp
  then show ?thesis using True l filter_newline_correct [OF assms(1)] by auto
qed

section \<open>Places that the kernel leaves alone\<close>

definition same_on :: "addr set \<Rightarrow> memory \<Rightarrow> memory \<Rightarrow> bool" where
  "same_on K m m' \<longleftrightarrow> (\<forall>x\<in>K. m' x = m x)"

definition keeps :: "addr set \<Rightarrow> (memory \<Rightarrow> memory) \<Rightarrow> bool" where
  "keeps K f \<longleftrightarrow> (\<forall>m. same_on K m (f m))"

definition bytes_of :: "addr \<Rightarrow> nat \<Rightarrow> addr set" where
  "bytes_of a n = (\<lambda>i. a + of_nat i) ` {..<n}"

lemma same_on_refl [simp]: "same_on K m m" by (simp add: same_on_def)

lemma same_on_keeps: "keeps K f \<Longrightarrow> same_on K m m' \<Longrightarrow> same_on K m (f m')"
  by (simp add: keeps_def same_on_def)

lemma same_on_write: "same_on K m m' \<Longrightarrow> length w < 2 ^ 32 \<Longrightarrow> same_on K (write_bytes a w m) (write_bytes a w m')"
  by (simp add: same_on_def write_bytes_apply)

lemma same_on_cstring: "same_on K m m' \<Longrightarrow> bytes_of a (Suc (length cs)) \<subseteq> K \<Longrightarrow> cstring m' a cs = cstring m a cs"
  by (rule cstring_cong) (auto simp: same_on_def bytes_of_def image_subset_iff)

lemma bytes_of_far: "far a m b n \<Longrightarrow> m \<le> 2 ^ 31 \<Longrightarrow> n \<le> 2 ^ 31 \<Longrightarrow> i < m \<Longrightarrow> x \<in> bytes_of b n \<Longrightarrow> x \<noteq> a + of_nat i"
  using far_ne [of a m b n i] unfolding bytes_of_def by fastforce

lemma bytes_of_outside: "far a m b n \<Longrightarrow> m \<le> 2 ^ 31 \<Longrightarrow> n \<le> 2 ^ 31 \<Longrightarrow> x \<in> bytes_of b n \<Longrightarrow> m \<le> unat (x - a)"
  using far_byte [of a m b n] by (auto simp: bytes_of_def)

lemma far_sym: "far a m b n \<Longrightarrow> far b n a m"
  by (simp add: far_def)

lemma far_less: "far a m b n \<Longrightarrow> m' \<le> m \<Longrightarrow> n' \<le> n \<Longrightarrow> far a m' b n'"
  by (simp add: far_def)

text \<open>A buffer that was cleared and then read into.\<close>

lemma read_buffer:
  assumes "length us < n" "n < 2 ^ 31" "i < n" "sint len = int n"
  shows "write_bytes a us (memset a 0 len m) (a + of_nat i) = (if i < length us then us ! i else 0)"
proof -
  have "unat (of_nat i :: addr) = i" using assms(2,3) by (simp add: unat_of_nat)
  then show ?thesis using assms by (simp add: write_bytes_apply memset_apply)
qed

lemma write_bytes_other: "length cs \<le> n \<Longrightarrow> n \<le> unat (x - a) \<Longrightarrow> n \<le> 2 ^ 32 \<Longrightarrow> write_bytes a cs m x = m x"
  by (simp add: write_bytes_apply)

section \<open>The login\<close>

text \<open>
  What a turn of \<^verbatim>\<open>root\<close> is answered: the numbers \<open>r\<close>, and memories that are changed by \<open>f\<close> outside of
  the places the process uses, with the texts \<open>us\<close> and \<open>ps\<close> read into the two buffers.
\<close>

definition login_answers :: "addr \<Rightarrow> addr \<Rightarrow> u8 list \<Rightarrow> u8 list \<Rightarrow> (nat \<Rightarrow> i32) \<Rightarrow> (nat \<Rightarrow> memory \<Rightarrow> memory) \<Rightarrow> answer list" where
  "login_answers user_buf pass_buf us ps r f =
     [(r 0, f 0), (r 1, f 1), (r 2, f 2), (r 3, \<lambda>m. write_bytes user_buf us (f 3 m)), (r 4, f 4), (r 5, f 5),
      (r 6, \<lambda>m. write_bytes pass_buf ps (f 6 m)), (r 7, f 7), (r 8, f 8), (r 9, f 9)]"

definition may_enter :: "u8 list \<Rightarrow> u8 list \<Rightarrow> bool" where
  "may_enter us ps \<longleftrightarrow> text_line us = ascii ''cs415'' \<and> text_line ps = ascii ''EveryonegetsanA''"

definition login_calls :: "user_syms \<Rightarrow> addr \<Rightarrow> addr \<Rightarrow> addr \<Rightarrow> u8 list \<Rightarrow> u8 list \<Rightarrow> (nat \<Rightarrow> i32) \<Rightarrow> sys_call list" where
  "login_calls S user_buf pass_buf va us ps r =
     [sysputs (lit S (''Welcome to Xeros - an experimental OS'' @ nl)), sysopen (of_nat DEV_ID_KEYBOARD),
      sysputs (lit S ''Username: ''), sysread (r 1) user_buf 20, sysioctl (r 1) KEYBOARD_IOCTL_DISABLE_ECHO va,
      sysputs (lit S ''Password: ''), sysread (r 1) pass_buf 20, sysclose (r 1)] @
     (if may_enter us ps then [syscreate (fn_shell S) DEFAULT_STACK_SIZE, syswait (r 8)]
      else [sysputs (lit S (nl @ ''Invalid username and/or password!'' @ nl @ nl))])"

definition login_frame :: "user_syms \<Rightarrow> addr \<Rightarrow> addr \<Rightarrow> bool" where
  "login_frame S user_buf pass_buf \<longleftrightarrow> far user_buf 80 pass_buf 80 \<and>
     far user_buf 80 (lit S ''cs415'') 6 \<and> far user_buf 80 (lit S ''EveryonegetsanA'') 16 \<and>
     far pass_buf 80 (lit S ''cs415'') 6 \<and> far pass_buf 80 (lit S ''EveryonegetsanA'') 16"

definition login_texts :: "user_syms \<Rightarrow> addr set" where
  "login_texts S = bytes_of (lit S ''cs415'') 6 \<union> bytes_of (lit S ''EveryonegetsanA'') 16"

definition login_places :: "user_syms \<Rightarrow> addr \<Rightarrow> addr \<Rightarrow> addr set" where
  "login_places S user_buf pass_buf = bytes_of user_buf 80 \<union> bytes_of pass_buf 80 \<union> login_texts S"

definition has_credentials :: "user_syms \<Rightarrow> memory \<Rightarrow> bool" where
  "has_credentials S m \<longleftrightarrow> cstring m (lit S ''cs415'') (ascii ''cs415'') \<and>
     cstring m (lit S ''EveryonegetsanA'') (ascii ''EveryonegetsanA'')"

lemma ascii_length: "length (ascii s) = length s"
  by (simp add: ascii_def)

lemma has_credentials_cong: "same_on (login_texts S) m m' \<Longrightarrow> has_credentials S m' = has_credentials S m"
  unfolding has_credentials_def
  by (rule arg_cong2 [of _ _ _ _ "(\<and>)"]; rule same_on_cstring, assumption) (auto simp: login_texts_def ascii_length eval_nat_numeral)

lemma same_text_cstring: "cstring m a cs \<Longrightarrow> cstring m b ds \<Longrightarrow> same_text a b m = Some (cs = ds)"
  using strcmp_cstring [of m a cs b ds] by (auto simp: same_text_def)

text \<open>The buffers and the literals are apart, so the memory a login decides on is known in these places.\<close>

lemma login_memory:
  assumes "login_frame S ub pb" "length us \<le> 20" "length ps \<le> 20"
    and "same_on (login_places S ub pb) (write_bytes pb ps (write_bytes ub us (memset pb 0 80 (memset ub 0 80 m)))) m8"
  shows "cstring m8 ub (takeWhile (\<lambda>c. c \<noteq> 0) us)" "cstring m8 pb (takeWhile (\<lambda>c. c \<noteq> 0) ps)"
    "same_on (login_texts S) m m8"
proof -
  let ?m = "write_bytes pb ps (write_bytes ub us (memset pb 0 80 (memset ub 0 80 m)))"
  have f: "far ub 80 pb 80" "far pb 80 ub 80" using assms(1) far_sym by (auto simp: login_frame_def)
  have n: "sint (80 :: i32) = int 80" by simp
  have pass: "m8 (pb + of_nat i) = (if i < length ps then ps ! i else 0)" if "i < 80" for i
  proof -
    have "m8 (pb + of_nat i) = ?m (pb + of_nat i)"
      using assms(4) that by (auto simp: same_on_def login_places_def bytes_of_def)
    moreover have "write_bytes ub us m' (pb + of_nat i) = m' (pb + of_nat i)" for m'
      by (rule write_bytes_other [where n = 80]) (use assms(2) far_byte [OF f(1) that] in simp_all)
    then have "?m (pb + of_nat i) = write_bytes pb ps (memset pb 0 80 (memset ub 0 80 m)) (pb + of_nat i)"
      using assms(3) by (simp add: write_bytes_apply)
    ultimately show ?thesis using read_buffer [OF _ _ that n, of ps pb] assms(3) by simp
  qed
  have user: "m8 (ub + of_nat i) = (if i < length us then us ! i else 0)" if "i < 80" for i
  proof -
    have "m8 (ub + of_nat i) = ?m (ub + of_nat i)"
      using assms(4) that by (auto simp: same_on_def login_places_def bytes_of_def)
    also have "\<dots> = write_bytes ub us (memset pb 0 80 (memset ub 0 80 m)) (ub + of_nat i)"
      by (rule write_bytes_other [where n = 80]) (use assms(3) far_byte [OF f(2) that] in simp_all)
    also have "\<dots> = write_bytes ub us (memset ub 0 80 m) (ub + of_nat i)"
      using assms(2) far_byte [OF f(2) that] by (simp add: write_bytes_apply memset_apply)
    finally show ?thesis using read_buffer [OF _ _ that n, of us ub] assms(2) by simp
  qed
  show "cstring m8 ub (takeWhile (\<lambda>c. c \<noteq> 0) us)" "cstring m8 pb (takeWhile (\<lambda>c. c \<noteq> 0) ps)"
    by (rule buffer_cstring; use pass user assms(2,3) in simp)+
  have "m8 x = m x" if x: "x \<in> login_texts S" for x
  proof -
    have "80 \<le> unat (x - ub)" "80 \<le> unat (x - pb)"
      using x assms(1) bytes_of_outside [of _ 80] by (auto simp: login_texts_def login_frame_def)
    then have "?m x = m x" using assms(2,3) by (simp add: write_bytes_apply memset_apply)
    then show ?thesis using assms(4) x by (auto simp: same_on_def login_places_def)
  qed
  then show "same_on (login_texts S) m m8" by (simp add: same_on_def)
qed

lemma login_texts_apart:
  assumes "login_frame S ub pb" "x \<in> login_texts S" "i < 80"
  shows "x \<noteq> ub + of_nat i" "x \<noteq> pb + of_nat i"
  using assms bytes_of_far [of ub 80 "lit S ''cs415''" 6 i x] bytes_of_far [of ub 80 "lit S ''EveryonegetsanA''" 16 i x]
    bytes_of_far [of pb 80 "lit S ''cs415''" 6 i x] bytes_of_far [of pb 80 "lit S ''EveryonegetsanA''" 16 i x]
  unfolding login_texts_def login_frame_def by fastforce+

lemma after_newlines:
  assumes "login_frame S ub pb" "has_credentials S m" "length us \<le> 20" "length ps \<le> 20"
    and "cstring m ub (takeWhile (\<lambda>c. c \<noteq> 0) us)" "cstring m pb (takeWhile (\<lambda>c. c \<noteq> 0) ps)"
  shows "\<exists>m1 m2. filter_newline ub m = Some m1 \<and> filter_newline pb m1 = Some m2 \<and> same_on (login_texts S) m m2 \<and>
    cstring m2 ub (text_line us) \<and> cstring m2 pb (text_line ps)"
proof -
  let ?us = "takeWhile (\<lambda>c. c \<noteq> 0) us" and ?ps = "takeWhile (\<lambda>c. c \<noteq> 0) ps"
  have l: "length ?us \<le> 20" "length ?ps \<le> 20" using assms(3,4) le_trans length_takeWhile_le by blast+
  have f: "far ub 80 pb 80" "far pb 80 ub 80" using assms(1) far_sym by (auto simp: login_frame_def)
  obtain m1 where m1: "filter_newline ub m = Some m1" "cstring m1 ub (text_line us)"
    "\<And>x. (\<forall>i\<le>length ?us. x \<noteq> ub + of_nat i) \<Longrightarrow> m1 x = m x"
    using filter_newline_line [OF assms(5)] l text_line_twice by force
  have "cstring m1 pb ?ps"
  proof (subst cstring_cong [of _ _ _ m])
    show "m1 (pb + of_nat i) = m (pb + of_nat i)" if "i \<le> length ?ps" for i
      by (rule m1(3)) (use far_ne [OF f(2)] that l in auto)
  qed (rule assms(6))
  then obtain m2 where m2: "filter_newline pb m1 = Some m2" "cstring m2 pb (text_line ps)"
    "\<And>x. (\<forall>i\<le>length ?ps. x \<noteq> pb + of_nat i) \<Longrightarrow> m2 x = m1 x"
    using filter_newline_line [of m1 pb ?ps] l text_line_twice by force
  have "length (text_line us) \<le> 20" using text_line_length [of us] assms(3) by simp
  then have "cstring m2 ub (text_line us)"
  proof (subst cstring_cong [of _ _ _ m1])
    show "m2 (ub + of_nat i) = m1 (ub + of_nat i)" if "i \<le> length (text_line us)" for i
      by (rule m2(3)) (use far_ne [OF f(1)] that l \<open>length (text_line us) \<le> 20\<close> in auto)
  qed (rule m1(2))
  moreover have "same_on (login_texts S) m m2"
  proof -
    have "m2 x = m x" if x: "x \<in> login_texts S" for x
    proof -
      have "x \<noteq> ub + of_nat i \<and> x \<noteq> pb + of_nat i" if "i \<le> 20" for i
        using login_texts_apart [OF assms(1) x, of i] that by simp
      then have "m1 x = m x" "m2 x = m1 x" using l by (intro m1(3) m2(3); simp)+
      then show ?thesis by simp
    qed
    then show ?thesis by (simp add: same_on_def)
  qed
  ultimately show ?thesis using m1(1) m2(1,2) by blast
qed

lemma login_turn:
  assumes "login_frame S ub pb" "has_credentials S m" "length us \<le> 20" "length ps \<le> 20"
    and "\<forall>i. keeps (login_places S ub pb) (f i)"
  shows "\<exists>m'. play (root_turn S ub pb va m) (login_answers ub pb us ps r f) = (login_calls S ub pb va us ps r, Some (True, m')) \<and>
    has_credentials S m'"
proof -
  let ?K = "login_places S ub pb"
  define m8 where "m8 = f 7 (write_bytes pb ps (f 6 (f 5 (f 4 (write_bytes ub us (f 3 (f 2 (f 1 (f 0 (memset pb 0 80 (memset ub 0 80 m)))))))))))"
  have "same_on ?K (write_bytes pb ps (write_bytes ub us (memset pb 0 80 (memset ub 0 80 m)))) m8"
    unfolding m8_def using assms(3,4) by (intro same_on_keeps [of _ "f i" for i] same_on_write same_on_refl) (use assms(5) in simp_all)
  note m8 = login_memory [OF assms(1,3,4) this]
  have c8: "has_credentials S m8" using has_credentials_cong [OF m8(3)] assms(2) by simp
  obtain m1 m2 where m2: "filter_newline ub m8 = Some m1" "filter_newline pb m1 = Some m2" "same_on (login_texts S) m8 m2"
    "cstring m2 ub (text_line us)" "cstring m2 pb (text_line ps)"
    using after_newlines [OF assms(1) c8 assms(3,4) m8(1,2)] by blast
  have c2: "has_credentials S m2" using has_credentials_cong [OF m2(3)] c8 by simp
  then have user: "same_text ub (lit S ''cs415'') m2 = Some (text_line us = ascii ''cs415'')"
    and pass: "same_text pb (lit S ''EveryonegetsanA'') m2 = Some (text_line ps = ascii ''EveryonegetsanA'')"
    using same_text_cstring m2(4,5) by (auto simp: has_credentials_def)
  have keep: "has_credentials S (f i m')" if "has_credentials S m'" for i m'
  proof -
    have "same_on (login_texts S) m' (f i m')" using assms(5) by (auto simp: keeps_def same_on_def login_places_def)
    then show ?thesis using has_credentials_cong that by blast
  qed
  have "play (root_turn S ub pb va m) (login_answers ub pb us ps r f) =
      (login_calls S ub pb va us ps r, Some (True, if may_enter us ps then f 9 (f 8 m2) else f 8 m2))"
    by (simp add: root_turn_def login_answers_def login_calls_def may_enter_def m8_def [symmetric] m2(1,2) user pass
        del: One_nat_def)
  then show ?thesis using keep c2 by simp
qed

text \<open>C12. The login lets in only who knows the words: over any number of turns of \<^verbatim>\<open>root\<close>, whatever texts of up to 20 bytes
  are read and whatever else the kernel answers, as long as it leaves the process's buffers and constants alone, the calls
  of each turn are the greeting, the two reads between open and close with the echo switched off in between, and then
  the start of a shell and a wait for it exactly when the two lines are the name and the password, and a
  refusal otherwise.\<close>

theorem login_correct:
  assumes "login_frame S ub pb" "has_credentials S m"
    and "\<forall>(us, ps, r, f) \<in> set xs. length us \<le> 20 \<and> length ps \<le> 20 \<and> (\<forall>i. keeps (login_places S ub pb) (f i))"
  shows "fst (play_loop (root_turn S ub pb va) m (map (\<lambda>(us, ps, r, f). login_answers ub pb us ps r f) xs)) =
    concat (map (\<lambda>(us, ps, r, f). login_calls S ub pb va us ps r) xs)"
  using assms(2,3)
proof (induction xs arbitrary: m)
  case (Cons x xs)
  obtain us ps r f where x: "x = (us, ps, r, f)" by (metis prod_cases4)
  have p: "length us \<le> 20" "length ps \<le> 20" "\<forall>i. keeps (login_places S ub pb) (f i)"
    using Cons.prems(2) x by simp_all
  obtain m' where m': "play (root_turn S ub pb va m) (login_answers ub pb us ps r f) =
      (login_calls S ub pb va us ps r, Some (True, m'))" "has_credentials S m'"
    using login_turn [OF assms(1) Cons.prems(1) p] by blast
  have "\<forall>(us, ps, r, f) \<in> set xs. length us \<le> 20 \<and> length ps \<le> 20 \<and> (\<forall>i. keeps (login_places S ub pb) (f i))"
    using Cons.prems(2) by simp
  from Cons.IH [OF m'(2) this] show ?case
    unfolding x list.map prod.case concat.simps by (subst play_loop_turn [where p = "root_turn S ub pb va", OF m'(1)]) (rule arg_cong)
qed simp

text \<open>A process with its buffers and literals in place.\<close>

definition demo_syms :: user_syms where
  "demo_syms = \<lparr>lit = (\<lambda>s. if s = ''cs415'' then 0x9000 else if s = ''EveryonegetsanA'' then 0x9010 else if s = ''t'' then 0x9020
       else if s = ''ps'' then 0x9024 else if s = ''a'' then 0x9028 else if s = ''k'' then 0x902C else if s = ''ex'' then 0x9030 else 0x9040),
     fn_shell = 0x5000, fn_command_ps = 0x5100, fn_command_k = 0x5200, fn_command_a = 0x5300, fn_command_t = 0x5400,
     fn_command_a_handler = 0x5500, v_pid_to_kill = 0x9100, v_command_arg = 0x9104, v_detailed_states = 0x9108\<rparr>"

definition put_text :: "addr \<Rightarrow> string \<Rightarrow> memory \<Rightarrow> memory" where
  "put_text a s m = write_bytes a (ascii s) m"

definition demo_text :: memory where
  "demo_text = put_text 0x9000 ''cs415'' (put_text 0x9010 ''EveryonegetsanA'' (put_text 0x9020 ''t'' (put_text 0x9024 ''ps''
     (put_text 0x9028 ''a'' (put_text 0x902C ''k'' (put_text 0x9030 ''ex'' (\<lambda>_. 0)))))))"

lemma demo_credentials: "has_credentials demo_syms demo_text"
  by (simp add: has_credentials_def demo_syms_def demo_text_def put_text_def ascii_def)

theorem login_correct_witness:
  "fst (play_loop (root_turn demo_syms 0x30000 0x30080 0x30100) demo_text
     [login_answers 0x30000 0x30080 (ascii (''cs415'' @ nl)) (ascii (''guess'' @ nl)) (\<lambda>_. 3) (\<lambda>_ m. m),
      login_answers 0x30000 0x30080 (ascii (''cs415'' @ nl)) (ascii (''EveryonegetsanA'' @ nl)) (\<lambda>_. 3) (\<lambda>_ m. m)]) =
   login_calls demo_syms 0x30000 0x30080 0x30100 (ascii (''cs415'' @ nl)) (ascii (''guess'' @ nl)) (\<lambda>_. 3) @
   login_calls demo_syms 0x30000 0x30080 0x30100 (ascii (''cs415'' @ nl)) (ascii (''EveryonegetsanA'' @ nl)) (\<lambda>_. 3) \<and>
   (syscreate 0x5000 8192) \<in> set (login_calls demo_syms 0x30000 0x30080 0x30100 (ascii (''cs415'' @ nl)) (ascii (''EveryonegetsanA'' @ nl)) (\<lambda>_. 3))"
proof -
  have f: "login_frame demo_syms 0x30000 0x30080" by (simp add: login_frame_def demo_syms_def far_def)
  have k: "keeps K (\<lambda>m. m)" for K by (simp add: keeps_def)
  have e: "may_enter (ascii (''cs415'' @ nl)) (ascii (''EveryonegetsanA'' @ nl))" by (simp add: may_enter_def text_line_def ascii_def nl_def)
  have "syscreate 0x5000 8192 \<in> set (login_calls demo_syms 0x30000 0x30080 0x30100 (ascii (''cs415'' @ nl)) (ascii (''EveryonegetsanA'' @ nl)) (\<lambda>_. 3))"
    using e by (simp add: login_calls_def DEFAULT_STACK_SIZE_def demo_syms_def)
  then show ?thesis
    using login_correct [OF f demo_credentials, of "[(ascii (''cs415'' @ nl), ascii (''guess'' @ nl), \<lambda>_. 3, \<lambda>_ m. m),
      (ascii (''cs415'' @ nl), ascii (''EveryonegetsanA'' @ nl), \<lambda>_. 3, \<lambda>_ m. m)]" "0x30100"] k
    by (simp add: ascii_length nl_def)
qed

section \<open>A turn of the shell\<close>

definition shell_constants :: "user_syms \<Rightarrow> (addr \<times> nat) list" where
  "shell_constants S = map (\<lambda>s. (lit S s, Suc (length s))) [''t'', ''ps'', ''a'', ''k'', ''ex'']"

definition shell_frame :: "user_syms \<Rightarrow> addr \<Rightarrow> addr \<Rightarrow> addr \<Rightarrow> bool" where
  "shell_frame S buf command argument \<longleftrightarrow>
     far buf 100 command 50 \<and> far buf 100 argument 50 \<and> far command 50 argument 50 \<and>
     (\<forall>p\<in>set (shell_constants S). far buf 100 (fst p) (snd p) \<and> far command 50 (fst p) (snd p) \<and> far argument 50 (fst p) (snd p) \<and>
       far (v_pid_to_kill S) 4 (fst p) (snd p) \<and> far (v_command_arg S) 4 (fst p) (snd p))"

definition shell_texts :: "user_syms \<Rightarrow> addr set" where
  "shell_texts S = (\<Union>p\<in>set (shell_constants S). bytes_of (fst p) (snd p))"

definition has_commands :: "user_syms \<Rightarrow> memory \<Rightarrow> bool" where
  "has_commands S m \<longleftrightarrow> (\<forall>s\<in>{''t'', ''ps'', ''a'', ''k'', ''ex''}. cstring m (lit S s) (ascii s))"

definition shell_places :: "user_syms \<Rightarrow> addr \<Rightarrow> addr set" where
  "shell_places S buf = bytes_of buf 100 \<union> shell_texts S \<union> bytes_of (v_pid_to_kill S) 4"

definition shell_answers :: "addr \<Rightarrow> u8 list \<Rightarrow> (nat \<Rightarrow> i32) \<Rightarrow> (nat \<Rightarrow> memory \<Rightarrow> memory) \<Rightarrow> answer list" where
  "shell_answers buf us r f = [(r 0, f 0), (r 1, \<lambda>m. write_bytes buf us (f 1 m)), (r 2, f 2), (r 3, f 3)]"

definition shell_calls :: "user_syms \<Rightarrow> addr \<Rightarrow> i32 \<Rightarrow> u8 list \<Rightarrow> (nat \<Rightarrow> i32) \<Rightarrow> sys_call list" where
  "shell_calls S buf fd us r =
     [sysputs (lit S ''> ''), sysread fd buf 80] @
     (let l = text_line us; c = line_command l in
      if r 1 = 0 then []
      else if c = ascii ''t'' then syscreate (fn_command_t S) DEFAULT_STACK_SIZE # (if line_background l then [] else [syswait (r 2)])
      else if c = ascii ''ps'' then [syscreate (fn_command_ps S) DEFAULT_STACK_SIZE, syswait (r 2)]
      else if c = ascii ''a'' then [syscreate (fn_command_a S) DEFAULT_STACK_SIZE, syswait (r 2)]
      else if c = ascii ''k'' then [syscreate (fn_command_k S) DEFAULT_STACK_SIZE, syswait (r 2)]
      else if c = ascii ''ex'' then []
      else [sysputs (lit S (''Invalid command!'' @ nl)), syswait 0])"

definition shell_goes_on :: "u8 list \<Rightarrow> (nat \<Rightarrow> i32) \<Rightarrow> bool" where
  "shell_goes_on us r \<longleftrightarrow> r 1 \<noteq> 0 \<and> line_command (text_line us) \<noteq> ascii ''ex''"

lemma has_commands_cong:
  assumes "same_on (shell_texts S) m m'"
  shows "has_commands S m' = has_commands S m"
proof -
  have "cstring m' (lit S s) (ascii s) = cstring m (lit S s) (ascii s)" if "s \<in> {''t'', ''ps'', ''a'', ''k'', ''ex''}" for s
    by (rule same_on_cstring [OF assms]) (use that in \<open>auto simp: shell_texts_def shell_constants_def ascii_length\<close>)
  then show ?thesis by (simp add: has_commands_def)
qed

lemma shell_texts_outside:
  assumes "shell_frame S buf command argument" "x \<in> shell_texts S"
  shows "100 \<le> unat (x - buf)" "50 \<le> unat (x - command)" "50 \<le> unat (x - argument)"
    "4 \<le> unat (x - v_pid_to_kill S)" "4 \<le> unat (x - v_command_arg S)"
proof -
  from assms(2) obtain p where p: "p \<in> set (shell_constants S)" "x \<in> bytes_of (fst p) (snd p)" by (auto simp: shell_texts_def)
  then have "snd p \<le> 2 ^ 31" by (auto simp: shell_constants_def)
  with p assms(1) bytes_of_outside [of _ _ "fst p" "snd p" x] show "100 \<le> unat (x - buf)" "50 \<le> unat (x - command)" "50 \<le> unat (x - argument)"
    "4 \<le> unat (x - v_pid_to_kill S)" "4 \<le> unat (x - v_command_arg S)"
    unfolding shell_frame_def by force+
qed

lemma outside_ne: "n \<le> unat (x - a) \<Longrightarrow> n < 2 ^ 32 \<Longrightarrow> i < n \<Longrightarrow> x \<noteq> a + of_nat i" for x a :: addr
  by (auto simp: unat_of_nat)

lemma shell_line:
  assumes "shell_frame S buf command argument" "has_commands S m" "length us \<le> 80" "length (text_line us) < 50"
    and "\<forall>i. keeps (shell_places S buf) (f i)"
  defines "l \<equiv> text_line us"
  shows "\<exists>m3 m4. filter_newline buf (write_bytes buf us (f 1 (f 0 (memset buf 0 100 m)))) = Some m3 \<and>
    get_command buf command argument m3 = Some (if line_background l then 1 else 0, m4) \<and> has_commands S m4 \<and>
    cstring m4 command (line_command l) \<and> cstring m4 argument (line_argument l)"
proof -
  let ?us = "takeWhile (\<lambda>c. c \<noteq> 0) us"
  define m2 where "m2 = write_bytes buf us (f 1 (f 0 (memset buf 0 100 m)))"
  have s: "same_on (shell_places S buf) (write_bytes buf us (memset buf 0 100 m)) m2"
    unfolding m2_def using assms(3) by (intro same_on_keeps [of _ "f i" for i] same_on_write same_on_refl) (use assms(5) in simp_all)
  have n: "sint (100 :: i32) = int 100" by simp
  have "m2 (buf + of_nat i) = (if i < length us then us ! i else 0)" if "i < 100" for i
    using s that read_buffer [OF _ _ that n, of us buf m] assms(3) by (auto simp: same_on_def shell_places_def bytes_of_def)
  then have "cstring m2 buf ?us" using assms(3) by (intro buffer_cstring) simp
  moreover have l80: "length ?us \<le> 80" using assms(3) length_takeWhile_le le_trans by blast
  ultimately obtain m3 where m3: "filter_newline buf m2 = Some m3" "cstring m3 buf l"
    "\<And>x. (\<forall>i\<le>length ?us. x \<noteq> buf + of_nat i) \<Longrightarrow> m3 x = m2 x"
    using filter_newline_line [of m2 buf ?us] text_line_twice [of us] by (auto simp: l_def)
  have far: "far buf (Suc (length l)) command (Suc (length l))" "far buf (Suc (length l)) argument (Suc (length l))"
    "far command (Suc (length l)) argument (Suc (length l))"
    using assms(1,4) by (auto simp: shell_frame_def l_def intro: far_less)
  have ap: "apart buf command (length l)" "apart buf argument (length l)" "apart command argument (length l)"
    using far assms(4) by (auto simp: l_def intro!: apart_far)
  have "length l < 2 ^ 31" using assms(4) by (simp add: l_def)
  from get_command_parses [OF m3(2) this ap] obtain m4 where m4: "get_command buf command argument m3 = Some (if line_background l then 1 else 0, m4)"
    "cstring m4 command (line_command l)" "cstring m4 argument (line_argument l)"
    "\<And>x. \<forall>j\<le>length l. x \<noteq> command + of_nat j \<and> x \<noteq> argument + of_nat j \<Longrightarrow> m4 x = m3 x"
    by blast
  have "m4 x = m x" if x: "x \<in> shell_texts S" for x
  proof -
    note o = shell_texts_outside [OF assms(1) x]
    have "m4 x = m3 x" using outside_ne [OF o(2)] outside_ne [OF o(3)] assms(4) by (intro m4(4)) (auto simp: l_def)
    also have "\<dots> = m2 x" using outside_ne [OF o(1)] l80 by (intro m3(3)) auto
    also have "\<dots> = write_bytes buf us (memset buf 0 100 m) x" using s x by (simp add: same_on_def shell_places_def)
    finally show ?thesis using o(1) assms(3) by (simp add: write_bytes_apply memset_apply)
  qed
  then have "has_commands S m4" using has_commands_cong [of S m m4] assms(2) by (simp add: same_on_def)
  with m3(1) m4 show ?thesis unfolding m2_def by blast
qed

lemma has_commands_store:
  assumes "shell_frame S buf command argument" "p = v_pid_to_kill S \<or> p = v_command_arg S" "has_commands S m"
  shows "has_commands S (store32 m p v)"
proof (subst has_commands_cong)
  show "same_on (shell_texts S) m (store32 m p v)"
    using shell_texts_outside [OF assms(1)] assms(2) by (auto simp: same_on_def store32_far)
qed (rule assms(3))

lemma keeps_commands:
  assumes "keeps (shell_places S buf) f" "has_commands S m"
  shows "has_commands S (f m)"
proof -
  have "same_on (shell_texts S) m (f m)" using assms(1) by (auto simp: keeps_def same_on_def shell_places_def)
  then show ?thesis using has_commands_cong assms(2) by blast
qed

lemma keeps_pid: "keeps (shell_places S buf) f \<Longrightarrow> load32 (f m) (v_pid_to_kill S) = load32 m (v_pid_to_kill S)"
proof (rule load32_cong)
  assume k: "keeps (shell_places S buf) f"
  have "f m (v_pid_to_kill S + of_nat i) = m (v_pid_to_kill S + of_nat i)" if "i < 4" for i
    using k that by (auto simp: keeps_def same_on_def shell_places_def bytes_of_def)
  from this [of 0] this [of 1] this [of 2] this [of 3]
  show "f m (v_pid_to_kill S) = m (v_pid_to_kill S)" "f m (v_pid_to_kill S + 1) = m (v_pid_to_kill S + 1)"
    "f m (v_pid_to_kill S + 2) = m (v_pid_to_kill S + 2)" "f m (v_pid_to_kill S + 3) = m (v_pid_to_kill S + 3)" by simp_all
qed

text \<open>The table of commands, on a memory where the command and the argument are in their buffers.\<close>

lemma shell_command_calls:
  assumes "shell_frame S buf command argument" "has_commands S m" "cstring m command c" "cstring m argument a"
    and "\<forall>i. keeps (shell_places S buf) (f i)"
  shows "\<exists>m'. play (shell_command S command argument (if bg then 1 else 0) m) [(r 2, f 2), (r 3, f 3)] =
    (if c = ascii ''t'' then syscreate (fn_command_t S) DEFAULT_STACK_SIZE # (if bg then [] else [syswait (r 2)])
     else if c = ascii ''ps'' then [syscreate (fn_command_ps S) DEFAULT_STACK_SIZE, syswait (r 2)]
     else if c = ascii ''a'' then [syscreate (fn_command_a S) DEFAULT_STACK_SIZE, syswait (r 2)]
     else if c = ascii ''k'' then [syscreate (fn_command_k S) DEFAULT_STACK_SIZE, syswait (r 2)]
     else if c = ascii ''ex'' then []
     else [sysputs (lit S (''Invalid command!'' @ nl)), syswait 0],
     Some (c \<noteq> ascii ''ex'', m')) \<and>
    has_commands S m' \<and> (c = ascii ''k'' \<longrightarrow> (\<exists>n. atoi m argument = Some n \<and> load32 m' (v_pid_to_kill S) = n))"
proof -
  have t: "same_text (lit S s) command m = Some (c = ascii s)" if "s \<in> {''t'', ''ps'', ''a'', ''k'', ''ex''}" for s
    using same_text_cstring [OF _ assms(3), of "lit S s" "ascii s"] assms(2) that by (auto simp: has_commands_def)
  note texts = t [of "''t''"] t [of "''ps''"] t [of "''a''"] t [of "''k''"] t [of "''ex''"]
  obtain n where n: "atoi m argument = Some n" using atoi_total [OF assms(4)] by blast
  have keep: "has_commands S (f i m')" if "has_commands S m'" for i m'
    using keeps_commands that assms(5) by blast
  have pid: "load32 (f i m') (v_pid_to_kill S) = load32 m' (v_pid_to_kill S)" for i m'
    using keeps_pid assms(5) by blast
  note store = has_commands_store [OF assms(1) _ assms(2)]
  have ne: "ascii ''t'' \<noteq> ascii ''k''" "ascii ''ps'' \<noteq> ascii ''k''" "ascii ''a'' \<noteq> ascii ''k''" "ascii ''t'' \<noteq> ascii ''ex''"
    "ascii ''ps'' \<noteq> ascii ''ex''" "ascii ''a'' \<noteq> ascii ''ex''" "ascii ''k'' \<noteq> ascii ''ex''"
    by (simp_all add: ascii_def)
  consider "c = ascii ''t''" | "c = ascii ''ps''" | "c = ascii ''a''" | "c = ascii ''k''" | "c = ascii ''ex''"
    | "c \<noteq> ascii ''t''" "c \<noteq> ascii ''ps''" "c \<noteq> ascii ''a''" "c \<noteq> ascii ''k''" "c \<noteq> ascii ''ex''" by blast
  then show ?thesis
    by cases (use ne in \<open>auto simp: shell_command_def texts shell_wait_def n keep pid store assms(2)\<close>)
qed

lemma shell_turn_calls:
  assumes "shell_frame S buf command argument" "has_commands S m" "length us \<le> 80" "length (text_line us) < 50"
    and "\<forall>i. keeps (shell_places S buf) (f i)"
  shows "\<exists>m'. play (shell_turn S buf command argument fd m) (shell_answers buf us r f) = (shell_calls S buf fd us r, Some (shell_goes_on us r, m')) \<and>
    has_commands S m' \<and> (r 1 \<noteq> 0 \<longrightarrow> line_command (text_line us) = ascii ''k'' \<longrightarrow>
      (\<forall>v. line_argument (text_line us) = signed_text v \<longrightarrow> load32 m' (v_pid_to_kill S) = v))"
proof -
  let ?l = "text_line us" and ?m2 = "write_bytes buf us (f 1 (f 0 (memset buf 0 100 m)))"
  show ?thesis
  proof (cases "r 1 = 0")
    case True
    have "same_on (shell_texts S) m ?m2"
    proof -
      have "same_on (shell_places S buf) (write_bytes buf us (memset buf 0 100 m)) ?m2"
        using assms(3) by (intro same_on_keeps [of _ "f i" for i] same_on_write same_on_refl) (use assms(5) in simp_all)
      moreover have "write_bytes buf us (memset buf 0 100 m) x = m x" if "x \<in> shell_texts S" for x
        using shell_texts_outside(1) [OF assms(1) that] assms(3) by (simp add: write_bytes_apply memset_apply)
      ultimately show ?thesis by (simp add: same_on_def shell_places_def)
    qed
    then have "has_commands S ?m2" using has_commands_cong assms(2) by blast
    with True show ?thesis by (simp add: shell_turn_def shell_answers_def shell_calls_def shell_goes_on_def del: One_nat_def)
  next
    case False
    obtain m3 m4 where m4: "filter_newline buf ?m2 = Some m3"
      "get_command buf command argument m3 = Some (if line_background ?l then 1 else 0, m4)" "has_commands S m4"
      "cstring m4 command (line_command ?l)" "cstring m4 argument (line_argument ?l)"
      using shell_line [OF assms] by blast
    have "\<exists>n. atoi m4 argument = Some n \<and> (\<forall>v. line_argument ?l = signed_text v \<longrightarrow> n = v)"
      using atoi_total [OF m4(5)] atoi_text [of m4 argument] m4(5) by fastforce
    moreover obtain m' where m': "play (shell_command S command argument (if line_background ?l then 1 else 0) m4) [(r 2, f 2), (r 3, f 3)] =
        (drop 2 (shell_calls S buf fd us r), Some (shell_goes_on us r, m'))" "has_commands S m'"
      "line_command ?l = ascii ''k'' \<longrightarrow> (\<exists>n. atoi m4 argument = Some n \<and> load32 m' (v_pid_to_kill S) = n)"
      using shell_command_calls [OF assms(1) m4(3,4,5) assms(5), of "line_background ?l" r] False
      by (auto simp: shell_calls_def shell_goes_on_def)
    moreover have "play (shell_turn S buf command argument fd m) (shell_answers buf us r f) =
        (shell_calls S buf fd us r, Some (shell_goes_on us r, m'))"
      using m'(1) m4(1,2) False by (simp add: shell_turn_def shell_answers_def shell_calls_def del: One_nat_def)
    ultimately show ?thesis by auto
  qed
qed

text \<open>The calls of a session: turn by turn, until one of them ends it.\<close>

fun session_calls :: "user_syms \<Rightarrow> addr \<Rightarrow> i32 \<Rightarrow> (u8 list \<times> (nat \<Rightarrow> i32) \<times> (nat \<Rightarrow> memory \<Rightarrow> memory)) list \<Rightarrow> sys_call list" where
  "session_calls S buf fd [] = []"
| "session_calls S buf fd ((us, r, f) # xs) = shell_calls S buf fd us r @ (if shell_goes_on us r then session_calls S buf fd xs else [])"

text \<open>C13. The shell does what is typed: over any number of lines of up to 80 bytes with fewer than 50 before the end of the line,
  whatever else the kernel answers, as long as it leaves the line buffer and the constants alone, each turn makes the
  calls that the command of the line stands for: it starts the command's process and waits for it, except for \<^verbatim>\<open>t\<close> with an
  ampersand; it refuses an unknown command; and it ends at the end of the input or at \<^verbatim>\<open>ex\<close>.\<close>

theorem shell_session_correct:
  assumes "shell_frame S buf command argument" "has_commands S m"
    and "\<forall>(us, r, f) \<in> set xs. length us \<le> 80 \<and> length (text_line us) < 50 \<and> (\<forall>i. keeps (shell_places S buf) (f i))"
  shows "fst (play_loop (shell_turn S buf command argument fd) m (map (\<lambda>(us, r, f). shell_answers buf us r f) xs)) =
    session_calls S buf fd xs"
  using assms(2,3)
proof (induction xs arbitrary: m)
  case (Cons x xs)
  obtain us r f where x: "x = (us, r, f)" by (metis prod_cases3)
  have p: "length us \<le> 80" "length (text_line us) < 50" "\<forall>i. keeps (shell_places S buf) (f i)"
    using Cons.prems(2) x by simp_all
  obtain m' where m': "play (shell_turn S buf command argument fd m) (shell_answers buf us r f) =
      (shell_calls S buf fd us r, Some (shell_goes_on us r, m'))" "has_commands S m'"
    using shell_turn_calls [OF assms(1) Cons.prems(1) p] by blast
  show ?case
  proof (cases "shell_goes_on us r")
    case True
    have "\<forall>(us, r, f) \<in> set xs. length us \<le> 80 \<and> length (text_line us) < 50 \<and> (\<forall>i. keeps (shell_places S buf) (f i))"
      using Cons.prems(2) by simp
    moreover have p1: "play (shell_turn S buf command argument fd m) (shell_answers buf us r f) = (shell_calls S buf fd us r, Some (True, m'))"
      using m'(1) True by simp
    ultimately show ?thesis
      unfolding x list.map prod.case
      by (subst play_loop_turn [where p = "shell_turn S buf command argument fd", OF p1]) (simp add: True Cons.IH [OF m'(2)])
  next
    case False
    then have p1: "play (shell_turn S buf command argument fd m) (shell_answers buf us r f) = (shell_calls S buf fd us r, Some (False, m'))"
      using m'(1) by simp
    show ?thesis unfolding x list.map prod.case
      by (subst play_loop_last [where p = "shell_turn S buf command argument fd", OF p1]) (simp add: False)
  qed
qed simp

text \<open>C32. The command \<^verbatim>\<open>k\<close> kills the process it names: when the argument of the line is a decimal number, the process that the
  shell starts for it, which runs in the same memory, sends the kill signal to that number and says so when there is no such
  process; it refuses the number 0, that of the idle process.\<close>

theorem kill_command_correct:
  assumes "shell_frame S buf command argument" "has_commands S m" "length us \<le> 80" "length (text_line us) < 50"
    and "\<forall>i. keeps (shell_places S buf) (f i)" "r 1 \<noteq> 0"
    and "line_command (text_line us) = ascii ''k''" "line_argument (text_line us) = signed_text pid"
  shows "\<exists>m'. play (shell_turn S buf command argument fd m) (shell_answers buf us r f) =
      ([sysputs (lit S ''> ''), sysread fd buf 80, syscreate (fn_command_k S) DEFAULT_STACK_SIZE, syswait (r 2)], Some (True, m')) \<and>
    fst (play (command_k S m') [(ret, g), (x, h)]) =
      (if pid = 0 then [sysputs (lit S (''Cannot terminate idle proc.'' @ nl))]
       else syskill pid KILL_SIGNAL_NUM # (if ret = 0 then [] else [sysputs (lit S (''No such process.'' @ nl))]))"
proof -
  obtain m' where m': "play (shell_turn S buf command argument fd m) (shell_answers buf us r f) =
      (shell_calls S buf fd us r, Some (shell_goes_on us r, m'))" "load32 m' (v_pid_to_kill S) = pid"
    using shell_turn_calls [OF assms(1-5)] assms(6-8) by blast
  have ne: "ascii ''k'' \<noteq> ascii ''t''" "ascii ''k'' \<noteq> ascii ''ps''" "ascii ''k'' \<noteq> ascii ''a''" "ascii ''k'' \<noteq> ascii ''ex''"
    by (simp_all add: ascii_def)
  have "shell_calls S buf fd us r = [sysputs (lit S ''> ''), sysread fd buf 80, syscreate (fn_command_k S) DEFAULT_STACK_SIZE, syswait (r 2)]"
    "shell_goes_on us r" using ne assms(6,7) by (simp_all add: shell_calls_def shell_goes_on_def Let_def)
  moreover have "fst (play (command_k S m') [(ret, g), (x, h)]) =
      (if pid = 0 then [sysputs (lit S (''Cannot terminate idle proc.'' @ nl))]
       else syskill pid KILL_SIGNAL_NUM # (if ret = 0 then [] else [sysputs (lit S (''No such process.'' @ nl))]))"
    using m'(2) by (auto simp: command_k_def)
  ultimately show ?thesis using m'(1) by auto
qed

lemma demo_shell: "shell_frame demo_syms 0x30000 0x30064 0x30096" "has_commands demo_syms demo_text"
  by (simp_all add: shell_frame_def shell_constants_def demo_syms_def far_def has_commands_def demo_text_def put_text_def ascii_def)

lemma keeps_same: "keeps K (\<lambda>m. m)"
  by (simp add: keeps_def)

text \<open>Three lines: \<^verbatim>\<open>t&\<close>, \<^verbatim>\<open>who\<close> and \<^verbatim>\<open>ex\<close>.\<close>

theorem shell_session_correct_witness:
  "fst (play_loop (shell_turn demo_syms 0x30000 0x30064 0x30096 3) demo_text
     [shell_answers 0x30000 [0x74, 0x26, 0x0A] (\<lambda>_. 5) (\<lambda>_ m. m), shell_answers 0x30000 [0x77, 0x68, 0x6F, 0x0A] (\<lambda>_. 5) (\<lambda>_ m. m),
      shell_answers 0x30000 [0x65, 0x78, 0x0A] (\<lambda>_. 5) (\<lambda>_ m. m)]) =
   [sysputs 0x9040, sysread 3 0x30000 80, syscreate 0x5400 8192, sysputs 0x9040, sysread 3 0x30000 80, sysputs 0x9040, syswait 0,
    sysputs 0x9040, sysread 3 0x30000 80]"
proof -
  let ?xs = "[([0x74, 0x26, 0x0A], \<lambda>_. 5, \<lambda>_ m. m), ([0x77, 0x68, 0x6F, 0x0A], \<lambda>_. 5, \<lambda>_ m. m), ([0x65, 0x78, 0x0A], \<lambda>_. 5, \<lambda>_ m. m)]
    :: (u8 list \<times> (nat \<Rightarrow> i32) \<times> (nat \<Rightarrow> memory \<Rightarrow> memory)) list"
  have "\<forall>(us, r, f) \<in> set ?xs. length us \<le> 80 \<and> length (text_line us) < 50 \<and> (\<forall>i. keeps (shell_places demo_syms 0x30000) (f i))"
    by (simp add: text_line_def keeps_same)
  note shell_session_correct [OF demo_shell this, of 3]
  also have "session_calls demo_syms 0x30000 3 ?xs =
    [sysputs 0x9040, sysread 3 0x30000 80, syscreate 0x5400 8192, sysputs 0x9040, sysread 3 0x30000 80, sysputs 0x9040, syswait 0,
     sysputs 0x9040, sysread 3 0x30000 80]"
    by (simp add: shell_calls_def shell_goes_on_def Let_def text_line_def ascii_def nl_def line_command_def line_background_def
        is_separator_def demo_syms_def DEFAULT_STACK_SIZE_def)
  finally show ?thesis unfolding list.map prod.case .
qed

text \<open>The line \<^verbatim>\<open>k 7\<close>.\<close>

theorem kill_command_correct_witness:
  "\<exists>m'. snd (play (shell_turn demo_syms 0x30000 0x30064 0x30096 3 demo_text) (shell_answers 0x30000 [0x6B, 0x20, 0x37, 0x0A] (\<lambda>_. 5) (\<lambda>_ m. m))) =
       Some (True, m') \<and>
     fst (play (command_k demo_syms m') [(0, id), (0, id)]) = [syskill 7 31]"
proof -
  have line: "text_line [0x6B, 0x20, 0x37, 0x0A] = [0x6B, 0x20, 0x37]" by (simp add: text_line_def)
  have "decimal 7 = [0x37]" by (subst decimal.simps) (simp add: digit_def)
  then have "line_command (text_line [0x6B, 0x20, 0x37, 0x0A]) = ascii ''k''" "line_argument (text_line [0x6B, 0x20, 0x37, 0x0A]) = signed_text 7"
    unfolding line by (simp_all add: line_command_def line_argument_def is_separator_def ascii_def signed_text_def)
  note c = kill_command_correct [OF demo_shell _ _ _ _ this, of "\<lambda>_ m. m" "\<lambda>_. 5" 3 0 id 0 id]
  have "length [0x6B, 0x20, 0x37, 0x0A :: u8] \<le> 80" "length (text_line [0x6B, 0x20, 0x37, 0x0A]) < 50" "(5 :: i32) \<noteq> 0"
    "\<forall>i. keeps (shell_places demo_syms 0x30000) ((\<lambda>_ m. m) i)"
    by (simp_all add: line keeps_same)
  from c [OF this(1,2,4,3)] obtain m' where "play (shell_turn demo_syms 0x30000 0x30064 0x30096 3 demo_text)
      (shell_answers 0x30000 [0x6B, 0x20, 0x37, 0x0A] (\<lambda>_. 5) (\<lambda>_ m. m)) =
      ([sysputs (lit demo_syms ''> ''), sysread 3 0x30000 80, syscreate (fn_command_k demo_syms) DEFAULT_STACK_SIZE, syswait 5], Some (True, m'))"
    "fst (play (command_k demo_syms m') [(0, id), (0, id)]) = [syskill 7 31]" by (auto simp: KILL_SIGNAL_NUM_def)
  then show ?thesis by (intro exI [of _ m']) simp
qed

end
