(* ===== verification/Ps_Properties.thy ===== *)
theory Ps_Properties
  imports User_Properties Status_Report
begin

text \<open>
  The rows that the command \<^verbatim>\<open>ps\<close> prints: how \<^verbatim>\<open>sprintf\<close> fills the buffer of a row, directive by
  directive, and that it fits.
\<close>

unbundle bit_operations_syntax

lemma text_length_cstring:
  assumes "cstring m a cs" "\<And>i. i \<le> length cs \<Longrightarrow> txt i = m (a + of_nat i)"
  shows "text_length txt 0 = Some (length cs)"
proof (rule text_length_from)
  show "\<forall>i<length cs. txt i \<noteq> 0" using assms(2) cstring_apply [OF assms(1)] cstring_nonzero [OF assms(1)] by (auto simp: in_set_conv_nth)
qed (use assms(2) cstring_apply [OF assms(1)] in simp_all)

lemma directive_width_s:
  assumes "f_mem s fmt \<notin> {0x2D, 0x30, 0x2A}" "parse_number (f_mem s) fmt 0 = Some (of_nat w, q)" "f_mem s q = 0x73" "w \<le> 80"
    and "cstring (f_mem s) (cur_arg s) cs" "length cs \<le> 80"
    and "\<And>ds i. length ds \<le> max w (length cs) \<Longrightarrow> i < length cs \<Longrightarrow> f_mem (fold putc ds s) (cur_arg s + of_nat i) = f_mem s (cur_arg s + of_nat i)"
  shows "directive fmt s = Some (Some (q + 1), fold putc (padded w cs) (s\<lparr>f_args := f_args s + 4\<rparr>))"
proof -
  let ?v = "s\<lparr>f_args := f_args s + 4\<rparr>" and ?a = "cur_arg s"
  have f: "fold putc ds ?v = (fold putc ds s)\<lparr>f_args := f_args s + 4\<rparr>" for ds
  proof (induction ds rule: rev_induct)
    case (snoc d ds)
    have "putc d (u\<lparr>f_args := x\<rparr>) = (putc d u)\<lparr>f_args := x\<rparr>" for u x by (simp add: putc_def split: option.split)
    then show ?case using snoc by simp
  qed simp
  have "text_length (text_at ?v (UserString ?a)) 0 = Some (length cs)"
    by (rule text_length_cstring [OF assms(5)]) (simp add: text_at_def)
  then have "directive fmt s = Some (Some (q + 1), emit_field False 0x20 False (of_nat w) 0 (UserString ?a) (of_nat (length cs)) ?v)"
    using assms(1-3) by (auto simp: directive_def parse_width_def convert_def Let_def)
  also have "emit_field False 0x20 False (of_nat w) 0 (UserString ?a) (of_nat (length cs)) ?v = fold putc (padded w ([] @ cs)) ?v"
  proof (rule emit_padded [OF assms(4,6)])
    fix i assume i: "i < length cs"
    have "f_mem (fold putc (replicate (w - length cs) 0x20 @ take i cs) s) (?a + of_nat i) = f_mem s (?a + of_nat i)"
      by (rule assms(7)) (use i in auto)
    then show "text_at (fold putc (replicate (w - length ([] @ cs)) 0x20 @ [] @ take i cs) ?v) (UserString ?a) i = cs ! i"
      using cstring_apply [OF assms(5), of i] i unfolding f by (simp add: text_at_def del: fold_append)
  qed simp
  finally show ?thesis by simp
qed

section \<open>Printing into a buffer\<close>

text \<open>
  The state of \<^verbatim>\<open>_doprnt\<close> after it has printed \<open>cs\<close> at \<open>str\<close> and used \<open>n\<close> of the arguments \<open>as\<close> at \<open>va\<close>:
  the places in \<open>K\<close> are as they were.
\<close>

definition printed :: "addr set \<Rightarrow> memory \<Rightarrow> addr \<Rightarrow> addr \<Rightarrow> u32 list \<Rightarrow> u8 list \<Rightarrow> nat \<Rightarrow> fmt_state \<Rightarrow> bool" where
  "printed K m str va as cs n s \<longleftrightarrow> f_dst s = Some (str + of_nat (length cs)) \<and> f_args s = cell va n \<and>
     same_on K m (f_mem s) \<and> (\<forall>i<length cs. f_mem s (str + of_nat i) = cs ! i) \<and>
     (\<forall>j. n \<le> j \<and> j < length as \<longrightarrow> load32 (f_mem s) (cell va j) = as ! j)"

definition print_room :: "addr set \<Rightarrow> addr \<Rightarrow> addr \<Rightarrow> nat \<Rightarrow> bool" where
  "print_room K str va k \<longleftrightarrow> (\<forall>x\<in>K. 80 \<le> unat (x - str) \<and> 4 * k \<le> unat (x - va)) \<and> far str 80 va (4 * k) \<and> k \<le> 2 ^ 20"

lemma write_within:
  assumes "k + length ds \<le> n" "n \<le> unat (x - a)" "n \<le> 2 ^ 31"
  shows "write_bytes (a + of_nat k) ds m x = m x"
proof -
  have k: "unat (of_nat k :: addr) = k" using assms by (simp add: unat_of_nat)
  have "x - (a + of_nat k) = (x - a) - of_nat k" by simp
  moreover have "of_nat k \<le> x - a" using assms k by (simp add: word_le_nat_alt)
  ultimately have "unat (x - (a + of_nat k)) = unat (x - a) - k" using k by (metis unat_sub)
  then have "\<not> unat (x - (a + of_nat k)) < length ds" using assms by linarith
  then show ?thesis using assms by (simp add: write_bytes_apply del: not_less)
qed

lemma write_before:
  assumes "i < k" "k + length ds \<le> 2 ^ 31"
  shows "write_bytes (a + of_nat k) ds m (a + of_nat i) = m (a + of_nat i)"
proof -
  have u: "unat (of_nat k :: addr) = k" "unat (of_nat i :: addr) = i" using assms by (simp_all add: unat_of_nat)
  have "a + of_nat i - (a + of_nat k) = of_nat i - (of_nat k :: addr)" by simp
  then have "unat (a + of_nat i - (a + of_nat k)) = 2 ^ 32 + i - k" using assms u by (simp add: unat_sub_if')
  moreover have "\<not> 2 ^ 32 + i - k < length ds" using assms by simp
  ultimately have "\<not> unat (a + of_nat i - (a + of_nat k)) < length ds" by (simp only: not_False_eq_True)
  then show ?thesis using assms by (subst write_bytes_apply) (simp_all del: not_less)
qed

lemma write_inside:
  assumes "i < length ds" "length ds \<le> 2 ^ 31"
  shows "write_bytes (a + of_nat k) ds m (a + of_nat (k + i)) = ds ! i"
proof -
  have "a + of_nat (k + i) - (a + of_nat k) = (of_nat i :: addr)" by simp
  moreover have "unat (of_nat i :: addr) = i" using assms by (simp add: unat_of_nat)
  ultimately have "unat (a + of_nat (k + i) - (a + of_nat k)) = i" by (simp only:)
  then show ?thesis using assms by (subst write_bytes_apply) simp_all
qed

lemma far_cell:
  assumes "far a n va (4 * k)" "j < k" "k \<le> 2 ^ 20" "n \<le> 2 ^ 31"
  shows "far a n (cell va j) 4"
proof -
  have j: "unat (of_nat (4 * j) :: addr) = 4 * j" using assms by (intro unat_cell_offset) simp
  have "n \<le> unat (cell va j - a)" unfolding cell_def using assms by (intro far_byte [OF assms(1)]) auto
  moreover have "4 \<le> unat (a - cell va j)"
  proof -
    have "of_nat (4 * j) \<le> a - va" using assms j by (simp add: far_def word_le_nat_alt)
    moreover have "a - cell va j = (a - va) - of_nat (4 * j)" by (simp add: cell_def)
    ultimately have "unat (a - cell va j) = unat (a - va) - 4 * j" using j by (metis unat_sub)
    moreover have "4 * k \<le> unat (a - va)" using assms(1) by (simp add: far_def)
    ultimately show ?thesis using assms(2) by linarith
  qed
  ultimately show ?thesis by (simp add: far_def)
qed

lemma printed_text:
  assumes "print_room K str va (length as)" "printed K m str va as cs n s" "length cs + length ds \<le> 80"
  shows "printed K m str va as (cs @ ds) n (fold putc ds s)"
proof -
  let ?s = "fold putc ds s"
  have s: "?s = s\<lparr>f_out := f_out s @ ds, f_mem := write_bytes (str + of_nat (length cs)) ds (f_mem s),
      f_dst := Some (str + of_nat (length cs) + of_nat (length ds))\<rparr>"
    by (rule puts_fields) (use assms(2) in \<open>simp add: printed_def\<close>)
  have out: "f_mem ?s x = f_mem s x" if "80 \<le> unat (x - str)" for x
    unfolding s using write_within [OF assms(3) that] by simp
  have "load32 (f_mem ?s) (cell va j) = load32 (f_mem s) (cell va j)" if "j < length as" for j
  proof (rule far_load32)
    show "far str 80 (cell va j) 4" by (rule far_cell [OF _ that]) (use assms(1) in \<open>simp_all add: print_room_def\<close>)
  qed (use out in simp_all)
  moreover have "f_mem ?s (str + of_nat i) = (cs @ ds) ! i" if "i < length cs + length ds" for i
  proof (cases "i < length cs")
    case True
    then show ?thesis unfolding s using write_before [OF True, of ds str] assms(2,3) by (simp add: printed_def nth_append)
  next
    case False
    then have "i - length cs < length ds" "length cs + (i - length cs) = i" using that by auto
    then show ?thesis unfolding s using write_inside [of "i - length cs" ds str "length cs"] assms(3) False by (simp add: nth_append)
  qed
  moreover have "same_on K m (f_mem ?s)" using assms(1,2) out by (simp add: same_on_def printed_def print_room_def)
  moreover have "f_dst ?s = Some (str + of_nat (length (cs @ ds)))" "f_args ?s = f_args s" unfolding s by (simp_all add: add.assoc)
  ultimately show ?thesis using assms(2) by (simp add: printed_def)
qed

lemma printed_next:
  assumes "print_room K str va (length as)" "printed K m str va as cs n s" "n < length as" "length cs \<le> 80"
  shows "printed K m str va as cs (Suc n) (s\<lparr>f_mem := store32 (f_mem s) (f_args s) r, f_string := ls, f_args := f_args s + 4\<rparr>)"
    "printed K m str va as cs (Suc n) (s\<lparr>f_args := f_args s + 4\<rparr>)" "cur_arg s = as ! n"
proof -
  have a: "f_args s = cell va n" using assms(2) by (simp add: printed_def)
  have next_cell: "cell va n + 4 = cell va (Suc n)" by (simp add: cell_def)
  have k: "length as \<le> 2 ^ 20" using assms(1) by (simp add: print_room_def)
  have K: "store32 (f_mem s) (cell va n) r x = f_mem s x" if "x \<in> K" for x
    by (rule store_cell_outside [OF assms(3) k]) (use assms(1) that in \<open>simp add: print_room_def\<close>)
  have b: "store32 (f_mem s) (cell va n) r (str + of_nat i) = f_mem s (str + of_nat i)" if "i < length cs" for i
  proof (rule store_cell_outside [OF assms(3) k])
    have "far va (4 * length as) str 80" using assms(1) by (simp add: print_room_def far_def)
    then show "4 * length as \<le> unat (str + of_nat i - va)" by (rule far_byte) (use that assms(4) k in simp_all)
  qed
  have c: "load32 (store32 (f_mem s) (cell va n) r) (cell va j) = load32 (f_mem s) (cell va j)" if "Suc n \<le> j" "j < length as" for j
    by (rule load32_store32_far, rule cells_far) (use that k in simp_all)
  show "printed K m str va as cs (Suc n) (s\<lparr>f_mem := store32 (f_mem s) (f_args s) r, f_string := ls, f_args := f_args s + 4\<rparr>)"
    "printed K m str va as cs (Suc n) (s\<lparr>f_args := f_args s + 4\<rparr>)"
    using assms(2) K b c by (simp_all add: printed_def a next_cell same_on_def)
  show "cur_arg s = as ! n" using assms(2,3) by (simp add: printed_def cur_arg_def)
qed

section \<open>Steps of the format\<close>

lemma doprnt_char: "f_mem s p = c \<Longrightarrow> c \<noteq> 0 \<Longrightarrow> c \<noteq> 0x25 \<Longrightarrow> doprnt p s = doprnt (p + 1) (putc c s)"
  by (subst doprnt.simps) simp

lemma doprnt_directive: "f_mem s p = 0x25 \<Longrightarrow> f_mem s (p + 1) \<noteq> 0x25 \<Longrightarrow> directive (p + 1) s = Some (Some q, s') \<Longrightarrow> doprnt p s = doprnt q s'"
  by (subst doprnt.simps) simp

lemma print_char:
  assumes "print_room K str va (length as)" "printed K m str va as cs n s" "f_mem s p = c" "c \<noteq> 0" "c \<noteq> 0x25" "length cs < 80"
  shows "\<exists>s'. doprnt p s = doprnt (p + 1) s' \<and> printed K m str va as (cs @ [c]) n s'"
  using doprnt_char [OF assms(3-5)] printed_text [OF assms(1,2), of "[c]"] assms(6) by auto

lemma print_number:
  assumes "print_room K str va (length as)" "printed K m str va as cs n s" "n < length as"
    and "f_mem s p = 0x25" "f_mem s (p + 1) \<notin> {0x25, 0x2D, 0x30, 0x2A}" "parse_number (f_mem s) (p + 1) 0 = Some (of_nat w, q)" "f_mem s q = 0x64"
    and "length cs + max w 11 \<le> 80"
  shows "\<exists>s'. doprnt p s = doprnt (q + 1) s' \<and> printed K m str va as (cs @ padded w (signed_text (as ! n))) (Suc n) s'"
proof -
  have "f_mem s (p + 1) \<notin> {0x2D, 0x30, 0x2A}" "w \<le> 80" using assms(5,8) by auto
  then obtain r ls where d: "directive (p + 1) s = Some (Some (q + 1), fold putc (padded w (signed_text (cur_arg s)))
      (s\<lparr>f_mem := store32 (f_mem s) (f_args s) r, f_string := ls, f_args := f_args s + 4\<rparr>))"
    using directive_width_d [OF _ assms(6,7)] by blast
  have l: "length cs + length (padded w (signed_text (as ! n))) \<le> 80"
    using signed_text_length [of "as ! n"] assms(8) by (simp add: padded_length)
  note nxt = printed_next [OF assms(1-3)]
  have "length cs \<le> 80" using assms(8) by simp
  from printed_text [OF assms(1) nxt(1) [OF this] l] doprnt_directive [OF assms(4) _ d] assms(5) nxt(3) [OF this]
  show ?thesis by auto
qed

lemma print_text:
  assumes "print_room K str va (length as)" "printed K m str va as cs n s" "n < length as"
    and "f_mem s p = 0x25" "f_mem s (p + 1) \<notin> {0x25, 0x2D, 0x30, 0x2A}" "parse_number (f_mem s) (p + 1) 0 = Some (of_nat w, q)" "f_mem s q = 0x73"
    and "length cs + max w (length ds) \<le> 80" "cstring m (as ! n) ds" "bytes_of (as ! n) (Suc (length ds)) \<subseteq> K"
  shows "\<exists>s'. doprnt p s = doprnt (q + 1) s' \<and> printed K m str va as (cs @ padded w ds) (Suc n) s'"
proof -
  have l: "length cs \<le> 80" "length cs + length (padded w ds) \<le> 80" using assms(8) by (simp_all add: padded_length)
  note nxt = printed_next [OF assms(1-3) l(1)]
  have "same_on K m (f_mem s)" using assms(2) by (simp add: printed_def)
  then have c: "cstring (f_mem s) (cur_arg s) ds" using same_on_cstring [OF _ assms(10)] assms(9) nxt(3) by simp
  have "directive (p + 1) s = Some (Some (q + 1), fold putc (padded w ds) (s\<lparr>f_args := f_args s + 4\<rparr>))"
  proof (rule directive_width_s [OF _ assms(6,7) _ c])
    fix es :: "u8 list" and i
    assume e: "length es \<le> max w (length ds)" "i < length ds"
    have "same_on K m (f_mem (fold putc es s))"
      using printed_text [OF assms(1,2), of es] e(1) assms(8) by (simp add: printed_def)
    moreover have "cur_arg s + of_nat i \<in> K" using assms(10) e(2) nxt(3) by (auto simp: bytes_of_def)
    ultimately show "f_mem (fold putc es s) (cur_arg s + of_nat i) = f_mem s (cur_arg s + of_nat i)"
      using \<open>same_on K m (f_mem s)\<close> by (simp add: same_on_def)
  qed (use assms(5,8) in auto)
  with doprnt_directive [OF assms(4), of "q + 1"] printed_text [OF assms(1) nxt(2) l(2)] assms(5) show ?thesis by auto
qed

section \<open>A row of the process table\<close>

text \<open>The array of names in \<^verbatim>\<open>c/user.c\<close>, indexed by the status in the report.\<close>

definition detailed_states :: "string list" where
  "detailed_states = [''READY'', ''STOPPED'', ''RUNNING'', ''BLOCKED: NONE'', ''BLOCKED: SENDING'', ''BLOCKED: RECEIVING'',
     ''BLOCKED: WAITING'', ''BLOCKED: SLEEPING'', ''BLOCKED: DEVICE IO'']"

definition row_text :: "u32 \<Rightarrow> string \<Rightarrow> u32 \<Rightarrow> u8 list" where
  "row_text pid name time = padded 4 (signed_text pid) @ [0x20, 0x20] @ padded 16 (ascii name) @ [0x20, 0x20] @
     padded 8 (signed_text time) @ [0x0A]"

lemma parse_one: "is_digit (m p) \<Longrightarrow> \<not> is_digit (m (p + 1)) \<Longrightarrow> parse_number m p 0 = Some (scast (m p) - 0x30, p + 1)"
  by (subst parse_number.simps, simp, subst parse_number.simps, simp)

lemma parse_two: "is_digit (m p) \<Longrightarrow> is_digit (m (p + 1)) \<Longrightarrow> \<not> is_digit (m (p + 2)) \<Longrightarrow>
  parse_number m p 0 = Some ((scast (m p) - 0x30) * 10 + scast (m (p + 1)) - 0x30, p + 2)"
  by (subst parse_number.simps, simp, subst parse_number.simps, simp, subst parse_number.simps, simp add: ac_simps)

lemma row_format: "ascii (''%4d  %16s  %8d'' @ nl) = [0x25, 0x34, 0x64, 0x20, 0x20, 0x25, 0x31, 0x36, 0x73, 0x20, 0x20, 0x25, 0x38, 0x64, 0x0A]"
  by (simp add: ascii_def nl_def)

lemma print_row:
  assumes room: "print_room K str va 3" and p: "printed K m str va [pid, state, time] [] 0 s"
    and fmt: "cstring m fmt (ascii (''%4d  %16s  %8d'' @ nl))" "bytes_of fmt 16 \<subseteq> K"
    and name: "cstring m state (ascii name)" "bytes_of state (Suc (length name)) \<subseteq> K" "length name \<le> 20"
  shows "\<exists>s'. doprnt fmt s = Some s' \<and> printed K m str va [pid, state, time] (row_text pid name time) (Suc (Suc (Suc 0))) s'"
proof -
  let ?as = "[pid, state, time]"
  have r: "print_room K str va (length ?as)" using room by (simp add: numeral_3_eq_3)
  have f: "f_mem u (fmt + of_nat i) = (ascii (''%4d  %16s  %8d'' @ nl) @ [0]) ! i"
    if "printed K m str va ?as cs n u" "i < 16" for u cs n i
  proof -
    have "fmt + of_nat i \<in> K" using fmt(2) that(2) by (auto simp: bytes_of_def)
    then have "f_mem u (fmt + of_nat i) = m (fmt + of_nat i)" using that(1) by (simp add: printed_def same_on_def)
    moreover have len: "length (ascii (''%4d  %16s  %8d'' @ nl)) = 15" by (simp only: row_format) simp
    ultimately show ?thesis
      using cstring_apply [OF fmt(1), of i] that(2) unfolding nth_append len by (cases "i < 15") auto
  qed
  note at = f [where i = 0] f [where i = 1] f [where i = 2] f [where i = 3] f [where i = 4] f [where i = 5] f [where i = 6] f [where i = 7]
    f [where i = 8] f [where i = 9] f [where i = 10] f [where i = 11] f [where i = 12] f [where i = 13] f [where i = 14] f [where i = 15]
  note at = this [unfolded row_format, simplified]
  let ?t1 = "padded 4 (signed_text pid)" and ?t2 = "padded 16 (ascii name)" and ?t3 = "padded 8 (signed_text time)"
  have l: "length ?t1 \<le> 11" "length ?t2 \<le> 20" "length ?t3 \<le> 11"
    using signed_text_length [of pid] signed_text_length [of time] name(3) by (simp_all add: padded_length ascii_length)
  have d: "is_digit 0x34" "is_digit 0x31" "is_digit 0x36" "is_digit 0x38" "\<not> is_digit 0x64" "\<not> is_digit 0x73" by (simp_all add: is_digit_def)
  obtain s1 where s1: "doprnt fmt s = doprnt (fmt + 3) s1" "printed K m str va ?as ([] @ ?t1) (Suc 0) s1"
    using print_number [OF r p, of fmt 4 "fmt + 2"] parse_one [of "f_mem s" "fmt + 1"] at [OF p] d by (auto simp: add.assoc)
  obtain s2 where s2: "doprnt (fmt + 3) s1 = doprnt (fmt + 4) s2" "printed K m str va ?as (?t1 @ [0x20]) (Suc 0) s2"
    using print_char [OF r s1(2), of "fmt + 3"] at [OF s1(2)] l(1) by (auto simp: add.assoc)
  obtain s3 where s3: "doprnt (fmt + 4) s2 = doprnt (fmt + 5) s3" "printed K m str va ?as (?t1 @ [0x20, 0x20]) (Suc 0) s3"
    using print_char [OF r s2(2), of "fmt + 4"] at [OF s2(2)] l(1) by (auto simp: add.assoc)
  have b: "length ?t1 + max 16 (length name) \<le> 78" using l(1) name(3) by linarith
  obtain s4 where s4: "doprnt (fmt + 5) s3 = doprnt (fmt + 9) s4" "printed K m str va ?as (?t1 @ [0x20, 0x20] @ ?t2) (Suc (Suc 0)) s4"
    using print_text [OF r s3(2), of "fmt + 5" 16 "fmt + 8" "ascii name"] parse_two [of "f_mem s3" "fmt + 6"] at [OF s3(2)] d b name
    by (auto simp: add.assoc ascii_length)
  obtain s5 where s5: "doprnt (fmt + 9) s4 = doprnt (fmt + 10) s5" "printed K m str va ?as (?t1 @ [0x20, 0x20] @ ?t2 @ [0x20]) (Suc (Suc 0)) s5"
    using print_char [OF r s4(2), of "fmt + 9"] at [OF s4(2)] l(1,2) by (auto simp: add.assoc)
  obtain s6 where s6: "doprnt (fmt + 10) s5 = doprnt (fmt + 11) s6" "printed K m str va ?as (?t1 @ [0x20, 0x20] @ ?t2 @ [0x20, 0x20]) (Suc (Suc 0)) s6"
    using print_char [OF r s5(2), of "fmt + 10"] at [OF s5(2)] l(1,2) by (auto simp: add.assoc)
  obtain s7 where s7: "doprnt (fmt + 11) s6 = doprnt (fmt + 14) s7"
      "printed K m str va ?as (?t1 @ [0x20, 0x20] @ ?t2 @ [0x20, 0x20] @ ?t3) (Suc (Suc (Suc 0))) s7"
    using print_number [OF r s6(2), of "fmt + 11" 8 "fmt + 13"] parse_one [of "f_mem s6" "fmt + 12"] at [OF s6(2)] d l(1,2)
    by (auto simp: add.assoc)
  obtain s8 where s8: "doprnt (fmt + 14) s7 = doprnt (fmt + 15) s8" "printed K m str va ?as (row_text pid name time) (Suc (Suc (Suc 0))) s8"
    using print_char [OF r s7(2), of "fmt + 14"] at [OF s7(2)] l by (auto simp: add.assoc row_text_def)
  have "doprnt (fmt + 15) s8 = Some s8" using at [OF s8(2)] by (subst doprnt.simps) simp
  then show ?thesis using s1(1) s2(1) s3(1) s4(1) s5(1) s6(1) s7(1) s8 by auto
qed

lemma detailed_states_length: "j < 9 \<Longrightarrow> length (detailed_states ! j) \<le> 18"
  by (auto simp: detailed_states_def less_Suc_eq eval_nat_numeral)

lemma row_text_length: "length name \<le> 18 \<Longrightarrow> length (row_text pid name time) < 80"
  using signed_text_length [of pid] signed_text_length [of time] by (auto simp: row_text_def padded_length ascii_length max_def)

lemma row_text_nonzero: "0 \<notin> set (ascii name) \<Longrightarrow> 0 \<notin> set (row_text pid name time)"
  by (auto simp: row_text_def padded_def signed_text_def dest: decimal_digits)

text \<open>C31. A row of \<^verbatim>\<open>ps\<close>: whatever the pid, the status and the time are, as long as the status is one of the nine of the
  table of names, \<^verbatim>\<open>sprintf\<close> leaves in the buffer the pid, the name of the status and the time, each padded with
  blanks on the left to its width of 4, 16 and 8, and a newline, as a string. It fits into the 80 bytes of the buffer, and
  nothing else than the buffer and the argument list changes.\<close>

theorem ps_row_correct:
  assumes "far str 80 va 12" "cstring m (lit S (''%4d  %16s  %8d'' @ nl)) (ascii (''%4d  %16s  %8d'' @ nl))"
    and "far str 80 (lit S (''%4d  %16s  %8d'' @ nl)) 16" "far va 12 (lit S (''%4d  %16s  %8d'' @ nl)) 16"
    and "unat (load32 m (ps_status ps i)) = j" "j < 9" "load32 m (v_detailed_states S + 4 * load32 m (ps_status ps i)) = name"
    and "cstring m name (ascii (detailed_states ! j))" "far str 80 name 20" "far va 12 name 20"
  shows "\<exists>m'. ps_row S ps str va locals i m = Some m' \<and>
    cstring m' str (row_text (load32 m (ps_pid ps i)) (detailed_states ! j) (load32 m (ps_cpuTime ps i))) \<and>
    length (row_text (load32 m (ps_pid ps i)) (detailed_states ! j) (load32 m (ps_cpuTime ps i))) < 80 \<and>
    (\<forall>x. 80 \<le> unat (x - str) \<and> 12 \<le> unat (x - va) \<longrightarrow> m' x = m x)"
proof -
  let ?fmt = "lit S (''%4d  %16s  %8d'' @ nl)"
  let ?as = "[load32 m (ps_pid ps i), name, load32 m (ps_cpuTime ps i)]"
  let ?row = "row_text (load32 m (ps_pid ps i)) (detailed_states ! j) (load32 m (ps_cpuTime ps i))"
  define K where "K = {x. 80 \<le> unat (x - str) \<and> 12 \<le> unat (x - va)}"
  define m0 where "m0 = store_args va ?as m"
  let ?s = "\<lparr>f_mem = m0, f_args = va, f_string = locals, f_out = [], f_dst = Some str\<rparr>"
  have room: "print_room K str va 3" using assms(1) by (simp add: print_room_def K_def)
  have "m0 x = m x" if "12 \<le> unat (x - va)" for x
  proof -
    have "store32 m' (cell va k) w x = m' x" if "k < 3" for m' k w
      by (rule store_cell_outside [of _ 3]) (use that \<open>12 \<le> unat (x - va)\<close> in simp_all)
    from this [of 0] this [of 1] this [of 2] show ?thesis by (simp add: m0_def cell_def add.assoc)
  qed
  then have m0: "same_on K m m0" by (simp add: same_on_def K_def)
  have args: "load32 m0 (cell va k) = ?as ! k" if "k < 3" for k
    unfolding m0_def cell_def by (rule store_args_nth) (use that in simp_all)
  have p: "printed K m0 str va ?as [] 0 ?s"
    using args by (simp add: printed_def cell_def numeral_3_eq_3)
  have len: "length (detailed_states ! j) \<le> 18" by (rule detailed_states_length [OF assms(6)])
  have sub: "bytes_of ?fmt 16 \<subseteq> K" "bytes_of name (Suc (length (detailed_states ! j))) \<subseteq> K"
  proof -
    show "bytes_of ?fmt 16 \<subseteq> K" using bytes_of_outside [OF assms(3)] bytes_of_outside [OF assms(4)] by (auto simp: K_def)
    have f: "far str 80 name (Suc (length (detailed_states ! j)))" "far va 12 name (Suc (length (detailed_states ! j)))"
      using far_less [OF assms(9)] far_less [OF assms(10)] len by simp_all
    show "bytes_of name (Suc (length (detailed_states ! j))) \<subseteq> K"
      using bytes_of_outside [OF f(1)] bytes_of_outside [OF f(2)] len by (auto simp: K_def)
  qed
  have fmt: "cstring m0 ?fmt (ascii (''%4d  %16s  %8d'' @ nl))"
  proof (subst same_on_cstring [OF m0])
    have "Suc (length (ascii (''%4d  %16s  %8d'' @ nl))) = 16" by (simp only: row_format) simp
    then show "bytes_of ?fmt (Suc (length (ascii (''%4d  %16s  %8d'' @ nl)))) \<subseteq> K" using sub(1) by (simp only:)
  qed (rule assms(2))
  have name: "cstring m0 name (ascii (detailed_states ! j))"
    using same_on_cstring [OF m0] sub(2) assms(8) by (simp add: ascii_length)
  obtain s' where s': "doprnt ?fmt ?s = Some s'" "printed K m0 str va ?as ?row (Suc (Suc (Suc 0))) s'"
    using print_row [OF room p fmt sub(1) name sub(2)] len by auto
  have l: "length ?row < 80" by (rule row_text_length [OF len])
  let ?m = "(f_mem s')(str + of_nat (length ?row) := 0)"
  have r: "ps_row S ps str va locals i m = Some ?m"
    unfolding ps_row_def Let_def assms(7) m0_def [symmetric] sprintf_def using s' by (simp add: printed_def)
  have nz: "0 \<notin> set ?row" by (rule row_text_nonzero) (rule cstring_nonzero [OF assms(8)])
  have "cstring ?m str ?row"
  proof (rule cstringI)
    fix k assume k: "k < length ?row"
    then have "of_nat k \<noteq> (of_nat (length ?row) :: addr)" using l by (simp add: word_of_nat_eq_iff take_bit_nat_eq_self)
    moreover have "?row ! k \<noteq> 0" using nz k by (metis nth_mem)
    ultimately show "?m (str + of_nat k) = ?row ! k \<and> ?row ! k \<noteq> 0" using s'(2) k by (simp add: printed_def)
  qed simp
  moreover have "?m x = m x" if "80 \<le> unat (x - str)" "12 \<le> unat (x - va)" for x
  proof -
    have "x \<noteq> str + of_nat (length ?row)" using that(1) l by (auto simp: unat_of_nat)
    then show ?thesis using s'(2) m0 that by (simp add: printed_def same_on_def K_def)
  qed
  ultimately show ?thesis using r l by blast
qed

definition ps_memory :: memory where
  "ps_memory = put_text 0x9040 (''%4d  %16s  %8d'' @ nl) (put_text 0x9200 ''BLOCKED: SLEEPING''
     (store32 (store32 (store32 (store32 (\<lambda>_. 0) 0x9124 0x9200) (ps_pid 0x31000 2) 5) (ps_status 0x31000 2) 7) (ps_cpuTime 0x31000 2) 120))"

theorem ps_row_correct_witness:
  "\<exists>m'. ps_row demo_syms 0x31000 0x30000 0x30100 (\<lambda>_. 0) 2 ps_memory = Some m' \<and>
     cstring m' 0x30000 (row_text 5 ''BLOCKED: SLEEPING'' 120)"
proof -
  have l: "load32 ps_memory (ps_pid 0x31000 2) = 5" "load32 ps_memory (ps_status 0x31000 2) = 7" "load32 ps_memory (ps_cpuTime 0x31000 2) = 120"
    "load32 ps_memory 0x9124 = 0x9200"
    by (simp_all add: ps_memory_def put_text_def ascii_def nl_def load32_def store32_def ps_pid_def ps_status_def ps_cpuTime_def)
  have syms: "lit demo_syms (''%4d  %16s  %8d'' @ nl) = 0x9040" "v_detailed_states demo_syms = 0x9108"
    by (simp_all add: demo_syms_def)
  have "cstring ps_memory 0x9040 (ascii (''%4d  %16s  %8d'' @ nl))" "cstring ps_memory 0x9200 (ascii ''BLOCKED: SLEEPING'')"
    by (simp_all add: ps_memory_def put_text_def ascii_def nl_def store32_def ps_pid_def ps_status_def ps_cpuTime_def)
  then show ?thesis
    using ps_row_correct [of "0x30000" "0x30100" ps_memory demo_syms "0x31000" 2 7 "0x9200" "\<lambda>_. 0", unfolded syms l]
    by (simp add: far_def l detailed_states_def) blast
qed

text \<open>Every status that the kernel reports is in the table of names.\<close>

lemma reported_status:
  assumes "(p, st, t) \<in> set (idle_row s # report pid s)"
  shows "unat st < 9"
proof -
  have "unat (state_num x + blocked_num y) < 9" "unat (state_num x) < 9" for x y
    by (cases x; cases y; simp)+
  then show ?thesis using assms by (auto simp: idle_row_def slot_row_def report_def Let_def split: if_splits)
qed

end
