(* ===== verification/Lib_Scan.thy ===== *)
theory Lib_Scan
  imports Lib_String
begin

text \<open>
  Formatted input, \<^verbatim>\<open>lib/libxc/doscan.c\<close> and \<^verbatim>\<open>scanf.c\<close>: \<^verbatim>\<open>_doscan\<close> over any pair of functions that take and
  give back characters, and its three callers. Characters are \<^verbatim>\<open>int\<close>, sign-extended from the bytes. The
  table \<^verbatim>\<open>_sctab\<close> is in the byte memory, as it is indexed outside its bounds. \<open>None\<close> is a run without end or
  a store outside a local array.
\<close>

unbundle bit_operations_syntax

section \<open>Reading characters\<close>

text \<open>
  Where the characters come from: \<^verbatim>\<open>_doscan\<close> has the two functions and their arguments as parameters. What
  they change apart from the memory is the value \<open>'s\<close> (the variable their second argument points to, and the device).
\<close>

record 's scanner =
  sc_getch :: "memory \<Rightarrow> 's \<Rightarrow> i32 \<times> 's"
  sc_ungetch :: "memory \<Rightarrow> 's \<Rightarrow> 's"

definition EOF :: i32 where "EOF = - 1"
definition SPC :: u8 where "SPC = 1"
definition STP :: u8 where "STP = 2"

datatype num_size = SHORT | REGULAR | LONG

text \<open>The initial table \<^verbatim>\<open>_sctab\<close>; the table itself is in the memory, at the address \<open>tab\<close> of the functions below.\<close>

definition sctab_init :: "u8 list" where
  "sctab_init = replicate 9 0 @ [SPC, SPC] @ replicate 21 0 @ [SPC] @ replicate 95 0"

text \<open>A character of the format as an \<^verbatim>\<open>int\<close>, and the macros of \<^verbatim>\<open>ctype.h\<close> on it.\<close>

definition char_int :: "memory \<Rightarrow> addr \<Rightarrow> i32" where
  "char_int m p = scast (m p)"

definition isdigit :: "i32 \<Rightarrow> bool" where
  "isdigit c \<longleftrightarrow> 0x30 \<le> sint c \<and> sint c \<le> 0x39"

definition isupper :: "i32 \<Rightarrow> bool" where
  "isupper c \<longleftrightarrow> 0x41 \<le> sint c \<and> sint c \<le> 0x5A"

definition is_white :: "i32 \<Rightarrow> bool" where
  "is_white c \<longleftrightarrow> c = 0x20 \<or> c = 0x09 \<or> c = 0x0A"

partial_function (option) skip_white :: "'s scanner \<Rightarrow> memory \<Rightarrow> 's \<Rightarrow> (i32 \<times> 's) option" where
  "skip_white g m s = (let (c, s) = sc_getch g m s in if is_white c then skip_white g m s else Some (c, s))"

section \<open>Numbers\<close>

definition is_digit_of :: "i32 \<Rightarrow> i32 \<Rightarrow> bool" where
  "is_digit_of base c \<longleftrightarrow> isdigit c \<or>
     (base = 16 \<and> ((0x61 \<le> sint c \<and> sint c \<le> 0x66) \<or> (0x41 \<le> sint c \<and> sint c \<le> 0x46)))"

definition digit_value :: "i32 \<Rightarrow> i32" where
  "digit_value c =
     (if 0x30 \<le> sint c \<and> sint c \<le> 0x39 then c - 0x30
      else if 0x61 \<le> sint c \<and> sint c \<le> 0x66 then c - (0x61 - 10) else c - (0x41 - 10))"

definition add_digit :: "i32 \<Rightarrow> i32 \<Rightarrow> i32 \<Rightarrow> i32" where
  "add_digit base lcval c =
     (if base = 8 then push_bit 3 lcval
      else if base = 10 then push_bit 1 (push_bit 2 lcval + lcval)
      else push_bit 4 lcval) + digit_value c"

text \<open>
  The loop over the digits, at most \<open>len\<close> of them. The characters are also kept in a local buffer of 64,
  of which \<open>np\<close> are in use; a store behind its end has no defined effect and the result is \<open>None\<close>.
\<close>

definition numbuf_size :: nat where "numbuf_size = 64"

fun innum_digits :: "'s scanner \<Rightarrow> memory \<Rightarrow> i32 \<Rightarrow> nat \<Rightarrow> i32 \<Rightarrow> 's \<Rightarrow> i32 \<Rightarrow> nat \<Rightarrow> (i32 \<times> 's \<times> i32 \<times> nat) option" where
  "innum_digits g m base 0 c s lcval np = Some (c, s, lcval, np)"
| "innum_digits g m base (Suc len) c s lcval np =
     (if is_digit_of base c then
        let lcval = add_digit base lcval c
        in if np < numbuf_size then
             let (c, s) = sc_getch g m s in innum_digits g m base len c s lcval (np + 1)
           else None
      else Some (c, s, lcval, np))"

section \<open>Strings\<close>

definition scan_class :: "memory \<Rightarrow> addr \<Rightarrow> i32 \<Rightarrow> u8" where
  "scan_class m tab c = m (tab + c)"

partial_function (option) instr_skip :: "'s scanner \<Rightarrow> addr \<Rightarrow> u8 \<Rightarrow> memory \<Rightarrow> 's \<Rightarrow> (i32 \<times> 's) option" where
  "instr_skip g tab ignstp m s =
     (let (ch, s) = sc_getch g m s
      in if scan_class m tab ch AND ignstp \<noteq> 0 \<and> ch \<noteq> EOF then instr_skip g tab ignstp m s else Some (ch, s))"

text \<open>The copying loop: \<open>len\<close> is the number of characters still wanted, and 0 when the last one was taken.\<close>

fun instr_take :: "'s scanner \<Rightarrow> addr \<Rightarrow> u8 \<Rightarrow> nat \<Rightarrow> i32 \<Rightarrow> 's \<Rightarrow> addr \<Rightarrow> memory \<Rightarrow> i32 \<times> 's \<times> addr \<times> memory \<times> nat" where
  "instr_take g tab ignstp len ch s ptr m =
     (if ch \<noteq> EOF \<and> scan_class m tab ch AND ignstp = 0 then
        let m = (if ptr \<noteq> 0 then m(ptr := ucast ch) else m);
            ptr = (if ptr \<noteq> 0 then ptr + 1 else ptr)
        in if len \<le> 1 then (ch, s, ptr, m, 0)
           else let (ch, s) = sc_getch g m s in instr_take g tab ignstp (len - 1) ch s ptr m
      else (ch, s, ptr, m, len))"

definition instr :: "'s scanner \<Rightarrow> addr \<Rightarrow> addr \<Rightarrow> i32 \<Rightarrow> i32 \<Rightarrow> memory \<Rightarrow> 's \<Rightarrow> (bool \<times> bool \<times> memory \<times> 's) option" where
  "instr g tab ptr type len m s = do {
     let optr = ptr;
     let len = (if type = 0x63 \<and> len = 30000 then 1 else len);
     (ch, s) \<leftarrow> instr_skip g tab (if type = 0x73 then SPC else 0) m s;
     let ignstp = (if type = 0x63 then 0 else if type = 0x5B then STP else SPC);
     let (ch, s, ptr, m, len) = instr_take g tab ignstp (nat (sint len)) ch s ptr m;
     let (s, ended) = (if ch \<noteq> EOF then (if 0 < len then sc_ungetch g m s else s, False) else (s, True));
     if ptr \<noteq> 0 \<and> ptr \<noteq> optr then
       let m = (if type \<noteq> 0x63 then m(ptr := 0) else m)
       in Some (True, ended, m, s)
     else Some (False, ended, m, s)
   }"

text \<open>The set of a bracket directive. The table is indexed with signed characters.\<close>

definition set_class :: "bool \<Rightarrow> addr \<Rightarrow> i32 \<Rightarrow> memory \<Rightarrow> memory" where
  "set_class stp tab c m = m(tab + c := (if stp then m (tab + c) OR STP else m (tab + c) AND NOT STP))"

partial_function (option) getccl_loop :: "bool \<Rightarrow> addr \<Rightarrow> addr \<Rightarrow> memory \<Rightarrow> (addr \<times> memory) option" where
  "getccl_loop t tab s m =
     (let c = char_int m s; s = s + 1
      in if c AND 0x7F \<noteq> 0x5D then
           let m = set_class t tab c m; c = c + 1
           in if c = 0 then Some (s - 1, m) else getccl_loop t tab s m
         else Some (s, m))"

definition getccl :: "addr \<Rightarrow> addr \<Rightarrow> memory \<Rightarrow> (addr \<times> memory) option" where
  "getccl tab s m =
     (let t = (m s = 0x5E);
          s = (if t then s + 1 else s);
          m = fold (\<lambda>c. set_class (\<not> t) tab (of_nat c)) [0..<128] m
      in getccl_loop t tab s m)"

section \<open>Directives\<close>

text \<open>Numbers and strings: whether something was stored, whether the input ended, the memory and the source.\<close>

definition store_num :: "num_size \<Rightarrow> addr \<Rightarrow> i32 \<Rightarrow> memory \<Rightarrow> memory" where
  "store_num sz p v m = (case sz of SHORT \<Rightarrow> store16 m p (ucast v) | REGULAR \<Rightarrow> store32 m p v | LONG \<Rightarrow> store32 m p v)"

definition innum :: "'s scanner \<Rightarrow> addr \<Rightarrow> addr \<Rightarrow> i32 \<Rightarrow> i32 \<Rightarrow> num_size \<Rightarrow> memory \<Rightarrow> 's \<Rightarrow> (bool \<times> bool \<times> memory \<times> 's) option" where
  "innum g tab ptr type len sz m s =
     (if type = 0x63 \<or> type = 0x73 \<or> type = 0x5B
      then instr g tab (if ptr \<noteq> 0 then load32 m ptr else 0) type len m s
      else do {
        let base = (if type = 0x6F then 8 else if type = 0x78 then 16 else 10);
        (c, s) \<leftarrow> skip_white g m s;
        let negflg = (c = 0x2D);
        let np = (if c = 0x2D then 1 else 0);
        let len = (if c = 0x2D \<or> c = 0x2B then len - 1 else len);
        let (c, s) = (if c = 0x2D \<or> c = 0x2B then sc_getch g m s else (c, s));
        (c, s, lcval, np) \<leftarrow> innum_digits g m base (nat (sint len)) c s 0 np;
        let lcval = (if negflg then - lcval else lcval);
        let (s, ended) = (if c \<noteq> EOF then (sc_ungetch g m s, False) else (s, True));
        if ptr = 0 \<or> np = 0 then Some (False, ended, m, s)
        else if np < numbuf_size then Some (True, ended, store_num sz (load32 m ptr) lcval m, s)
        else None
      })"

record 's scan_vars =
  sv_fmt :: addr
  sv_argp :: addr
  sv_nmatch :: i32
  sv_mem :: memory
  sv_src :: 's

partial_function (option) scan_width :: "memory \<Rightarrow> addr \<Rightarrow> i32 \<Rightarrow> i32 \<Rightarrow> (i32 \<times> addr \<times> i32) option" where
  "scan_width m fmt ch len =
     (if isdigit ch then scan_width m (fmt + 1) (char_int m fmt) (len * 10 + ch - 0x30) else Some (ch, fmt, len))"

text \<open>A step of \<^verbatim>\<open>_doscan\<close> returns (\<open>Inl\<close>, with the result) or goes on (\<open>Inr\<close>).\<close>

type_synonym 's scan_result = "(i32 \<times> 's scan_vars) + 's scan_vars"

definition scan_directive :: "'s scanner \<Rightarrow> addr \<Rightarrow> i32 \<Rightarrow> 's scan_vars \<Rightarrow> 's scan_result option" where
  "scan_directive g tab ch v = do {
     let m = sv_mem v;
     let (ptr, argp, ch, fmt) = (if ch \<noteq> 0x2A then (sv_argp v, sv_argp v + 4, ch, sv_fmt v)
       else (0, sv_argp v, char_int m (sv_fmt v), sv_fmt v + 1));
     (ch, fmt, len) \<leftarrow> scan_width m fmt ch 0;
     let len = (if len = 0 then 30000 else len);
     (sz, ch, fmt, m) \<leftarrow>
       (if ch = 0x6C then Some (LONG, char_int m fmt, fmt + 1, m)
        else if ch = 0x68 then Some (SHORT, char_int m fmt, fmt + 1, m)
        else if ch = 0x5B then map_option (\<lambda>(fmt, m). (REGULAR, ch, fmt, m)) (getccl tab fmt m)
        else Some (REGULAR, ch, fmt, m));
     let (ch, sz) = (if isupper ch then (ch + 0x20, LONG) else (ch, sz));
     let v = v\<lparr>sv_fmt := fmt, sv_argp := argp, sv_mem := m\<rparr>;
     if ch = 0 then Some (Inl (- 1, v))
     else do {
       (ok, ended, m, s) \<leftarrow> innum g tab ptr ch len sz m (sv_src v);
       let nmatch = (if ok \<and> ptr \<noteq> 0 then sv_nmatch v + 1 else sv_nmatch v);
       let v = v\<lparr>sv_nmatch := nmatch, sv_mem := m, sv_src := s\<rparr>;
       Some (if ended then Inl (if nmatch \<noteq> 0 then nmatch else - 1, v) else Inr v)
     }
   }"

definition scan_blanks :: "'s scanner \<Rightarrow> 's scan_vars \<Rightarrow> 's scan_result option" where
  "scan_blanks g v = do {
     (ch1, s) \<leftarrow> skip_white g (sv_mem v) (sv_src v);
     Some (Inr (v\<lparr>sv_src := (if ch1 \<noteq> EOF then sc_ungetch g (sv_mem v) s else s)\<rparr>))
   }"

definition scan_literal :: "'s scanner \<Rightarrow> i32 \<Rightarrow> 's scan_vars \<Rightarrow> 's scan_result option" where
  "scan_literal g ch v =
     (let (ch1, s) = sc_getch g (sv_mem v) (sv_src v)
      in Some (if ch1 \<noteq> ch then
           if ch1 = EOF then Inl (- 1, v\<lparr>sv_src := s\<rparr>)
           else Inl (sv_nmatch v, v\<lparr>sv_src := sc_ungetch g (sv_mem v) s\<rparr>)
         else Inr (v\<lparr>sv_src := s\<rparr>)))"

definition scan_step :: "'s scanner \<Rightarrow> addr \<Rightarrow> 's scan_vars \<Rightarrow> 's scan_result option" where
  "scan_step g tab v =
     (let ch = char_int (sv_mem v) (sv_fmt v); v = v\<lparr>sv_fmt := sv_fmt v + 1\<rparr>
      in if ch = 0 then Some (Inl (sv_nmatch v, v))
         else if ch = 0x25 then
           let ch = char_int (sv_mem v) (sv_fmt v); v = v\<lparr>sv_fmt := sv_fmt v + 1\<rparr>
           in if ch = 0x25 then scan_literal g ch v else scan_directive g tab ch v
         else if is_white ch then scan_blanks g v
         else scan_literal g ch v)"

partial_function (option) scan_loop :: "'s scanner \<Rightarrow> addr \<Rightarrow> 's scan_vars \<Rightarrow> (i32 \<times> 's scan_vars) option" where
  "scan_loop g tab v = do {
     r \<leftarrow> scan_step g tab v;
     (case r of Inl x \<Rightarrow> Some x | Inr v \<Rightarrow> scan_loop g tab v)
   }"

definition doscan :: "'s scanner \<Rightarrow> addr \<Rightarrow> addr \<Rightarrow> addr \<Rightarrow> 's \<Rightarrow> memory \<Rightarrow> (i32 \<times> memory \<times> 's) option" where
  "doscan g tab fmt argp s m =
     map_option (\<lambda>(r, v). (r, sv_mem v, sv_src v))
       (scan_loop g tab \<lparr>sv_fmt = fmt, sv_argp = argp, sv_nmatch = 0, sv_mem = m, sv_src = s\<rparr>)"

section \<open>scanf.c\<close>

text \<open>
  Reading a string; the source is the pointer \<^verbatim>\<open>s\<close> of \<^verbatim>\<open>sscanf\<close>. \<^verbatim>\<open>scanf.c\<close> has its \<^verbatim>\<open>EOF\<close> from
  \<^verbatim>\<open>xeroskernel.h\<close>, where it is -2 and not the -1 of \<^verbatim>\<open>doscan.c\<close>.
\<close>

definition EOF_kernel :: i32 where "EOF_kernel = - 2"
definition EMPTY :: i32 where "EMPTY = - 1"

definition sgetch :: "memory \<Rightarrow> addr \<Rightarrow> i32 \<times> addr" where
  "sgetch m p = (if m p = 0 then (EOF_kernel, p) else (scast (m p), p + 1))"

definition sungetch :: "memory \<Rightarrow> addr \<Rightarrow> addr" where
  "sungetch m p = p - 1"

definition sscanf :: "addr \<Rightarrow> addr \<Rightarrow> addr \<Rightarrow> addr \<Rightarrow> memory \<Rightarrow> (i32 \<times> memory) option" where
  "sscanf tab str fmt args m =
     map_option (\<lambda>(r, m, s). (r, m)) (doscan \<lparr>sc_getch = sgetch, sc_ungetch = sungetch\<rparr> tab fmt args str m)"

text \<open>
  Reading a device with the functions \<^verbatim>\<open>getc\<close> and \<^verbatim>\<open>control\<close>, which the sources declare and do not
  define. The source is the buffer and the state of the devices.
\<close>

record 'd device_calls =
  dev_getc :: "i32 \<Rightarrow> 'd \<Rightarrow> i32 \<times> 'd"
  dev_control :: "i32 \<Rightarrow> i32 \<Rightarrow> 'd \<Rightarrow> i32 \<times> 'd"

definition CONSOLE :: i32 where "CONSOLE = 0"
definition TTC_NEXTC :: i32 where "TTC_NEXTC = 5"

definition getch :: "'d device_calls \<Rightarrow> i32 \<Rightarrow> memory \<Rightarrow> i32 \<times> 'd \<Rightarrow> i32 \<times> (i32 \<times> 'd)" where
  "getch calls dev m s =
     (let (buf, d) = s;
          (buf, d) = (if buf \<noteq> EOF_kernel \<and> buf \<noteq> EMPTY then dev_getc calls dev d else (buf, d));
          (buf, d) = (if buf \<noteq> EOF_kernel then dev_control calls dev TTC_NEXTC d else (buf, d))
      in (buf, (buf, d)))"

definition ungetch :: "memory \<Rightarrow> i32 \<times> 'd \<Rightarrow> i32 \<times> 'd" where
  "ungetch m s = (EMPTY, snd s)"

definition fscanf :: "'d device_calls \<Rightarrow> addr \<Rightarrow> i32 \<Rightarrow> addr \<Rightarrow> addr \<Rightarrow> 'd \<Rightarrow> memory \<Rightarrow> (i32 \<times> memory \<times> 'd) option" where
  "fscanf calls tab dev fmt args d m =
     map_option (\<lambda>(r, m, (buf, d)). (r, m, d))
       (doscan \<lparr>sc_getch = getch calls dev, sc_ungetch = ungetch\<rparr> tab fmt args (EMPTY, d) m)"

definition scanf :: "'d device_calls \<Rightarrow> addr \<Rightarrow> addr \<Rightarrow> addr \<Rightarrow> 'd \<Rightarrow> memory \<Rightarrow> (i32 \<times> memory \<times> 'd) option" where
  "scanf calls tab fmt args d m = fscanf calls tab CONSOLE fmt args d m"

end
