(* ===== verification/Scan_Properties.thy ===== *)
theory Scan_Properties
  imports Lib_Scan Shell_Properties
begin

text \<open>
  What \<^verbatim>\<open>_doscan\<close> relies on as a locale, interpreted on the strings of \<^verbatim>\<open>sscanf\<close>; the numbers that
  \<^verbatim>\<open>%d\<close> reads, and what happens at the end of a string and with long numbers.
\<close>

unbundle bit_operations_syntax

section \<open>Sources of characters\<close>

text \<open>
  What \<^verbatim>\<open>_doscan\<close> relies on: the source holds a list of characters, \<^verbatim>\<open>getch\<close> takes the first one, \<^verbatim>\<open>ungetch\<close>
  after it gives it back, and at the end \<^verbatim>\<open>getch\<close> returns the same value again and again, which no loop of
  \<^verbatim>\<open>_innum\<close> takes for a part of a number.
\<close>

locale char_source =
  fixes g :: "'s scanner" and rest :: "memory \<Rightarrow> 's \<Rightarrow> i32 list \<Rightarrow> bool" and stop :: i32
  assumes getch_some: "rest m s (c # cs) \<Longrightarrow> \<exists>s'. sc_getch g m s = (c, s') \<and> rest m s' cs \<and> rest m (sc_ungetch g m s') (c # cs)"
    and getch_end: "rest m s [] \<Longrightarrow> \<exists>s'. sc_getch g m s = (stop, s') \<and> rest m s' []"
    and stop: "\<not> is_white stop" "\<not> isdigit stop"

text \<open>The state after \<open>c\<close> was taken from a source that held \<open>xs\<close>.\<close>

definition taken :: "'s scanner \<Rightarrow> (memory \<Rightarrow> 's \<Rightarrow> i32 list \<Rightarrow> bool) \<Rightarrow> i32 \<Rightarrow> memory \<Rightarrow> i32 list \<Rightarrow> i32 \<Rightarrow> 's \<Rightarrow> bool" where
  "taken g rest stop m xs c s \<longleftrightarrow>
     (case xs of [] \<Rightarrow> c = stop \<and> rest m s [] | x # ys \<Rightarrow> c = x \<and> rest m s ys \<and> rest m (sc_ungetch g m s) xs)"

text \<open>The number that a list of digits denotes, modulo the word.\<close>

definition number :: "i32 list \<Rightarrow> i32" where
  "number ds = foldl (\<lambda>n c. n * 10 + c - 0x30) 0 ds"

lemma add_digit_10: "isdigit c \<Longrightarrow> add_digit 10 n c = n * 10 + c - 0x30"
proof -
  have "push_bit 1 (push_bit 2 n + n) = n * 10" by (simp add: push_bit_eq_mult algebra_simps)
  then show "isdigit c \<Longrightarrow> ?thesis" by (simp add: add_digit_def digit_value_def isdigit_def)
qed

lemma digit_not_special: "isdigit c \<Longrightarrow> \<not> is_white c \<and> c \<noteq> 0x2D \<and> c \<noteq> 0x2B"
  by (auto simp: isdigit_def is_white_def)

context char_source begin

lemma getch_taken: "rest m s xs \<Longrightarrow> \<exists>c s'. sc_getch g m s = (c, s') \<and> taken g rest stop m xs c s'"
  by (cases xs) (use getch_some getch_end in \<open>fastforce simp: taken_def\<close>)+

lemma skip_white_taken:
  "rest m s (ws @ xs) \<Longrightarrow> \<forall>w\<in>set ws. is_white w \<Longrightarrow> xs = [] \<or> \<not> is_white (hd xs) \<Longrightarrow>
    \<exists>c s'. skip_white g m s = Some (c, s') \<and> taken g rest stop m xs c s'"
proof (induction ws arbitrary: s)
  case Nil
  then obtain c s' where t: "sc_getch g m s = (c, s')" "taken g rest stop m xs c s'" using getch_taken [of m s xs] by auto
  then have "\<not> is_white c" using Nil.prems(3) stop(1) by (auto simp: taken_def split: list.splits)
  then show ?case using t by (subst skip_white.simps) simp
next
  case (Cons w ws)
  then obtain s' where "sc_getch g m s = (w, s')" "rest m s' (ws @ xs)" using getch_some by fastforce
  then show ?case using Cons.IH [of s'] Cons.prems by (subst skip_white.simps) simp
qed

lemma digits_taken:
  "taken g rest stop m (ds @ xs) c s \<Longrightarrow> \<forall>d\<in>set ds. isdigit d \<Longrightarrow> xs = [] \<or> \<not> isdigit (hd xs) \<Longrightarrow>
    length ds \<le> n \<Longrightarrow> np + length ds \<le> numbuf_size \<Longrightarrow>
    \<exists>c' s'. innum_digits g m 10 n c s v np = Some (c', s', foldl (\<lambda>n c. n * 10 + c - 0x30) v ds, np + length ds) \<and> taken g rest stop m xs c' s'"
proof (induction ds arbitrary: c s n v np)
  case Nil
  then have "\<not> isdigit c" using stop(2) by (auto simp: taken_def split: list.splits)
  then have "\<not> is_digit_of 10 c" by (simp add: is_digit_of_def)
  then show ?case using Nil.prems by (cases n) auto
next
  case (Cons d ds)
  then have "rest m s (ds @ xs)" and d: "c = d" "isdigit d" by (auto simp: taken_def)
  then obtain c' s' where t: "sc_getch g m s = (c', s')" "taken g rest stop m (ds @ xs) c' s'" using getch_taken by blast
  obtain k where n: "n = Suc k" using Cons.prems(4) by (cases n) auto
  have "is_digit_of 10 c" using d by (simp add: is_digit_of_def)
  then show ?case using Cons.IH [OF t(2), of k "Suc np"] Cons.prems d t(1) n by (auto simp: add_digit_10)
qed

text \<open>Too many digits for the buffer.\<close>

lemma digits_overflow:
  "taken g rest stop m (ds @ xs) c s \<Longrightarrow> \<forall>d\<in>set ds. isdigit d \<Longrightarrow> numbuf_size < np + length ds \<Longrightarrow>
    length ds \<le> n \<Longrightarrow> np \<le> numbuf_size \<Longrightarrow> innum_digits g m 10 n c s v np = None"
proof (induction ds arbitrary: c s n v np)
  case (Cons d ds)
  then have "rest m s (ds @ xs)" and d: "c = d" "isdigit d" by (auto simp: taken_def)
  then obtain c' s' where t: "sc_getch g m s = (c', s')" "taken g rest stop m (ds @ xs) c' s'" using getch_taken by blast
  obtain k where n: "n = Suc k" using Cons.prems(4) by (cases n) auto
  have "is_digit_of 10 c" using d by (simp add: is_digit_of_def)
  then show ?case using Cons.IH [OF t(2), of "Suc np" k] Cons.prems d t(1) n by auto
qed simp

text \<open>A whole number: blanks, a sign or none, digits, and whatever follows.\<close>

lemma innum_taken:
  assumes "rest m s (ws @ sg @ ds @ xs)" "\<forall>w\<in>set ws. is_white w" "sg \<in> {[], [0x2D], [0x2B]}"
    and "ds \<noteq> []" "\<forall>d\<in>set ds. isdigit d" "xs = [] \<or> \<not> isdigit (hd xs)" "length ds < 63" "ptr \<noteq> 0"
  shows "\<exists>c s'. innum g tab ptr 0x64 30000 REGULAR m s =
      Some (True, c = EOF, store32 m (load32 m ptr) (if sg = [0x2D] then - number ds else number ds),
        if c \<noteq> EOF then sc_ungetch g m s' else s') \<and> taken g rest stop m xs c s'"
proof -
  have "hd (ds @ xs) \<in> set ds" using assms(4) by (cases ds) auto
  then have h: "isdigit (hd (ds @ xs))" using assms(5) by blast
  have w: "sg @ ds @ xs = [] \<or> \<not> is_white (hd (sg @ ds @ xs))"
    using assms(3) digit_not_special [OF h] by (auto simp: is_white_def)
  obtain c s1 where 1: "skip_white g m s = Some (c, s1)" "taken g rest stop m (sg @ ds @ xs) c s1"
    using skip_white_taken [OF assms(1,2) w] by blast
  have "\<exists>c' s2. (if sg \<noteq> [] then sc_getch g m s1 else (c, s1)) = (c', s2) \<and> taken g rest stop m (ds @ xs) c' s2"
  proof (cases "sg = []")
    case False
    then have "rest m s1 (ds @ xs)" using 1(2) assms(3) by (auto simp: taken_def)
    then show ?thesis using False getch_taken by auto
  qed (use 1 in auto)
  then obtain c' s2 where 2: "(if sg \<noteq> [] then sc_getch g m s1 else (c, s1)) = (c', s2)" "taken g rest stop m (ds @ xs) c' s2"
    by blast
  have sign: "c = 0x2D \<longleftrightarrow> sg = [0x2D]" "c = 0x2D \<or> c = 0x2B \<longleftrightarrow> sg \<noteq> []"
  proof -
    have "c = hd (sg @ ds @ xs)" using 1(2) assms(4) by (auto simp: taken_def split: list.splits)
    then show "c = 0x2D \<longleftrightarrow> sg = [0x2D]" "c = 0x2D \<or> c = 0x2B \<longleftrightarrow> sg \<noteq> []"
      using assms(3) digit_not_special [OF h] by auto
  qed
  define np where "np = (if sg = [0x2D] then 1 else 0 :: nat)"
  define n where "n = nat (sint (if sg \<noteq> [] then 30000 - 1 else 30000 :: i32))"
  have n: "length ds \<le> n" "np + length ds \<le> numbuf_size" "np + length ds < numbuf_size" "0 < np + length ds"
    using assms(4,7) by (simp_all add: n_def np_def numbuf_size_def)
  obtain c3 s3 where 3: "innum_digits g m 10 n c' s2 0 np = Some (c3, s3, number ds, np + length ds)" "taken g rest stop m xs c3 s3"
    using digits_taken [OF 2(2) assms(5,6) n(1,2)] unfolding number_def by blast
  have "innum g tab ptr 0x64 30000 REGULAR m s =
      Some (True, c3 = EOF, store32 m (load32 m ptr) (if sg = [0x2D] then - number ds else number ds), if c3 \<noteq> EOF then sc_ungetch g m s3 else s3)"
  proof (cases "sg = []")
    case True
    then have "\<not> (c = 0x2D)" "\<not> (c = 0x2B)" "c' = c" "s2 = s1" "n = nat (sint (30000 :: i32))" using sign 2(1) by (auto simp: n_def)
    then show ?thesis using 1(1) 3(1) assms(8) n(3,4) True by (simp add: innum_def np_def store_num_def)
  next
    case False
    then have "sc_getch g m s1 = (c', s2)" "c = 0x2D \<or> c = 0x2B" "n = nat (sint (30000 - 1 :: i32))" using sign 2(1) by (auto simp: n_def)
    then show ?thesis using 1(1) 3(1) assms(4,8) n(3,4) sign(1) by (simp add: innum_def np_def store_num_def)
  qed
  then show ?thesis using 3(2) by blast
qed

end

section \<open>Strings as sources\<close>

text \<open>The pointer is somewhere in a string that ends at \<open>e\<close>.\<close>

definition holds_string :: "addr \<Rightarrow> memory \<Rightarrow> addr \<Rightarrow> i32 list \<Rightarrow> bool" where
  "holds_string e m p cs \<longleftrightarrow> (\<exists>bs. cstring m p bs \<and> cs = map scast bs \<and> p + of_nat (length bs) = e)"

abbreviation string_scanner :: "addr scanner" where
  "string_scanner \<equiv> \<lparr>sc_getch = sgetch, sc_ungetch = sungetch\<rparr>"

interpretation string_source: char_source string_scanner "holds_string e" EOF_kernel for e
proof
  fix m p c cs
  assume "holds_string e m p (c # cs)"
  then obtain b bs where "cstring m p (b # bs)" "c = scast b" "cs = map scast bs" "p + 1 + of_nat (length bs) = e"
    by (auto simp: holds_string_def Cons_eq_map_conv add.assoc)
  then show "\<exists>s'. sc_getch string_scanner m p = (c, s') \<and> holds_string e m s' cs \<and> holds_string e m (sc_ungetch string_scanner m s') (c # cs)"
    unfolding holds_string_def
    by (intro exI [of _ "p + 1"]) (auto simp: sgetch_def sungetch_def add.assoc intro: exI [of _ "b # bs"])
qed (auto simp: holds_string_def sgetch_def EOF_kernel_def is_white_def isdigit_def)

lemma sint_scast [simp]: "sint (scast c :: i32) = sint c" for c :: u8
  using sint_greater_eq [of c] sint_less [of c] by (simp add: signed_scast_eq signed_take_bit_int_eq_self)

lemma isdigit_scast [simp]: "isdigit (scast c) \<longleftrightarrow> is_digit c"
  by (simp add: isdigit_def is_digit_def)

lemma number_scast: "number (map scast ds) = foldl (\<lambda>n c. n * 10 + scast c - 0x30) 0 ds"
  by (simp add: number_def foldl_map)

text \<open>One directive \<^verbatim>\<open>%d\<close>.\<close>

lemma scan_step_d:
  assumes "sv_mem v (sv_fmt v) = 0x25" "sv_mem v (sv_fmt v + 1) = 0x64" "sv_argp v \<noteq> 0" "sv_nmatch v + 1 \<noteq> 0"
    and "cstring (sv_mem v) (sv_src v) (ws @ sg @ ds @ xs)" "sv_src v + of_nat (length (ws @ sg @ ds @ xs)) = e"
    and "set ws \<subseteq> {0x20, 0x09, 0x0A}" "sg \<in> {[], [0x2D], [0x2B]}"
    and "ds \<noteq> []" "\<forall>d\<in>set ds. is_digit d" "xs = [] \<or> \<not> is_digit (hd xs)" "length ds < 63"
  shows "\<exists>c s'. taken string_scanner (holds_string e) EOF_kernel (sv_mem v) (map scast xs) c s' \<and>
    scan_step string_scanner tab v = Some ((if c = EOF then Inl \<circ> (\<lambda>v. (sv_nmatch v, v)) else Inr)
      (v\<lparr>sv_fmt := sv_fmt v + 2, sv_argp := sv_argp v + 4, sv_nmatch := sv_nmatch v + 1,
        sv_mem := store32 (sv_mem v) (load32 (sv_mem v) (sv_argp v)) (if sg = [0x2D] then - number (map scast ds) else number (map scast ds)),
        sv_src := (if c = EOF then s' else s' - 1)\<rparr>))"
proof -
  let ?m = "sv_mem v"
  have h: "holds_string e ?m (sv_src v) (map scast ws @ map scast sg @ map scast ds @ map scast xs)"
    using assms(5,6) unfolding holds_string_def by (metis map_append)
  have ws: "\<forall>w\<in>set (map scast ws). is_white w" using assms(7) by (auto simp: is_white_def)
  have sg: "map scast sg \<in> {[], [0x2D], [0x2B :: i32]}" "map scast sg = [0x2D :: i32] \<longleftrightarrow> sg = [0x2D]" using assms(8) by auto
  have ds: "map scast ds \<noteq> ([] :: i32 list)" "\<forall>d\<in>set (map scast ds). isdigit d" "length (map scast ds :: i32 list) < 63"
    using assms(9,10,12) by auto
  have xs: "map scast xs = [] \<or> \<not> isdigit (hd (map scast xs))" using assms(11) by (cases xs) auto
  obtain c s' where *: "innum string_scanner tab (sv_argp v) 0x64 30000 REGULAR ?m (sv_src v) =
      Some (True, c = EOF, store32 ?m (load32 ?m (sv_argp v)) (if sg = [0x2D] then - number (map scast ds) else number (map scast ds)),
        if c \<noteq> EOF then sc_ungetch string_scanner ?m s' else s')" "taken string_scanner (holds_string e) EOF_kernel ?m (map scast xs) c s'"
    using string_source.innum_taken [OF h ws sg(1) ds(1,2) xs ds(3) assms(3)] unfolding sg(2) by blast
  have w: "scan_width ?m (sv_fmt v + 2) 0x64 0 = Some (0x64, sv_fmt v + 2, 0)"
    by (subst scan_width.simps) (simp add: isdigit_def)
  show ?thesis
  proof (rule exI [of _ c], rule exI [of _ s'], rule conjI [OF *(2)])
    show "scan_step string_scanner tab v = Some ((if c = EOF then Inl \<circ> (\<lambda>v. (sv_nmatch v, v)) else Inr)
      (v\<lparr>sv_fmt := sv_fmt v + 2, sv_argp := sv_argp v + 4, sv_nmatch := sv_nmatch v + 1,
        sv_mem := store32 ?m (load32 ?m (sv_argp v)) (if sg = [0x2D] then - number (map scast ds) else number (map scast ds)),
        sv_src := (if c = EOF then s' else s' - 1)\<rparr>))"
      using *(1) by (simp add: Let_def sungetch_def scan_step_def scan_directive_def char_int_def assms(1-4) w isupper_def add.assoc)
  qed
qed

lemma scan_step_end: "sv_mem v (sv_fmt v) = 0 \<Longrightarrow> scan_step g tab v = Some (Inl (sv_nmatch v, v\<lparr>sv_fmt := sv_fmt v + 1\<rparr>))"
  by (simp add: scan_step_def char_int_def)

section \<open>Numbers with sscanf\<close>

lemma atoi_digits_prefix:
  "cstring m p (ds @ xs) \<Longrightarrow> \<forall>c\<in>set ds. is_digit c \<Longrightarrow> xs = [] \<or> \<not> is_digit (hd xs) \<Longrightarrow>
   atoi_digits m p n = Some (foldl (\<lambda>n c. n * 10 + scast c - 0x30) n ds)"
proof (induction ds arbitrary: p n)
  case Nil
  then have "\<not> is_digit (m p)" by (cases xs) (auto simp: is_digit_def)
  then show ?case by (subst atoi_digits.simps) simp
next
  case (Cons c ds)
  then show ?case by (subst atoi_digits.simps) simp
qed

lemma skip_blanks_prefix:
  "cstring m p (ws @ xs) \<Longrightarrow> set ws \<subseteq> {0x20, 0x09} \<Longrightarrow> xs \<noteq> [] \<Longrightarrow> hd xs \<notin> {0x20, 0x09} \<Longrightarrow>
   skip_blanks m p = Some (p + of_nat (length ws)) \<and> cstring m (p + of_nat (length ws)) xs"
proof (induction ws arbitrary: p)
  case Nil
  then have "m p = hd xs" by (cases xs) auto
  then show ?case using Nil by (subst skip_blanks.simps) simp
next
  case (Cons w ws)
  have "skip_blanks m (p + 1) = Some (p + 1 + of_nat (length ws)) \<and> cstring m (p + 1 + of_nat (length ws)) xs"
    by (rule Cons.IH) (use Cons.prems in auto)
  moreover have "m p \<in> {0x20, 0x09}" using Cons.prems(1,2) by auto
  ultimately show ?case by (subst skip_blanks.simps) (auto simp: add.assoc)
qed

lemma atoi_number:
  assumes "cstring m p (ws @ sg @ ds @ xs)" "set ws \<subseteq> {0x20, 0x09}" "sg \<in> {[], [0x2D], [0x2B]}"
    and "ds \<noteq> []" "\<forall>d\<in>set ds. is_digit d" "xs = [] \<or> \<not> is_digit (hd xs)"
  shows "atoi m p = Some (if sg = [0x2D] then - number (map scast ds) else number (map scast ds))"
proof -
  have "is_digit (hd (ds @ xs))" using assms(4,5) by (cases ds) auto
  then have h: "hd (ds @ xs) \<notin> {0x20, 0x09, 0x2D, 0x2B}" by (auto simp: is_digit_def)
  let ?q = "p + of_nat (length ws)"
  have w: "skip_blanks m p = Some ?q" "cstring m ?q (sg @ ds @ xs)"
    using skip_blanks_prefix [OF assms(1,2)] assms(3,4) h by (auto simp: neq_Nil_conv)
  note D = atoi_digits_prefix [OF _ assms(5,6), of m _ 0]
  show ?thesis
  proof (cases "sg = []")
    case True
    then have "cstring m ?q (ds @ xs)" "m ?q \<notin> {0x2D, 0x2B}" using w(2) h assms(4) by (auto simp: neq_Nil_conv)
    then show ?thesis using w(1) D True by (simp add: atoi_def number_scast)
  next
    case False
    then have "cstring m (?q + 1) (ds @ xs)" "m ?q = hd sg" using w(2) assms(3) by auto
    then show ?thesis using w(1) D False assms(3) by (auto simp: atoi_def number_scast)
  qed
qed

text \<open>C27. On a string that starts with a number (blanks, a sign or none, at most 62 digits, and then anything else),
  \<^verbatim>\<open>sscanf\<close> with \<^verbatim>\<open>%d\<close> returns 1 and stores what \<^verbatim>\<open>atoi\<close> returns, modulo the word in both.\<close>

theorem sscanf_agrees_with_atoi:
  assumes "cstring m fmt [0x25, 0x64]" "cstring m str (ws @ sg @ ds @ xs)" "set ws \<subseteq> {0x20, 0x09}" "sg \<in> {[], [0x2D], [0x2B]}"
    and "ds \<noteq> []" "\<forall>d\<in>set ds. is_digit d" "xs = [] \<or> \<not> is_digit (hd xs)" "length ds < 63"
    and "args \<noteq> 0" "4 \<le> unat (fmt + 2 - load32 m args)"
  shows "\<exists>n. atoi m str = Some n \<and> sscanf tab str fmt args m = Some (1, store32 m (load32 m args) n)"
proof -
  let ?v = "\<lparr>sv_fmt = fmt, sv_argp = args, sv_nmatch = 0, sv_mem = m, sv_src = str\<rparr>"
  let ?n = "if sg = [0x2D] then - number (map scast ds) else number (map scast ds)"
  have f: "m fmt = 0x25" "m (fmt + 1) = 0x64" "m (fmt + 2) = 0" using assms(1) by (simp_all add: add.assoc)
  have ws: "set ws \<subseteq> {0x20, 0x09, 0x0A}" using assms(3) by auto
  obtain c s' where s: "scan_step string_scanner tab ?v = Some ((if c = EOF then Inl \<circ> (\<lambda>v. (sv_nmatch v, v)) else Inr)
      (?v\<lparr>sv_fmt := fmt + 2, sv_argp := args + 4, sv_nmatch := 1, sv_mem := store32 m (load32 m args) ?n,
        sv_src := (if c = EOF then s' else s' - 1)\<rparr>))"
    using scan_step_d [of ?v ws sg ds xs _ tab, OF _ _ _ _ _ refl ws assms(4-8)] f assms(2,9) by auto
  define M where "M = store32 m (load32 m args) ?n"
  have z: "M (fmt + 2) = 0" using store32_far [OF assms(10)] f(3) by (simp add: M_def)
  have e: "scan_loop string_scanner tab v = Some (sv_nmatch v, v\<lparr>sv_fmt := sv_fmt v + 1\<rparr>)" if "sv_mem v (sv_fmt v) = 0" for v
    using scan_step_end [of v string_scanner tab] that by (subst scan_loop.simps) simp
  have "\<exists>r. scan_loop string_scanner tab ?v = Some (1, r) \<and> sv_mem r = M"
    using s [folded M_def] by (subst scan_loop.simps) (auto simp: e z)
  then have "sscanf tab str fmt args m = Some (1, store32 m (load32 m args) ?n)" by (auto simp: sscanf_def doscan_def M_def)
  then show ?thesis using atoi_number [OF assms(2-7)] by blast
qed

theorem sscanf_agrees_with_atoi_witness:
  "\<exists>n. atoi ((\<lambda>_. 0)(0x1000 := 0x25, 0x1001 := 0x64, 0x2001 := 0x30, 0x3000 := 0x20, 0x3001 := 0x2D, 0x3002 := 0x34, 0x3003 := 0x32)) 0x3000 = Some n \<and>
     sscanf 0x5000 0x3000 0x1000 0x2000
       ((\<lambda>_. 0)(0x1000 := 0x25, 0x1001 := 0x64, 0x2001 := 0x30, 0x3000 := 0x20, 0x3001 := 0x2D, 0x3002 := 0x34, 0x3003 := 0x32)) =
     Some (1, store32 ((\<lambda>_. 0)(0x1000 := 0x25, 0x1001 := 0x64, 0x2001 := 0x30, 0x3000 := 0x20, 0x3001 := 0x2D, 0x3002 := 0x34, 0x3003 := 0x32)) 0x3000 n)"
proof -
  let ?m = "(\<lambda>_. 0)(0x1000 := 0x25, 0x1001 := 0x64, 0x2001 := 0x30, 0x3000 := 0x20, 0x3001 := 0x2D, 0x3002 := 0x34, 0x3003 := 0x32) :: memory"
  have "load32 ?m 0x2000 = 0x3000" by (simp add: load32_def)
  then show ?thesis
    using sscanf_agrees_with_atoi [of ?m "0x1000" "0x3000" "[0x20]" "[0x2D]" "[0x34, 0x32]" "[]" "0x2000" "0x5000"]
    by (simp add: is_digit_def)
qed

text \<open>With the end of the string after the digits, the source is left at the last of them.\<close>

lemma scan_step_d_end:
  assumes "sv_mem v (sv_fmt v) = 0x25" "sv_mem v (sv_fmt v + 1) = 0x64" "sv_argp v \<noteq> 0" "sv_nmatch v + 1 \<noteq> 0"
    and "cstring (sv_mem v) (sv_src v) ds" "ds \<noteq> []" "\<forall>d\<in>set ds. is_digit d" "length ds < 63"
  shows "scan_step string_scanner tab v = Some (Inr (v\<lparr>sv_fmt := sv_fmt v + 2, sv_argp := sv_argp v + 4, sv_nmatch := sv_nmatch v + 1,
      sv_mem := store32 (sv_mem v) (load32 (sv_mem v) (sv_argp v)) (number (map scast ds)),
      sv_src := sv_src v + of_nat (length ds) - 1\<rparr>))"
proof -
  let ?e = "sv_src v + of_nat (length ([] @ [] @ ds @ []))"
  have src: "cstring (sv_mem v) (sv_src v) ([] @ [] @ ds @ [])" using assms(5) by simp
  have triv: "set [] \<subseteq> {0x20, 0x09, 0x0A :: u8}" "[] \<in> {[], [0x2D], [0x2B :: u8]}" "[] = [] \<or> \<not> is_digit (hd [])" by simp_all
  obtain c s' where t: "taken string_scanner (holds_string ?e) EOF_kernel (sv_mem v) (map scast ([] :: u8 list)) c s'"
    and s: "scan_step string_scanner tab v = Some ((if c = EOF then Inl \<circ> (\<lambda>v. (sv_nmatch v, v)) else Inr)
      (v\<lparr>sv_fmt := sv_fmt v + 2, sv_argp := sv_argp v + 4, sv_nmatch := sv_nmatch v + 1,
        sv_mem := store32 (sv_mem v) (load32 (sv_mem v) (sv_argp v)) (if [] = [0x2D :: u8] then - number (map scast ds) else number (map scast ds)),
        sv_src := (if c = EOF then s' else s' - 1)\<rparr>))"
    using scan_step_d [OF assms(1-4) src refl triv(1,2) assms(6,7) triv(3) assms(8), of tab] by blast
  have "c \<noteq> EOF" "s' = sv_src v + of_nat (length ds)"
    using t by (simp_all add: taken_def holds_string_def EOF_kernel_def EOF_def)
  with s show ?thesis by simp
qed

text \<open>C38. At the end of a string \<^verbatim>\<open>sgetch\<close> returns -2, which \<^verbatim>\<open>_doscan\<close> does not take for the end of the input, and the
  \<^verbatim>\<open>ungetch\<close> that follows steps back over a character that was used: with \<^verbatim>\<open>%d%d\<close> on a string of digits alone,
  \<^verbatim>\<open>sscanf\<close> returns 2 and the second number is the last digit of the first.\<close>

theorem sscanf_rereads_last_digit:
  assumes "cstring m fmt [0x25, 0x64, 0x25, 0x64]" "cstring m str (ds @ [d])" "\<forall>c\<in>set (ds @ [d]). is_digit c" "length ds < 62"
    and "args \<noteq> 0" "args + 4 \<noteq> 0" "load32 m args = p" "load32 m (args + 4) = q"
    and "far p 4 fmt 5" "far q 4 fmt 5" "far p 4 str (length ds + 2)" "far p 4 (args + 4) 4"
  shows "sscanf tab str fmt args m = Some (2, store32 (store32 m p (number (map scast (ds @ [d])))) q (scast d - 0x30))"
proof -
  let ?v = "\<lparr>sv_fmt = fmt, sv_argp = args, sv_nmatch = 0, sv_mem = m, sv_src = str\<rparr>"
  let ?e = "str + of_nat (length (ds @ [d]))"
  define M where "M = store32 m p (number (map scast (ds @ [d])))"
  have f: "m fmt = 0x25" "m (fmt + 1) = 0x64" "m (fmt + 2) = 0x25" "m (fmt + 3) = 0x64" "m (fmt + 4) = 0"
    using assms(1) by (simp_all add: add.assoc)
  have apart: "store32 m' a v (fmt + of_nat i) = m' (fmt + of_nat i)" if "far a 4 fmt 5" "i < 5" for m' a v i
    by (rule store32_far, rule far_byte [OF that]) simp_all
  have M: "M (fmt + 2) = 0x25" "M (fmt + 3) = 0x64" "M (fmt + 4) = 0"
    using apart [OF assms(9), of 2] apart [OF assms(9), of 3] apart [OF assms(9), of 4] f by (simp_all add: M_def)
  have Ms: "M (str + of_nat i) = m (str + of_nat i)" if "i < length ds + 2" for i
    unfolding M_def by (rule store32_far, rule far_byte [OF assms(11) that]) (use assms(4) in simp_all)
  have q: "load32 M (args + 4) = q"
    unfolding assms(8) [symmetric] M_def by (rule far_load32 [OF assms(12)]) (simp_all add: store32_far)
  let ?w = "?v\<lparr>sv_fmt := fmt + 2, sv_argp := args + 4, sv_nmatch := 1, sv_mem := M, sv_src := str + of_nat (length ds)\<rparr>"
  have 1: "scan_step string_scanner tab ?v = Some (Inr ?w)"
    using scan_step_d_end [of ?v "ds @ [d]" tab] f(1,2) assms(2-5) by (simp add: M_def assms(7))
  have str: "cstring M str (ds @ [d])" using cstring_cong [of "ds @ [d]" M str m] Ms assms(2) by simp
  have e: "str + of_nat (length ds) + 1 = str + of_nat (Suc (length ds))" by simp
  have "M (str + of_nat (length ds) + 1) = 0" using cstring_apply [OF str, of "Suc (length ds)"] unfolding e by simp
  moreover have "M (str + of_nat (length ds)) = d" using cstring_apply [OF str, of "length ds"] by simp
  ultimately have d: "cstring M (str + of_nat (length ds)) [d]" using cstring_nonzero [OF assms(2)] by auto
  define N where "N = store32 M q (scast d - 0x30)"
  have N: "N (fmt + 4) = 0" using apart [OF assms(10), of 4] M(3) by (simp add: N_def)
  define s2 where "s2 = str + of_nat (length ds)"
  have 2: "scan_step string_scanner tab ?w =
      Some (Inr (?w\<lparr>sv_fmt := fmt + 4, sv_argp := args + 8, sv_nmatch := 2, sv_mem := N, sv_src := s2\<rparr>))"
    using scan_step_d_end [of ?w "[d]" tab] M(1,2) assms(3,6) d by (simp add: q N_def number_def add.assoc s2_def)
  have "scan_loop string_scanner tab (?w\<lparr>sv_fmt := fmt + 4, sv_argp := args + 8, sv_nmatch := 2, sv_mem := N, sv_src := s2\<rparr>) =
      Some (2, ?w\<lparr>sv_fmt := fmt + 5, sv_argp := args + 8, sv_nmatch := 2, sv_mem := N, sv_src := s2\<rparr>)"
    using N by (subst scan_loop.simps) (simp add: scan_step_end)
  then have "scan_loop string_scanner tab ?v = Some (2, ?w\<lparr>sv_fmt := fmt + 5, sv_argp := args + 8, sv_nmatch := 2, sv_mem := N, sv_src := s2\<rparr>)"
    using 1 2 by (subst scan_loop.simps, simp, subst scan_loop.simps, simp)
  then show ?thesis by (simp add: sscanf_def doscan_def N_def M_def)
qed

theorem sscanf_rereads_last_digit_witness:
  "sscanf 0x6000 0x3000 0x1000 0x2000
     ((\<lambda>_. 0)(0x1000 := 0x25, 0x1001 := 0x64, 0x1002 := 0x25, 0x1003 := 0x64, 0x2001 := 0x40, 0x2005 := 0x50, 0x3000 := 0x34, 0x3001 := 0x32)) =
   Some (2, store32 (store32
     ((\<lambda>_. 0)(0x1000 := 0x25, 0x1001 := 0x64, 0x1002 := 0x25, 0x1003 := 0x64, 0x2001 := 0x40, 0x2005 := 0x50, 0x3000 := 0x34, 0x3001 := 0x32))
     0x4000 42) 0x5000 2)"
proof -
  let ?m = "(\<lambda>_. 0)(0x1000 := 0x25, 0x1001 := 0x64, 0x1002 := 0x25, 0x1003 := 0x64, 0x2001 := 0x40, 0x2005 := 0x50, 0x3000 := 0x34, 0x3001 := 0x32) :: memory"
  have "load32 ?m 0x2000 = 0x4000" "load32 ?m (0x2000 + 4) = 0x5000" by (simp_all add: load32_def)
  then show ?thesis
    using sscanf_rereads_last_digit [of ?m "0x1000" "0x3000" "[0x34]" "0x32" "0x2000" "0x4000" "0x5000" "0x6000"]
    by (simp add: is_digit_def number_def far_def)
qed

text \<open>A number of more digits than the local buffer has room for has no defined effect.\<close>

lemma sscanf_long_number_undefined:
  assumes "cstring m fmt [0x25, 0x64]" "cstring m str ds" "\<forall>d\<in>set ds. is_digit d" "numbuf_size < length ds" "length ds \<le> 30000"
  shows "sscanf tab str fmt args m = None"
proof -
  have f: "m fmt = 0x25" "m (fmt + 1) = 0x64" using assms(1) by simp_all
  have h: "holds_string (str + of_nat (length ds)) m str ([] @ map scast ds)" using assms(2) by (auto simp: holds_string_def)
  have ne: "ds \<noteq> []" using assms(4) by auto
  have hd_ds: "hd (map scast ds) = (scast (hd ds) :: i32)" "is_digit (hd ds)" using ne assms(3) by (simp_all add: hd_map)
  then have w: "map scast ds = [] \<or> \<not> is_white (hd (map scast ds))" using digit_not_special [of "scast (hd ds)"] by simp
  obtain c s' where t: "skip_white string_scanner m str = Some (c, s')"
    "taken string_scanner (holds_string (str + of_nat (length ds))) EOF_kernel m (map scast ds) c s'"
    using string_source.skip_white_taken [OF h _ w] by auto
  have "c = scast (hd ds)" using t(2) ne by (cases ds) (auto simp: taken_def)
  then have c: "c \<noteq> 0x2D" "c \<noteq> 0x2B" using digit_not_special [of c] hd_ds(2) by auto
  have "innum_digits string_scanner m 10 30000 c s' 0 0 = None"
    using string_source.digits_overflow [of "str + of_nat (length ds)" m "map scast ds" "[]" c s' 0 30000 0] t(2) assms(3-5) by simp
  then have "innum string_scanner tab p 0x64 30000 REGULAR m str = None" for p
    using t(1) c by (simp add: innum_def)
  moreover have "scan_width m (fmt + 2) 0x64 0 = Some (0x64, fmt + 2, 0)" by (subst scan_width.simps) (simp add: isdigit_def)
  ultimately show ?thesis
    by (simp add: sscanf_def doscan_def, subst scan_loop.simps)
      (simp add: scan_step_def scan_directive_def char_int_def f isupper_def add.assoc)
qed

end
