(* ===== verification/Console.thy ===== *)
theory Console
  imports Kernel_State Lib_Format
begin

text \<open>
  The console, \<^verbatim>\<open>c/kprintf.c\<close>: characters go to the text screen in memory, two bytes per
  cell, and the cursor registers follow. The first character finds the display, by writing to
  the colour buffer and reading it back; what it reads is a parameter (\<open>probe\<close>).
\<close>

unbundle bit_operations_syntax

definition COL :: u32 where "COL = 80"
definition ROW :: u32 where "ROW = 25"
definition CHR_BYTES :: u32 where "CHR_BYTES = 2"
definition MONO_BASE :: u32 where "MONO_BASE = 0x3B4"
definition MONO_BUF :: addr where "MONO_BUF = 0xB0000"
definition CGA_BASE :: u32 where "CGA_BASE = 0x3D4"
definition CGA_BUF :: addr where "CGA_BUF = 0xB8000"
definition att :: u8 where "att = 0x7"

lemmas crt_defs = COL_def ROW_def CHR_BYTES_def MONO_BASE_def MONO_BUF_def CGA_BASE_def CGA_BUF_def att_def

text \<open>The statics of kprintf.c: the screen's base, the place of the next character (0 until the display is found), the port.\<close>

record crt =
  Crtat :: addr
  crtat :: addr
  addr_6845 :: u32

definition cursor :: "crt \<Rightarrow> i32 \<Rightarrow> kernel \<Rightarrow> kernel" where
  "cursor d pos k =
     (let k = outb (addr_6845 d) 14 k;
          k = outb (addr_6845 d + 1) (ucast (signed_drop_bit 8 pos)) k;
          k = outb (addr_6845 d) 15 k
      in outb (addr_6845 d + 1) (ucast (pos AND 0xff)) k)"

text \<open>Clearing cells: the character and attribute, or the character only (\<^verbatim>\<open>cp += 2\<close>).\<close>

fun clear_cells :: "nat \<Rightarrow> bool \<Rightarrow> addr \<Rightarrow> memory \<Rightarrow> memory" where
  "clear_cells 0 with_att cp m = m"
| "clear_cells (Suc n) with_att cp m =
     clear_cells n with_att (cp + 2) (if with_att then m(cp := 0x20, cp + 1 := att) else m(cp := 0x20))"

text \<open>The number of rounds of \<^verbatim>\<open>for (cp = from; cp < to; cp += 2)\<close>.\<close>

definition cells :: "addr \<Rightarrow> addr \<Rightarrow> nat" where
  "cells a b = (if a < b then (unat (b - a) + 1) div 2 else 0)"

definition screen_size :: u32 where "screen_size = ROW * COL * CHR_BYTES"

definition find_display :: "16 word \<Rightarrow> crt \<Rightarrow> kernel \<Rightarrow> crt \<times> kernel" where
  "find_display probe d k =
     (let was = load16 (kmem k) (Crtat d);
          k = upd_mem (\<lambda>m. store16 m (Crtat d) 0xA55A) k;
          d = (if probe \<noteq> 0xA55A then d\<lparr>Crtat := MONO_BUF, addr_6845 := MONO_BASE\<rparr> else d);
          k = upd_mem (\<lambda>m. store16 m (Crtat d) was) k;
          k = outb (addr_6845 d) 14 k;
          (hi, k) = inb (addr_6845 d + 1) k;
          cursorat = push_bit 8 (ucast hi) :: u32;
          k = outb (addr_6845 d) 15 k;
          (lo, k) = inb (addr_6845 d + 1) k;
          cursorat = cursorat OR ucast lo;
          d = (if cursorat \<le> COL * ROW then d\<lparr>crtat := Crtat d + cursorat * CHR_BYTES\<rparr> else d\<lparr>crtat := Crtat d\<rparr>)
      in (d, upd_mem (clear_cells (cells (crtat d) (Crtat d + screen_size)) True (crtat d)) k))"

definition scroll :: "crt \<Rightarrow> kernel \<Rightarrow> crt \<times> kernel" where
  "scroll d k =
     (if Crtat d + screen_size \<le> crtat d then
        let k = upd_mem (blkcopy (Crtat d) (Crtat d + COL * CHR_BYTES) (COL * (ROW - 1) * CHR_BYTES)) k;
            last_line = Crtat d + COL * (ROW - 1) * CHR_BYTES;
            k = upd_mem (clear_cells (cells last_line (Crtat d + screen_size)) False last_line) k
        in (d\<lparr>crtat := crtat d - COL * CHR_BYTES\<rparr>, k)
      else (d, k))"

text \<open>The end of \<^verbatim>\<open>kbmputc\<close>: scroll and move the cursor.\<close>

definition settle :: "crt \<Rightarrow> kernel \<Rightarrow> crt \<times> kernel" where
  "settle d k =
     (let (d, k) = scroll d k
      in (d, cursor d (word_of_int (sint (crtat d - Crtat d) sdiv 2)) k))"

text \<open>The switch for every character but the tab, which calls the function again for blanks.\<close>

definition put_plain :: "u8 \<Rightarrow> crt \<Rightarrow> kernel \<Rightarrow> crt \<times> kernel" where
  "put_plain c d k =
     (let line_start = (\<lambda>d. d\<lparr>crtat := crtat d - word_of_int (sint (crtat d - Crtat d) smod 160)\<rparr>);
          (d, k) =
            (if c = 0x08 then (d\<lparr>crtat := crtat d - CHR_BYTES\<rparr>, k)
             else if c = 0x0A then (line_start (d\<lparr>crtat := crtat d + COL * CHR_BYTES\<rparr>), k)
             else if c = 0x0D then (line_start d, k)
             else (d\<lparr>crtat := crtat d + CHR_BYTES\<rparr>, upd_mem (\<lambda>m. m(crtat d := c, crtat d + 1 := att)) k))
      in settle d k)"

partial_function (option) put_tab :: "crt \<Rightarrow> kernel \<Rightarrow> (crt \<times> kernel) option" where
  "put_tab d k =
     (let (d, k) = put_plain 0x20 d k
      in if sint (crtat d) smod 16 \<noteq> 0 then put_tab d k else Some (d, k))"

definition kbmputc :: "16 word \<Rightarrow> u8 \<Rightarrow> crt \<Rightarrow> kernel \<Rightarrow> (crt \<times> kernel) option" where
  "kbmputc probe c d k =
     (if c = 0 then Some (d, k)
      else
        let (d, k) = (if crtat d = 0 then find_display probe d k else (d, k))
        in if c = 0x09 then do { (d, k) \<leftarrow> put_tab d k; Some (settle d k) }
           else Some (put_plain c d k))"

definition kputc :: "16 word \<Rightarrow> u8 \<Rightarrow> crt \<Rightarrow> kernel \<Rightarrow> (i32 \<times> crt \<times> kernel) option" where
  "kputc probe c d k = map_option (\<lambda>(d, k). (ucast c, d, k)) (kbmputc probe c d k)"

text \<open>
  \<^verbatim>\<open>kprintf\<close>: the characters of \<^verbatim>\<open>_doprnt\<close> go to \<^verbatim>\<open>kputc\<close> one after the other. They are printed here when
  \<^verbatim>\<open>_doprnt\<close> has made them all, which is the same unless the format, an argument or a string lies in the
  display memory.
\<close>

fun put_chars :: "16 word \<Rightarrow> u8 list \<Rightarrow> crt \<Rightarrow> kernel \<Rightarrow> (crt \<times> kernel) option" where
  "put_chars probe [] d k = Some (d, k)"
| "put_chars probe (c # cs) d k = do { (r, d, k) \<leftarrow> kputc probe c d k; put_chars probe cs d k }"

definition kprintf :: "16 word \<Rightarrow> addr \<Rightarrow> addr \<Rightarrow> (nat \<Rightarrow> u8) \<Rightarrow> crt \<Rightarrow> kernel \<Rightarrow> (i32 \<times> crt \<times> kernel) option" where
  "kprintf probe fmt ap locals d k = do {
     s \<leftarrow> doprnt fmt \<lparr>f_mem = kmem k, f_args = ap, f_string = locals, f_out = [], f_dst = None\<rparr>;
     (d, k) \<leftarrow> put_chars probe (f_out s) d (upd_mem (\<lambda>_. f_mem s) k);
     Some (1, d, k)
   }"

end
