(* ===== verification/Console_Properties.thy ===== *)
theory Console_Properties
  imports Console Kernel_Properties
begin

text \<open>
  The console is a terminal: what \<^verbatim>\<open>kbmputc\<close> and \<^verbatim>\<open>kprintf\<close> leave in the display memory, related to a
  cursor and a text of 25 lines.
\<close>

unbundle bit_operations_syntax

section \<open>A terminal\<close>

text \<open>
  What a terminal of 25 lines of 80 characters is: the place of the cursor and the characters. A character
  that ends in the last cell scrolls the text up by a line.
\<close>

type_synonym terminal = "nat \<times> u8 list"

definition term_scroll :: "terminal \<Rightarrow> terminal" where
  "term_scroll t = (case t of (pos, text) \<Rightarrow>
     if 2000 \<le> pos then (pos - 80, drop 80 text @ replicate 80 0x20) else (pos, text))"

definition term_plain :: "u8 \<Rightarrow> terminal \<Rightarrow> terminal" where
  "term_plain c t = (case t of (pos, text) \<Rightarrow>
     if c = 0x0A then term_scroll (pos + 80 - pos mod 80, text)
     else if c = 0x0D then (pos - pos mod 80, text)
     else term_scroll (pos + 1, text[pos := c]))"

definition term_put :: "u8 \<Rightarrow> terminal \<Rightarrow> terminal" where
  "term_put c t =
     (if c = 0 then t else if c = 0x09 then (term_plain 0x20 ^^ (8 - fst t mod 8)) t else term_plain c t)"

text \<open>The terminal that the display memory at \<open>a\<close> and the statics stand for.\<close>

definition screen_text :: "addr \<Rightarrow> memory \<Rightarrow> u8 list" where
  "screen_text a m = map (\<lambda>i. m (a + of_nat (2 * i))) [0..<2000]"

definition at_cell :: "crt \<Rightarrow> nat \<Rightarrow> bool" where
  "at_cell d pos \<longleftrightarrow> (Crtat d = CGA_BUF \<or> Crtat d = MONO_BUF) \<and> crtat d = Crtat d + of_nat (2 * pos)"

definition displays :: "crt \<Rightarrow> memory \<Rightarrow> terminal \<Rightarrow> bool" where
  "displays d m t \<longleftrightarrow> at_cell d (fst t) \<and> fst t < 2000 \<and> snd t = screen_text (Crtat d) m"

lemma cell_unat:
  assumes "at_cell d pos" "pos < 4000"
  shows "unat (crtat d) = unat (Crtat d) + 2 * pos" "unat (crtat d - Crtat d) = 2 * pos" "sint (crtat d - Crtat d) = int (2 * pos)"
  and "unat (Crtat d) = 0xB8000 \<or> unat (Crtat d) = 0xB0000" "crtat d \<noteq> 0"
proof -
  have u: "unat (of_nat (2 * pos) :: u32) = 2 * pos" using assms(2) by (simp add: unat_of_nat del: of_nat_mult)
  show b: "unat (Crtat d) = 0xB8000 \<or> unat (Crtat d) = 0xB0000" using assms(1) by (auto simp: at_cell_def crt_defs)
  have c: "crtat d = Crtat d + of_nat (2 * pos)" using assms(1) by (simp add: at_cell_def)
  show a: "unat (crtat d) = unat (Crtat d) + 2 * pos"
    unfolding c unat_word_ariths(1) u using b assms(2) by auto
  show d: "unat (crtat d - Crtat d) = 2 * pos" unfolding c by (simp only: add_diff_cancel_left' u)
  then show "sint (crtat d - Crtat d) = int (2 * pos)" using assms(2) by (subst sint_unat) simp_all
  show "crtat d \<noteq> 0" using a b by auto
qed


lemma length_screen_text [simp]: "length (screen_text a m) = 2000"
  by (simp add: screen_text_def)

lemma displays_text: "displays d m t \<Longrightarrow> length (snd t) = 2000"
  by (simp add: displays_def)

text \<open>The cell of a byte of the screen.\<close>

lemma cell_far:
  fixes a :: addr
  assumes "i < 2000" "j < 2000"
  shows "a + of_nat (2 * i) = a + of_nat (2 * j) \<longleftrightarrow> i = j" "a + of_nat (2 * i) \<noteq> a + of_nat (2 * j) + 1"
proof -
  have u: "unat (of_nat (2 * i) :: u32) = 2 * i" "unat (of_nat (2 * j) :: u32) = 2 * j" "unat (of_nat (Suc (2 * j)) :: u32) = Suc (2 * j)"
    using assms by (simp_all add: unat_of_nat del: of_nat_mult of_nat_Suc)
  show "a + of_nat (2 * i) = a + of_nat (2 * j) \<longleftrightarrow> i = j"
  proof
    assume "a + of_nat (2 * i) = a + of_nat (2 * j)"
    then have "of_nat (2 * i) = (of_nat (2 * j) :: u32)" by (simp only: add_left_cancel)
    then have "2 * i = 2 * j" using u(1,2) by simp
    then show "i = j" by simp
  qed simp
  show "a + of_nat (2 * i) \<noteq> a + of_nat (2 * j) + 1"
  proof
    assume "a + of_nat (2 * i) = a + of_nat (2 * j) + 1"
    then have "of_nat (2 * i) = of_nat (2 * j) + (1 :: u32)" by (simp only: add.assoc add_left_cancel)
    also have "\<dots> = of_nat (Suc (2 * j))" by simp
    finally have "unat (of_nat (2 * i) :: u32) = unat (of_nat (Suc (2 * j)) :: u32)" by (rule arg_cong)
    then have "2 * i = Suc (2 * j)" unfolding u .
    then show False by presburger
  qed
qed

lemma screen_put:
  assumes "pos < 2000"
  shows "screen_text a (m(a + of_nat (2 * pos) := c, a + of_nat (2 * pos) + 1 := v)) = (screen_text a m)[pos := c]"
proof (rule nth_equalityI)
  fix i assume "i < length (screen_text a (m(a + of_nat (2 * pos) := c, a + of_nat (2 * pos) + 1 := v)))"
  then have i: "i < 2000" by simp
  show "screen_text a (m(a + of_nat (2 * pos) := c, a + of_nat (2 * pos) + 1 := v)) ! i = (screen_text a m)[pos := c] ! i"
    using cell_far [OF i assms, of a] i by (auto simp: screen_text_def nth_list_update simp del: of_nat_mult)
qed simp

lemma clear_cells_text:
  assumes "n < 2 ^ 30"
  shows "clear_cells n False cp m x = (if even (unat (x - cp)) \<and> unat (x - cp) < 2 * n then 0x20 else m x)"
  using assms
proof (induction n arbitrary: cp m)
  case (Suc n)
  have d: "x - (cp + 2) = x - cp - 2" by simp
  show ?case
  proof (cases "unat (x - cp) < 2")
    case True
    then have "x - cp = 0 \<or> x - cp = 1" by (simp add: less_2_cases_iff unat_eq_zero) (metis One_nat_def unat_1 word_unat_eq_iff)
    moreover have "unat (- 1 :: u32) = 2 ^ 32 - 1"
      by (simp add: unsigned_minus_1_eq_mask mask_eq_exp_minus_1)
    ultimately show ?thesis using Suc by (auto simp: d)
  next
    case False
    then have "unat (x - cp - 2) = unat (x - cp) - 2" using unat_diff [of "x - cp" 2] by simp
    moreover have "x \<noteq> cp" using False by auto
    ultimately show ?thesis using Suc False by (auto simp: d)
  qed
qed simp


lemma screen_sizes: "COL * ROW = 2000" "screen_size = 4000" "COL * CHR_BYTES = 160" "COL * (ROW - 1) * CHR_BYTES = 3840"
  by (simp_all add: screen_size_def crt_defs)

lemma cells_last_line:
  assumes "unat a = 0xB8000 \<or> unat a = 0xB0000"
  shows "cells (a + 3840) (a + 4000) = 80"
proof -
  have "unat (a + 3840) = unat a + 3840" "unat (a + 4000) = unat a + 4000"
    using assms by (auto simp: unat_word_ariths(1))
  then show ?thesis by (simp add: cells_def word_less_nat_alt) 
qed

section \<open>Scrolling\<close>

definition outside_screen :: "addr \<Rightarrow> memory \<Rightarrow> memory \<Rightarrow> bool" where
  "outside_screen a m m' \<longleftrightarrow> (\<forall>x. 4000 \<le> unat (x - a) \<longrightarrow> m' x = m x)"

lemma outside_screen_refl [simp]: "outside_screen a m m"
  by (simp add: outside_screen_def)

lemma outside_screen_trans: "outside_screen a m m' \<Longrightarrow> outside_screen a m' m'' \<Longrightarrow> outside_screen a m m''"
  by (simp add: outside_screen_def)

lemma cell_offset:
  fixes a :: addr
  assumes "i < 2000" "k \<le> 4000"
  shows "unat (a + of_nat (2 * i) - (a + of_nat k)) = (if k \<le> 2 * i then 2 * i - k else 2 ^ 32 + 2 * i - k)"
    "unat (a + of_nat (2 * i) - a) = 2 * i"
proof -
  have u: "unat (of_nat (2 * i) :: u32) = 2 * i" "unat (of_nat k :: u32) = k"
    using assms by (simp_all add: unat_of_nat del: of_nat_mult)
  then show "unat (a + of_nat (2 * i) - (a + of_nat k)) = (if k \<le> 2 * i then 2 * i - k else 2 ^ 32 + 2 * i - k)"
    "unat (a + of_nat (2 * i) - a) = 2 * i"
    by (simp_all add: unat_diff del: of_nat_mult)
qed

lemma scrolled_text:
  "screen_text a (clear_cells 80 False (a + 3840) (copied m (a + 160) a 3840)) = drop 80 (screen_text a m) @ replicate 80 0x20"
proof (rule nth_equalityI)
  fix i assume "i < length (screen_text a (clear_cells 80 False (a + 3840) (copied m (a + 160) a 3840)))"
  then have i: "i < 2000" by simp
  have o: "unat (a + of_nat (2 * i) - (a + 3840)) = (if 3840 \<le> 2 * i then 2 * i - 3840 else 2 ^ 32 + 2 * i - 3840)"
    "unat (a + of_nat (2 * i) - a) = 2 * i"
    using cell_offset [OF i, of 3840 a] by simp_all
  let ?c = "copied m (a + 160) a 3840"
  have e: "a + 160 + (a + of_nat (2 * i) - a) = a + of_nat (2 * (80 + i))" by simp
  have "?c (a + of_nat (2 * i)) = m (a + of_nat (2 * (80 + i)))" if "i < 1920"
    using that unfolding copied_def o(2) e by simp
  moreover have "clear_cells 80 False (a + 3840) ?c (a + of_nat (2 * i)) = (if 1920 \<le> i then 0x20 else ?c (a + of_nat (2 * i)))"
    by (subst clear_cells_text, simp) (use i in \<open>simp only: o, auto\<close>)
  ultimately have "screen_text a (clear_cells 80 False (a + 3840) ?c) ! i = (if 1920 \<le> i then 0x20 else m (a + of_nat (2 * (80 + i))))"
    using i by (simp add: screen_text_def del: of_nat_mult of_nat_add)
  also have "\<dots> = (drop 80 (screen_text a m) @ replicate 80 0x20) ! i"
    using i by (simp add: nth_append screen_text_def del: of_nat_mult)
  finally show "screen_text a (clear_cells 80 False (a + 3840) (copied m (a + 160) a 3840)) ! i =
      (drop 80 (screen_text a m) @ replicate 80 0x20) ! i" .
qed simp

lemma scrolled_outside: "outside_screen a m (clear_cells 80 False (a + 3840) (copied m (a + 160) a 3840))"
proof -
  have "unat (x - (a + 3840)) \<ge> 160" if "4000 \<le> unat (x - a)" for x
  proof -
    have "160 \<le> unat (y - 3840)" if "4000 \<le> unat y" for y :: u32 using that by (simp add: unat_diff)
    from this [OF that] show ?thesis by (simp add: algebra_simps)
  qed
  then show ?thesis by (force simp: outside_screen_def clear_cells_text copied_def)
qed

lemma scroll_displays:
  assumes "at_cell d pos" "pos < 2080" "text = screen_text (Crtat d) (kmem k)"
  shows "\<exists>d' k'. scroll d k = (d', k') \<and> displays d' (kmem k') (term_scroll (pos, text)) \<and> Crtat d' = Crtat d \<and>
    outside_screen (Crtat d) (kmem k) (kmem k')"
proof (cases "pos < 2000")
  case True
  have "unat (Crtat d + 4000) = unat (Crtat d) + 4000" using cell_unat(4) [OF assms(1)] assms(2) by (auto simp: unat_word_ariths(1))
  then have "\<not> Crtat d + 4000 \<le> crtat d" using True cell_unat(1) [OF assms(1)] by (simp add: word_le_nat_alt)
  then show ?thesis using True assms by (simp add: scroll_def screen_sizes displays_def term_scroll_def)
next
  case False
  let ?a = "Crtat d"
  have b: "unat ?a = 0xB8000 \<or> unat ?a = 0xB0000" using cell_unat(4) [OF assms(1)] assms(2) by simp
  have a: "?a = 0xB8000 \<or> ?a = 0xB0000" using assms(1) by (auto simp: at_cell_def crt_defs)
  have "unat (?a + 4000) = unat ?a + 4000" using b by (auto simp: unat_word_ariths(1))
  then have c: "?a + 4000 \<le> crtat d" using False cell_unat(1) [OF assms(1)] assms(2) by (simp add: word_le_nat_alt)
  let ?m = "clear_cells 80 False (?a + 3840) (copied (kmem k) (?a + 160) ?a 3840)"
  have "blkcopy ?a (?a + 160) 3840 m = copied m (?a + 160) ?a 3840" for m
    by (subst blkcopy_copied) (use a in auto)
  then have s: "scroll d k = (d\<lparr>crtat := crtat d - 160\<rparr>, upd_mem (\<lambda>_. ?m) k)"
    using c unfolding scroll_def screen_sizes by (simp add: cells_last_line [OF b] upd_mem_def kmem_def)
  have "at_cell (d\<lparr>crtat := crtat d - 160\<rparr>) (pos - 80)" using assms(1) False by (simp add: at_cell_def of_nat_diff)
  then show ?thesis
    using False assms(2,3) scrolled_text [of ?a "kmem k"] scrolled_outside [of ?a "kmem k"]
    by (simp add: s displays_def term_scroll_def)
qed


section \<open>Characters\<close>

lemma settle_displays:
  assumes "at_cell d pos" "pos < 2080" "text = screen_text (Crtat d) (kmem k)"
  shows "\<exists>d' k'. settle d k = (d', k') \<and> displays d' (kmem k') (term_scroll (pos, text)) \<and> Crtat d' = Crtat d \<and>
    outside_screen (Crtat d) (kmem k) (kmem k')"
proof -
  obtain d' k' where s: "scroll d k = (d', k')" "displays d' (kmem k') (term_scroll (pos, text))" "Crtat d' = Crtat d"
    "outside_screen (Crtat d) (kmem k) (kmem k')" using scroll_displays [OF assms] by blast
  have "kmem (cursor d' x k') = kmem k'" for x by (simp add: cursor_def Let_def)
  then show ?thesis using s by (simp add: settle_def)
qed

lemma term_scroll_pos: "fst t < 2080 \<Longrightarrow> fst (term_scroll t) < 2000"
  by (cases t) (auto simp: term_scroll_def)

lemma put_plain_displays:
  assumes "displays d (kmem k) t" "c \<noteq> 0x08"
  shows "\<exists>d' k'. put_plain c d k = (d', k') \<and> displays d' (kmem k') (term_plain c t) \<and> Crtat d' = Crtat d \<and>
    outside_screen (Crtat d) (kmem k) (kmem k')"
proof -
  obtain pos tx where t: "t = (pos, tx)" by (cases t)
  have d: "at_cell d pos" "pos < 2000" "tx = screen_text (Crtat d) (kmem k)" using assms(1) by (simp_all add: displays_def t)
  have at: "crtat d = Crtat d + of_nat (2 * pos)" using d(1) by (simp add: at_cell_def)
  have start: "at_cell (d'\<lparr>crtat := crtat d' - word_of_int (sint (crtat d' - Crtat d') smod 160)\<rparr>) (pos' - pos' mod 80)"
    if "at_cell d' pos'" "pos' < 4000" for d' pos'
  proof -
    have "int n smod 160 = int (n mod 160)" for n by (cases n) (simp_all add: signed_modulo_int_def zmod_int)
    moreover have "2 * pos' mod 160 = 2 * (pos' mod 80)" using mult_mod_right [of 2 pos' 80] by simp
    ultimately have "sint (crtat d' - Crtat d') smod 160 = int (2 * (pos' mod 80))" unfolding cell_unat(3) [OF that] by (simp only:)
    moreover have "(of_nat (2 * (pos' - pos' mod 80)) :: u32) = of_nat (2 * pos') - of_nat (2 * (pos' mod 80))"
      by (simp add: of_nat_diff algebra_simps)
    ultimately show ?thesis using that(1) by (simp add: at_cell_def algebra_simps)
  qed
  have m: "pos - pos mod 80 < 2000" "pos + 80 - pos mod 80 < 2080" using d(2) by simp_all
  consider "c = 0x0A" | "c = 0x0D" | "c \<noteq> 0x0A" "c \<noteq> 0x0D" by blast
  then show ?thesis
  proof cases
    case 1
    let ?d = "d\<lparr>crtat := crtat d + COL * CHR_BYTES\<rparr>"
    have "at_cell ?d (pos + 80)" using d(1) by (simp add: at_cell_def screen_sizes)
    from start [OF this] d(2) have "at_cell (?d\<lparr>crtat := crtat ?d - word_of_int (sint (crtat ?d - Crtat ?d) smod 160)\<rparr>) (pos + 80 - pos mod 80)"
      by simp
    from settle_displays [OF this m(2)] d(3) show ?thesis using 1 by (simp add: put_plain_def t term_plain_def)
  next
    case 2
    have "term_scroll (pos - pos mod 80, tx) = (pos - pos mod 80, tx)" using m(1) by (simp add: term_scroll_def)
    with settle_displays [OF start [OF d(1)], of tx k] m d show ?thesis using 2 by (simp add: put_plain_def t term_plain_def)
  next
    case 3
    let ?m = "(kmem k)(crtat d := c, crtat d + 1 := att)"
    have "at_cell (d\<lparr>crtat := crtat d + CHR_BYTES\<rparr>) (pos + 1)" using d(1) by (simp add: at_cell_def crt_defs)
    moreover have "screen_text (Crtat d) ?m = tx[pos := c]" unfolding at d(3) by (rule screen_put [OF d(2)])
    moreover have "outside_screen (Crtat d) (kmem k) ?m"
    proof -
      have "unat (crtat d - Crtat d) = 2 * pos" using d(2) by (simp add: cell_unat(2) [OF d(1)])
      moreover have "crtat d + 1 - Crtat d = of_nat (Suc (2 * pos))" by (simp add: at)
      moreover have "unat (of_nat (Suc (2 * pos)) :: u32) = Suc (2 * pos)" using d(2) by (simp add: unat_of_nat del: of_nat_mult of_nat_Suc)
      ultimately have "unat (crtat d - Crtat d) = 2 * pos" "unat (crtat d + 1 - Crtat d) = Suc (2 * pos)" by (simp_all only:)
      then show ?thesis using d(2) by (auto simp: outside_screen_def)
    qed
    moreover define k1 where "k1 = upd_mem (\<lambda>m. m(crtat d := c, crtat d + 1 := att)) k"
    then have "kmem k1 = ?m" by (simp add: fun_upd_def)
    ultimately obtain d' k' where "settle (d\<lparr>crtat := crtat d + CHR_BYTES\<rparr>) k1 = (d', k')"
      "displays d' (kmem k') (term_scroll (pos + 1, tx[pos := c]))" "Crtat d' = Crtat d" "outside_screen (Crtat d) ?m (kmem k')"
      "outside_screen (Crtat d) (kmem k) ?m"
      using settle_displays [of "d\<lparr>crtat := crtat d + CHR_BYTES\<rparr>" "pos + 1" "tx[pos := c]" k1] d(2) by auto
    then show ?thesis using 3 assms(2) outside_screen_trans by (simp add: put_plain_def t term_plain_def k1_def)
  qed
qed


lemma term_plain_blank: "fst t < 2000 \<Longrightarrow> fst (term_plain 0x20 t) mod 8 = (fst t + 1) mod 8"
proof (cases t)
  case (Pair pos tx)
  assume "fst t < 2000"
  then have "pos + 1 = 2000 \<or> pos + 1 < 2000" using Pair by auto
  then show ?thesis using Pair by (auto simp: term_plain_def term_scroll_def)
qed

lemma tab_test:
  assumes "displays d m t"
  shows "sint (crtat d) smod 16 \<noteq> 0 \<longleftrightarrow> fst t mod 8 \<noteq> 0"
proof -
  have t: "at_cell d (fst t)" "fst t < 2000" using assms by (simp_all add: displays_def)
  then have u: "unat (crtat d) = unat (Crtat d) + 2 * fst t" and b: "unat (Crtat d) = 0xB8000 \<or> unat (Crtat d) = 0xB0000"
    using cell_unat [of d "fst t"] by simp_all
  then have "sint (crtat d) = int (unat (Crtat d) + 2 * fst t)" using t(2) by (subst sint_unat) auto
  moreover have "int n smod 16 = int (n mod 16)" for n by (cases n) (simp_all add: signed_modulo_int_def zmod_int)
  moreover have "(unat (Crtat d) + 2 * fst t) mod 16 = 2 * (fst t mod 8)"
  proof -
    have "unat (Crtat d) mod 16 = 0" using b by auto
    then have "(unat (Crtat d) + 2 * fst t) mod 16 = 2 * fst t mod 16" by (metis add_0 mod_add_left_eq)
    then show ?thesis using mult_mod_right [of 2 "fst t" 8] by simp
  qed
  ultimately show ?thesis by (simp only:) simp
qed

text \<open>How many blanks a tab still has to print.\<close>

definition to_stop :: "nat \<Rightarrow> nat" where
  "to_stop pos = 8 - pos mod 8"

lemma put_tab_displays:
  assumes "displays d (kmem k) t"
  shows "\<exists>d' k'. put_tab d k = Some (d', k') \<and> displays d' (kmem k') ((term_plain 0x20 ^^ to_stop (fst t)) t) \<and>
    Crtat d' = Crtat d \<and> outside_screen (Crtat d) (kmem k) (kmem k')"
  using assms
proof (induction "to_stop (fst t)" arbitrary: d k t rule: less_induct)
  case less
  obtain d1 k1 where s: "put_plain 0x20 d k = (d1, k1)" "displays d1 (kmem k1) (term_plain 0x20 t)" "Crtat d1 = Crtat d"
    "outside_screen (Crtat d) (kmem k) (kmem k1)" using put_plain_displays [OF less.prems, of "0x20"] by auto
  have p: "fst (term_plain 0x20 t) mod 8 = (fst t + 1) mod 8" by (rule term_plain_blank) (use less.prems in \<open>simp add: displays_def\<close>)
  show ?case
  proof (cases "fst t mod 8 = 7")
    case True
    then have "to_stop (fst t) = 1" "fst (term_plain 0x20 t) mod 8 = 0" using p by (simp_all add: to_stop_def mod_Suc)
    then show ?thesis using s tab_test [OF s(2)] by (subst put_tab.simps) simp
  next
    case False
    then have "fst (term_plain 0x20 t) mod 8 = Suc (fst t mod 8)" using p by (simp add: mod_Suc)
    then have n: "to_stop (fst t) = Suc (to_stop (fst (term_plain 0x20 t)))" "fst (term_plain 0x20 t) mod 8 \<noteq> 0"
      using mod_less_divisor [of 8 "fst (term_plain 0x20 t)"] by (simp_all add: to_stop_def Suc_diff_Suc del: mod_less_divisor)
    obtain d' k' where i: "put_tab d1 k1 = Some (d', k')" "displays d' (kmem k') ((term_plain 0x20 ^^ to_stop (fst (term_plain 0x20 t))) (term_plain 0x20 t))"
      "Crtat d' = Crtat d1" "outside_screen (Crtat d1) (kmem k1) (kmem k')"
      using less.hyps [OF _ s(2)] n(1) by auto
    then show ?thesis using s n tab_test [OF s(2)] outside_screen_trans [OF s(4)]
      by (subst put_tab.simps) (simp add: funpow_swap1)
  qed
qed

lemma kputc_displays:
  assumes "displays d (kmem k) t" "c \<noteq> 0x08"
  shows "\<exists>d' k'. kputc probe c d k = Some (ucast c, d', k') \<and> displays d' (kmem k') (term_put c t) \<and> Crtat d' = Crtat d \<and>
    outside_screen (Crtat d) (kmem k) (kmem k')"
proof -
  have nz: "crtat d \<noteq> 0" using assms(1) cell_unat(5) [of d "fst t"] by (simp add: displays_def)
  consider "c = 0" | "c = 0x09" | "c \<noteq> 0" "c \<noteq> 0x09" by blast
  then show ?thesis
  proof cases
    case 1
    then show ?thesis using assms(1) by (simp add: kputc_def kbmputc_def term_put_def)
  next
    case 2
    obtain d1 k1 where p: "put_tab d k = Some (d1, k1)" "displays d1 (kmem k1) ((term_plain 0x20 ^^ to_stop (fst t)) t)"
      "Crtat d1 = Crtat d" "outside_screen (Crtat d) (kmem k) (kmem k1)" using put_tab_displays [OF assms(1)] by blast
    let ?t = "(term_plain 0x20 ^^ to_stop (fst t)) t"
    have "term_scroll (fst ?t, snd ?t) = ?t" using p(2) by (cases ?t) (simp add: term_scroll_def displays_def)
    moreover have "at_cell d1 (fst ?t)" "fst ?t < 2080" "snd ?t = screen_text (Crtat d1) (kmem k1)" using p(2) by (simp_all add: displays_def)
    ultimately obtain d' k' where "settle d1 k1 = (d', k')" "displays d' (kmem k') ?t" "Crtat d' = Crtat d1"
      "outside_screen (Crtat d1) (kmem k1) (kmem k')" using settle_displays [of d1 "fst ?t" "snd ?t" k1] by metis
    then show ?thesis using 2 nz p outside_screen_trans [OF p(4)]
      by (simp add: kputc_def kbmputc_def term_put_def to_stop_def)
  next
    case 3
    obtain d' k' where "put_plain c d k = (d', k')" "displays d' (kmem k') (term_plain c t)" "Crtat d' = Crtat d"
      "outside_screen (Crtat d) (kmem k) (kmem k')" using put_plain_displays [OF assms] by blast
    then show ?thesis using 3 nz by (simp add: kputc_def kbmputc_def term_put_def)
  qed
qed

lemma put_chars_displays:
  assumes "displays d (kmem k) t" "0x08 \<notin> set cs"
  shows "\<exists>d' k'. put_chars probe cs d k = Some (d', k') \<and> displays d' (kmem k') (fold term_put cs t) \<and> Crtat d' = Crtat d \<and>
    outside_screen (Crtat d) (kmem k) (kmem k')"
  using assms
proof (induction cs arbitrary: d k t)
  case (Cons c cs)
  have c: "c \<noteq> 0x08" "0x08 \<notin> set cs" using Cons.prems(2) by auto
  obtain d1 k1 where s: "kputc probe c d k = Some (ucast c, d1, k1)" "displays d1 (kmem k1) (term_put c t)" "Crtat d1 = Crtat d"
    "outside_screen (Crtat d) (kmem k) (kmem k1)" using kputc_displays [OF Cons.prems(1) c(1)] by blast
  from Cons.IH [OF s(2) c(2)] show ?case using s outside_screen_trans [OF s(4)] by auto
qed simp

lemma doprnt_plain:
  assumes "cstring (f_mem s) fmt cs" "0x25 \<notin> set cs" "f_dst s = None"
  shows "doprnt fmt s = Some (s\<lparr>f_out := f_out s @ cs\<rparr>)"
  using assms
proof (induction cs arbitrary: fmt s)
  case Nil
  then show ?case by (simp add: doprnt.simps)
next
  case (Cons c cs)
  have p: "putc c s = s\<lparr>f_out := f_out s @ [c]\<rparr>" using Cons.prems(3) by (simp add: putc_def)
  have "doprnt (fmt + 1) (s\<lparr>f_out := f_out s @ [c]\<rparr>) = Some (s\<lparr>f_out := (f_out s @ [c]) @ cs\<rparr>)"
    using Cons.IH [of "s\<lparr>f_out := f_out s @ [c]\<rparr>" "fmt + 1"] Cons.prems by simp
  then show ?case using Cons.prems p by (subst doprnt.simps) simp
qed

section \<open>kprintf\<close>

text \<open>C14. Once the display is found, the console is a terminal: \<^verbatim>\<open>kprintf\<close> of a text without directives and backspaces returns,
  leaves on the screen what a terminal of 25 lines of 80 characters shows after the text, with its newlines, carriage
  returns, tabs and scrolling, with the cursor in one of its cells, and changes no byte outside the display memory.\<close>

theorem kprintf_shows_text:
  assumes "displays d (kmem k) t" "cstring (kmem k) fmt cs" "0x25 \<notin> set cs" "0x08 \<notin> set cs"
  shows "\<exists>d' k'. kprintf probe fmt ap locals d k = Some (1, d', k') \<and> displays d' (kmem k') (fold term_put cs t) \<and>
    (\<forall>x. 4000 \<le> unat (x - Crtat d) \<longrightarrow> kmem k' x = kmem k x)"
proof -
  have k: "upd_mem (\<lambda>_. kmem k) k = k" by (simp add: upd_mem_def kmem_def)
  have "doprnt fmt \<lparr>f_mem = kmem k, f_args = ap, f_string = locals, f_out = [], f_dst = None\<rparr> =
      Some \<lparr>f_mem = kmem k, f_args = ap, f_string = locals, f_out = cs, f_dst = None\<rparr>"
    using doprnt_plain [of "\<lparr>f_mem = kmem k, f_args = ap, f_string = locals, f_out = [], f_dst = None\<rparr>" fmt cs] assms(2,3) by simp
  moreover obtain d' k' where "put_chars probe cs d k = Some (d', k')" "displays d' (kmem k') (fold term_put cs t)"
    "outside_screen (Crtat d) (kmem k) (kmem k')" using put_chars_displays [OF assms(1,4)] by blast
  ultimately show ?thesis using k by (simp add: kprintf_def outside_screen_def)
qed


definition demo_crt :: crt where
  "demo_crt = \<lparr>Crtat = CGA_BUF, crtat = CGA_BUF + 3998, addr_6845 = CGA_BASE\<rparr>"

definition demo_console :: kernel where
  "demo_console = upd_mem (\<lambda>_. (\<lambda>_. 0x20)(0x9000 := 0x48, 0x9001 := 0x69, 0x9002 := 0x0A, 0x9003 := 0)) demo_kernel"

lemma demo_displays: "displays demo_crt (kmem demo_console) (1999, replicate 2000 0x20)"
proof -
  have "unat (CGA_BUF + of_nat (2 * i)) = 0xB8000 + 2 * i" if "i < 2000" for i
    using cell_unat(1) [of "\<lparr>Crtat = CGA_BUF, crtat = CGA_BUF + of_nat (2 * i), addr_6845 = 0\<rparr>" i] that
    by (simp add: at_cell_def CGA_BUF_def del: of_nat_mult)
  then have "CGA_BUF + of_nat (2 * i) \<notin> {0x9000, 0x9001, 0x9002, 0x9003}" if "i < 2000" for i using that by (force simp del: of_nat_mult)
  then have "screen_text CGA_BUF (kmem demo_console) = replicate 2000 0x20"
    by (intro nth_equalityI) (simp_all add: screen_text_def demo_console_def del: of_nat_mult)
  then show ?thesis by (simp add: displays_def at_cell_def demo_crt_def)
qed

text \<open>A greeting in the last cell of the screen: it scrolls twice.\<close>

theorem kprintf_shows_text_witness:
  "\<exists>d' k'. kprintf 0xA55A 0x9000 0x9100 (\<lambda>_. 0) demo_crt demo_console = Some (1, d', k') \<and>
     displays d' (kmem k') (1920, drop 160 ((replicate 2000 0x20)[1999 := 0x48] @ 0x69 # replicate 159 0x20))"
proof -
  have "cstring (kmem demo_console) 0x9000 [0x48, 0x69, 0x0A]" by (simp add: demo_console_def)
  moreover have "fold term_put [0x48, 0x69, 0x0A] (1999, replicate 2000 0x20) =
      (1920, drop 160 ((replicate 2000 0x20)[1999 := 0x48] @ 0x69 # replicate 159 0x20))"
  proof -
    define X where "X = (replicate 2000 0x20 :: u8 list)[1999 := 0x48]"
    have len: "length X = 2000" by (simp add: X_def)
    have "term_put 0x48 (1999, replicate 2000 0x20) = (1920, drop 80 X @ replicate 80 0x20)"
      by (simp add: term_put_def term_plain_def term_scroll_def X_def)
    moreover have "term_put 0x69 (1920, drop 80 X @ replicate 80 0x20) = (1921, drop 80 X @ 0x69 # replicate 79 0x20)"
      by (simp add: term_put_def term_plain_def term_scroll_def list_update_append len replicate_Suc [of 79, simplified])
    moreover have "term_put 0x0A (1921, drop 80 X @ 0x69 # replicate 79 0x20) = (1920, drop 160 X @ 0x69 # replicate 159 0x20)"
      by (simp add: term_put_def term_plain_def term_scroll_def len replicate_add [of 79 80, simplified])
    ultimately show ?thesis unfolding X_def [symmetric] by (simp add: len)
  qed
  ultimately show ?thesis
    using kprintf_shows_text [OF demo_displays, of "0x9000" "[0x48, 0x69, 0x0A]" "0xA55A" "0x9100" "\<lambda>_. 0"] by auto
qed

section \<open>A defect\<close>

text \<open>A backspace in the first cell leaves the screen: the next character is stored below the display memory.\<close>

lemma backspace_leaves_screen:
  assumes "displays d (kmem k) (0, tx)" "c \<notin> {0, 0x08, 0x09, 0x0A, 0x0D}"
  shows "\<exists>d' k'. put_chars probe [0x08, c] d k = Some (d', k') \<and> kmem k' (Crtat d - 2) = c"
proof -
  have d: "crtat d = Crtat d" "Crtat d = 0xB8000 \<or> Crtat d = 0xB0000" using assms(1) by (auto simp: displays_def at_cell_def crt_defs)
  then show ?thesis using assms(2)
    by (auto simp: kputc_def kbmputc_def put_plain_def settle_def scroll_def screen_sizes crt_defs cursor_def Let_def screen_size_def)
qed

end
