(* ===== verification/Traps.thy ===== *)
theory Traps
  imports Console User
begin

text \<open>
  Exceptions that the kernel does not handle: the entry stubs of \<^verbatim>\<open>c/xint.s\<close> and \<^verbatim>\<open>c/intr.S\<close>, and \<^verbatim>\<open>trap\<close> of
  \<^verbatim>\<open>c/evec.c\<close>, which walks the stack, prints what it takes for the registers and loops for ever. A call of
  \<^verbatim>\<open>kprintf\<close> is its format and its arguments.
\<close>

unbundle bit_operations_syntax

section \<open>The entry stubs\<close>

definition push :: "u32 \<Rightarrow> addr \<times> memory \<Rightarrow> addr \<times> memory" where
  "push v s = (fst s - 4, store32 (snd s) (fst s - 4) v)"

text \<open>The processor's part: flags, code segment and instruction pointer, and for some exceptions an error code.\<close>

definition fault_frame :: "u32 option \<Rightarrow> regs \<Rightarrow> memory \<Rightarrow> addr \<times> memory" where
  "fault_frame err r m =
     (let s = push (r_eflags r) (r_esp r, m);
          s = push (r_cs r) s;
          s = push (r_eip r) s
      in case err of None \<Rightarrow> s | Some e \<Rightarrow> push e s)"

text \<open>
  \<^verbatim>\<open>_Xint\<close>\<open>n\<close>, the call in \<^verbatim>\<open>Xtrap\<close> and the first two instructions of \<^verbatim>\<open>trap\<close>, which leave the frame
  pointer that \<^verbatim>\<open>trap\<close> reads. \<open>ret\<close> is the return address of the call.
\<close>

definition xint :: "u32 \<Rightarrow> u32 \<Rightarrow> u32 \<Rightarrow> u32 \<Rightarrow> regs \<Rightarrow> addr \<times> memory \<Rightarrow> addr \<times> memory" where
  "xint n eax edx ret r s =
     (let s = push (r_ebp r) s;
          ebp = fst s;
          esp = fst s;
          s = push eax s;
          s = push (r_ecx r) s;
          s = push edx s;
          s = push (r_ebx r) s;
          s = push esp s;
          s = push ebp s;
          s = push (r_esi r) s;
          s = push (r_edi r) s;
          s = push n s;
          s = push ret s
      in push ebp s)"

section \<open>trap\<close>

type_synonym print = "string \<times> u32 list"

definition has_error_code :: "i32 \<Rightarrow> bool" where
  "has_error_code inum \<longleftrightarrow> inum = 8 \<or> (10 \<le> sint inum \<and> sint inum \<le> 14)"

fun dump_registers :: "string list \<Rightarrow> addr \<Rightarrow> memory \<Rightarrow> print list" where
  "dump_registers [] sp m = []"
| "dump_registers (name # names) sp m =
     (name @ '' %08X (%u)'' @ nl, [load32 m sp, load32 m sp]) # dump_registers names (sp - 4) m"

definition trap_report :: "addr \<Rightarrow> addr \<Rightarrow> i32 \<Rightarrow> addr \<Rightarrow> memory \<Rightarrow> print list" where
  "trap_report inames sp_addr inum fp m =
     (let sp = fp + 4 * 14;
          exception = (if sint inum < 16 then (''exception %d (%s)'' @ nl, [inum, load32 m (inames + 4 * inum)])
            else (''exception %d'' @ nl, [inum]));
          head = [(''trap!'' @ nl, []), exception, (''Address of sp %x value of sp %x'' @ nl, [sp_addr, sp]),
            (''eflags %X '', [load32 m sp]), (''CS: %X '', [load32 m (sp - 4)]), (''eip %X'' @ nl, [load32 m (sp - 8)])];
          sp = sp - 12;
          (code, sp) = (if has_error_code inum then ([(''error code %08x (%u)'' @ nl, [load32 m sp, load32 m sp])], sp - 4) else ([], sp));
          sp = sp - 4
      in head @ code @ [(''register dump:'' @ nl, [])] @
         dump_registers [''eax'', ''ecx'', ''edx'', ''ebx'', ''esp'', ''ebp'', ''esi'', ''edi''] sp m @
         [(nl @ ''Halting.....'' @ nl, [])])"

fun kprintfs :: "(string \<Rightarrow> addr) \<Rightarrow> 16 word \<Rightarrow> addr \<Rightarrow> (nat \<Rightarrow> u8) \<Rightarrow> print list \<Rightarrow> crt \<Rightarrow> kernel \<Rightarrow> (crt \<times> kernel) option" where
  "kprintfs lits probe va locals [] d k = Some (d, k)"
| "kprintfs lits probe va locals ((fmt, as) # ps) d k = do {
     (r, d, k) \<leftarrow> kprintf probe (lits fmt) va locals d (upd_mem (store_args va as) k);
     kprintfs lits probe va locals ps d k
   }"

text \<open>What \<^verbatim>\<open>trap\<close> does before it loops for ever.\<close>

definition trap_prints :: "(string \<Rightarrow> addr) \<Rightarrow> 16 word \<Rightarrow> addr \<Rightarrow> (nat \<Rightarrow> u8) \<Rightarrow> addr \<Rightarrow> addr \<Rightarrow> i32 \<Rightarrow> addr \<Rightarrow> crt \<Rightarrow> kernel \<Rightarrow> (crt \<times> kernel) option" where
  "trap_prints lits probe va locals inames sp_addr inum fp d k =
     kprintfs lits probe va locals (trap_report inames sp_addr inum fp (kmem k)) d (emit Disable k)"

section \<open>What is on the stack\<close>

definition stack :: "addr \<times> memory \<Rightarrow> u32 list \<Rightarrow> bool" where
  "stack s vs \<longleftrightarrow> words_at (snd s) (fst s) (length vs) ((!) vs)"

lemma cell_down: "cell (a - 4) (Suc j) = cell a j" "cell a 0 = a"
  by (simp_all add: cell_def)

lemma stack_push:
  assumes "stack s vs" "length vs < 2 ^ 20"
  shows "stack (push v s) (v # vs)"
  unfolding stack_def words_at_def
proof (intro allI impI)
  fix j
  assume j: "j < length (v # vs)"
  show "load32 (snd (push v s)) (cell (fst (push v s)) j) = (v # vs) ! j"
  proof (cases j)
    case (Suc i)
    have "far (cell (fst s - 4) 0) 4 (cell (fst s - 4) j) 4" by (rule cells_far) (use Suc j assms(2) in simp_all)
    then show ?thesis using Suc j assms(1) by (simp add: push_def cell_down load32_store32_far stack_def words_at_def)
  qed (simp add: push_def cell_down)
qed

lemma stack_nth: "stack s vs \<Longrightarrow> j < length vs \<Longrightarrow> load32 (snd s) (fst s + of_nat (4 * j)) = vs ! j"
  by (simp add: stack_def words_at_def cell_def)

lemma stack_empty: "stack s []"
  by (simp add: stack_def words_at_def)

definition trap_stack :: "u32 \<Rightarrow> u32 \<Rightarrow> u32 \<Rightarrow> u32 \<Rightarrow> addr \<Rightarrow> regs \<Rightarrow> u32 list" where
  "trap_stack n eax edx ret ebp r = [ebp, ret, n, r_edi r, r_esi r, ebp, ebp, r_ebx r, edx, r_ecx r, eax, r_ebp r]"

lemma fault_stack:
  "stack (fault_frame err r m) ((case err of None \<Rightarrow> [] | Some e \<Rightarrow> [e]) @ [r_eip r, r_cs r, r_eflags r])"
  "fst (fault_frame err r m) = r_esp r - (case err of None \<Rightarrow> 12 | Some _ \<Rightarrow> 16)"
proof -
  have f: "fst (push v s) = fst s - 4" for v s by (simp add: push_def)
  show "stack (fault_frame err r m) ((case err of None \<Rightarrow> [] | Some e \<Rightarrow> [e]) @ [r_eip r, r_cs r, r_eflags r])"
    unfolding fault_frame_def Let_def by (cases err; simp only: option.case append.simps; intro stack_push stack_empty; simp)
  show "fst (fault_frame err r m) = r_esp r - (case err of None \<Rightarrow> 12 | Some _ \<Rightarrow> 16)"
    by (simp add: fault_frame_def Let_def f split: option.split)
qed

lemma xint_stack:
  assumes "stack s vs" "length vs < 100"
  shows "stack (xint n eax edx ret r s) (trap_stack n eax edx ret (fst s - 4) r @ vs)"
    "fst (xint n eax edx ret r s) = fst s - 48"
proof -
  have f: "fst (push v s) = fst s - 4" for v s by (simp add: push_def)
  show "stack (xint n eax edx ret r s) (trap_stack n eax edx ret (fst s - 4) r @ vs)"
    unfolding xint_def Let_def trap_stack_def append.simps f
    by (intro stack_push assms(1)) (use assms(2) in simp_all)
  show "fst (xint n eax edx ret r s) = fst s - 48" by (simp add: xint_def Let_def f)
qed


definition register_lines :: "u32 list \<Rightarrow> print list" where
  "register_lines vs = map (\<lambda>(name, v). (name @ '' %08X (%u)'' @ nl, [v, v]))
     (zip [''eax'', ''ecx'', ''edx'', ''ebx'', ''esp'', ''ebp'', ''esi'', ''edi''] vs)"

text \<open>C20. For an exception without an error code, the dump of \<^verbatim>\<open>trap\<close> is right for the flags, code segment and instruction
  pointer that the processor pushed and for six of the eight registers, eax, ecx, edx, ebx, esi and edi, and wrong for two: in place of both esp and ebp it
  prints the frame pointer of the entry stub, which is 16 bytes below the interrupted stack pointer, and the interrupted ebp, which is
  on the stack, is skipped.\<close>

theorem trap_dump_correct:
  assumes "\<not> has_error_code n" "xint n eax edx ret r (fault_frame None r m) = (fp, m')"
  shows "drop 3 (trap_report inames sp_addr n fp m') =
    [(''eflags %X '', [r_eflags r]), (''CS: %X '', [r_cs r]), (''eip %X'' @ nl, [r_eip r]), (''register dump:'' @ nl, [])] @
    register_lines [eax, r_ecx r, edx, r_ebx r, r_esp r - 16, r_esp r - 16, r_esi r, r_edi r] @ [(nl @ ''Halting.....'' @ nl, [])]"
proof -
  let ?vs = "trap_stack n eax edx ret (r_esp r - 16) r @ [r_eip r, r_cs r, r_eflags r]"
  have "stack (fp, m') ?vs"
    using xint_stack(1) [OF fault_stack(1) [of None r m], of n eax edx ret r] fault_stack(2) [of None r m] assms(2) by simp
  then have "load32 m' (fp + of_nat (4 * j)) = ?vs ! j" if "j < 15" for j
    using stack_nth [of "(fp, m')" ?vs j] that by (simp add: trap_stack_def)
  note w = this [of 14] this [of 13] this [of 12] this [of 10] this [of 9] this [of 8] this [of 7] this [of 6] this [of 5] this [of 4] this [of 3]
  show ?thesis using assms(1) w by (simp add: trap_report_def Let_def register_lines_def trap_stack_def add.commute)
qed

text \<open>C34. For an exception with an error code every value is printed under the name of its neighbour: the walk over the
  stack starts a word too low, since the processor pushed the code below the instruction pointer and the first three words are
  read before the code is accounted for. The instruction pointer appears as CS, the error code as eip, ebp as the error code,
  ecx as eax, and so on to the number of the exception as edi.\<close>

theorem trap_dump_shifted:
  assumes "has_error_code n" "xint n eax edx ret r (fault_frame (Some e) r m) = (fp, m')"
  shows "drop 3 (trap_report inames sp_addr n fp m') =
    [(''eflags %X '', [r_cs r]), (''CS: %X '', [r_eip r]), (''eip %X'' @ nl, [e]),
     (''error code %08x (%u)'' @ nl, [r_ebp r, r_ebp r]), (''register dump:'' @ nl, [])] @
    register_lines [r_ecx r, edx, r_ebx r, r_esp r - 20, r_esp r - 20, r_esi r, r_edi r, n] @ [(nl @ ''Halting.....'' @ nl, [])]"
proof -
  let ?vs = "trap_stack n eax edx ret (r_esp r - 20) r @ [e, r_eip r, r_cs r, r_eflags r]"
  have "stack (fp, m') ?vs"
    using xint_stack(1) [OF fault_stack(1) [of "Some e" r m], of n eax edx ret r] fault_stack(2) [of "Some e" r m] assms(2) by simp
  then have "load32 m' (fp + of_nat (4 * j)) = ?vs ! j" if "j < 16" for j
    using stack_nth [of "(fp, m')" ?vs j] that by (simp add: trap_stack_def)
  note w = this [of 14] this [of 13] this [of 12] this [of 11] this [of 9] this [of 8] this [of 7] this [of 6] this [of 5] this [of 4] this [of 3] this [of 2]
  show ?thesis using assms(1) w by (simp add: trap_report_def Let_def register_lines_def trap_stack_def add.commute)
qed


definition fault_regs :: regs where
  "fault_regs = \<lparr>r_edi = 1, r_esi = 2, r_ebp = 3, r_esp = 0x9000, r_ebx = 5, r_ecx = 6, r_eip = 7, r_cs = 8, r_eflags = 9\<rparr>"

text \<open>An invalid opcode, exception 6, and a page fault, exception 14.\<close>

theorem trap_dump_correct_witness:
  "let (fp, m) = xint 6 10 11 0x4000 fault_regs (fault_frame None fault_regs (\<lambda>_. 0))
   in drop 3 (trap_report 0x5000 0x6000 6 fp m) =
     [(''eflags %X '', [9]), (''CS: %X '', [8]), (''eip %X'' @ nl, [7]), (''register dump:'' @ nl, [])] @
     register_lines [10, 6, 11, 5, 0x8FF0, 0x8FF0, 2, 1] @ [(nl @ ''Halting.....'' @ nl, [])]"
proof -
  obtain fp m where x: "xint 6 10 11 0x4000 fault_regs (fault_frame None fault_regs (\<lambda>_. 0)) = (fp, m)" by (rule prod.exhaust)
  have "\<not> has_error_code 6" by (simp add: has_error_code_def)
  from trap_dump_correct [OF this x, of "0x5000" "0x6000"] x show ?thesis by (simp add: fault_regs_def)
qed

theorem trap_dump_shifted_witness:
  "let (fp, m) = xint 14 10 11 0x4000 fault_regs (fault_frame (Some 4) fault_regs (\<lambda>_. 0))
   in drop 3 (trap_report 0x5000 0x6000 14 fp m) =
     [(''eflags %X '', [8]), (''CS: %X '', [7]), (''eip %X'' @ nl, [4]), (''error code %08x (%u)'' @ nl, [3, 3]), (''register dump:'' @ nl, [])] @
     register_lines [6, 11, 5, 0x8FEC, 0x8FEC, 2, 1, 14] @ [(nl @ ''Halting.....'' @ nl, [])]"
proof -
  obtain fp m where x: "xint 14 10 11 0x4000 fault_regs (fault_frame (Some 4) fault_regs (\<lambda>_. 0)) = (fp, m)" by (rule prod.exhaust)
  have "has_error_code 14" by (simp add: has_error_code_def)
  from trap_dump_shifted [OF this x, of "0x5000" "0x6000"] x show ?thesis by (simp add: fault_regs_def)
qed

end
