(* ===== verification/Lib_Stdio.thy ===== *)
theory Lib_Stdio
  imports Lib_Format Lib_Scan
begin

text \<open>
  The stdio wrappers of \<^verbatim>\<open>lib/libxc\<close>: \<^verbatim>\<open>puts\<close>, \<^verbatim>\<open>fputs\<close>, \<^verbatim>\<open>gets\<close>, \<^verbatim>\<open>fgets\<close>, \<^verbatim>\<open>printf\<close>, \<^verbatim>\<open>fprintf\<close>, and the
  character table \<^verbatim>\<open>ctype_.c\<close>. \<^verbatim>\<open>getc\<close> and \<^verbatim>\<open>putc\<close> are declared in the sources and not defined: they are
  arguments here, on a state of the devices of any type.
\<close>

unbundle bit_operations_syntax

text \<open>The calls that write: \<^verbatim>\<open>putc\<close>, besides those that read.\<close>

record 'd stdio_calls = "'d device_calls" +
  dev_putc :: "i32 \<Rightarrow> u8 \<Rightarrow> 'd \<Rightarrow> i32 \<times> 'd"

section \<open>puts, fputs\<close>

partial_function (option) fputs_loop :: "'d stdio_calls \<Rightarrow> i32 \<Rightarrow> memory \<Rightarrow> addr \<Rightarrow> i32 \<Rightarrow> 'd \<Rightarrow> (i32 \<times> 'd) option" where
  "fputs_loop calls dev m s r d =
     (let c = m s; s = s + 1
      in if c \<noteq> 0 then (case dev_putc calls dev c d of (r, d) \<Rightarrow> fputs_loop calls dev m s r d) else Some (r, d))"

definition fputs :: "'d stdio_calls \<Rightarrow> addr \<Rightarrow> i32 \<Rightarrow> memory \<Rightarrow> 'd \<Rightarrow> (i32 \<times> 'd) option" where
  "fputs calls s dev m d = fputs_loop calls dev m s 0 d"

definition puts :: "'d stdio_calls \<Rightarrow> addr \<Rightarrow> memory \<Rightarrow> 'd \<Rightarrow> (i32 \<times> 'd) option" where
  "puts calls s m d = do { (r, d) \<leftarrow> fputs_loop calls CONSOLE m s 0 d; Some (dev_putc calls CONSOLE 0x0A d) }"

section \<open>gets, fgets\<close>

definition EOF_gets :: i32 where "EOF_gets = 4"

partial_function (option) gets_loop :: "'d stdio_calls \<Rightarrow> addr \<Rightarrow> 'd \<Rightarrow> memory \<Rightarrow> (i32 \<times> addr \<times> 'd \<times> memory) option" where
  "gets_loop calls cs d m =
     (case dev_getc calls CONSOLE d of (c, d) \<Rightarrow>
        if c \<noteq> 0x0A \<and> c \<noteq> 0x0D \<and> c \<noteq> EOF_gets then gets_loop calls (cs + 1) d (m(cs := ucast c))
        else Some (c, cs, d, m))"

definition gets :: "'d stdio_calls \<Rightarrow> addr \<Rightarrow> 'd \<Rightarrow> memory \<Rightarrow> (addr \<times> 'd \<times> memory) option" where
  "gets calls s d m = do {
     (c, cs, d, m) \<leftarrow> gets_loop calls s d m;
     if c = EOF_gets \<and> cs = s then Some (0, d, m) else Some (s, d, m(cs := 0))
   }"

partial_function (option) fgets_loop :: "'d stdio_calls \<Rightarrow> i32 \<Rightarrow> i32 \<Rightarrow> i32 \<Rightarrow> addr \<Rightarrow> 'd \<Rightarrow> memory \<Rightarrow> (i32 \<times> addr \<times> 'd \<times> memory) option" where
  "fgets_loop calls dev n c cs d m =
     (let n = n - 1
      in if sint n > 0 then
           case dev_getc calls dev d of (c, d) \<Rightarrow>
             if sint c \<ge> 0 then
               let m = m(cs := ucast c); cs = cs + 1
               in if c = 0x0A then Some (c, cs, d, m) else fgets_loop calls dev n c cs d m
             else Some (c, cs, d, m)
         else Some (c, cs, d, m))"

definition fgets :: "'d stdio_calls \<Rightarrow> i32 \<Rightarrow> addr \<Rightarrow> i32 \<Rightarrow> 'd \<Rightarrow> memory \<Rightarrow> (addr \<times> 'd \<times> memory) option" where
  "fgets calls dev s n d m = do {
     (c, cs, d, m) \<leftarrow> fgets_loop calls dev n (- 88) s d m;
     if sint c < 0 \<and> cs = s then Some (0, d, m) else Some (s, d, m(cs := 0))
   }"

section \<open>printf, fprintf\<close>

definition put_all :: "'d stdio_calls \<Rightarrow> i32 \<Rightarrow> u8 list \<Rightarrow> 'd \<Rightarrow> 'd" where
  "put_all calls dev cs d = fold (\<lambda>c d. snd (dev_putc calls dev c d)) cs d"

definition printf :: "'d stdio_calls \<Rightarrow> addr \<Rightarrow> addr \<Rightarrow> (nat \<Rightarrow> u8) \<Rightarrow> 'd \<Rightarrow> memory \<Rightarrow> (i32 \<times> 'd \<times> memory) option" where
  "printf calls fmt args locals d m = do {
     s \<leftarrow> doprnt fmt \<lparr>f_mem = m, f_args = args, f_string = locals, f_out = [], f_dst = None\<rparr>;
     Some (1, put_all calls CONSOLE (f_out s) d, f_mem s)
   }"

text \<open>The parameters are on the stack; \<open>fmt_addr\<close> is the address of the parameter \<^verbatim>\<open>fmt\<close>.\<close>

definition fprintf :: "'d stdio_calls \<Rightarrow> i32 \<Rightarrow> addr \<Rightarrow> (nat \<Rightarrow> u8) \<Rightarrow> 'd \<Rightarrow> memory \<Rightarrow> (i32 \<times> 'd \<times> memory) option" where
  "fprintf calls dev fmt_addr locals d m =
     (let argAddr = fmt_addr
      in do {
        s \<leftarrow> doprnt (load32 m fmt_addr) \<lparr>f_mem = m, f_args = argAddr, f_string = locals, f_out = [], f_dst = None\<rparr>;
        Some (1, put_all calls dev (f_out s) d, f_mem s)
      })"

section \<open>Character classes\<close>

definition ctype_N :: u8 where "ctype_N = 0x04"
definition ctype_U :: u8 where "ctype_U = 0x01"
definition ctype_L :: u8 where "ctype_L = 0x02"
definition ctype_C :: u8 where "ctype_C = 0x08"
definition ctype_P :: u8 where "ctype_P = 0x10"
definition ctype_S :: u8 where "ctype_S = 0x20"
definition ctype_X :: u8 where "ctype_X = 0x40"

lemmas ctype_defs = ctype_N_def ctype_U_def ctype_L_def ctype_C_def ctype_P_def ctype_S_def ctype_X_def

text \<open>The entry of the end of input (\<^verbatim>\<open>_ctype_[0]\<close>), then one for each character.\<close>

definition ctype_table :: "u8 list" where
  "ctype_table = [0] @
     replicate 9 ctype_C @ replicate 5 ctype_S @ replicate 18 ctype_C @
     [ctype_S] @ replicate 15 ctype_P @
     replicate 10 ctype_N @ replicate 6 ctype_P @
     [ctype_P] @ replicate 6 (ctype_U OR ctype_X) @ replicate 20 ctype_U @ replicate 5 ctype_P @
     [ctype_P] @ replicate 6 (ctype_L OR ctype_X) @ replicate 20 ctype_L @ replicate 4 ctype_P @ [ctype_C]"

end
