(* ===== verification/Stdio_Properties.thy ===== *)
theory Stdio_Properties
  imports Lib_Stdio Ps_Properties
begin

text \<open>
  Properties of the stdio wrappers: the bounds of \<^verbatim>\<open>fgets\<close>, the lack of them in \<^verbatim>\<open>gets\<close>, the round trip of \<^verbatim>\<open>puts\<close>
  and \<^verbatim>\<open>gets\<close> through a device, what \<^verbatim>\<open>fprintf\<close> prints, and the classes of the character table.
\<close>

unbundle bit_operations_syntax

section \<open>fgets stays in its buffer\<close>

definition kept_outside :: "addr \<Rightarrow> nat \<Rightarrow> memory \<Rightarrow> memory \<Rightarrow> bool" where
  "kept_outside s n m m' \<longleftrightarrow> (\<forall>x. n \<le> unat (x - s) \<longrightarrow> m' x = m x)"

lemma kept_outside_refl [simp]: "kept_outside s n m m"
  by (simp add: kept_outside_def)

lemma kept_outside_upd: "kept_outside s n m m' \<Longrightarrow> unat (a - s) < n \<Longrightarrow> kept_outside s n m (m'(a := c))"
  by (auto simp: kept_outside_def)

lemma sint_pred: "sint n > 0 \<Longrightarrow> sint (n - 1) = sint n - 1" for n :: i32
proof -
  assume "sint n > 0"
  moreover have "sint n < 2 ^ 31" using sint_less [of n] by simp
  moreover have "sint (n - 1) = signed_take_bit 31 (sint n - 1)" by (simp add: sint_word_ariths)
  ultimately show ?thesis by (subst (asm) signed_take_bit_int_eq_self) auto
qed

lemma fgets_loop_bounded:
  assumes "unat (cs - s) + k < 2 ^ 31" "sint n = int (Suc k)"
  shows "\<exists>c' cs' d' m'. fgets_loop calls dev n c cs d m = Some (c', cs', d', m') \<and> unat (cs' - s) \<le> unat (cs - s) + k \<and>
    kept_outside s (unat (cs - s) + k) m m'"
  using assms
proof (induction k arbitrary: n c cs d m)
  case 0
  then show ?case using sint_pred [of n] by (subst fgets_loop.simps) (simp add: Let_def)
next
  case (Suc k)
  obtain c1 d1 where g: "dev_getc calls dev d = (c1, d1)" by fastforce
  have n: "sint (n - 1) = int (Suc k)" using sint_pred [of n] Suc.prems(2) by simp
  have "cs + 1 - s = (cs - s) + 1" by simp
  moreover have "unat ((cs - s) + 1) = Suc (unat (cs - s))" by (subst unat_word_ariths(1)) (use Suc.prems(1) in simp)
  ultimately have u: "unat (cs + 1 - s) = Suc (unat (cs - s))" by (simp only:)
  show ?case
  proof (cases "sint c1 \<ge> 0 \<and> c1 \<noteq> 0x0A")
    case True
    have "unat (cs + 1 - s) + k < 2 ^ 31" using u Suc.prems(1) by simp
    from Suc.IH [OF this n, of c1 d1 "m(cs := ucast c1)", unfolded u add_Suc_shift]
    obtain c' cs' d' m' where i: "fgets_loop calls dev (n - 1) c1 (cs + 1) d1 (m(cs := ucast c1)) = Some (c', cs', d', m')"
      "unat (cs' - s) \<le> unat (cs - s) + Suc k" "kept_outside s (unat (cs - s) + Suc k) (m(cs := ucast c1)) m'" by blast
    moreover have "kept_outside s (unat (cs - s) + Suc k) m m'" using i(3) by (auto simp: kept_outside_def split: if_splits)
    ultimately show ?thesis using True n g by (subst fgets_loop.simps) (simp add: Let_def)
  next
    case False
    then show ?thesis using n g u by (subst fgets_loop.simps) (auto simp: Let_def kept_outside_upd)
  qed
qed

text \<open>C33. \<^verbatim>\<open>fgets\<close> with a positive size returns, whatever the device delivers; it changes no byte outside the buffer of that
  size, and unless it returns the null pointer there is a terminator in the buffer.\<close>

theorem fgets_bounded:
  assumes "0 < sint n"
  shows "\<exists>p d' m'. fgets calls dev s n d m = Some (p, d', m') \<and> p \<in> {0, s} \<and>
    (\<forall>x. unat n \<le> unat (x - s) \<longrightarrow> m' x = m x) \<and> (p = 0 \<or> s = 0 \<or> (\<exists>i<unat n. m' (s + of_nat i) = 0))"
proof -
  obtain k where k: "sint n = int (Suc k)" using assms by (metis gr0_implies_Suc zero_less_imp_eq_int of_nat_0_less_iff)
  have un: "unat n = Suc k" using sint_small [of n] k assms by (metis less_imp_le of_nat_eq_iff)
  have "Suc k < 2 ^ 31" using sint_less [of n] k by simp
  then have "unat (s - s) + k < 2 ^ 31" by simp
  from fgets_loop_bounded [OF this k, of calls dev "- 88" d m]
  obtain c' cs' d' m' where l: "fgets_loop calls dev n (- 88) s d m = Some (c', cs', d', m')" "unat (cs' - s) \<le> k"
    "kept_outside s k m m'" by auto
  have "m' x = m x" if "unat n \<le> unat (x - s)" for x using l(3) that un by (simp add: kept_outside_def)
  moreover have "x \<noteq> cs'" if "unat n \<le> unat (x - s)" for x using l(2) that un by auto
  moreover have "s + of_nat (unat (cs' - s)) = cs'" by simp
  ultimately show ?thesis using l un
    by (auto simp: fgets_def intro!: exI [of _ "unat (cs' - s)"])
qed

section \<open>gets has no end\<close>

text \<open>
  The loop ends with a newline, a carriage return or 4, and at nothing else: a \<^verbatim>\<open>getc\<close> that reports the end of
  its input with a negative number, as \<^verbatim>\<open>fgets\<close> expects it, makes \<^verbatim>\<open>gets\<close> write on without end.
\<close>

lemma gets_loop_ends:
  "gets_loop calls cs d m = Some y \<Longrightarrow> \<exists>d. fst (dev_getc calls CONSOLE d) \<in> {0x0A, 0x0D, EOF_gets}"
proof (rule gets_loop.raw_induct [rotated, where P = "\<lambda>calls cs d m y. \<exists>d. fst (dev_getc calls CONSOLE d) \<in> {0x0A, 0x0D, EOF_gets}"])
  fix f and calls :: "('a, 'b) stdio_calls_scheme" and cs d m y
  assume IH: "\<And>calls cs d m y. f calls cs d m = Some y \<Longrightarrow> \<exists>d. fst (dev_getc calls CONSOLE d) \<in> {0x0A, 0x0D, EOF_gets}"
    and step: "(case dev_getc calls CONSOLE d of (c, d) \<Rightarrow>
        if c \<noteq> 0x0A \<and> c \<noteq> 0x0D \<and> c \<noteq> EOF_gets then f calls (cs + 1) d (m(cs := ucast c)) else Some (c, cs, d, m)) = Some y"
  show "\<exists>d. fst (dev_getc calls CONSOLE d) \<in> {0x0A, 0x0D, EOF_gets}"
  proof (cases "fst (dev_getc calls CONSOLE d) \<in> {0x0A, 0x0D, EOF_gets}")
    case False
    obtain c' d' where g: "dev_getc calls CONSOLE d = (c', d')" by fastforce
    then have "f calls (cs + 1) d' (m(cs := ucast c')) = Some y" using step False by simp
    then show ?thesis by (rule IH)
  qed blast
qed

lemma gets_never_ends:
  assumes "\<And>d. fst (dev_getc calls CONSOLE d) \<notin> {0x0A, 0x0D, EOF_gets}"
  shows "gets calls s d m = None"
proof (cases "gets_loop calls s d m")
  case (Some y)
  then show ?thesis using gets_loop_ends [OF Some] assms by blast
qed (simp add: gets_def)

section \<open>What is put is got\<close>

definition is_pipe :: "'d stdio_calls \<Rightarrow> ('d \<Rightarrow> u8 list) \<Rightarrow> bool" where
  "is_pipe calls contents \<longleftrightarrow>
     (\<forall>c d. contents (snd (dev_putc calls CONSOLE c d)) = contents d @ [c]) \<and>
     (\<forall>c cs d. contents d = c # cs \<longrightarrow> fst (dev_getc calls CONSOLE d) = ucast c \<and> contents (snd (dev_getc calls CONSOLE d)) = cs)"

lemma ucast_byte: "ucast (ucast c :: i32) = (c :: u8)"
  by (rule bit_word_eqI) (simp add: bit_simps)

lemma pipe_put: "is_pipe calls contents \<Longrightarrow> dev_putc calls CONSOLE c d = (r, d') \<Longrightarrow> contents d' = contents d @ [c]"
  by (metis is_pipe_def snd_conv)

lemma pipe_get:
  "is_pipe calls contents \<Longrightarrow> contents d = c # cs \<Longrightarrow> dev_getc calls CONSOLE d = (r, d') \<Longrightarrow> r = ucast c \<and> contents d' = cs"
  by (metis is_pipe_def fst_conv snd_conv)

lemma fputs_loop_pipe:
  assumes "is_pipe calls contents" "cstring m s cs"
  shows "\<exists>r' d'. fputs_loop calls CONSOLE m s r d = Some (r', d') \<and> contents d' = contents d @ cs"
  using assms(2)
proof (induction cs arbitrary: s r d)
  case Nil
  then show ?case by (subst fputs_loop.simps) simp
next
  case (Cons c cs)
  obtain r1 d1 where p: "dev_putc calls CONSOLE c d = (r1, d1)" by fastforce
  have "contents d1 = contents d @ [c]" by (rule pipe_put [OF assms(1) p])
  then show ?case using Cons.IH [of "s + 1" r1 d1] Cons.prems p by (subst fputs_loop.simps) auto
qed

lemma gets_loop_pipe:
  assumes "is_pipe calls contents" "contents d = cs @ [0x0A]" "set cs \<inter> {0x0A, 0x0D, 0x04} = {}"
  shows "\<exists>d'. gets_loop calls t d m = Some (0x0A, t + of_nat (length cs), d', write_bytes t cs m) \<and> contents d' = []"
  using assms(2,3)
proof (induction cs arbitrary: t d m)
  case Nil
  obtain c1 d1 where g: "dev_getc calls CONSOLE d = (c1, d1)" by fastforce
  then have "c1 = 0x0A" "contents d1 = []" using pipe_get [OF assms(1) _ g, of "0x0A" "[]"] Nil by simp_all
  then show ?case using g by (subst gets_loop.simps) simp
next
  case (Cons c cs)
  obtain c1 d1 where g: "dev_getc calls CONSOLE d = (c1, d1)" by fastforce
  then have c: "c1 = ucast c" "contents d1 = cs @ [0x0A]" using pipe_get [OF assms(1) _ g, of c "cs @ [0x0A]"] Cons.prems(1) by simp_all
  have "ucast c \<noteq> (0x0A :: i32) \<and> ucast c \<noteq> (0x0D :: i32) \<and> ucast c \<noteq> (4 :: i32)"
  proof -
    have "ucast c \<noteq> (z :: i32)" if "c \<noteq> ucast z" for z using that ucast_byte [of c] by auto
    from this [of 10] this [of 13] this [of 4] show ?thesis using Cons.prems(2) by auto
  qed
  moreover note ucast_byte [of c]
  moreover obtain d' where "gets_loop calls (t + 1) d1 (m(t := c)) = Some (0x0A, t + 1 + of_nat (length cs), d', write_bytes (t + 1) cs (m(t := c)))"
    "contents d' = []" using Cons.IH [OF c(2), of "t + 1" "m(t := c)"] Cons.prems(2) by (simp del: fun_upd_apply) blast
  ultimately show ?case using g c(1) by (subst gets_loop.simps) (simp add: EOF_gets_def add.assoc del: fun_upd_apply)
qed

text \<open>On a device that delivers what was written to it, a string of fewer than 2 to the 32 characters without the characters that end a line
  (newline, carriage return, control-D), written by \<^verbatim>\<open>puts\<close>, is read back by \<^verbatim>\<open>gets\<close> into any buffer; it takes all that \<^verbatim>\<open>puts\<close> wrote
  and changes no byte beyond the string and its terminator.\<close>

theorem puts_gets_roundtrip:
  assumes "is_pipe calls contents" "contents d = []" "cstring m s cs" "set cs \<inter> {0x0A, 0x0D, 0x04} = {}" "length cs < 2 ^ 32"
  shows "\<exists>r d1 d2 m'. puts calls s m d = Some (r, d1) \<and> gets calls t d1 m = Some (t, d2, m') \<and> cstring m' t cs \<and>
    contents d2 = [] \<and> (\<forall>x. length cs < unat (x - t) \<longrightarrow> m' x = m x)"
proof -
  obtain r0 d0 where p: "fputs_loop calls CONSOLE m s 0 d = Some (r0, d0)" "contents d0 = cs"
    using fputs_loop_pipe [OF assms(1,3), of 0 d] assms(2) by auto
  obtain r d1 where q: "dev_putc calls CONSOLE 0x0A d0 = (r, d1)" by fastforce
  from pipe_put [OF assms(1) q] have "contents d1 = cs @ [0x0A]" by (simp add: p(2))
  from gets_loop_pipe [OF assms(1) this assms(4), of t m]
  obtain d2 where g: "gets_loop calls t d1 m = Some (0x0A, t + of_nat (length cs), d2, write_bytes t cs m)" "contents d2 = []" by blast
  let ?m = "(write_bytes t cs m)(t + of_nat (length cs) := 0)"
  have l: "unat (of_nat (length cs) :: u32) = length cs" using assms(5) by (simp add: unat_of_nat)
  have w: "write_bytes t cs m x = (if unat (x - t) < length cs then cs ! unat (x - t) else m x)" for x
    by (rule write_bytes_apply) (use assms(5) in simp)
  have "cstring ?m t cs"
  proof (rule cstringI)
    fix i assume i: "i < length cs"
    then have "unat (of_nat i :: u32) = i" using assms(5) by (simp add: unat_of_nat)
    moreover have "of_nat i \<noteq> (of_nat (length cs) :: u32)" using i l calculation by auto
    ultimately show "?m (t + of_nat i) = cs ! i \<and> cs ! i \<noteq> 0" using i cstring_nonzero [OF assms(3)] by (auto simp: w in_set_conv_nth)
  qed simp
  moreover have "?m x = m x" if "length cs < unat (x - t)" for x using that l by (auto simp: w)
  moreover have "gets calls t d1 m = Some (t, d2, ?m)" using g(1) by (simp add: gets_def EOF_gets_def)
  ultimately show ?thesis using p(1) q g(2) by (auto simp: puts_def)
qed

section \<open>A device to read and write\<close>

definition pipe_calls :: "u8 list stdio_calls" where
  "pipe_calls = \<lparr>dev_getc = \<lambda>dev d. (case d of [] \<Rightarrow> (- 1, []) | c # cs \<Rightarrow> (ucast c, cs)), dev_control = \<lambda>dev f d. (0, d),
     dev_putc = \<lambda>dev c d. (ucast c, d @ [c])\<rparr>"

lemma pipe_calls_pipe: "is_pipe pipe_calls (\<lambda>d. d)"
  by (simp add: is_pipe_def pipe_calls_def)

theorem puts_gets_roundtrip_witness:
  "\<exists>r d1 d2 m'. puts pipe_calls 0x1000 ((\<lambda>_. 0)(0x1000 := 0x68, 0x1001 := 0x69)) [] = Some (r, d1) \<and>
     gets pipe_calls 0x2000 d1 ((\<lambda>_. 0)(0x1000 := 0x68, 0x1001 := 0x69)) = Some (0x2000, d2, m') \<and> cstring m' 0x2000 [0x68, 0x69] \<and> d2 = []"
proof -
  have "cstring ((\<lambda>_. 0)(0x1000 := 0x68, 0x1001 := 0x69)) 0x1000 [0x68, 0x69]" by simp
  from puts_gets_roundtrip [OF pipe_calls_pipe refl this, of "0x2000"] show ?thesis by simp blast
qed

theorem fgets_bounded_witness:
  "\<exists>p d' m'. fgets pipe_calls 1 0x1000 3 [0x68, 0x69, 0x0A] (\<lambda>_. 7) = Some (p, d', m') \<and> p \<in> {0, 0x1000} \<and>
     (\<forall>x. 3 \<le> unat (x - 0x1000) \<longrightarrow> m' x = 7)"
  using fgets_bounded [of 3 pipe_calls 1 "0x1000" "[0x68, 0x69, 0x0A]" "\<lambda>_. 7"] by auto

section \<open>fprintf\<close>

text \<open>The arguments are taken from the address of the format: the first one printed is the format itself.\<close>

lemma fprintf_prints_format:
  assumes "cstring m fmt [0x25, 0x73]" "load32 m a = fmt"
  shows "fprintf calls dev a locals d m = Some (1, put_all calls dev [0x25, 0x73] d, m)"
proof -
  let ?s = "\<lparr>f_mem = m, f_args = a, f_string = locals, f_out = [], f_dst = None\<rparr>"
  have m: "m fmt = 0x25" "m (fmt + 1) = 0x73" "m (fmt + 1 + 1) = 0" using assms(1) by simp_all
  have p: "f_mem (fold putc ds s) = f_mem s" "f_dst (fold putc ds s) = None" if "f_dst s = None" for ds s
    using that by (induction ds arbitrary: s) (simp_all add: putc_def)
  have "directive (fmt + 1) ?s = Some (Some (fmt + 1 + 1), fold putc (padded 0 [0x25, 0x73]) (?s\<lparr>f_args := f_args ?s + 4\<rparr>))"
  proof (rule directive_width_s)
    show "parse_number (f_mem ?s) (fmt + 1) 0 = Some (of_nat 0, fmt + 1)" using m by (subst parse_number.simps) (simp add: is_digit_def)
    show "cstring (f_mem ?s) (cur_arg ?s) [0x25, 0x73]" using assms by (simp add: cur_arg_def)
  qed (use m p in simp_all)
  moreover have "doprnt (fmt + 1 + 1) s = Some s" if "f_mem s (fmt + 1 + 1) = 0" for s using that by (subst doprnt.simps) (simp add: Let_def)
  ultimately have "doprnt fmt ?s = Some (?s\<lparr>f_args := a + 4, f_out := [0x25, 0x73]\<rparr>)"
    using m by (subst doprnt.simps) (simp add: padded_def putc_def)
  then show ?thesis using assms(2) by (simp add: fprintf_def)
qed

section \<open>Character classes\<close>

lemma ctype_classes:
  "\<forall>c \<in> set [0..<128].
     (ctype_table ! Suc c AND ctype_N \<noteq> 0) = (0x30 \<le> c \<and> c \<le> 0x39) \<and>
     (ctype_table ! Suc c AND ctype_U \<noteq> 0) = (0x41 \<le> c \<and> c \<le> 0x5A) \<and>
     (ctype_table ! Suc c AND ctype_L \<noteq> 0) = (0x61 \<le> c \<and> c \<le> 0x7A) \<and>
     (ctype_table ! Suc c AND ctype_S \<noteq> 0) = (0x09 \<le> c \<and> c \<le> 0x0D \<or> c = 0x20)"
  by code_simp

end
