(* ===== verification/Lib_Float.thy ===== *)
theory Lib_Float
  imports Lib_Scan Complex_Main
begin

text \<open>
  The floating-point conversions of the library: \<^verbatim>\<open>lib/libxc/atof.c\<close> and \<^verbatim>\<open>ecvt.c\<close>. How a double is rounded
  depends on the processor's mode and on where the compiler keeps it: the operations on doubles are an
  argument of the functions here.
\<close>

unbundle bit_operations_syntax

section \<open>Operations on doubles\<close>

text \<open>
  The operations of the type \<^verbatim>\<open>double\<close> that the code uses, on any type: constants of the text, conversions from
  and to \<^verbatim>\<open>int\<close>, arithmetic, comparisons, and \<^verbatim>\<open>ldexp\<close> and \<^verbatim>\<open>modf\<close>, which are not under src (\<^verbatim>\<open>modf\<close> gives the fraction and
  the whole part).
\<close>

record 'f double_ops =
  d_lit :: "rat \<Rightarrow> 'f"
  d_of_int :: "i32 \<Rightarrow> 'f"
  d_to_int :: "'f \<Rightarrow> i32"
  d_add :: "'f \<Rightarrow> 'f \<Rightarrow> 'f"
  d_mul :: "'f \<Rightarrow> 'f \<Rightarrow> 'f"
  d_div :: "'f \<Rightarrow> 'f \<Rightarrow> 'f"
  d_neg :: "'f \<Rightarrow> 'f"
  d_less :: "'f \<Rightarrow> 'f \<Rightarrow> bool"
  d_eq :: "'f \<Rightarrow> 'f \<Rightarrow> bool"
  d_ldexp :: "'f \<Rightarrow> i32 \<Rightarrow> 'f"
  d_modf :: "'f \<Rightarrow> 'f \<times> 'f"

section \<open>atof\<close>

definition twoe56 :: rat where "twoe56 = 72057594037927936"
definition exp5 :: "rat list" where "exp5 = [5, 25, 625, 390625, 152587890625, 23232710361480712890625]"

partial_function (option) atof_blanks :: "memory \<Rightarrow> addr \<Rightarrow> (i32 \<times> addr) option" where
  "atof_blanks m p = (let c = char_int m p; p = p + 1 in if c = 0x20 then atof_blanks m p else Some (c, p))"

partial_function (option) atof_whole :: "'f double_ops \<Rightarrow> memory \<Rightarrow> addr \<Rightarrow> 'f \<Rightarrow> i32 \<Rightarrow> (i32 \<times> addr \<times> 'f \<times> i32) option" where
  "atof_whole D m p fl ex =
     (let c = char_int m p; p = p + 1
      in if isdigit c then
           if d_less D fl (d_lit D twoe56)
           then atof_whole D m p (d_add D (d_mul D (d_lit D 10) fl) (d_of_int D (c - 0x30))) ex
           else atof_whole D m p fl (ex + 1)
         else Some (c, p, fl, ex))"

partial_function (option) atof_fraction :: "'f double_ops \<Rightarrow> memory \<Rightarrow> addr \<Rightarrow> 'f \<Rightarrow> i32 \<Rightarrow> (i32 \<times> addr \<times> 'f \<times> i32) option" where
  "atof_fraction D m p fl ex =
     (let c = char_int m p; p = p + 1
      in if isdigit c then
           if d_less D fl (d_lit D twoe56)
           then atof_fraction D m p (d_add D (d_mul D (d_lit D 10) fl) (d_of_int D (c - 0x30))) (ex - 1)
           else atof_fraction D m p fl ex
         else Some (c, p, fl, ex))"

partial_function (option) atof_exponent :: "memory \<Rightarrow> addr \<Rightarrow> i32 \<Rightarrow> (addr \<times> i32) option" where
  "atof_exponent m p eexp =
     (let c = char_int m p; p = p + 1
      in if isdigit c then atof_exponent m p (10 * eexp + (c - 0x30)) else Some (p, eexp))"

fun atof_power :: "'f double_ops \<Rightarrow> rat list \<Rightarrow> i32 \<Rightarrow> 'f \<Rightarrow> 'f" where
  "atof_power D [] ex flexp = flexp"
| "atof_power D (x # xs) ex flexp =
     (let flexp = (if ex AND 1 \<noteq> 0 then d_mul D flexp (d_lit D x) else flexp);
          ex = signed_drop_bit 1 ex
      in if ex = 0 then flexp else atof_power D xs ex flexp)"

definition atof :: "'f double_ops \<Rightarrow> memory \<Rightarrow> addr \<Rightarrow> 'f option" where
  "atof D m p = do {
     (c, p) \<leftarrow> atof_blanks m p;
     let neg = (if c = 0x2D then - 1 else 1 :: i32);
     let p = (if c = 0x2D \<or> c = 0x2B then p else p - 1);
     (c, p, fl, ex) \<leftarrow> atof_whole D m p (d_lit D 0) 0;
     (c, p, fl, ex) \<leftarrow> (if c = 0x2E then atof_fraction D m p fl ex else Some (c, p, fl, ex));
     ex \<leftarrow> (if c = 0x45 \<or> c = 0x65 then do {
         let c = char_int m p;
         let p = p + 1;
         let negexp = (if c = 0x2D then - 1 else 1 :: i32);
         let p = (if c = 0x2B \<or> c = 0x2D then p else p - 1);
         (p, eexp) \<leftarrow> atof_exponent m p 0;
         let eexp = (if sint negexp < 0 then - eexp else eexp);
         Some (ex + eexp)
       } else Some ex);
     let bexp = ex;
     let ex = (if sint ex < 0 then - ex else ex);
     let flexp = atof_power D exp5 ex (d_lit D 1);
     let fl = (if sint bexp < 0 then d_div D fl flexp else d_mul D fl flexp);
     let fl = d_ldexp D fl bexp;
     Some (if sint neg < 0 then d_neg D fl else fl)
   }"

section \<open>ecvt, fcvt\<close>

definition NDIG :: nat where "NDIG = 80"

text \<open>
  The digits go into a static array of 80 bytes at \<open>buf\<close>: those of the whole part from its end downward, then
  moved to its begin.
\<close>

partial_function (option) cvt_whole :: "'f double_ops \<Rightarrow> 'f \<Rightarrow> addr \<Rightarrow> i32 \<Rightarrow> memory \<Rightarrow> (addr \<times> i32 \<times> memory) option" where
  "cvt_whole D fi p1 r2 m =
     (if \<not> d_eq D fi (d_lit D 0) then
        let (fj, fi) = d_modf D (d_div D fi (d_lit D 10));
            p1 = p1 - 1;
            m = m(p1 := ucast (d_to_int D (d_mul D (d_add D fj (d_lit D (3 / 100))) (d_lit D 10)) + 0x30))
        in cvt_whole D fi p1 (r2 + 1) m
      else Some (p1, r2, m))"

partial_function (option) cvt_move :: "addr \<Rightarrow> addr \<Rightarrow> addr \<Rightarrow> memory \<Rightarrow> (addr \<times> memory) option" where
  "cvt_move end p p1 m = (if p1 < end then cvt_move end (p + 1) (p1 + 1) (m(p := m p1)) else Some (p, m))"

partial_function (option) cvt_small :: "'f double_ops \<Rightarrow> 'f \<Rightarrow> i32 \<Rightarrow> ('f \<times> i32) option" where
  "cvt_small D arg r2 =
     (let fj = d_mul D arg (d_lit D 10)
      in if d_less D fj (d_lit D 1) then cvt_small D fj (r2 - 1) else Some (arg, r2))"

partial_function (option) cvt_fraction :: "'f double_ops \<Rightarrow> addr \<Rightarrow> addr \<Rightarrow> 'f \<Rightarrow> addr \<Rightarrow> memory \<Rightarrow> (addr \<times> memory) option" where
  "cvt_fraction D p1 end arg p m =
     (if p \<le> p1 \<and> p < end then
        let (arg, fj) = d_modf D (d_mul D arg (d_lit D 10))
        in cvt_fraction D p1 end arg (p + 1) (m(p := ucast (d_to_int D fj + 0x30)))
      else Some (p, m))"

partial_function (option) cvt_round :: "addr \<Rightarrow> addr \<Rightarrow> bool \<Rightarrow> addr \<Rightarrow> addr \<Rightarrow> memory \<Rightarrow> (addr \<times> memory) option" where
  "cvt_round buf decpt eflag p1 p m =
     (if sint (scast (m p1) :: i32) > 0x39 then
        let m = m(p1 := 0x30)
        in if buf < p1 then cvt_round buf decpt eflag (p1 - 1) p (m(p1 - 1 := m (p1 - 1) + 1))
           else
             let m = m(p1 := 0x31);
                 m = store32 m decpt (load32 m decpt + 1);
                 m = (if \<not> eflag \<and> buf < p then m(p := 0x30) else m);
                 p = (if \<not> eflag then p + 1 else p)
             in cvt_round buf decpt eflag p1 p m
      else Some (p, m))"

definition cvt :: "'f double_ops \<Rightarrow> addr \<Rightarrow> 'f \<Rightarrow> i32 \<Rightarrow> addr \<Rightarrow> addr \<Rightarrow> bool \<Rightarrow> memory \<Rightarrow> (addr \<times> memory) option" where
  "cvt D buf arg ndigits decpt sign eflag m = do {
     let ndigits = (if sint ndigits < 0 then 0 else ndigits);
     let ndigits = (if int NDIG - 1 \<le> sint ndigits then of_nat (NDIG - 2) else ndigits);
     let end = buf + of_nat NDIG;
     let m = store32 m sign 0;
     let negative = d_less D arg (d_lit D 0);
     let m = (if negative then store32 m sign 1 else m);
     let arg = (if negative then d_neg D arg else arg);
     let (arg, fi) = d_modf D arg;
     (p, arg, r2, m) \<leftarrow>
       (if \<not> d_eq D fi (d_lit D 0) then do {
          (p1, r2, m) \<leftarrow> cvt_whole D fi end 0 m;
          (p, m) \<leftarrow> cvt_move end buf p1 m;
          Some (p, arg, r2, m)
        } else if d_less D (d_lit D 0) arg then do {
          (arg, r2) \<leftarrow> cvt_small D arg 0;
          Some (buf, arg, r2, m)
        } else Some (buf, arg, 0, m));
     let p1 = buf + ndigits;
     let p1 = (if \<not> eflag then p1 + r2 else p1);
     let m = store32 m decpt r2;
     if p1 < buf then Some (buf, m(buf := 0))
     else do {
       (p, m) \<leftarrow> cvt_fraction D p1 end arg p m;
       if end \<le> p1 then Some (buf, m(end - 1 := 0))
       else do {
         let p = p1;
         let m = m(p1 := m p1 + 5);
         (p, m) \<leftarrow> cvt_round buf decpt eflag p1 p m;
         Some (buf, m(p := 0))
       }
     }
   }"

definition ecvt :: "'f double_ops \<Rightarrow> addr \<Rightarrow> 'f \<Rightarrow> i32 \<Rightarrow> addr \<Rightarrow> addr \<Rightarrow> memory \<Rightarrow> (addr \<times> memory) option" where
  "ecvt D buf arg ndigits decpt sign m = cvt D buf arg ndigits decpt sign True m"

definition fcvt :: "'f double_ops \<Rightarrow> addr \<Rightarrow> 'f \<Rightarrow> i32 \<Rightarrow> addr \<Rightarrow> addr \<Rightarrow> memory \<Rightarrow> (addr \<times> memory) option" where
  "fcvt D buf arg ndigits decpt sign m = cvt D buf arg ndigits decpt sign False m"

end
