(* ===== verification/Float_Properties.thy ===== *)
theory Float_Properties
  imports Lib_Float Lib_Properties
begin

text \<open>What \<^verbatim>\<open>atof\<close> computes on integers, and its table of powers of five.\<close>

unbundle bit_operations_syntax

definition exact :: "rat \<Rightarrow> bool" where
  "exact q \<longleftrightarrow> (\<exists>z. q = of_int z \<and> \<bar>z\<bar> \<le> 2 ^ 53) \<or> q = 2 ^ 56"

text \<open>
  What any double arithmetic does: integers of up to 53 bits, and 2 to the 56, are represented exactly, and an operation on
  such numbers whose result is such a number is exact.
\<close>

definition exact_on_integers :: "'f double_ops \<Rightarrow> ('f \<Rightarrow> rat) \<Rightarrow> bool" where
  "exact_on_integers D val \<longleftrightarrow>
     (\<forall>q. exact q \<longrightarrow> val (d_lit D q) = q) \<and>
     (\<forall>c. val (d_of_int D c) = of_int (sint c)) \<and>
     (\<forall>x y. exact (val x) \<and> exact (val y) \<and> exact (val x + val y) \<longrightarrow> val (d_add D x y) = val x + val y) \<and>
     (\<forall>x y. exact (val x) \<and> exact (val y) \<and> exact (val x * val y) \<longrightarrow> val (d_mul D x y) = val x * val y) \<and>
     (\<forall>x. exact (val x) \<longrightarrow> val (d_neg D x) = - val x) \<and>
     (\<forall>x y. exact (val x) \<and> exact (val y) \<longrightarrow> d_less D x y = (val x < val y)) \<and>
     (\<forall>x. exact (val x) \<longrightarrow> val (d_ldexp D x 0) = val x)"

lemma exact_nat: "n \<le> 2 ^ 53 \<Longrightarrow> exact (of_nat n)"
  unfolding exact_def by (intro disjI1 exI [of _ "int n"]) simp

fun number_of :: "u8 list \<Rightarrow> nat \<Rightarrow> nat" where
  "number_of [] n = n"
| "number_of (c # cs) n = number_of cs (10 * n + (unat c - 0x30))"

lemma exact_twoe56: "exact twoe56"
  by (simp add: exact_def twoe56_def)

lemma number_of_mono: "n \<le> number_of cs n"
  by (induction cs n rule: number_of.induct) auto

lemma number_of_append: "number_of (cs @ ds) n = number_of ds (number_of cs n)"
  by (induction cs n rule: number_of.induct) auto

lemma number_of_decimal: "number_of (decimal n) 0 = n"
proof (induction n rule: decimal.induct)
  case (1 n)
  have d: "unat (digit k) - 0x30 = k" if "k < 10" for k using ten_cases [OF that] by (elim disjE) (simp_all add: digit_def)
  show ?case
  proof (cases "n < 10")
    case True
    then show ?thesis by (subst decimal.simps) (simp add: d)
  next
    case False
    then have "number_of (decimal n) 0 = number_of [digit (n mod 10)] (number_of (decimal (n div 10)) 0)"
      by (subst decimal.simps) (simp add: number_of_append)
    then show ?thesis using 1 False by (simp add: d)
  qed
qed

lemma digit_int:
  assumes "is_digit c"
  shows "isdigit (scast c)" "sint (scast c - 0x30 :: i32) = int (unat c - 0x30)"
proof -
  define z where "z = nat (sint c - 0x30)"
  have "z < 10" "sint c = 0x30 + int z" using assms unfolding is_digit_def z_def by linarith+
  moreover have "c = of_int (sint c)" by simp
  ultimately have "z < 10" "c = digit z" by (simp_all add: digit_def del: of_int_sint)
  then obtain d where d: "d < 10" "c = digit d" by blast
  show "isdigit (scast c)" "sint (scast c - 0x30 :: i32) = int (unat c - 0x30)"
    unfolding d(2) using ten_cases [OF d(1)] by (elim disjE; simp add: digit_def isdigit_def)+
qed

lemma atof_whole_digits:
  assumes "exact_on_integers D val" "cstring m p (cs @ rest)" "\<forall>c\<in>set cs. is_digit c" "rest = [] \<or> \<not> isdigit (scast (hd rest))"
    and "val fl = of_nat n" "number_of cs n \<le> 2 ^ 53"
  shows "\<exists>v. atof_whole D m p fl ex = Some (if rest = [] then 0 else scast (hd rest), p + of_nat (length cs) + 1, v, ex) \<and>
    val v = of_nat (number_of cs n)"
  using assms(2-)
proof (induction cs arbitrary: p fl n)
  case Nil
  have "m p = (if rest = [] then 0 else hd rest)" using Nil(1) by (cases rest) auto
  then show ?case using Nil(3,4) by (subst atof_whole.simps) (auto simp: char_int_def isdigit_def Let_def)
next
  case (Cons c cs)
  define d where "d = unat c - 0x30"
  have c: "is_digit c" "m p = c" "cstring m (p + 1) (cs @ rest)" using Cons.prems by simp_all
  have le: "10 * n + d \<le> 2 ^ 53" using Cons.prems(5) number_of_mono [of "10 * n + d" cs] by (simp add: d_def)
  let ?fl = "d_add D (d_mul D (d_lit D 10) fl) (d_of_int D (scast c - 0x30))"
  have e: "exact (of_nat n)" "exact (of_nat (10 * n))" "exact (of_nat d)" "exact (of_nat (10 * n + d))" "exact 10" "exact twoe56"
    using le exact_nat [of n] exact_nat [of "10 * n"] exact_nat [of d] exact_nat [of "10 * n + d"] exact_nat [of 10] exact_twoe56
    by simp_all
  have "val (d_of_int D (scast c - 0x30)) = of_int (sint (scast c - 0x30 :: i32))"
    using assms(1) by (simp add: exact_on_integers_def)
  then have "val (d_of_int D (scast c - 0x30)) = of_nat d" unfolding digit_int(2) [OF c(1)] by (simp add: d_def)
  moreover have "val (d_lit D 10) = 10" using assms(1) e(5) by (simp add: exact_on_integers_def)
  then have "val (d_mul D (d_lit D 10) fl) = of_nat (10 * n)"
    using assms(1) e Cons.prems(4) by (auto simp: exact_on_integers_def)
  ultimately have v: "val ?fl = of_nat (10 * n + d)" using assms(1) e by (simp add: exact_on_integers_def)
  have "(of_nat n :: rat) < twoe56"
  proof -
    have "n < 2 ^ 56" using le by simp
    then have "(of_nat n :: rat) < of_nat (2 ^ 56)" by (simp only: of_nat_less_iff)
    then show ?thesis by (simp add: twoe56_def)
  qed
  then have "d_less D fl (d_lit D twoe56)" using assms(1) e Cons.prems(4) by (simp add: exact_on_integers_def)
  moreover have "number_of cs (10 * n + d) \<le> 2 ^ 53" using Cons.prems(5) by (simp add: d_def)
  ultimately show ?case
    using Cons.IH [OF c(3) _ Cons.prems(3) v] Cons.prems(2) c(2) digit_int(1) [OF c(1)]
    by (subst atof_whole.simps) (auto simp: char_int_def Let_def d_def add.assoc)
qed


lemma atof_power_0: "atof_power D exp5 0 x = x"
  by (simp add: exp5_def)

text \<open>C40. \<^verbatim>\<open>atof\<close> of a decimal numeral of at most 2 to the 53, with or without a minus sign, is that number, on any double arithmetic
  that is exact on integers of up to 53 bits.\<close>

theorem atof_integer:
  assumes "exact_on_integers D val" "cstring m p ((if neg then [0x2D] else []) @ decimal n)" "n \<le> 2 ^ 53"
  shows "\<exists>v. atof D m p = Some v \<and> val v = (if neg then - of_nat n else of_nat n)"
proof -
  let ?q = "if neg then p + 1 else p"
  obtain c cs where d: "decimal n = c # cs" using decimal_nonempty by (cases "decimal n") auto
  have digits: "\<forall>c\<in>set (decimal n). is_digit c" using decimal_digits by blast
  then have c: "isdigit (scast c)" using d digit_int(1) by auto
  have q: "cstring m ?q (decimal n @ [])" using assms(2) by (cases neg) simp_all
  have "m ?q = c" using q d by simp
  then have b: "atof_blanks m p = Some (if neg then 0x2D else scast c, p + 1)"
    using assms(2) c by (subst atof_blanks.simps) (auto simp: char_int_def isdigit_def Let_def)
  have s: "scast c \<noteq> (0x2D :: i32) \<and> scast c \<noteq> (0x2B :: i32)" using c by (auto simp: isdigit_def)
  have z: "val (d_lit D 0) = of_nat 0" "val (d_lit D 1) = 1"
    using assms(1) exact_nat [of 0] exact_nat [of 1] by (simp_all add: exact_on_integers_def)
  have n: "number_of (decimal n) 0 \<le> 2 ^ 53" using assms(3) by (simp add: number_of_decimal)
  obtain v where v: "atof_whole D m ?q (d_lit D 0) 0 = Some (0, ?q + of_nat (length (decimal n)) + 1, v, 0)" "val v = of_nat n"
    using atof_whole_digits [OF assms(1) q digits _ z(1) n, of 0] by (auto simp: number_of_decimal)
  have e: "exact (of_nat n)" "exact 1" using assms(3) exact_nat [of n] exact_nat [of 1] by simp_all
  let ?r = "d_ldexp D (d_mul D v (d_lit D 1)) 0"
  have "val (d_mul D v (d_lit D 1)) = of_nat n" using assms(1) v(2) z(2) e by (simp add: exact_on_integers_def)
  then have r: "val ?r = of_nat n" using assms(1) e by (simp add: exact_on_integers_def)
  then have "val (d_neg D ?r) = - of_nat n" using assms(1) e by (simp add: exact_on_integers_def)
  moreover have "atof D m p = Some (if neg then d_neg D ?r else ?r)"
    using b s v(1) by (cases neg) (simp_all add: atof_def Let_def atof_power_0)
  ultimately show ?thesis using r by simp
qed

text \<open>Exact arithmetic.\<close>

definition rat_ops :: "rat double_ops" where
  "rat_ops = \<lparr>d_lit = \<lambda>q. q, d_of_int = \<lambda>c. of_int (sint c), d_to_int = \<lambda>q. word_of_int (if q < 0 then - \<lfloor>- q\<rfloor> else \<lfloor>q\<rfloor>),
     d_add = (+), d_mul = (*), d_div = (/), d_neg = uminus, d_less = (<), d_eq = (=),
     d_ldexp = \<lambda>q e. (if 0 \<le> sint e then q * 2 ^ nat (sint e) else q / 2 ^ nat (- sint e)),
     d_modf = \<lambda>q. (let w = of_int (if q < 0 then - \<lfloor>- q\<rfloor> else \<lfloor>q\<rfloor>) in (q - w, w))\<rparr>"

lemma rat_ops_exact: "exact_on_integers rat_ops (\<lambda>q. q)"
  by (simp add: exact_on_integers_def rat_ops_def)

theorem atof_integer_witness:
  "\<exists>v. atof rat_ops ((\<lambda>_. 0)(0x1000 := 0x2D, 0x1001 := 0x34, 0x1002 := 0x32)) 0x1000 = Some v \<and> v = - 42"
proof -
  have d: "decimal 42 = [0x34, 0x32]" by (simp add: decimal.simps digit_def)
  have "cstring ((\<lambda>_. 0)(0x1000 := 0x2D, 0x1001 := 0x34, 0x1002 := 0x32)) 0x1000 ((if True then [0x2D] else []) @ decimal 42)"
    by (simp add: d)
  from atof_integer [OF rat_ops_exact this] show ?thesis by simp
qed

text \<open>The table of powers of five is right but for its last entry.\<close>

lemma exp5_powers:
  "\<forall>i \<in> set [0..<5]. exp5 ! i = 5 ^ (2 ^ i)" "exp5 ! 5 \<noteq> 5 ^ (2 ^ 5)"
  by (simp_all add: exp5_def upt_rec)

end
