(* ===== verification/Lib_Sort.thy ===== *)
theory Lib_Sort
  imports Xeros_Prelude
begin

text \<open>
  \<^verbatim>\<open>lib/libxc/qsort.c\<close>: a quicksort of an array of elements of any size, by exchanges of bytes. The
  comparison is a parameter, which reads the two elements in the memory. Pointers are
  unsigned words, their differences signed or unsigned as C has them. The global \<^verbatim>\<open>qses\<close> does not change
  during a call and is the argument \<open>es\<close>.
\<close>

unbundle bit_operations_syntax

section \<open>Functions\<close>

text \<open>The exchanges are do-while loops over \<open>qses\<close> bytes: a size of 0 counts down through all words.\<close>

fun exc_loop :: "nat \<Rightarrow> addr \<Rightarrow> addr \<Rightarrow> memory \<Rightarrow> memory" where
  "exc_loop 0 ri rj m = m"
| "exc_loop (Suc n) ri rj m =
     (let c = m ri; m = m(ri := m rj); m = m(rj := c) in exc_loop n (ri + 1) (rj + 1) m)"

fun texc_loop :: "nat \<Rightarrow> addr \<Rightarrow> addr \<Rightarrow> addr \<Rightarrow> memory \<Rightarrow> memory" where
  "texc_loop 0 ri rj rk m = m"
| "texc_loop (Suc n) ri rj rk m =
     (let c = m ri; m = m(ri := m rk); m = m(rk := m rj); m = m(rj := c) in texc_loop n (ri + 1) (rj + 1) (rk + 1) m)"

definition exc_count :: "i32 \<Rightarrow> nat" where
  "exc_count es = (if es = 0 then 2 ^ 32 else unat es)"

definition qsexc :: "i32 \<Rightarrow> addr \<Rightarrow> addr \<Rightarrow> memory \<Rightarrow> memory" where
  "qsexc es i j m = exc_loop (exc_count es) i j m"

definition qstexc :: "i32 \<Rightarrow> addr \<Rightarrow> addr \<Rightarrow> addr \<Rightarrow> memory \<Rightarrow> memory" where
  "qstexc es i j k m = texc_loop (exc_count es) i j k m"

type_synonym comparison = "memory \<Rightarrow> addr \<Rightarrow> addr \<Rightarrow> i32"

text \<open>
  The variables of the loop in \<^verbatim>\<open>qs1\<close>, and one turn of it: \<open>q_at_loop\<close> says that control is at the
  label \<^verbatim>\<open>loop\<close> and not at the top. The turn that finds both ends in the middle has no successor.
\<close>

record qs_vars =
  q_at_loop :: bool
  q_i :: addr
  q_j :: addr
  q_lp :: addr
  q_hp :: addr
  q_mem :: memory

definition qs_turn :: "comparison \<Rightarrow> i32 \<Rightarrow> qs_vars \<Rightarrow> qs_vars option" where
  "qs_turn qscmp es s =
     (let i = q_i s; j = q_j s; lp = q_lp s; hp = q_hp s; m = q_mem s in
      if \<not> q_at_loop s \<and> i < lp then
        let c = qscmp m i lp in
        if c = 0 then let lp = lp - es in Some (s\<lparr>q_at_loop := False, q_lp := lp, q_mem := qsexc es i lp m\<rparr>)
        else if sint c < 0 then Some (s\<lparr>q_at_loop := False, q_i := i + es\<rparr>)
        else Some (s\<lparr>q_at_loop := True\<rparr>)
      else if hp < j then
        let c = qscmp m hp j in
        if c = 0 then let hp = hp + es in Some (s\<lparr>q_at_loop := True, q_hp := hp, q_mem := qsexc es hp j m\<rparr>)
        else if 0 < sint c then
          if i = lp then
            let hp = hp + es; m = qstexc es i hp j m; lp = lp + es; i = lp
            in Some (s\<lparr>q_at_loop := True, q_i := i, q_lp := lp, q_hp := hp, q_mem := m\<rparr>)
          else
            let m = qsexc es i j m; j = j - es; i = i + es
            in Some (s\<lparr>q_at_loop := False, q_i := i, q_j := j, q_mem := m\<rparr>)
        else Some (s\<lparr>q_at_loop := True, q_j := j - es\<rparr>)
      else if i = lp then None
      else
        let lp = lp - es; m = qstexc es j lp i m; hp = hp - es; j = hp
        in Some (s\<lparr>q_at_loop := False, q_j := j, q_lp := lp, q_hp := hp, q_mem := m\<rparr>))"

partial_function (option) qs_part :: "comparison \<Rightarrow> i32 \<Rightarrow> qs_vars \<Rightarrow> qs_vars option" where
  "qs_part qscmp es s = (case qs_turn qscmp es s of None \<Rightarrow> Some s | Some s' \<Rightarrow> qs_part qscmp es s')"

partial_function (option) qs1 :: "comparison \<Rightarrow> i32 \<Rightarrow> addr \<Rightarrow> addr \<Rightarrow> memory \<Rightarrow> memory option" where
  "qs1 qscmp es a l m =
     (if l - a \<le> es then Some m
      else do {
        let n = es * ((l - a) div (2 * es));
        s \<leftarrow> qs_part qscmp es \<lparr>q_at_loop = False, q_i = a, q_j = l - es, q_lp = a + n, q_hp = a + n, q_mem = m\<rparr>;
        let lp = q_lp s;
        let hp = q_hp s;
        let m = q_mem s;
        if sint (l - hp) \<le> sint (lp - a) then do {
          m \<leftarrow> qs1 qscmp es (hp + es) l m;
          qs1 qscmp es a lp m
        } else do {
          m \<leftarrow> qs1 qscmp es a lp m;
          qs1 qscmp es (hp + es) l m
        }
      })"

definition qsort :: "addr \<Rightarrow> u32 \<Rightarrow> i32 \<Rightarrow> comparison \<Rightarrow> memory \<Rightarrow> memory option" where
  "qsort a n es qscmp m = qs1 qscmp es a (a + n * es) m"

end
