(* ===== verification/Sort_Array.thy ===== *)
theory Sort_Array
  imports Lib_Sort
begin

text \<open>
  An array of elements in the byte memory, and the exchanges of \<^verbatim>\<open>qsort.c\<close> as updates of the list
  of its elements.
\<close>

unbundle bit_operations_syntax

section \<open>The exchanges\<close>

lemma exc_loop_same: "exc_loop n r r m = m"
  by (induction n arbitrary: r) (simp_all add: Let_def)

lemma unat_off_Suc: "n < 2 ^ 32 \<Longrightarrow> unat (x - p) < Suc n \<longleftrightarrow> x = p \<or> unat (x - (p + 1)) < n" for x p :: addr
proof (cases "x = p")
  case False
  then have "1 \<le> x - p" by (simp add: word_le_nat_alt) (metis One_nat_def Suc_leI eq_iff_diff_eq_0 unat_gt_0)
  then have "unat (x - p - 1) = unat (x - p) - 1" by (simp add: unat_sub)
  moreover have "0 < unat (x - p)" using False by (simp add: unat_gt_0)
  ultimately show ?thesis using False by (auto simp: algebra_simps)
qed simp

lemma exc_loop_apply:
  assumes "n < 2 ^ 31" "\<And>s t. s < n \<Longrightarrow> t < n \<Longrightarrow> ri + of_nat s \<noteq> rj + of_nat t"
  shows "(\<forall>t<n. exc_loop n ri rj m (ri + of_nat t) = m (rj + of_nat t)) \<and>
    (\<forall>t<n. exc_loop n ri rj m (rj + of_nat t) = m (ri + of_nat t)) \<and>
    (\<forall>x. (\<forall>t<n. x \<noteq> ri + of_nat t \<and> x \<noteq> rj + of_nat t) \<longrightarrow> exc_loop n ri rj m x = m x)"
  using assms
proof (induction n ri rj m rule: exc_loop.induct)
  case (2 n ri rj m)
  let ?m = "m(ri := m rj, rj := m ri)"
  have ne: "ri + 1 + of_nat s \<noteq> rj + 1 + of_nat t" if "s < n" "t < n" for s t
    using "2.prems"(2) [of "Suc s" "Suc t"] that by (simp add: ac_simps)
  have z: "n < 2 ^ 31" using "2.prems"(1) by simp
  note IH = "2.IH" [OF refl refl refl z ne]
  have I: "\<forall>t<n. exc_loop n (ri + 1) (rj + 1) ?m (ri + 1 + of_nat t) = ?m (rj + 1 + of_nat t)"
    "\<forall>t<n. exc_loop n (ri + 1) (rj + 1) ?m (rj + 1 + of_nat t) = ?m (ri + 1 + of_nat t)"
    "\<And>x. (\<forall>t<n. x \<noteq> ri + 1 + of_nat t \<and> x \<noteq> rj + 1 + of_nat t) \<Longrightarrow> exc_loop n (ri + 1) (rj + 1) ?m x = ?m x"
    using IH by blast+
  have rr: "ri \<noteq> rj" using "2.prems"(2) [of 0 0] by simp
  have s0: "x + of_nat (Suc t) = x + 1 + of_nat t" for x :: addr and t by (simp add: ac_simps)
  have a0: "p + 1 + of_nat t \<noteq> p" if "t < n" for p :: addr and t
  proof
    assume "p + 1 + of_nat t = p"
    then have "(of_nat (Suc t) :: addr) = 0" by (simp add: add.assoc)
    moreover have "unat (of_nat (Suc t) :: addr) = Suc t"
      using that z by (simp add: unat_of_nat del: of_nat_Suc)
    ultimately show False by simp
  qed
  have b0: "ri + 1 + of_nat t \<noteq> rj" "rj + 1 + of_nat t \<noteq> ri" if "t < n" for t
    using that "2.prems"(2) [of "Suc t" 0] not_sym [OF "2.prems"(2) [of 0 "Suc t"]] by (simp_all add: s0 del: of_nat_Suc)
  have "exc_loop n (ri + 1) (rj + 1) ?m ri = ?m ri" "exc_loop n (ri + 1) (rj + 1) ?m rj = ?m rj"
    by - (rule I(3), intro allI impI conjI, (rule not_sym, (erule a0 | erule b0))+)+
  then have out: "exc_loop n (ri + 1) (rj + 1) ?m ri = m rj" "exc_loop n (ri + 1) (rj + 1) ?m rj = m ri" using rr by simp_all
  show ?case
  proof (intro conjI allI impI)
    show "exc_loop (Suc n) ri rj m (ri + of_nat t) = m (rj + of_nat t)" if "t < Suc n" for t
      using that out I(1) a0 b0 by (cases t) (simp_all add: Let_def s0 rr del: of_nat_Suc)
    show "exc_loop (Suc n) ri rj m (rj + of_nat t) = m (ri + of_nat t)" if "t < Suc n" for t
      using that out I(2) a0 b0 by (cases t) (simp_all add: Let_def s0 rr del: of_nat_Suc)
    show "exc_loop (Suc n) ri rj m x = m x" if x: "\<forall>t<Suc n. x \<noteq> ri + of_nat t \<and> x \<noteq> rj + of_nat t" for x
    proof -
      have "\<forall>t<n. x \<noteq> ri + 1 + of_nat t \<and> x \<noteq> rj + 1 + of_nat t" using x by (metis Suc_less_eq s0)
      moreover have "x \<noteq> ri" "x \<noteq> rj" using x [rule_format, of 0] by simp_all
      ultimately show ?thesis using I(3) [of x] rr by (simp add: Let_def)
    qed
  qed
qed simp

lemma texc_loop_same: "texc_loop n ri r r m = exc_loop n ri r m"
  by (induction n arbitrary: ri r m) (simp_all add: Let_def)

text \<open>Three separate blocks.\<close>

lemma texc_loop_apply:
  assumes "n < 2 ^ 31" "\<And>s t. s < n \<Longrightarrow> t < n \<Longrightarrow> ri + of_nat s \<noteq> rj + of_nat t"
    "\<And>s t. s < n \<Longrightarrow> t < n \<Longrightarrow> ri + of_nat s \<noteq> rk + of_nat t" "\<And>s t. s < n \<Longrightarrow> t < n \<Longrightarrow> rj + of_nat s \<noteq> rk + of_nat t"
  shows "(\<forall>t<n. texc_loop n ri rj rk m (ri + of_nat t) = m (rk + of_nat t)) \<and>
    (\<forall>t<n. texc_loop n ri rj rk m (rk + of_nat t) = m (rj + of_nat t)) \<and>
    (\<forall>t<n. texc_loop n ri rj rk m (rj + of_nat t) = m (ri + of_nat t)) \<and>
    (\<forall>x. (\<forall>t<n. x \<noteq> ri + of_nat t \<and> x \<noteq> rj + of_nat t \<and> x \<noteq> rk + of_nat t) \<longrightarrow> texc_loop n ri rj rk m x = m x)"
  using assms
proof (induction n ri rj rk m rule: texc_loop.induct)
  case (2 n ri rj rk m)
  let ?m = "m(ri := m rk, rk := m rj, rj := m ri)"
  have s0: "x + of_nat (Suc t) = x + 1 + of_nat t" for x :: addr and t by (simp add: ac_simps)
  have ne: "ri + 1 + of_nat s \<noteq> rj + 1 + of_nat t" "ri + 1 + of_nat s \<noteq> rk + 1 + of_nat t" "rj + 1 + of_nat s \<noteq> rk + 1 + of_nat t"
    if "s < n" "t < n" for s t
    using "2.prems"(2-4) [of "Suc s" "Suc t"] that by (simp_all only: s0 Suc_less_eq not_False_eq_True)
  have z: "n < 2 ^ 31" using "2.prems"(1) by simp
  have rr: "ri \<noteq> rj" "ri \<noteq> rk" "rj \<noteq> rk" using "2.prems"(2-4) [of 0 0] by simp_all
  let ?T = "texc_loop n (ri + 1) (rj + 1) (rk + 1) ?m"
  note rr = rr not_sym [OF rr(1)] not_sym [OF rr(2)] not_sym [OF rr(3)]
  have mm: "(m(ri := m rk)) rj = m rj" using rr by simp
  have IH: "(\<forall>t<n. ?T (ri + 1 + of_nat t) = ?m (rk + 1 + of_nat t)) \<and> (\<forall>t<n. ?T (rk + 1 + of_nat t) = ?m (rj + 1 + of_nat t)) \<and>
    (\<forall>t<n. ?T (rj + 1 + of_nat t) = ?m (ri + 1 + of_nat t)) \<and>
    (\<forall>x. (\<forall>t<n. x \<noteq> ri + 1 + of_nat t \<and> x \<noteq> rj + 1 + of_nat t \<and> x \<noteq> rk + 1 + of_nat t) \<longrightarrow> ?T x = ?m x)"
    by (rule "2.IH" [OF refl refl refl refl z, unfolded mm]) (rule ne; assumption)+
  note I = conjunct1 [OF IH] conjunct1 [OF conjunct2 [OF IH]] conjunct1 [OF conjunct2 [OF conjunct2 [OF IH]]]
    mp [OF spec [OF conjunct2 [OF conjunct2 [OF conjunct2 [OF IH]]]]]
  have a0: "p + 1 + of_nat t \<noteq> p" if "t < n" for p :: addr and t
  proof
    assume "p + 1 + of_nat t = p"
    then have "(of_nat (Suc t) :: addr) = 0" by (simp add: add.assoc)
    moreover have "unat (of_nat (Suc t) :: addr) = Suc t"
      using that z by (simp add: unat_of_nat del: of_nat_Suc)
    ultimately show False by simp
  qed
  have b0: "ri + 1 + of_nat t \<noteq> rj" "ri + 1 + of_nat t \<noteq> rk" "rj + 1 + of_nat t \<noteq> ri" "rj + 1 + of_nat t \<noteq> rk"
    "rk + 1 + of_nat t \<noteq> ri" "rk + 1 + of_nat t \<noteq> rj" if "t < n" for t
    using that "2.prems"(2-4) [of "Suc t" 0] not_sym [OF "2.prems"(2) [of 0 "Suc t"]] not_sym [OF "2.prems"(3) [of 0 "Suc t"]]
      not_sym [OF "2.prems"(4) [of 0 "Suc t"]] by (simp_all add: s0 del: of_nat_Suc)
  have "texc_loop n (ri + 1) (rj + 1) (rk + 1) ?m ri = ?m ri" "texc_loop n (ri + 1) (rj + 1) (rk + 1) ?m rk = ?m rk"
    "texc_loop n (ri + 1) (rj + 1) (rk + 1) ?m rj = ?m rj"
    by - (rule I(4), intro allI impI conjI, (rule not_sym, (erule a0 | erule b0))+)+
  then have out: "texc_loop n (ri + 1) (rj + 1) (rk + 1) ?m ri = m rk" "texc_loop n (ri + 1) (rj + 1) (rk + 1) ?m rk = m rj"
    "texc_loop n (ri + 1) (rj + 1) (rk + 1) ?m rj = m ri" using rr by simp_all
  show ?case
  proof (intro conjI allI impI)
    show "texc_loop (Suc n) ri rj rk m (ri + of_nat t) = m (rk + of_nat t)" if "t < Suc n" for t
      using that out I(1) a0 b0 by (cases t) (simp_all add: Let_def s0 rr del: of_nat_Suc)
    show "texc_loop (Suc n) ri rj rk m (rk + of_nat t) = m (rj + of_nat t)" if "t < Suc n" for t
      using that out I(2) a0 b0 by (cases t) (simp_all add: Let_def s0 rr del: of_nat_Suc)
    show "texc_loop (Suc n) ri rj rk m (rj + of_nat t) = m (ri + of_nat t)" if "t < Suc n" for t
      using that out I(3) a0 b0 by (cases t) (simp_all add: Let_def s0 rr del: of_nat_Suc)
    show "texc_loop (Suc n) ri rj rk m x = m x"
      if x: "\<forall>t<Suc n. x \<noteq> ri + of_nat t \<and> x \<noteq> rj + of_nat t \<and> x \<noteq> rk + of_nat t" for x
    proof -
      have "\<forall>t<n. x \<noteq> ri + 1 + of_nat t \<and> x \<noteq> rj + 1 + of_nat t \<and> x \<noteq> rk + 1 + of_nat t" using x by (metis Suc_less_eq s0)
      moreover have "x \<noteq> ri" "x \<noteq> rj" "x \<noteq> rk" using x [rule_format, of 0] by simp_all
      ultimately show ?thesis using I(4) [of x] rr by (simp add: Let_def)
    qed
  qed
qed simp

section \<open>An array in memory\<close>

definition element :: "nat \<Rightarrow> memory \<Rightarrow> addr \<Rightarrow> u8 list" where
  "element E m p = map (\<lambda>t. m (p + of_nat t)) [0..<E]"

definition array_at :: "memory \<Rightarrow> addr \<Rightarrow> i32 \<Rightarrow> u8 list list \<Rightarrow> bool" where
  "array_at m a es xs \<longleftrightarrow> (\<forall>k<length xs. element (unat es) m (a + of_nat (k * unat es)) = xs ! k)"

definition room_for :: "addr \<Rightarrow> i32 \<Rightarrow> nat \<Rightarrow> bool" where
  "room_for a es n \<longleftrightarrow> 0 < unat es \<and> unat a + n * unat es < 2 ^ 32 \<and> n * unat es < 2 ^ 31"

abbreviation slot :: "addr \<Rightarrow> i32 \<Rightarrow> nat \<Rightarrow> addr" where
  "slot a es k \<equiv> a + of_nat (k * unat es)"

lemma slot_offset:
  assumes "room_for a es n" "k < n" "t < unat es"
  shows "unat (slot a es k + of_nat t - a) = k * unat es + t" "k * unat es + t < n * unat es"
proof -
  have "(k + 1) * unat es \<le> n * unat es" using assms(2) by (intro mult_le_mono1) simp
  then show lt: "k * unat es + t < n * unat es" using assms(3) by simp
  have "slot a es k + of_nat t - a = (of_nat (k * unat es + t) :: addr)" by simp
  then show "unat (slot a es k + of_nat t - a) = k * unat es + t"
    using lt assms(1) by (simp only: unat_of_nat) (simp add: room_for_def)
qed

lemma slot_inj:
  assumes "room_for a es n" "k < n" "l < n" "s < unat es" "t < unat es" "slot a es k + of_nat s = slot a es l + of_nat t"
  shows "k = l \<and> s = t"
proof -
  have e: "k * unat es + s = l * unat es + t"
    using slot_offset(1) [OF assms(1,2,4)] slot_offset(1) [OF assms(1,3,5)] assms(6) by simp
  have "(k * unat es + s) div unat es = k" "(l * unat es + t) div unat es = l" using assms(4,5) by simp_all
  with e have "k = l" by simp
  with e show ?thesis by simp
qed

lemma slot_step:
  assumes "room_for a es n"
  shows "slot a es k + es = slot a es (k + 1)" "0 < k \<Longrightarrow> slot a es k - es = slot a es (k - 1)"
proof -
  have e: "(of_nat (unat es) :: addr) = es" by simp
  show "slot a es k + es = slot a es (k + 1)" by (simp add: algebra_simps)
  show "slot a es k - es = slot a es (k - 1)" if "0 < k" using that by (cases k) (simp_all add: algebra_simps)
qed

lemma int_below: "x < 2 ^ 31 \<Longrightarrow> int x < 2 ^ 31"
  by simp

lemma slot_less:
  assumes "room_for a es n" "k \<le> n" "l \<le> n"
  shows "slot a es k < slot a es l \<longleftrightarrow> k < l" "slot a es k = slot a es l \<longleftrightarrow> k = l"
    "unat (slot a es k) = unat a + k * unat es" "sint (slot a es k - slot a es l) = int (k * unat es) - int (l * unat es)"
proof -
  have le: "j * unat es \<le> n * unat es" if "j \<le> n" for j using that by simp
  have u: "unat (slot a es j) = unat a + j * unat es" if "j \<le> n" for j
  proof -
    have b: "unat a + j * unat es < 2 ^ 32" "j * unat es < 2 ^ 32" using le [OF that] assms(1) unfolding room_for_def by linarith+
    have "unat (of_nat (j * unat es) :: addr) = j * unat es" using b(2) by (simp only: unat_of_nat) simp
    then show ?thesis using b(1) by (simp only: unat_word_ariths) simp
  qed
  show "unat (slot a es k) = unat a + k * unat es" by (rule u [OF assms(2)])
  have pos: "0 < unat es" using assms(1) by (simp add: room_for_def)
  show "slot a es k < slot a es l \<longleftrightarrow> k < l" using u assms(2,3) pos by (simp add: word_less_nat_alt)
  show "slot a es k = slot a es l \<longleftrightarrow> k = l" using u assms(2,3) pos by (metis add_left_cancel mult_cancel2 not_gr_zero)
  have d: "slot a es k - slot a es l = of_int (int (k * unat es) - int (l * unat es))" by simp
  have "\<bar>int (k * unat es) - int (l * unat es)\<bar> < 2 ^ 31"
  proof -
    have "k * unat es < 2 ^ 31" "l * unat es < 2 ^ 31" using le [OF assms(2)] le [OF assms(3)] assms(1) unfolding room_for_def by linarith+
    then have "int (k * unat es) < 2 ^ 31" "int (l * unat es) < 2 ^ 31" by (simp_all only: int_below)
    then show ?thesis by linarith
  qed
  then show "sint (slot a es k - slot a es l) = int (k * unat es) - int (l * unat es)"
    unfolding d by (rule sint_of_int)
qed

text \<open>Exchanging two elements, and turning three.\<close>

lemma exc_count_pos: "0 < unat es \<Longrightarrow> exc_count es = unat es"
  by (auto simp: exc_count_def)

lemma array_element: "array_at m a es xs \<Longrightarrow> k < length xs \<Longrightarrow> t < unat es \<Longrightarrow> m (slot a es k + of_nat t) = xs ! k ! t \<and> length (xs ! k) = unat es"
  unfolding array_at_def element_def by (metis (no_types, lifting) add_0 diff_zero length_map length_upt nth_map_upt)

lemma array_atI:
  assumes "\<And>k t. k < length xs \<Longrightarrow> t < unat es \<Longrightarrow> m (slot a es k + of_nat t) = xs ! k ! t" "\<And>k. k < length xs \<Longrightarrow> length (xs ! k) = unat es"
  shows "array_at m a es xs"
  using assms by (auto simp: array_at_def element_def list_eq_iff_nth_eq)


text \<open>Memory is unchanged outside the array.\<close>

definition same_outside :: "addr \<Rightarrow> nat \<Rightarrow> memory \<Rightarrow> memory \<Rightarrow> bool" where
  "same_outside a n m m' \<longleftrightarrow> (\<forall>x. n \<le> unat (x - a) \<longrightarrow> m' x = m x)"

lemma outside_slots:
  assumes "room_for a es n" "k < n" "n * unat es \<le> unat (x - a)" "t < unat es"
  shows "x \<noteq> slot a es k + of_nat t"
  using slot_offset [OF assms(1,2,4)] assms(3) by auto

lemma qsexc_array:
  assumes "room_for a es (length xs)" "array_at m a es xs" "i < length xs" "j < length xs"
  shows "array_at (qsexc es (slot a es i) (slot a es j) m) a es (xs[i := xs ! j, j := xs ! i]) \<and>
    same_outside a (length xs * unat es) m (qsexc es (slot a es i) (slot a es j) m)"
proof (cases "i = j")
  case True
  then show ?thesis using assms(2) by (simp add: qsexc_def exc_loop_same same_outside_def)
next
  case False
  let ?m = "qsexc es (slot a es i) (slot a es j) m"
  have pos: "0 < unat es" "unat es < 2 ^ 31"
  proof -
    show "0 < unat es" using assms(1) by (simp add: room_for_def)
    have "1 * unat es \<le> length xs * unat es" using assms(3) by (intro mult_le_mono1) simp
    then show "unat es < 2 ^ 31" using assms(1) unfolding room_for_def by linarith
  qed
  have ne: "slot a es i + of_nat s \<noteq> slot a es j + of_nat t" if "s < unat es" "t < unat es" for s t
    using slot_inj [OF assms(1,3,4) that] False by auto
  have m: "?m = exc_loop (unat es) (slot a es i) (slot a es j) m" using pos(1) by (simp add: qsexc_def exc_count_pos)
  have xi: "\<forall>t<unat es. ?m (slot a es i + of_nat t) = m (slot a es j + of_nat t)"
    and xj: "\<forall>t<unat es. ?m (slot a es j + of_nat t) = m (slot a es i + of_nat t)"
    and xo: "\<And>x. (\<forall>t<unat es. x \<noteq> slot a es i + of_nat t \<and> x \<noteq> slot a es j + of_nat t) \<Longrightarrow> ?m x = m x"
    unfolding m using exc_loop_apply [OF pos(2) ne, of m] by auto
  have "array_at ?m a es (xs[i := xs ! j, j := xs ! i])"
  proof (rule array_atI)
    fix k t assume k: "k < length (xs[i := xs ! j, j := xs ! i])" and t: "t < unat es"
    have other: "?m (slot a es k + of_nat t) = m (slot a es k + of_nat t)" if "k \<noteq> i" "k \<noteq> j"
    proof (rule xo, intro allI impI conjI)
      fix u assume u: "u < unat es"
      show "slot a es k + of_nat t \<noteq> slot a es i + of_nat u" "slot a es k + of_nat t \<noteq> slot a es j + of_nat u"
        using slot_inj [OF assms(1) _ assms(3) t u] slot_inj [OF assms(1) _ assms(4) t u] k that by auto
    qed
    show "?m (slot a es k + of_nat t) = xs[i := xs ! j, j := xs ! i] ! k ! t"
      using array_element [OF assms(2) _ t] xi xj other k t assms(3,4) False by (auto simp: nth_list_update)
  qed (use array_element [OF assms(2) _ pos(1)] assms(3,4) in \<open>auto simp: nth_list_update\<close>)
  moreover have "same_outside a (length xs * unat es) m ?m"
    unfolding same_outside_def using xo outside_slots [OF assms(1,3)] outside_slots [OF assms(1,4)] by simp
  ultimately show ?thesis by blast
qed

lemma qstexc_array:
  assumes "room_for a es (length xs)" "array_at m a es xs" "i < length xs" "j < length xs" "k < length xs" "i \<noteq> j" "i \<noteq> k"
  shows "array_at (qstexc es (slot a es i) (slot a es j) (slot a es k) m) a es (xs[i := xs ! k, k := xs ! j, j := xs ! i]) \<and>
    same_outside a (length xs * unat es) m (qstexc es (slot a es i) (slot a es j) (slot a es k) m)"
proof (cases "j = k")
  case True
  then show ?thesis using qsexc_array [OF assms(1-3,5)] by (simp add: qsexc_def qstexc_def texc_loop_same)
next
  case False
  let ?m = "qstexc es (slot a es i) (slot a es j) (slot a es k) m"
  have pos: "0 < unat es" "unat es < 2 ^ 31"
  proof -
    show "0 < unat es" using assms(1) by (simp add: room_for_def)
    have "1 * unat es \<le> length xs * unat es" using assms(3) by (intro mult_le_mono1) simp
    then show "unat es < 2 ^ 31" using assms(1) unfolding room_for_def by linarith
  qed
  have ne: "slot a es i + of_nat s \<noteq> slot a es j + of_nat t" "slot a es i + of_nat s \<noteq> slot a es k + of_nat t"
    "slot a es j + of_nat s \<noteq> slot a es k + of_nat t" if "s < unat es" "t < unat es" for s t
    using slot_inj [OF assms(1,3,4) that] slot_inj [OF assms(1,3,5) that] slot_inj [OF assms(1,4,5) that] assms(6,7) False by auto
  have m: "?m = texc_loop (unat es) (slot a es i) (slot a es j) (slot a es k) m" using pos(1) by (simp add: qstexc_def exc_count_pos)
  note T = texc_loop_apply [OF pos(2) ne, of m, folded m]
  have xi: "\<forall>t<unat es. ?m (slot a es i + of_nat t) = m (slot a es k + of_nat t)"
    and xk: "\<forall>t<unat es. ?m (slot a es k + of_nat t) = m (slot a es j + of_nat t)"
    and xj: "\<forall>t<unat es. ?m (slot a es j + of_nat t) = m (slot a es i + of_nat t)"
    and xo: "\<And>x. (\<forall>t<unat es. x \<noteq> slot a es i + of_nat t \<and> x \<noteq> slot a es j + of_nat t \<and> x \<noteq> slot a es k + of_nat t) \<Longrightarrow> ?m x = m x"
    using T by auto
  have "array_at ?m a es (xs[i := xs ! k, k := xs ! j, j := xs ! i])"
  proof (rule array_atI)
    fix l t assume l: "l < length (xs[i := xs ! k, k := xs ! j, j := xs ! i])" and t: "t < unat es"
    have other: "?m (slot a es l + of_nat t) = m (slot a es l + of_nat t)" if "l \<noteq> i" "l \<noteq> j" "l \<noteq> k"
    proof (rule xo, intro allI impI conjI)
      fix u assume u: "u < unat es"
      show "slot a es l + of_nat t \<noteq> slot a es i + of_nat u" "slot a es l + of_nat t \<noteq> slot a es j + of_nat u"
        "slot a es l + of_nat t \<noteq> slot a es k + of_nat u"
        using slot_inj [OF assms(1) _ assms(3) t u] slot_inj [OF assms(1) _ assms(4) t u] slot_inj [OF assms(1) _ assms(5) t u] l that by auto
    qed
    show "?m (slot a es l + of_nat t) = xs[i := xs ! k, k := xs ! j, j := xs ! i] ! l ! t"
      using array_element [OF assms(2) _ t] xi xj xk other l t assms(3-7) False by (auto simp: nth_list_update)
  qed (use array_element [OF assms(2) _ pos(1)] assms(3-5) in \<open>auto simp: nth_list_update\<close>)
  moreover have "same_outside a (length xs * unat es) m ?m"
    unfolding same_outside_def using xo outside_slots [OF assms(1,3)] outside_slots [OF assms(1,4)] outside_slots [OF assms(1,5)] by simp
  ultimately show ?thesis by blast
qed

end
