(* ===== verification/Sort_Properties.thy ===== *)
theory Sort_Properties
  imports Sort_Array "HOL-Library.Multiset"
begin

text \<open>
  Correctness of \<^verbatim>\<open>qsort\<close>: one turn of the loop in \<^verbatim>\<open>qs1\<close> keeps a partition around the middle
  element and comes closer to its end, and the two outer parts are sorted by induction on the length.
\<close>

unbundle bit_operations_syntax

section \<open>The partition\<close>

definition comparator :: "i32 \<Rightarrow> comparison \<Rightarrow> (u8 list \<Rightarrow> u8 list \<Rightarrow> i32) \<Rightarrow> bool" where
  "comparator es qscmp f \<longleftrightarrow> (\<forall>m p q. qscmp m p q = f (element (unat es) m p) (element (unat es) m q)) \<and>
     (\<forall>x y. sint (f x y) < 0 \<longleftrightarrow> 0 < sint (f y x)) \<and>
     (\<forall>x y z. sint (f x y) \<le> 0 \<longrightarrow> sint (f y z) \<le> 0 \<longrightarrow> sint (f x z) \<le> 0)"

lemma comparator_eq:
  assumes "comparator es qscmp f" "f y v = 0"
  shows "f x y = 0 \<longleftrightarrow> f x v = 0" "sint (f x y) < 0 \<longleftrightarrow> sint (f x v) < 0" "0 < sint (f x y) \<longleftrightarrow> 0 < sint (f x v)"
    "f y x = 0 \<longleftrightarrow> f x v = 0" "sint (f y x) < 0 \<longleftrightarrow> 0 < sint (f x v)" "0 < sint (f y x) \<longleftrightarrow> sint (f x v) < 0"
proof -
  have anti: "sint (f x y) < 0 \<longleftrightarrow> 0 < sint (f y x)" for x y using assms(1) unfolding comparator_def by blast
  have trans: "sint (f x y) \<le> 0 \<Longrightarrow> sint (f y z) \<le> 0 \<Longrightarrow> sint (f x z) \<le> 0" for x y z using assms(1) unfolding comparator_def by blast
  have z: "f x y = 0 \<longleftrightarrow> sint (f x y) = 0" for x y by (metis signed_0 signed_word_eqI)
  have vy: "sint (f y v) \<le> 0" "sint (f v y) \<le> 0" using assms(2) anti [of v y] anti [of y v] by simp_all
  have 1: "sint (f x y) \<le> 0 \<longleftrightarrow> sint (f x v) \<le> 0" using trans vy by blast
  have 2: "sint (f y x) \<le> 0 \<longleftrightarrow> sint (f v x) \<le> 0" using trans vy by blast
  show "f x y = 0 \<longleftrightarrow> f x v = 0" "sint (f x y) < 0 \<longleftrightarrow> sint (f x v) < 0" "0 < sint (f x y) \<longleftrightarrow> 0 < sint (f x v)"
    "f y x = 0 \<longleftrightarrow> f x v = 0" "sint (f y x) < 0 \<longleftrightarrow> 0 < sint (f x v)" "0 < sint (f y x) \<longleftrightarrow> sint (f x v) < 0"
    unfolding z using 1 2 anti [of x y] anti [of x v] anti [of y x] anti [of v x] by linarith+
qed

lemma mset_turn:
  assumes "i < length xs" "j < length xs" "k < length xs" "i \<noteq> j" "i \<noteq> k"
  shows "mset (xs[i := xs ! k, k := xs ! j, j := xs ! i]) = mset xs"
proof -
  let ?ys = "xs[i := xs ! k, k := xs ! i]"
  have "?ys[k := ?ys ! j, j := ?ys ! k] = xs[i := xs ! k, k := xs ! j, j := xs ! i]"
    using assms by (intro nth_equalityI) (auto simp: nth_list_update)
  then show ?thesis using mset_swap [of j ?ys k] mset_swap [of k xs i] assms by simp
qed

text \<open>The invariant of the loop: smaller ones to the left of \<open>i\<close>, equal ones from \<open>lp\<close> to \<open>hp\<close>,
  greater ones to the right of \<open>j\<close>.\<close>

definition parting :: "(u8 list \<Rightarrow> u8 list \<Rightarrow> i32) \<Rightarrow> u8 list \<Rightarrow> u8 list list \<Rightarrow> nat \<Rightarrow> nat \<Rightarrow> nat \<Rightarrow> nat \<Rightarrow> bool" where
  "parting f v xs i j lp hp \<longleftrightarrow> i \<le> lp \<and> lp \<le> hp \<and> hp \<le> j \<and> j < length xs \<and>
     (\<forall>k<i. sint (f (xs ! k) v) < 0) \<and> (\<forall>k. lp \<le> k \<and> k \<le> hp \<longrightarrow> f (xs ! k) v = 0) \<and>
     (\<forall>k. j < k \<and> k < length xs \<longrightarrow> 0 < sint (f (xs ! k) v))"

definition qs_repr :: "addr \<Rightarrow> i32 \<Rightarrow> qs_vars \<Rightarrow> u8 list list \<Rightarrow> nat \<Rightarrow> nat \<Rightarrow> nat \<Rightarrow> nat \<Rightarrow> bool" where
  "qs_repr a es s xs i j lp hp \<longleftrightarrow> array_at (q_mem s) a es xs \<and> q_i s = slot a es i \<and> q_j s = slot a es j \<and>
     q_lp s = slot a es lp \<and> q_hp s = slot a es hp"

lemma same_outside_trans: "same_outside a n m m' \<Longrightarrow> same_outside a n m' m'' \<Longrightarrow> same_outside a n m m''"
  by (simp add: same_outside_def)

text \<open>The seven moves of the loop keep it.\<close>

lemma parting_left:
  assumes "parting f v xs i j lp hp" "i < lp"
  shows "f (xs ! i) v = 0 \<Longrightarrow> parting f v (xs[i := xs ! (lp - 1), lp - 1 := xs ! i]) i j (lp - 1) hp"
    "sint (f (xs ! i) v) < 0 \<Longrightarrow> parting f v xs (i + 1) j lp hp"
  using assms by (auto simp: parting_def nth_list_update less_Suc_eq)

lemma parting_right:
  assumes "parting f v xs i j lp hp" "hp < j"
  shows "f (xs ! j) v = 0 \<Longrightarrow> parting f v (xs[hp + 1 := xs ! j, j := xs ! (hp + 1)]) i j lp (hp + 1)"
    "0 < sint (f (xs ! j) v) \<Longrightarrow> parting f v xs i (j - 1) lp hp"
    "sint (f (xs ! j) v) < 0 \<Longrightarrow> i = lp \<Longrightarrow> parting f v (xs[i := xs ! j, j := xs ! (hp + 1), hp + 1 := xs ! i]) (lp + 1) j (lp + 1) (hp + 1)"
    "sint (f (xs ! j) v) < 0 \<Longrightarrow> i < lp \<Longrightarrow> 0 < sint (f (xs ! i) v) \<Longrightarrow> parting f v (xs[i := xs ! j, j := xs ! i]) (i + 1) (j - 1) lp hp"
proof -
  show "f (xs ! j) v = 0 \<Longrightarrow> parting f v (xs[hp + 1 := xs ! j, j := xs ! (hp + 1)]) i j lp (hp + 1)"
    using assms by (auto simp: parting_def nth_list_update le_Suc_eq)
  have e: "k = j \<or> j < k" if "j - Suc 0 < k" for k using that by linarith
  show "0 < sint (f (xs ! j) v) \<Longrightarrow> parting f v xs i (j - 1) lp hp"
    using assms by (auto simp: parting_def dest!: e)
  show "sint (f (xs ! j) v) < 0 \<Longrightarrow> i = lp \<Longrightarrow> parting f v (xs[i := xs ! j, j := xs ! (hp + 1), hp + 1 := xs ! i]) (lp + 1) j (lp + 1) (hp + 1)"
    using assms by (auto simp: parting_def nth_list_update less_Suc_eq le_Suc_eq)
  show "sint (f (xs ! j) v) < 0 \<Longrightarrow> i < lp \<Longrightarrow> 0 < sint (f (xs ! i) v) \<Longrightarrow> parting f v (xs[i := xs ! j, j := xs ! i]) (i + 1) (j - 1) lp hp"
    using assms by (auto simp: parting_def nth_list_update less_Suc_eq dest!: e)
qed

lemma parting_middle:
  assumes "parting f v xs i j lp hp" "i < lp" "j = hp" "0 < sint (f (xs ! i) v)"
  shows "parting f v (xs[j := xs ! i, i := xs ! (lp - 1), lp - 1 := xs ! j]) i (hp - 1) (lp - 1) (hp - 1)"
proof -
  have e: "k = hp \<or> hp < k" if "hp - Suc 0 < k" for k using that by linarith
  have e2: "lp \<le> k" if "lp - Suc 0 \<le> k" "lp - Suc 0 \<noteq> k" for k using that by linarith
  have e3: "k \<le> hp" if "k \<le> hp - Suc 0" for k using that by linarith
  show ?thesis using assms by (auto simp: parting_def nth_list_update less_Suc_eq e2 e3 dest!: e)
qed

text \<open>What a turn reads: the variables, the two comparisons, and the tests of the pointers.\<close>

lemma turn_state:
  assumes "qs_repr a es s xs i j lp hp"
  shows "array_at (q_mem s) a es xs" "q_i s = slot a es i" "q_j s = slot a es j" "q_lp s = slot a es lp" "q_hp s = slot a es hp"
  using assms by (simp_all add: qs_repr_def)

lemma turn_bounds:
  assumes "parting f v xs i j lp hp"
  shows "i < length xs" "lp < length xs" "hp < length xs" "j < length xs" "i \<le> lp" "lp \<le> hp" "hp \<le> j"
  using assms by (auto simp: parting_def)

lemma turn_compare:
  assumes "comparator es qscmp f" "array_at m a es xs" "k < length xs" "l < length xs"
  shows "qscmp m (slot a es k) (slot a es l) = f (xs ! k) (xs ! l)"
  using assms by (simp add: comparator_def array_at_def)

lemma turn_left:
  assumes "room_for a es (length xs)" "comparator es qscmp f" "qs_repr a es s xs i j lp hp" "parting f v xs i j lp hp"
  shows "slot a es i < slot a es lp \<longleftrightarrow> i < lp" "(of_nat (i * unat es) :: addr) = of_nat (lp * unat es) \<longleftrightarrow> i = lp"
    "qscmp (q_mem s) (slot a es i) (slot a es lp) = f (xs ! i) (xs ! lp)"
    "f (xs ! i) (xs ! lp) = 0 \<longleftrightarrow> f (xs ! i) v = 0" "sint (f (xs ! i) (xs ! lp)) < 0 \<longleftrightarrow> sint (f (xs ! i) v) < 0"
proof -
  note b = turn_bounds [OF assms(4)]
  show "slot a es i < slot a es lp \<longleftrightarrow> i < lp" "(of_nat (i * unat es) :: addr) = of_nat (lp * unat es) \<longleftrightarrow> i = lp"
    using slot_less(1,2) [OF assms(1), of i lp] b by (simp_all del: of_nat_mult)
  show "qscmp (q_mem s) (slot a es i) (slot a es lp) = f (xs ! i) (xs ! lp)"
    by (rule turn_compare [OF assms(2) turn_state(1) [OF assms(3)] b(1,2)])
  have "f (xs ! lp) v = 0" using assms(4) b by (simp add: parting_def)
  note E = comparator_eq [OF assms(2) this]
  show "f (xs ! i) (xs ! lp) = 0 \<longleftrightarrow> f (xs ! i) v = 0" "sint (f (xs ! i) (xs ! lp)) < 0 \<longleftrightarrow> sint (f (xs ! i) v) < 0" by (rule E)+
qed

lemma turn_right:
  assumes "room_for a es (length xs)" "comparator es qscmp f" "qs_repr a es s xs i j lp hp" "parting f v xs i j lp hp"
  shows "slot a es hp < slot a es j \<longleftrightarrow> hp < j" "qscmp (q_mem s) (slot a es hp) (slot a es j) = f (xs ! hp) (xs ! j)"
    "f (xs ! hp) (xs ! j) = 0 \<longleftrightarrow> f (xs ! j) v = 0" "0 < sint (f (xs ! hp) (xs ! j)) \<longleftrightarrow> sint (f (xs ! j) v) < 0"
proof -
  note b = turn_bounds [OF assms(4)]
  show "slot a es hp < slot a es j \<longleftrightarrow> hp < j"
    using slot_less(1) [OF assms(1), of hp j] b by (simp del: of_nat_mult)
  show "qscmp (q_mem s) (slot a es hp) (slot a es j) = f (xs ! hp) (xs ! j)"
    by (rule turn_compare [OF assms(2) turn_state(1) [OF assms(3)] b(3,4)])
  have "f (xs ! hp) v = 0" using assms(4) b by (simp add: parting_def)
  note E = comparator_eq [OF assms(2) this]
  show "f (xs ! hp) (xs ! j) = 0 \<longleftrightarrow> f (xs ! j) v = 0" "0 < sint (f (xs ! hp) (xs ! j)) \<longleftrightarrow> sint (f (xs ! j) v) < 0" by (rule E)+
qed

text \<open>A turn that goes on comes closer to the partition.\<close>

definition qs_left :: "qs_vars \<Rightarrow> nat \<Rightarrow> nat \<Rightarrow> nat \<Rightarrow> nat \<Rightarrow> nat" where
  "qs_left s i j lp hp = 2 * ((lp - i) + (j - hp)) + (if q_at_loop s then 0 else 1)"

definition qs_goes_on :: "addr \<Rightarrow> i32 \<Rightarrow> (u8 list \<Rightarrow> u8 list \<Rightarrow> i32) \<Rightarrow> u8 list \<Rightarrow> u8 list list \<Rightarrow> qs_vars \<Rightarrow> nat \<Rightarrow> qs_vars \<Rightarrow> bool" where
  "qs_goes_on a es f v xs s d s' \<longleftrightarrow> (\<exists>ys i j lp hp. qs_repr a es s' ys i j lp hp \<and> parting f v ys i j lp hp \<and>
      (q_at_loop s' \<longrightarrow> i < lp \<longrightarrow> 0 < sint (f (ys ! i) v)) \<and> length ys = length xs \<and> mset ys = mset xs \<and>
      same_outside a (length xs * unat es) (q_mem s) (q_mem s') \<and>
      qs_left s' i j lp hp < d)"

lemma qs_goes_onI:
  assumes "qs_repr a es s' ys i j lp hp" "parting f v ys i j lp hp"
    "q_at_loop s' \<Longrightarrow> i < lp \<Longrightarrow> 0 < sint (f (ys ! i) v)" "mset ys = mset xs"
    "same_outside a (length xs * unat es) (q_mem s) (q_mem s')"
    "qs_left s' i j lp hp < d"
  shows "qs_goes_on a es f v xs s d s'"
  unfolding qs_goes_on_def using assms mset_eq_length [OF assms(4)] by blast

text \<open>One turn: the loop ends at the partition, or goes on closer to it.\<close>

lemma qs_turn_top:
  assumes "room_for a es (length xs)" "comparator es qscmp f" "qs_repr a es s xs i j lp hp" "parting f v xs i j lp hp"
    and top: "\<not> q_at_loop s" "i < lp"
  shows "\<exists>s'. qs_turn qscmp es s = Some s' \<and> qs_goes_on a es f v xs s (qs_left s i j lp hp) s'"
proof -
  note s = turn_state [OF assms(3)] and in_b = turn_bounds [OF assms(4)] and TL = turn_left [OF assms(1-4)] and TR = turn_right [OF assms(1-4)]
  note up = slot_step(1) [OF assms(1)] and down = slot_step(2) [OF assms(1)]
  note sw = qsexc_array [OF assms(1) s(1)] and tu = qstexc_array [OF assms(1) s(1)]
  let ?g = "qs_goes_on a es f v xs s (qs_left s i j lp hp)"
  note PL = parting_left [OF assms(4) top(2)]
  have k: "slot a es lp - es = slot a es (lp - 1)" "lp - 1 < length xs" using top down in_b by auto
  consider (eq) "f (xs ! i) v = 0" | (lt) "sint (f (xs ! i) v) < 0" "f (xs ! i) v \<noteq> 0" | (gt) "0 < sint (f (xs ! i) v)" "f (xs ! i) v \<noteq> 0" "\<not> sint (f (xs ! i) v) < 0"
    by (metis linorder_neqE_linordered_idom not_less_iff_gr_or_eq signed_0 signed_word_eqI)
  then show ?thesis
  proof cases
    case eq
    let ?s = "s\<lparr>q_at_loop := False, q_lp := slot a es (lp - 1), q_mem := qsexc es (slot a es i) (slot a es (lp - 1)) (q_mem s)\<rparr>"
    have "?g ?s"
      by (rule qs_goes_onI [OF _ PL(1) [OF eq]])
        (use top in \<open>simp_all add: qs_left_def qs_repr_def s sw [OF in_b(1) k(2)] mset_swap [OF k(2) in_b(1)] del: of_nat_mult One_nat_def\<close>)
    moreover have "qs_turn qscmp es s = Some ?s" using top eq by (simp add: qs_turn_def Let_def s TL k(1) del: of_nat_mult One_nat_def)
    ultimately show ?thesis by blast
  next
    case lt
    let ?s = "s\<lparr>q_at_loop := False, q_i := slot a es (i + 1)\<rparr>"
    have "?g ?s"
      by (rule qs_goes_onI [OF _ PL(2) [OF lt(1)]]) (use top in \<open>simp_all add: qs_left_def qs_repr_def s same_outside_def del: of_nat_mult One_nat_def\<close>)
    moreover have "qs_turn qscmp es s = Some ?s" using top lt by (simp add: qs_turn_def Let_def s TL up del: of_nat_mult One_nat_def)
    ultimately show ?thesis by blast
  next
    case gt
    let ?s = "s\<lparr>q_at_loop := True\<rparr>"
    have "?g ?s"
      by (rule qs_goes_onI [OF _ assms(4)]) (use top gt in \<open>simp_all add: qs_left_def qs_repr_def s same_outside_def del: of_nat_mult One_nat_def\<close>)
    moreover have "qs_turn qscmp es s = Some ?s" using top gt by (simp add: qs_turn_def Let_def s TL del: of_nat_mult One_nat_def)
    ultimately show ?thesis by blast
  qed
qed

lemma qs_turn_right:
  assumes "room_for a es (length xs)" "comparator es qscmp f" "qs_repr a es s xs i j lp hp" "parting f v xs i j lp hp"
    and at_top: "q_at_loop s \<and> i < lp \<longrightarrow> 0 < sint (f (xs ! i) v)" and right: "q_at_loop s \<or> i = lp" "hp < j"
  shows "\<exists>s'. qs_turn qscmp es s = Some s' \<and> qs_goes_on a es f v xs s (qs_left s i j lp hp) s'"
proof -
  note s = turn_state [OF assms(3)] and in_b = turn_bounds [OF assms(4)] and TL = turn_left [OF assms(1-4)] and TR = turn_right [OF assms(1-4)]
  note up = slot_step(1) [OF assms(1)] and down = slot_step(2) [OF assms(1)]
  note sw = qsexc_array [OF assms(1) s(1)] and tu = qstexc_array [OF assms(1) s(1)]
  let ?g = "qs_goes_on a es f v xs s (qs_left s i j lp hp)"
  note PR = parting_right [OF assms(4) right(2)]
  have nt: "(\<not> q_at_loop s \<and> slot a es i < slot a es lp) = False" using right TL(1) by auto
  have k: "slot a es j - es = slot a es (j - 1)" "hp + 1 < length xs" using right down in_b by auto
  consider (eq) "f (xs ! j) v = 0" | (gt) "0 < sint (f (xs ! j) v)" "f (xs ! j) v \<noteq> 0" "\<not> sint (f (xs ! j) v) < 0"
    | (three) "sint (f (xs ! j) v) < 0" "f (xs ! j) v \<noteq> 0" "i = lp" | (two) "sint (f (xs ! j) v) < 0" "f (xs ! j) v \<noteq> 0" "i < lp"
    using in_b(5) by (metis le_neq_implies_less linorder_neqE_linordered_idom not_less_iff_gr_or_eq signed_0 signed_word_eqI)
  then show ?thesis
  proof cases
    case eq
    let ?s = "s\<lparr>q_at_loop := True, q_hp := slot a es (hp + 1), q_mem := qsexc es (slot a es (hp + 1)) (slot a es j) (q_mem s)\<rparr>"
    have "?g ?s"
      by (rule qs_goes_onI [OF _ PR(1) [OF eq]])
        (use right at_top in_b sw [OF k(2) in_b(4)] mset_swap [OF in_b(4) k(2)] in \<open>auto simp add: qs_left_def qs_repr_def s nth_list_update del: of_nat_mult\<close>)
    moreover have "qs_turn qscmp es s = Some ?s" using right(2) eq by (simp add: qs_turn_def Let_def nt s TR up k(1) del: of_nat_mult One_nat_def de_Morgan_conj)
    ultimately show ?thesis by blast
  next
    case gt
    let ?s = "s\<lparr>q_at_loop := True, q_j := slot a es (j - 1)\<rparr>"
    have "?g ?s"
      by (rule qs_goes_onI [OF _ PR(2) [OF gt(1)]]) (use right at_top in \<open>auto simp add: qs_left_def qs_repr_def s same_outside_def del: of_nat_mult One_nat_def\<close>)
    moreover have "qs_turn qscmp es s = Some ?s" using right(2) gt by (simp add: qs_turn_def Let_def nt s TR up k(1) del: of_nat_mult One_nat_def de_Morgan_conj)
    ultimately show ?thesis by blast
  next
    case three
    let ?s = "s\<lparr>q_at_loop := True, q_i := slot a es (lp + 1), q_lp := slot a es (lp + 1), q_hp := slot a es (hp + 1),
      q_mem := qstexc es (slot a es i) (slot a es (hp + 1)) (slot a es j) (q_mem s)\<rparr>"
    have d: "i \<noteq> hp + 1" "i \<noteq> j" using three in_b right by auto
    have "?g ?s"
      by (rule qs_goes_onI [OF _ PR(3) [OF three(1,3)]])
        (use right three tu [OF in_b(1) k(2) in_b(4) d] mset_turn [OF in_b(1) k(2) in_b(4) d] in \<open>simp_all add: qs_left_def qs_repr_def s del: of_nat_mult\<close>)
    moreover have "qs_turn qscmp es s = Some ?s" using right(2) three by (simp add: qs_turn_def Let_def nt s TR up k(1) del: of_nat_mult One_nat_def de_Morgan_conj)
    ultimately show ?thesis by blast
  next
    case two
    have big: "0 < sint (f (xs ! i) v)" using right(1) two(3) at_top by auto
    let ?s = "s\<lparr>q_at_loop := False, q_i := slot a es (i + 1), q_j := slot a es (j - 1), q_mem := qsexc es (slot a es i) (slot a es j) (q_mem s)\<rparr>"
    have "?g ?s"
      by (rule qs_goes_onI [OF _ PR(4) [OF two(1,3) big]])
        (use right two sw [OF in_b(1) in_b(4)] mset_swap [OF in_b(4) in_b(1)] in \<open>simp_all add: qs_left_def qs_repr_def s del: of_nat_mult\<close>)
    moreover have "qs_turn qscmp es s = Some ?s" using right(2) two by (simp add: qs_turn_def Let_def nt s TL(2) TR up k(1) del: of_nat_mult One_nat_def de_Morgan_conj)
    ultimately show ?thesis by blast
  qed
qed

lemma qs_turn_mid:
  assumes "room_for a es (length xs)" "comparator es qscmp f" "qs_repr a es s xs i j lp hp" "parting f v xs i j lp hp"
    and mid: "q_at_loop s" "i < lp" "j = hp" and big: "0 < sint (f (xs ! i) v)"
  shows "\<exists>s'. qs_turn qscmp es s = Some s' \<and> qs_goes_on a es f v xs s (qs_left s i j lp hp) s'"
proof -
  note s = turn_state [OF assms(3)] and in_b = turn_bounds [OF assms(4)] and TL = turn_left [OF assms(1-4)] and TR = turn_right [OF assms(1-4)]
  note up = slot_step(1) [OF assms(1)] and down = slot_step(2) [OF assms(1)]
  note sw = qsexc_array [OF assms(1) s(1)] and tu = qstexc_array [OF assms(1) s(1)]
  let ?g = "qs_goes_on a es f v xs s (qs_left s i j lp hp)"
  have k: "slot a es lp - es = slot a es (lp - 1)" "slot a es hp - es = slot a es (hp - 1)" "lp - 1 < length xs" using mid down in_b by auto
  have d: "j \<noteq> lp - 1" "j \<noteq> i" using mid in_b by auto
  let ?s = "s\<lparr>q_at_loop := False, q_j := slot a es (hp - 1), q_lp := slot a es (lp - 1), q_hp := slot a es (hp - 1),
    q_mem := qstexc es (slot a es j) (slot a es (lp - 1)) (slot a es i) (q_mem s)\<rparr>"
  have "?g ?s"
    by (rule qs_goes_onI [OF _ parting_middle [OF assms(4) mid(2,3) big]])
      (use mid tu [OF in_b(4) k(3) in_b(1) d] mset_turn [OF in_b(4) k(3) in_b(1) d] in \<open>simp_all add: qs_left_def qs_repr_def s del: of_nat_mult\<close>)
  moreover have "qs_turn qscmp es s = Some ?s" using mid by (simp add: qs_turn_def Let_def s k TL TR del: of_nat_mult One_nat_def)
  ultimately show ?thesis by blast
qed

lemma qs_turn_correct:
  assumes "room_for a es (length xs)" "comparator es qscmp f" "qs_repr a es s xs i j lp hp" "parting f v xs i j lp hp"
    and "q_at_loop s \<and> i < lp \<longrightarrow> 0 < sint (f (xs ! i) v)"
  shows "qs_turn qscmp es s = None \<and> i = lp \<and> j = hp \<or>
    (\<exists>s'. qs_turn qscmp es s = Some s' \<and> qs_goes_on a es f v xs s (qs_left s i j lp hp) s')"
proof -
  note s = turn_state [OF assms(3)] and in_b = turn_bounds [OF assms(4)]
  consider (top) "\<not> q_at_loop s" "i < lp" | (right) "q_at_loop s \<or> i = lp" "hp < j" | (mid) "q_at_loop s" "i < lp" "j = hp" | (stop) "i = lp" "j = hp"
    using in_b by linarith
  then show ?thesis
  proof cases
    case stop
    then have "qs_turn qscmp es s = None"
      by (simp add: qs_turn_def Let_def s turn_left [OF assms(1-4)] turn_right [OF assms(1-4)] del: of_nat_mult One_nat_def)
    then show ?thesis using stop by blast
  qed (use qs_turn_top [OF assms(1-4)] qs_turn_right [OF assms] qs_turn_mid [OF assms(1-4)] assms(5) in blast)+
qed

text \<open>The loop comes to its end.\<close>

lemma qs_part_correct:
  assumes "room_for a es (length xs)" "comparator es qscmp f" "qs_repr a es s xs i j lp hp" "parting f v xs i j lp hp"
    and "q_at_loop s \<and> i < lp \<longrightarrow> 0 < sint (f (xs ! i) v)"
  shows "\<exists>s' ys lp' hp'. qs_part qscmp es s = Some s' \<and> qs_repr a es s' ys lp' hp' lp' hp' \<and> parting f v ys lp' hp' lp' hp' \<and>
    mset ys = mset xs \<and> same_outside a (length xs * unat es) (q_mem s) (q_mem s')"
  using assms
proof (induction "qs_left s i j lp hp" arbitrary: s xs i j lp hp rule: less_induct)
  case less
  from qs_turn_correct [OF less.prems] show ?case
  proof (elim disjE exE conjE)
    assume "qs_turn qscmp es s = None" "i = lp" "j = hp"
    then show ?thesis using less.prems
      by (subst qs_part.simps) (auto simp: same_outside_def)
  next
    fix s' assume t: "qs_turn qscmp es s = Some s'"
      and "qs_goes_on a es f v xs s (qs_left s i j lp hp) s'"
    then obtain ys i' j' lp' hp' where g: "qs_repr a es s' ys i' j' lp' hp'" "parting f v ys i' j' lp' hp'"
      "q_at_loop s' \<longrightarrow> i' < lp' \<longrightarrow> 0 < sint (f (ys ! i') v)" "length ys = length xs" "mset ys = mset xs"
      "same_outside a (length xs * unat es) (q_mem s) (q_mem s')"
      "qs_left s' i' j' lp' hp' < qs_left s i j lp hp"
      unfolding qs_goes_on_def by blast
    have "room_for a es (length ys)" using less.prems(1) g(4) by simp
    from less.hyps [OF g(7) this less.prems(2) g(1,2)] g(3) obtain s2 zs lp2 hp2
      where "qs_part qscmp es s' = Some s2" "qs_repr a es s2 zs lp2 hp2 lp2 hp2" "parting f v zs lp2 hp2 lp2 hp2"
        "mset zs = mset ys" "same_outside a (length ys * unat es) (q_mem s') (q_mem s2)" by blast
    then show ?thesis using t g(4,5) same_outside_trans [OF g(6)]
      by (subst qs_part.simps) auto
  qed
qed

section \<open>Sorting the parts\<close>

lemma in_slots:
  assumes "unat (x - a) < n * unat es"
  shows "\<exists>r<n. \<exists>t<unat es. x = slot a es r + of_nat t"
proof (intro exI conjI)
  let ?u = "unat (x - a)"
  have pos: "0 < unat es" using assms by (cases "unat es = 0") simp_all
  show "?u div unat es < n" by (rule less_mult_imp_div_less [OF assms])
  show "?u mod unat es < unat es" using pos by simp
  have "slot a es (?u div unat es) + of_nat (?u mod unat es) = a + of_nat (?u div unat es * unat es + ?u mod unat es)"
    by (simp only: of_nat_add add.assoc)
  also have "\<dots> = x" by (simp only: div_mult_mod_eq) simp
  finally show "x = slot a es (?u div unat es) + of_nat (?u mod unat es)" by simp
qed

lemma slot_slot: "slot (slot a es p) es r = slot a es (p + r)"
  by (simp add: algebra_simps)

lemma room_part:
  assumes "room_for a es n" "p + k \<le> n"
  shows "room_for (slot a es p) es k"
proof -
  have "(p + k) * unat es \<le> n * unat es" by (rule mult_le_mono1 [OF assms(2)])
  then have "p * unat es + k * unat es \<le> n * unat es" by (simp only: distrib_right)
  then show ?thesis using assms slot_less(3) [OF assms(1) _ le0, of p] unfolding room_for_def by linarith
qed

lemma array_part: "array_at m a es xs \<Longrightarrow> array_at m (slot a es p) es (take k (drop p xs))"
  by (auto simp: array_at_def slot_slot simp del: of_nat_mult)

lemma part_outside:
  assumes "room_for a es n" "p + k \<le> n" "r < n" "r < p \<or> p + k \<le> r" "t < unat es"
  shows "k * unat es \<le> unat (slot a es r + of_nat t - slot a es p)"
proof (rule ccontr)
  assume "\<not> ?thesis"
  then obtain r' t' where "r' < k" "t' < unat es" "slot a es r + of_nat t = slot a es (p + r') + of_nat t'"
    using in_slots [of "slot a es r + of_nat t" "slot a es p" k es] unfolding slot_slot by (auto simp only: not_le)
  then show False using slot_inj [OF assms(1,3) _ assms(5), of "p + r'" t'] assms(2,4) by auto
qed

lemma array_splice:
  assumes "room_for a es (length xs)" "array_at m a es xs" "p + length zs \<le> length xs" "array_at m' (slot a es p) es zs"
    "same_outside (slot a es p) (length zs * unat es) m m'"
  shows "array_at m' a es (take p xs @ zs @ drop (p + length zs) xs)" "same_outside a (length xs * unat es) m m'"
proof -
  have pos: "0 < unat es" using assms(1) by (simp add: room_for_def)
  let ?ys = "take p xs @ zs @ drop (p + length zs) xs"
  have l: "length ?ys = length xs" using assms(3) by simp
  have y: "?ys ! r = (if r < p \<or> p + length zs \<le> r then xs ! r else zs ! (r - p))" if "r < length xs" for r
    using that assms(3) by (auto simp: nth_append)
  have z: "m' (slot a es r + of_nat t) = zs ! (r - p) ! t \<and> length (zs ! (r - p)) = unat es"
    if "\<not> (r < p \<or> p + length zs \<le> r)" "t < unat es" for r t
  proof -
    have "r - p < length zs" "p + (r - p) = r" using that(1) by linarith+
    then show ?thesis using array_element [OF assms(4) _ that(2), of "r - p"] unfolding slot_slot by simp
  qed
  show "array_at m' a es ?ys"
  proof (rule array_atI)
    fix r assume r: "r < length ?ys"
    then show "length (?ys ! r) = unat es"
      using y z [OF _ pos] array_element [OF assms(2) _ pos] unfolding l by simp
    fix t assume t: "t < unat es"
    have "m' (slot a es r + of_nat t) = m (slot a es r + of_nat t)" if "r < p \<or> p + length zs \<le> r"
      using part_outside [OF assms(1,3) _ that t] r assms(5) unfolding l same_outside_def by blast
    then show "m' (slot a es r + of_nat t) = ?ys ! r ! t"
      using y z [OF _ t] array_element [OF assms(2) _ t] r unfolding l by auto
  qed
  show "same_outside a (length xs * unat es) m m'"
    unfolding same_outside_def
  proof (intro allI impI)
    fix x assume x: "length xs * unat es \<le> unat (x - a)"
    have "length zs * unat es \<le> unat (x - slot a es p)"
    proof (rule ccontr)
      assume "\<not> ?thesis"
      then obtain r t where "r < length zs" "t < unat es" "x = slot a es (p + r) + of_nat t"
        using in_slots [of x "slot a es p" "length zs" es] unfolding slot_slot by (auto simp only: not_le)
      moreover from this(1) have "p + r < length xs" using assms(3) by linarith
      ultimately show False using outside_slots [OF assms(1) _ x] by blast
    qed
    then show "m' x = m x" using assms(5) unfolding same_outside_def by blast
  qed
qed

abbreviation not_after :: "(u8 list \<Rightarrow> u8 list \<Rightarrow> i32) \<Rightarrow> u8 list \<Rightarrow> u8 list \<Rightarrow> bool" where
  "not_after f x y \<equiv> sint (f x y) \<le> 0"

lemma sorted_wrt_all: "(\<And>x y. x \<in> set xs \<Longrightarrow> y \<in> set xs \<Longrightarrow> R x y) \<Longrightarrow> sorted_wrt R xs"
  by (induction xs) auto

lemma parted_sorted:
  assumes "comparator es qscmp f" "parting f v ys lp hp lp hp" "mset L = mset (take lp ys)" "mset R = mset (drop (hp + 1) ys)"
    "sorted_wrt (not_after f) L" "sorted_wrt (not_after f) R"
  shows "sorted_wrt (not_after f) (L @ take (hp + 1 - lp) (drop lp ys) @ R)"
proof -
  let ?M = "take (hp + 1 - lp) (drop lp ys)"
  have anti: "sint (f x y) < 0 \<longleftrightarrow> 0 < sint (f y x)" for x y using assms(1) unfolding comparator_def by blast
  have trans: "not_after f x y \<Longrightarrow> not_after f y z \<Longrightarrow> not_after f x z" for x y z using assms(1) unfolding comparator_def by blast
  have low: "not_after f x v" if "x \<in> set L" for x
  proof -
    have "x \<in> set (take lp ys)" using that mset_eq_setD [OF assms(3)] by simp
    then show ?thesis using assms(2) by (auto simp: parting_def in_set_conv_nth less_imp_le)
  qed
  have mid: "not_after f x v \<and> not_after f v x" if "x \<in> set ?M" for x
  proof -
    have "f x v = 0" using that assms(2) by (auto simp: parting_def in_set_conv_nth)
    then show ?thesis using anti [of v x] anti [of x v] by simp
  qed
  have high: "not_after f v x" if "x \<in> set R" for x
  proof -
    have "x \<in> set (drop (hp + 1) ys)" using that mset_eq_setD [OF assms(4)] by simp
    then have "0 < sint (f x v)" using assms(2) by (auto simp: parting_def in_set_conv_nth)
    then show ?thesis using anti [of v x] by simp
  qed
  have "sorted_wrt (not_after f) ?M" by (rule sorted_wrt_all) (use mid trans in blast)
  then show ?thesis using assms(5,6) low mid high trans unfolding sorted_wrt_append by (metis Un_iff set_append)
qed

section \<open>The whole array\<close>

definition sorts :: "addr \<Rightarrow> i32 \<Rightarrow> (u8 list \<Rightarrow> u8 list \<Rightarrow> i32) \<Rightarrow> u8 list list \<Rightarrow> memory \<Rightarrow> u8 list list \<Rightarrow> memory \<Rightarrow> bool" where
  "sorts a es f xs m ys m' \<longleftrightarrow> array_at m' a es ys \<and> mset ys = mset xs \<and> sorted_wrt (not_after f) ys \<and>
     same_outside a (length xs * unat es) m m'"

text \<open>The limits of the two halves, in words.\<close>

lemma slot_diff: "room_for a es n \<Longrightarrow> slot a es n - a = of_nat (n * unat es)" "room_for a es n \<Longrightarrow> unat (of_nat (n * unat es) :: addr) = n * unat es"
proof -
  show "slot a es n - a = of_nat (n * unat es)" by simp
  show "unat (of_nat (n * unat es) :: addr) = n * unat es" if "room_for a es n"
    using that unfolding room_for_def by (simp only: unat_of_nat) simp
qed

lemma few_elements: "room_for a es n \<Longrightarrow> slot a es n - a \<le> es \<longleftrightarrow> n \<le> 1"
  using slot_diff [of a es n] by (auto simp: word_le_nat_alt room_for_def)

lemma middle:
  assumes "room_for a es n" "1 < n"
  shows "a + es * ((slot a es n - a) div (2 * es)) = slot a es (n div 2)"
proof -
  have "2 * unat es \<le> n * unat es" using assms(2) by (intro mult_le_mono1) simp
  then have "2 * unat es < 2 ^ 32" using assms(1) unfolding room_for_def by linarith
  then have e: "unat (2 * es) = 2 * unat es" by (simp add: unat_word_ariths)
  have "unat ((slot a es n - a) div (2 * es)) = (n * unat es) div (2 * unat es)"
    unfolding unat_div e slot_diff(1) [OF assms(1)] slot_diff(2) [OF assms(1)] by (rule refl)
  also have "\<dots> = n div 2" using assms(1) by (simp add: room_for_def)
  finally have "(slot a es n - a) div (2 * es) = of_nat (n div 2)" by (metis of_nat_unat ucast_id)
  then show ?thesis by (simp add: mult.commute)
qed

text \<open>Sorting one part of the array in its place.\<close>

lemma sorts_part:
  assumes n: "length xs = n" and h: "room_for a es n" "array_at m a es xs" "p + k \<le> n" "sorts (slot a es p) es f (take k (drop p xs)) m zs m'"
  shows "array_at m' a es (take p xs @ zs @ drop (p + k) xs)" "same_outside a (n * unat es) m m'" "length zs = k"
    "mset zs = mset (take k (drop p xs))" "sorted_wrt (not_after f) zs"
proof -
  have s: "array_at m' (slot a es p) es zs" "mset zs = mset (take k (drop p xs))" "sorted_wrt (not_after f) zs"
    "same_outside (slot a es p) (length (take k (drop p xs)) * unat es) m m'"
    using h(4) by (simp_all only: sorts_def)
  have l: "length (take k (drop p xs)) = k" using h(3) n by simp
  show z: "length zs = k" using mset_eq_length [OF s(2)] unfolding l .
  show "mset zs = mset (take k (drop p xs))" "sorted_wrt (not_after f) zs" by (rule s)+
  show "array_at m' a es (take p xs @ zs @ drop (p + k) xs)" "same_outside a (n * unat es) m m'"
    using array_splice [OF h(1)[folded n] h(2) _ s(1)] h(3) s(4) unfolding l z n by blast+
qed

text \<open>A function that sorts the elements from \<open>p\<close> on, \<open>k\<close> of them, whatever the array holds.\<close>

definition sorts_slice :: "addr \<Rightarrow> i32 \<Rightarrow> (u8 list \<Rightarrow> u8 list \<Rightarrow> i32) \<Rightarrow> nat \<Rightarrow> nat \<Rightarrow> nat \<Rightarrow> (memory \<Rightarrow> memory option) \<Rightarrow> bool" where
  "sorts_slice a es f n p k g \<longleftrightarrow> (\<forall>m xs. array_at m a es xs \<and> length xs = n \<longrightarrow>
     (\<exists>zs m'. g m = Some m' \<and> sorts (slot a es p) es f (take k (drop p xs)) m zs m'))"

text \<open>The array after the partition: sorting the two outer parts, in either order, sorts all of it.\<close>

definition parted :: "addr \<Rightarrow> i32 \<Rightarrow> (u8 list \<Rightarrow> u8 list \<Rightarrow> i32) \<Rightarrow> u8 list list \<Rightarrow> memory \<Rightarrow> u8 list list \<Rightarrow> memory \<Rightarrow> nat \<Rightarrow> nat \<Rightarrow> bool" where
  "parted a es f xs m0 ys m lp hp \<longleftrightarrow> array_at m a es ys \<and> (\<exists>v. parting f v ys lp hp lp hp) \<and> mset ys = mset xs \<and>
     same_outside a (length xs * unat es) m0 m"

lemma parted_bounds: "parted a es f xs m0 ys m lp hp \<Longrightarrow> length ys = length xs \<and> lp \<le> hp \<and> hp < length xs"
proof -
  assume "parted a es f xs m0 ys m lp hp"
  then obtain v where p: "parting f v ys lp hp lp hp" "mset ys = mset xs" by (auto simp: parted_def)
  show ?thesis using turn_bounds(3,6) [OF p(1)] mset_eq_length [OF p(2)] by simp
qed

lemma sorts_parted:
  assumes "comparator es qscmp f" "parted a es f xs m0 ys m lp hp" "array_at m' a es zs" "same_outside a (length xs * unat es) m m'"
    and zs: "zs = L @ take (hp + 1 - lp) (drop lp ys) @ R" and L: "mset L = mset (take lp ys)" and R: "mset R = mset (drop (hp + 1) ys)"
    and s: "sorted_wrt (not_after f) L" "sorted_wrt (not_after f) R"
  shows "sorts a es f xs m0 zs m'"
proof -
  obtain v where p: "parting f v ys lp hp lp hp" "mset ys = mset xs" "same_outside a (length xs * unat es) m0 m"
    using assms(2) by (auto simp: parted_def)
  have "ys = take lp ys @ take (hp + 1 - lp) (drop lp ys) @ drop (hp + 1) ys" using parted_bounds [OF assms(2)]
    by (metis append_take_drop_id drop_drop le_SucI Suc_eq_plus1 le_add_diff_inverse2)
  then have "mset ys = mset (take lp ys) + mset (take (hp + 1 - lp) (drop lp ys)) + mset (drop (hp + 1) ys)"
    by (metis mset_append add.assoc)
  then have "mset zs = mset xs" using p(2) unfolding zs by (simp only: mset_append L R add.assoc)
  moreover have "sorted_wrt (not_after f) zs" unfolding zs by (rule parted_sorted [OF assms(1) p(1) L R s])
  ultimately show ?thesis using assms(3) same_outside_trans [OF p(3) assms(4)] unfolding sorts_def by blast
qed

lemma right_then_left:
  assumes "room_for a es (length xs)" "comparator es qscmp f" "parted a es f xs m0 ys m lp hp"
    and "sorts_slice a es f (length xs) 0 lp g" "sorts_slice a es f (length xs) (hp + 1) (length xs - (hp + 1)) h"
  shows "\<exists>zs m'. Option.bind (h m) g = Some m' \<and> sorts a es f xs m0 zs m'"
proof -
  let ?n = "length xs"
  have b: "length ys = ?n" "lp \<le> hp" "hp < ?n" "0 + lp \<le> ?n" "hp + 1 + (?n - (hp + 1)) \<le> ?n" using parted_bounds [OF assms(3)] by auto
  have m: "array_at m a es ys" using assms(3) by (simp add: parted_def)
  from assms(5) m b(1) obtain R m1 where q1: "h m = Some m1"
    and R: "sorts (slot a es (hp + 1)) es f (take (?n - (hp + 1)) (drop (hp + 1) ys)) m R m1" unfolding sorts_slice_def by blast
  note R = sorts_part [OF b(1) assms(1) m b(5) R]
  let ?ws = "take (hp + 1) ys @ R @ drop (hp + 1 + (?n - (hp + 1))) ys"
  have w: "?ws = take (hp + 1) ys @ R" "length ?ws = ?n" using b R(3) by simp_all
  from assms(4) R(1) w(2) obtain L m2 where q2: "g m1 = Some m2"
    and L: "sorts (slot a es 0) es f (take lp (drop 0 ?ws)) m1 L m2" unfolding sorts_slice_def by blast
  note L = sorts_part [OF w(2) assms(1) R(1) b(4) L]
  have t: "take lp (drop 0 ?ws) = take lp ys" using b unfolding w(1) by simp
  have "sorts a es f xs m0 (take 0 ?ws @ L @ drop (0 + lp) ?ws) m2"
  proof (rule sorts_parted [OF assms(2,3) L(1) same_outside_trans [OF R(2) L(2)]])
    show "take 0 ?ws @ L @ drop (0 + lp) ?ws = L @ take (hp + 1 - lp) (drop lp ys) @ R"
      using b unfolding w(1) by (simp add: drop_take)
  qed (use L(4) [unfolded t] L(5) R(4,5) b in simp_all)
  then show ?thesis using q1 q2 by auto
qed

lemma left_then_right:
  assumes "room_for a es (length xs)" "comparator es qscmp f" "parted a es f xs m0 ys m lp hp"
    and "sorts_slice a es f (length xs) 0 lp g" "sorts_slice a es f (length xs) (hp + 1) (length xs - (hp + 1)) h"
  shows "\<exists>zs m'. Option.bind (g m) h = Some m' \<and> sorts a es f xs m0 zs m'"
proof -
  let ?n = "length xs"
  have b: "length ys = ?n" "lp \<le> hp" "hp < ?n" "0 + lp \<le> ?n" "hp + 1 + (?n - (hp + 1)) \<le> ?n" using parted_bounds [OF assms(3)] by auto
  have m: "array_at m a es ys" using assms(3) by (simp add: parted_def)
  from assms(4) m b(1) obtain L m1 where q1: "g m = Some m1"
    and L: "sorts (slot a es 0) es f (take lp (drop 0 ys)) m L m1" unfolding sorts_slice_def by blast
  note L = sorts_part [OF b(1) assms(1) m b(4) L]
  let ?ws = "take 0 ys @ L @ drop (0 + lp) ys"
  have w: "?ws = L @ drop lp ys" "length ?ws = ?n" using b L(3) by simp_all
  from assms(5) L(1) w(2) obtain R m2 where q2: "h m1 = Some m2"
    and R: "sorts (slot a es (hp + 1)) es f (take (?n - (hp + 1)) (drop (hp + 1) ?ws)) m1 R m2" unfolding sorts_slice_def by blast
  note R = sorts_part [OF w(2) assms(1) L(1) b(5) R]
  have t: "take (?n - (hp + 1)) (drop (hp + 1) ?ws) = drop (hp + 1) ys" using b L(3) unfolding w(1) by simp
  have "sorts a es f xs m0 (take (hp + 1) ?ws @ R @ drop (hp + 1 + (?n - (hp + 1))) ?ws) m2"
  proof (rule sorts_parted [OF assms(2,3) R(1) same_outside_trans [OF L(2) R(2)]])
    show "take (hp + 1) ?ws @ R @ drop (hp + 1 + (?n - (hp + 1))) ?ws = L @ take (hp + 1 - lp) (drop lp ys) @ R"
      using b L(3) unfolding w(1) by simp
  qed (use R(4) [unfolded t] R(5) L(4,5) b in simp_all)
  then show ?thesis using q1 q2 by auto
qed

lemma qs_part_parted:
  assumes "room_for a es (length xs)" "comparator es qscmp f" "array_at m a es xs" "1 < length xs"
  shows "\<exists>s ys lp hp. qs_part qscmp es \<lparr>q_at_loop = False, q_i = a, q_j = slot a es (length xs) - es,
      q_lp = slot a es (length xs div 2), q_hp = slot a es (length xs div 2), q_mem = m\<rparr> = Some s \<and>
    q_lp s = slot a es lp \<and> q_hp s = slot a es hp \<and> parted a es f xs m ys (q_mem s) lp hp"
proof -
  let ?n = "length xs" and ?v = "xs ! (length xs div 2)"
  have "sint (f ?v ?v) < 0 \<longleftrightarrow> 0 < sint (f ?v ?v)" using assms(2) unfolding comparator_def by blast
  then have "sint (f ?v ?v) = 0" by linarith
  then have "f ?v ?v = 0" by (metis signed_0 signed_word_eqI)
  then have P: "parting f ?v xs 0 (?n - 1) (?n div 2) (?n div 2)" using assms(4) by (auto simp: parting_def)
  have "slot a es ?n - es = slot a es (?n - 1)" using slot_step(2) [OF assms(1), of ?n] assms(4) by linarith
  then have "qs_repr a es \<lparr>q_at_loop = False, q_i = a, q_j = slot a es ?n - es, q_lp = slot a es (?n div 2),
      q_hp = slot a es (?n div 2), q_mem = m\<rparr> xs 0 (?n - 1) (?n div 2) (?n div 2)" using assms(3) by (simp add: qs_repr_def)
  from qs_part_correct [OF assms(1,2) this P] show ?thesis by (fastforce simp: parted_def qs_repr_def)
qed

lemma qs1_correct:
  assumes "room_for a es (length xs)" "comparator es qscmp f" "array_at m a es xs"
  shows "\<exists>ys m'. qs1 qscmp es a (slot a es (length xs)) m = Some m' \<and> sorts a es f xs m ys m'"
  using assms
proof (induction "length xs" arbitrary: a xs m rule: less_induct)
  case less
  let ?n = "length xs"
  show ?case
  proof (cases "?n \<le> 1")
    case True
    then have "sorted_wrt (not_after f) xs" by (cases xs) auto
    then show ?thesis using True less.prems few_elements [OF less.prems(1)]
      by (subst qs1.simps) (auto simp: sorts_def same_outside_def)
  next
    case False
    then have n: "1 < ?n" by simp
    from qs_part_parted [OF less.prems n] obtain s ys lp hp where
      s: "qs_part qscmp es \<lparr>q_at_loop = False, q_i = a, q_j = slot a es ?n - es, q_lp = slot a es (?n div 2),
          q_hp = slot a es (?n div 2), q_mem = m\<rparr> = Some s" "q_lp s = slot a es lp" "q_hp s = slot a es hp"
      and P: "parted a es f xs m ys (q_mem s) lp hp" by blast
    have slice: "sorts_slice a es f ?n p k (qs1 qscmp es (slot a es p) (slot a es (p + k)))" if "p + k \<le> ?n" "k < ?n" for p k
      unfolding sorts_slice_def
    proof (intro allI impI, elim conjE)
      fix m1 ws assume w: "array_at m1 a es ws" "length ws = ?n"
      have l: "length (take k (drop p ws)) = k" using that w by simp
      show "\<exists>zs m'. qs1 qscmp es (slot a es p) (slot a es (p + k)) m1 = Some m' \<and> sorts (slot a es p) es f (take k (drop p ws)) m1 zs m'"
        by (rule less.hyps [of "take k (drop p ws)" "slot a es p" m1, unfolded l slot_slot, OF that(2) room_part [OF less.prems(1) that(1)]
              less.prems(2) array_part [OF w(1)]])
    qed
    have b: "0 + lp \<le> ?n" "lp < ?n" "hp + 1 + (?n - (hp + 1)) = ?n" "?n - (hp + 1) < ?n" using parted_bounds [OF P] by auto
    have left: "sorts_slice a es f ?n 0 lp (qs1 qscmp es a (slot a es lp))" using slice [OF b(1,2)] by simp
    have right: "sorts_slice a es f ?n (hp + 1) (?n - (hp + 1)) (qs1 qscmp es (slot a es (hp + 1)) (slot a es ?n))"
      using slice [of "hp + 1" "?n - (hp + 1)"] b(3,4) by (simp only: le_refl simp_thms)
    have "qs1 qscmp es a (slot a es ?n) m = (if sint (slot a es ?n - slot a es hp) \<le> sint (slot a es lp - a)
      then Option.bind (qs1 qscmp es (slot a es (hp + 1)) (slot a es ?n) (q_mem s)) (qs1 qscmp es a (slot a es lp))
      else Option.bind (qs1 qscmp es a (slot a es lp) (q_mem s)) (qs1 qscmp es (slot a es (hp + 1)) (slot a es ?n)))"
      using middle [OF less.prems(1) n]
      by (subst qs1.simps) (simp only: few_elements [OF less.prems(1)] False if_False Let_def s bind.simps slot_step(1) [OF less.prems(1)])
    then show ?thesis using right_then_left [OF less.prems(1,2) P left right] left_then_right [OF less.prems(1,2) P left right]
      by presburger
  qed
qed

text \<open>C10. qsort returns, whatever the array holds: the elements are those it had, in an order that the comparison
  accepts (a total preorder is all it has to be), and no byte outside the array has changed.\<close>

theorem qsort_sorts:
  assumes "room_for a es (unat n)" "comparator es qscmp f" "array_at m a es xs" "length xs = unat n"
  shows "\<exists>ys m'. qsort a n es qscmp m = Some m' \<and> array_at m' a es ys \<and> mset ys = mset xs \<and>
    sorted_wrt (\<lambda>x y. sint (f x y) \<le> 0) ys \<and> (\<forall>x. unat n * unat es \<le> unat (x - a) \<longrightarrow> m' x = m x)"
proof -
  have "a + n * es = slot a es (length xs)" using assms(4) by simp
  then show ?thesis using qs1_correct [of a es xs qscmp f m] assms
    by (simp add: qsort_def sorts_def same_outside_def)
qed

definition compare_bytes :: comparison where
  "compare_bytes m p q = ucast (m p) - ucast (m q)"

lemma small_diff: "0 \<le> p \<Longrightarrow> p < 256 \<Longrightarrow> 0 \<le> q \<Longrightarrow> q < 256 \<Longrightarrow> \<bar>p - q\<bar> < 2 ^ 31" for p q :: int
  by (simp add: abs_if)

lemma sint_ucast_diff: "sint (ucast x - ucast y :: i32) = int (unat x) - int (unat y)" for x y :: u8
proof -
  have b: "int (unat x) < 256" "int (unat y) < 256" using unsigned_less [of x] unsigned_less [of y] by simp_all
  have "(ucast x - ucast y :: i32) = of_int (int (unat x) - int (unat y))" by simp
  moreover have "\<bar>int (unat x) - int (unat y)\<bar> < 2 ^ 31"
    by (rule small_diff [OF of_nat_0_le_iff b(1) of_nat_0_le_iff b(2)])
  ultimately show ?thesis by (metis sint_of_int)
qed

lemma compare_bytes_comparator: "comparator 1 compare_bytes (\<lambda>x y. ucast (x ! 0) - ucast (y ! 0))"
  by (auto simp: comparator_def compare_bytes_def element_def sint_ucast_diff)

theorem qsort_sorts_witness:
  "\<exists>ys m'. qsort 100 3 1 compare_bytes ((\<lambda>_. 7)(100 := 3, 101 := 1, 102 := 2)) = Some m' \<and> array_at m' 100 1 ys \<and>
    mset ys = {#[3], [1], [2]#} \<and> sorted_wrt (\<lambda>x y. sint (ucast (x ! 0) - ucast (y ! 0) :: i32) \<le> 0) ys \<and>
    (\<forall>x. 3 \<le> unat (x - 100 :: addr) \<longrightarrow> m' x = ((\<lambda>_. 7)(100 := 3, 101 := 1, 102 := 2)) x)"
proof -
  let ?m = "(\<lambda>_. 7)(100 := 3, 101 := 1, 102 := 2) :: memory"
  have "array_at ?m 100 1 [[3], [1], [2]]" by (auto simp: array_at_def element_def less_Suc_eq)
  then show ?thesis
    using qsort_sorts [OF _ compare_bytes_comparator, of 100 3 ?m "[[3], [1], [2]]"] by (simp add: room_for_def)
qed

end
