(* ===== verification/Spec2Isabelle.thy ===== *)
theory Spec2Isabelle
  imports Reader_Scheduling Ps_Properties Scan_Properties Console_Properties Traps Stdio_Properties Float_Properties Sort_Properties
begin

text \<open>
  \<^bold>\<open>A verification of the XerosKernel\<close>

  XerosKernel is a small teaching kernel for the 32-bit PC: a first-fit allocator, a table of 32
  processes with four queues (stopped, ready, blocked, asleep), a context switch by interrupt,
  system calls for creation, messages, signals, sleeping and devices, a keyboard driver with a
  ring buffer, and a C library. This development models that code as functions on an explicit
  state and proves what makes each part correct.

  \<^bold>\<open>The state.\<close> \<open>kernel\<close> (\<open>Kernel_State\<close>) is a record of the allocator's state (\<open>heap\<close>, whose field
  \<open>mem\<close> is the byte memory of the machine), the process table (\<open>pt\<close>: the PCBs and the queues),
  the statics of the keyboard driver, the device table, the current process, the descriptor
  tables, the port inputs and the log of outputs. Addresses and integers are 32-bit words, signed
  comparisons are written with \<open>sint\<close>. The process table, the queues and the statics are typed
  values, disjoint from the byte memory; stacks, context frames, signal tables, heap blocks and
  all buffers are bytes of it. A PCB is named by \<open>pcb_ptr\<close>: a slot of the table, the idle process,
  or the null pointer, which has a cell of its own, so that a store through it is visible and
  harms nothing else.

  \<^bold>\<open>Results.\<close> An operation that may not return (a failed \<^verbatim>\<open>ASSERT\<close>, an endless loop, a jump to
  address 0) has an option as its result, and \<open>None\<close> means that it does not return. C loops over
  linked structures are \<open>partial_function (option)\<close>; loops over a known count are structural
  recursions whose count is the one the code computes. No fuel is used.

  \<^bold>\<open>The parts\<close>, from the bottom:
  \<^item> \<open>Xeros_Prelude\<close>: word types, bit macros of \<^verbatim>\<open>h/xeroskernel.h\<close>, the byte memory with 32-bit
    loads and stores and their separation lemmas.
  \<^item> \<open>Mem_Manager\<close> is \<^verbatim>\<open>c/mem.c\<close>; \<open>Mem_Lists\<close>, \<open>Mem_Correct\<close>, \<open>Mem_Heap\<close> relate the chain of headers to
    a list of free blocks, interpret the locale of an allocator on \<^verbatim>\<open>kmalloc\<close>/\<^verbatim>\<open>kfree\<close> and define
    heap histories; \<open>Mem_Properties\<close> has the properties.
  \<^item> \<open>Pcb_Queue\<close> is \<^verbatim>\<open>c/pcbqueue.c\<close> and \<^verbatim>\<open>h/pcb.h\<close>, \<open>Pcb_Table\<close> is \<^verbatim>\<open>c/pcb.c\<close> and \<^verbatim>\<open>c/sleep.c\<close>, with
    \<open>Sleep_Queue\<close> for the delta list; the queue contract is a locale interpreted on the queues in
    \<open>Table_Properties\<close>.
  \<^item> \<open>Kernel_State\<close>, \<open>Processes\<close> (\<^verbatim>\<open>c/create.c\<close>, start-up, clean-up and status report of \<^verbatim>\<open>c/pcb.c\<close>),
    \<open>Messaging\<close> (\<^verbatim>\<open>c/msg.c\<close>), \<open>Signals\<close> (\<^verbatim>\<open>c/signal.c\<close>), \<open>Hardware\<close> (\<^verbatim>\<open>c/i386.c\<close>, \<^verbatim>\<open>c/evec.c\<close>), \<open>Ctsw\<close>
    (\<^verbatim>\<open>c/ctsw.c\<close>), \<open>Keyboard\<close> (\<^verbatim>\<open>c/kbd.c\<close>), \<open>Devices\<close> (\<^verbatim>\<open>c/di_calls.c\<close>), \<open>Dispatcher\<close> (\<^verbatim>\<open>c/disp.c\<close>,
    \<^verbatim>\<open>c/init.c\<close>), \<open>Syscalls\<close> (\<^verbatim>\<open>c/syscall.c\<close>, the calling side).
  \<^item> \<open>Lib_Memory\<close>, \<open>Lib_String\<close>, \<open>Lib_Format\<close> (\<^verbatim>\<open>doprnt.c\<close>), \<open>Lib_Sort\<close> (\<^verbatim>\<open>qsort.c\<close>), \<open>Lib_Scan\<close> (\<^verbatim>\<open>doscan.c\<close>,
    \<^verbatim>\<open>scanf.c\<close>), \<open>Lib_Stdio\<close> (\<^verbatim>\<open>puts\<close>, \<^verbatim>\<open>gets\<close>, \<^verbatim>\<open>printf\<close> and their like), \<open>Lib_Float\<close> (\<^verbatim>\<open>atof.c\<close>, \<^verbatim>\<open>ecvt.c\<close>): \<^verbatim>\<open>lib/libxc\<close>; \<open>Console\<close>:
    the output of \<^verbatim>\<open>c/kprintf.c\<close>; \<open>Traps\<close>: the entry stubs of \<^verbatim>\<open>c/xint.s\<close> and the dump of \<^verbatim>\<open>c/evec.c\<close>.
  \<^item> \<open>Shell\<close> is the parser of \<^verbatim>\<open>c/user.c\<close>, \<open>User\<close> its programs: the login loop, the shell and the commands, as trees
    of the system calls they make; a tree is finite, so an endless loop is one turn of it. Playing a tree
    against answers gives the calls that are made.
  \<^item> \<open>Kernel_Properties\<close>, \<open>Signal_Properties\<close>, \<open>Device_Properties\<close>, \<open>Message_Properties\<close>, \<open>Lib_Properties\<close>,
    \<open>Shell_Properties\<close>: the properties of those parts.
  \<^item> \<open>Sort_Array\<close>, \<open>Sort_Properties\<close>: arrays of elements in the byte memory, their exchanges, and the sort.
    \<open>Scan_Properties\<close>: the locale of a source of characters, interpreted on \<^verbatim>\<open>sgetch\<close>/\<^verbatim>\<open>sungetch\<close>, and
    the conversion of numbers by \<^verbatim>\<open>sscanf\<close>.
  \<^item> \<open>Device_Frame\<close>, \<open>Device_Types\<close>: what leaves the devices alone, and the typing of the device table,
    the descriptors and the ring buffer that every round keeps.
  \<^item> \<open>User_Properties\<close>, \<open>Ps_Properties\<close>, \<open>Status_Report\<close>: the login, a session of the shell, the rows of \<^verbatim>\<open>ps\<close> and the report
    they are made of. \<open>Console_Properties\<close>: the screen as a terminal of 25 lines. \<open>Stdio_Properties\<close>: bounds and round trip
    of the stdio wrappers. \<open>Float_Properties\<close>: \<^verbatim>\<open>atof\<close> on integers.
  \<^item> \<open>Memory_Safety\<close>: which bytes the kernel writes for a request, with the invariant of the waiting readers.
  \<^item> \<open>Scheduling\<close>, \<open>Requests\<close>, \<open>Startup\<close>: the invariant that spans the table, the handlers and the
    dispatcher, with a set of processes parked in a device read, and what start-up establishes. \<open>Reader_Scheduling\<close>
    adds the task list of the keyboard, so that reads and key presses keep the invariant too. \<open>Round_Properties\<close>: the
    processes that the dispatcher enters, and their rotation when they yield.

  \<^bold>\<open>The dispatcher.\<close> \<open>dispatch_round\<close> is one turn of the loop in \<^verbatim>\<open>dispatch\<close>: the first half of
  \<^verbatim>\<open>contextswitch\<close> enters the process, the second begins where an interrupt left it. Between the
  halves runs the process; what it did is the argument \<open>trap\<close> (the interrupt, its stack pointer and
  what it makes of the memory it was entered with, a function of that memory, so that the stores of the first half are not lost),
  about which nothing is assumed. Where a handler's result is stored after
  the handler chose another process, it goes to the process that made the request, as the
  compiled code (gcc, -O0) evaluates the left-hand side first.

  \<^bold>\<open>What is shown.\<close> The allocator keeps live blocks apart and loses no byte over any history, and
  returns. The queues are first in, first out; every slot of the table is in the queue of its
  state or waits for the keyboard, over all requests and interrupts but a few message, end-of-file and idle cases that the
  property names; sleepers wake after their time, but for the tick that is lost behind a sleeper with none left; processes
  that yield run in rotation; a booted machine runs its root process, and a timer
  interrupt always gives the processor to the next process; the devices stay well typed over any
  sequence of traps, and the requests that print nothing and do not manage the heap, pass messages or return from signals write no
  byte of memory outside the buffers they were given, but for the null page when no process is ready. A shell
  is started only for the right name and password, and it does what the lines typed say. \<^verbatim>\<open>qsort\<close> sorts with any total preorder. Requests, results, messages and
  signals reach the processes they are meant for, with the exceptions that are stated as
  properties of their own: the defects found while modelling.

  \<^bold>\<open>Output.\<close> What \<^verbatim>\<open>kprintf\<close> does to the display memory is modelled in \<open>Console\<close>, on the bytes of that
  memory. The kernel's handlers record what they print as events in the log of outputs; they do not thread the display through
  the kernel's memory, and properties about bytes of memory are stated for rounds that print nothing.

  \<^bold>\<open>Not modelled.\<close> The kernel's own stack and the registers the assembly saves on it; the test programs; the boot loader's tools under \<^verbatim>\<open>boot/\<close> (host programs and a
  third-party decompressor); the rounding of doubles, whose operations are arguments of \<^verbatim>\<open>atof\<close>, \<^verbatim>\<open>ecvt\<close> and \<^verbatim>\<open>fcvt\<close>; \<^verbatim>\<open>getc\<close>, \<^verbatim>\<open>putc\<close> and
  \<^verbatim>\<open>control\<close>, which the sources call but do not define: they are arguments of the routines that call them.
  Between two rounds the process and whatever it shares memory with may do anything; that the memory of a
  program is left alone while it waits is a hypothesis of the properties of the user programs.
\<close>

end
